(* ===== verification/GPUInfra_Prelude.thy ===== *)
theory GPUInfra_Prelude
  imports Main "HOL-Library.Word" "HOL-Library.Monad_Syntax"
begin

text \<open>
  Shared vocabulary of the development: the machine types of the code, the sentinel index the
  intrusive lists and the hash table use, the collections of simplification rules the component
  theories fill, and the generic facts on words, masks, lists and cyclic distances that more than
  one component needs.

  Conventions.  A \<open>std::size_t\<close>, \<open>std::uint64_t\<close> or \<open>std::uint32_t\<close> that takes part in
  arithmetic is a word of its width, so its wrap-around is the machine's.  A position in a
  \<open>std::vector\<close> is a \<open>nat\<close>, with \<open>NO_ENTRY\<close> (the largest \<open>size_t\<close>) as the sentinel.
  A C++ pointer is an \<open>option\<close>: \<open>None\<close> is \<open>nullptr\<close>.  An operation whose C++ text could read
  through a bad index or could loop for ever has an \<open>option\<close> result in which \<open>None\<close> stands
  for exactly that, so that a theorem concluding \<open>Some\<close> rules it out.
\<close>

unbundle bit_operations_syntax

section \<open>Machine types\<close>

type_synonym u8 = "8 word"
type_synonym u32 = "32 word"
type_synonym u64 = "64 word"
type_synonym size_t = "64 word"

type_synonym ptr = "nat option"
type_synonym stream = "nat option"

abbreviation (input) nullptr :: "'a option" where
  "nullptr \<equiv> None"

text \<open>\<open>std::numeric_limits<std::size_t>::max()\<close>, as a word and as a vector position.\<close>

definition SIZE_MAX :: size_t where
  "SIZE_MAX = 0xFFFFFFFFFFFFFFFF"

definition NO_ENTRY :: nat where
  "NO_ENTRY = 2 ^ 64 - 1"

definition INT_MAX :: int where
  "INT_MAX = 2 ^ 31 - 1"

section \<open>Collections\<close>

named_theorems cache_simps "frame and projection rules of the cache operations"
named_theorems link_simps "how the link operations act on the list views"
named_theorems enum_simps "unfolding of the enumeration helpers"

section \<open>Words and masks\<close>

lemma unat_SIZE_MAX [simp]: "unat SIZE_MAX = 2 ^ 64 - 1"
  by (simp add: SIZE_MAX_def)

lemma SIZE_MAX_half: "SIZE_MAX div 2 = 2 ^ 63 - 1"
  by (simp add: SIZE_MAX_def)

lemma NO_ENTRY_num: "NO_ENTRY = 18446744073709551615"
  by (simp add: NO_ENTRY_def)

lemma nat_and_mask: "(i::nat) AND (2 ^ k - 1) = i mod 2 ^ k"
  by (metis mask_eq_exp_minus_1 take_bit_eq_mask take_bit_eq_mod)

text \<open>Masking with \<open>size - 1\<close> stays below \<open>size\<close> for every size, a power of two or not.\<close>

lemma nat_and_less: "(i::nat) AND (n - 1) < n" if "0 < n"
proof -
  have "int (i AND (n - 1)) \<le> int (n - 1)"
    by (simp only: of_nat_and_eq) (rule AND_upper2, simp)
  then show ?thesis using that by linarith
qed

lemma word_and_mask:
  fixes w :: size_t
  assumes "k < 64"
  shows "unat (w AND (of_nat (2 ^ k) - 1)) = unat w mod 2 ^ k"
proof -
  have "(of_nat (2 ^ k) - 1 :: size_t) = mask k"
    by (simp add: mask_eq_exp_minus_1)
  then have "unat (w AND (of_nat (2 ^ k) - 1)) = unat (take_bit k w)"
    by (simp add: take_bit_eq_mask)
  also have "\<dots> = take_bit k (unat w)"
    by (rule unsigned_take_bit_eq)
  finally show ?thesis
    by (simp add: take_bit_eq_mod)
qed

lemma unat_add_no_wrap:
  fixes a b :: size_t
  shows "unat a + unat b < 2 ^ 64 \<Longrightarrow> unat (a + b) = unat a + unat b"
  by (simp add: unat_word_ariths)

lemma unat_Suc_no_wrap:
  fixes a :: size_t
  shows "unat a < 2 ^ 64 - 1 \<Longrightarrow> unat (a + 1) = unat a + 1"
  by (simp add: unat_word_ariths)

lemma unat_size_t_less: "unat (w :: size_t) < 2 ^ 64"
  using unsigned_less [of w] by simp

lemma unat_two_power: "unat ((2::size_t) ^ j) = 2 ^ j" if "j \<le> 63"
proof -
  have "(2::nat) ^ j < 2 ^ 64" using that by (intro power_strict_increasing) auto
  moreover have "unat ((2::size_t) ^ j) = unat (of_nat (2 ^ j) :: size_t)" by simp
  ultimately show ?thesis by (simp only: unat_of_nat) simp
qed

section \<open>Lists and maps\<close>

lemma map_ext_Some: "(\<And>k v. m k = Some v \<longleftrightarrow> m' k = Some v) \<Longrightarrow> m = m'"
  by (rule ext) (metis option.exhaust)

lemma set_butlast_last: "xs \<noteq> [] \<Longrightarrow> set xs = insert (last xs) (set (butlast xs))"
  by (induction xs) auto

lemma distinct_last_butlast: "distinct xs \<Longrightarrow> xs \<noteq> [] \<Longrightarrow> last xs \<notin> set (butlast xs)"
  by (metis append_butlast_last_id distinct_append disjoint_iff list.set_intros(1))

lemma in_set_split: "x \<in> set xs \<Longrightarrow> \<exists>as bs. xs = as @ x # bs"
  by (rule split_list)

section \<open>Cyclic distance\<close>

text \<open>
  \<open>cdist n a b\<close> is how many steps forward lead from \<open>a\<close> to \<open>b\<close> on a ring of \<open>n\<close> positions:
  the probe distance of the hash table, and the measure of its loops.
\<close>

definition cdist :: "nat \<Rightarrow> nat \<Rightarrow> nat \<Rightarrow> nat" where
  "cdist n a b = (if a \<le> b then b - a else b + n - a)"

lemma cdist_self [simp]: "cdist n a a = 0"
  by (simp add: cdist_def)

lemma cdist_less: "a < n \<Longrightarrow> b < n \<Longrightarrow> cdist n a b < n"
  by (auto simp: cdist_def)

lemma cdist_0_iff: "a < n \<Longrightarrow> b < n \<Longrightarrow> cdist n a b = 0 \<longleftrightarrow> a = b"
  by (auto simp: cdist_def)

lemma cdist_reach: "a < n \<Longrightarrow> b < n \<Longrightarrow> (a + cdist n a b) mod n = b"
  by (auto simp: cdist_def)

lemma cdist_step: "a < n \<Longrightarrow> t < n \<Longrightarrow> cdist n a ((a + t) mod n) = t"
  by (auto simp: cdist_def mod_if)

lemma cdist_Suc:
  "a < n \<Longrightarrow> b < n \<Longrightarrow> a \<noteq> b \<Longrightarrow> Suc (cdist n (Suc a mod n) b) = cdist n a b"
  by (auto simp: cdist_def mod_if)

lemma cdist_Suc_right:
  "a < n \<Longrightarrow> b < n \<Longrightarrow> Suc b mod n \<noteq> a \<Longrightarrow> cdist n a (Suc b mod n) = Suc (cdist n a b)"
  by (auto simp: cdist_def mod_if split: if_splits)

lemma cdist_add:
  assumes "a < n" "b < n" "c < n" "cdist n a b \<le> cdist n a c"
  shows "cdist n a c = cdist n a b + cdist n b c"
  using assms by (auto simp: cdist_def split: if_splits)

end
