(* ===== verification/Gpu_Types.thy ===== *)
theory Gpu_Types
  imports GPUInfra_Prelude
begin

text \<open>
  The plain data of the library: keys with their hash (\<open>DataCache/GpuDataKey.h\<close>), frame
  metadata and runtime layout (\<open>Types/\<close>), the policy enumerations
  (\<open>DataCache/CachePolicy.h\<close>), a cache request (\<open>DataCache/GpuCacheRequest.h\<close>), and the
  statistics block with its counters (\<open>DataCache/CacheStatistics.h\<close>).

  A C++ scoped enumeration can hold a value that names no enumerator, and the code tests for it
  where it matters; such an enumeration has one more constructor, \<open>Other...\<close>, here.
\<close>

section \<open>Keys\<close>

record GpuDataKey =
  frameId :: u64
  cameraId :: u32
  variantId :: u64

definition default_key :: GpuDataKey where
  "default_key = \<lparr>frameId = 0, cameraId = 0, variantId = 0\<rparr>"

text \<open>\<open>GpuDataKey::operator==\<close>.\<close>

definition key_eq :: "GpuDataKey \<Rightarrow> GpuDataKey \<Rightarrow> bool" where
  "key_eq a b \<longleftrightarrow> frameId a = frameId b \<and> cameraId a = cameraId b \<and> variantId a = variantId b"

lemma key_eq_iff [simp]: "key_eq a b \<longleftrightarrow> a = b"
  by (cases a; cases b) (auto simp: key_eq_def)

text \<open>
  \<open>std::hash\<close> of an unsigned integer is its value converted to \<open>size_t\<close>, as the standard
  libraries the build supports implement it.  Nothing proved later depends on which function it is.
\<close>

definition std_hash_u64 :: "u64 \<Rightarrow> size_t" where
  "std_hash_u64 x = x"

definition std_hash_u32 :: "u32 \<Rightarrow> size_t" where
  "std_hash_u32 x = ucast x"

definition GpuDataKeyHash :: "GpuDataKey \<Rightarrow> size_t" where
  "GpuDataKeyHash k =
     (let v0 = std_hash_u64 (frameId k);
          v1 = v0 XOR (std_hash_u32 (cameraId k) + 0x9e3779b97f4a7c15
                       + push_bit 6 v0 + drop_bit 2 v0);
          v2 = v1 XOR (std_hash_u64 (variantId k) + 0x9e3779b97f4a7c15
                       + push_bit 6 v1 + drop_bit 2 v1)
      in v2)"

section \<open>Frame metadata, runtime layout, requests\<close>

record FrameMetadata =
  key :: GpuDataKey
  bytes :: size_t
  width :: int
  height :: int
  dtype :: int

definition default_metadata :: FrameMetadata where
  "default_metadata = \<lparr>key = default_key, bytes = 0, width = 0, height = 0, dtype = 0\<rparr>"

text \<open>\<open>FrameMetadata::operator==\<close>.\<close>

definition metadata_eq :: "FrameMetadata \<Rightarrow> FrameMetadata \<Rightarrow> bool" where
  "metadata_eq a b \<longleftrightarrow> key_eq (key a) (key b) \<and> bytes a = bytes b \<and> width a = width b
     \<and> height a = height b \<and> dtype a = dtype b"

lemma metadata_eq_iff [simp]: "metadata_eq a b \<longleftrightarrow> a = b"
  by (cases a; cases b) (auto simp: metadata_eq_def)

record AlgoRuntimeInfo =
  inBytes :: size_t
  sizeFactor :: int
  frameW :: int
  frameH :: int
  frameDtype :: int

definition default_runtime :: AlgoRuntimeInfo where
  "default_runtime = \<lparr>inBytes = 0, sizeFactor = 0, frameW = 0, frameH = 0, frameDtype = 0\<rparr>"

record GpuCacheRequest =
  req_gpuId :: int
  req_stream :: stream
  d_fallback :: ptr
  fallbackBytes :: size_t

section \<open>Policies\<close>

datatype CacheEvictionPolicy = LRU | FIFO | OtherPolicy int

datatype CacheRetention = Keep | Discard | OtherRetention int

datatype CacheStatus = Invalid | CacheHit | CacheFill | TaskFallback

datatype GpuCacheState = Empty | Loading | Valid

section \<open>Statistics\<close>

datatype CacheFallbackReason =
    CapacityZero | LoadingTimeout | FullTimeout | LoadingNoWait | FullNoWait | ReplicaUnavailable

record CacheFallbackStatistics =
  capacityZero :: u64
  loadingTimeout :: u64
  fullTimeout :: u64
  loadingNoWait :: u64
  fullNoWait :: u64
  replicaUnavailable :: u64

record CacheStatistics =
  hit :: u64
  fill :: u64
  fallback :: u64
  invalid :: u64
  fillSucceeded :: u64
  fillFailed :: u64
  eviction :: u64
  discard :: u64
  syncFailures :: u64
  firstBlockedLoading :: u64
  firstBlockedFull :: u64
  fallbackReasons :: CacheFallbackStatistics
  waitedRequests :: u64
  totalWaitTime :: int
  maxWaitTime :: int

definition zero_fallback_statistics :: CacheFallbackStatistics where
  "zero_fallback_statistics = \<lparr>capacityZero = 0, loadingTimeout = 0, fullTimeout = 0,
     loadingNoWait = 0, fullNoWait = 0, replicaUnavailable = 0\<rparr>"

definition zero_statistics :: CacheStatistics where
  "zero_statistics = \<lparr>hit = 0, fill = 0, fallback = 0, invalid = 0, fillSucceeded = 0,
     fillFailed = 0, eviction = 0, discard = 0, syncFailures = 0, firstBlockedLoading = 0,
     firstBlockedFull = 0, fallbackReasons = zero_fallback_statistics, waitedRequests = 0,
     totalWaitTime = 0, maxWaitTime = 0\<rparr>"

text \<open>The \<open>switch\<close> of \<open>makeFallbackAccess\<close>.\<close>

fun count_reason :: "CacheFallbackReason \<Rightarrow> CacheFallbackStatistics \<Rightarrow> CacheFallbackStatistics" where
  "count_reason CapacityZero f = f\<lparr>capacityZero := capacityZero f + 1\<rparr>"
| "count_reason LoadingTimeout f = f\<lparr>loadingTimeout := loadingTimeout f + 1\<rparr>"
| "count_reason FullTimeout f = f\<lparr>fullTimeout := fullTimeout f + 1\<rparr>"
| "count_reason LoadingNoWait f = f\<lparr>loadingNoWait := loadingNoWait f + 1\<rparr>"
| "count_reason FullNoWait f = f\<lparr>fullNoWait := fullNoWait f + 1\<rparr>"
| "count_reason ReplicaUnavailable f = f\<lparr>replicaUnavailable := replicaUnavailable f + 1\<rparr>"

text \<open>The two totals the statistics document relates: all reasons, and all final outcomes.\<close>

definition reason_total :: "CacheFallbackStatistics \<Rightarrow> u64" where
  "reason_total f = capacityZero f + loadingTimeout f + fullTimeout f + loadingNoWait f
     + fullNoWait f + replicaUnavailable f"

definition outcome_total :: "CacheStatistics \<Rightarrow> u64" where
  "outcome_total st = hit st + fill st + fallback st + invalid st"

lemma reason_total_count [simp]: "reason_total (count_reason r f) = reason_total f + 1"
  by (cases r) (simp_all add: reason_total_def)

end
