(* ===== verification/Cuda_Runtime.thy ===== *)
theory Cuda_Runtime
  imports Gpu_Types
begin

text \<open>
  The CUDA runtime is not part of the repository: it is a parameter of the model.  A \<open>cuda_api\<close>
  holds one function per runtime call the library makes, over a state \<open>'w\<close> of the device and the
  driver about which nothing is known.  A call that can fail returns \<open>False\<close> or \<open>None\<close> for
  every error code (the library only tests for success), and a call that produces a handle returns
  it in \<open>Some\<close>.  What a theorem needs of the runtime is a named predicate below that states
  documented behaviour.

  \<open>CudaDeviceGuard.h\<close> and \<open>.cpp\<close>, the scoped device selection, is modelled on top: the
  constructor, the destructor and \<open>ok()\<close>.
\<close>

section \<open>The runtime as a parameter\<close>

record 'w cuda_api =
  cudaGetDevice :: "'w \<Rightarrow> int option \<times> 'w"
  cudaSetDevice :: "int \<Rightarrow> 'w \<Rightarrow> bool \<times> 'w"
  cudaMalloc :: "size_t \<Rightarrow> 'w \<Rightarrow> ptr option \<times> 'w"
  cudaFree :: "ptr \<Rightarrow> 'w \<Rightarrow> bool \<times> 'w"
  cudaStreamCreateWithFlags :: "'w \<Rightarrow> stream option \<times> 'w"
  cudaStreamSynchronize :: "stream \<Rightarrow> 'w \<Rightarrow> bool \<times> 'w"
  cudaStreamDestroy :: "stream \<Rightarrow> 'w \<Rightarrow> bool \<times> 'w"
  cudaMemsetAsync :: "ptr \<Rightarrow> size_t \<Rightarrow> stream \<Rightarrow> 'w \<Rightarrow> bool \<times> 'w"
  cudaMemcpyAsync :: "ptr \<times> size_t \<Rightarrow> ptr \<Rightarrow> size_t \<Rightarrow> stream \<Rightarrow> 'w \<Rightarrow> bool \<times> 'w"
  cudaMemGetInfo :: "'w \<Rightarrow> (size_t \<times> size_t) option \<times> 'w"

text \<open>A successful allocation of a positive size gives a non-null pointer.\<close>

definition malloc_gives_memory :: "('w, 'x) cuda_api_scheme \<Rightarrow> bool" where
  "malloc_gives_memory api \<longleftrightarrow> (\<forall>n w p w'. n \<noteq> 0 \<and> cudaMalloc api n w = (Some p, w') \<longrightarrow> p \<noteq> nullptr)"

text \<open>A successful stream creation gives a non-null stream.\<close>

definition create_gives_stream :: "('w, 'x) cuda_api_scheme \<Rightarrow> bool" where
  "create_gives_stream api \<longleftrightarrow> (\<forall>w s w'. cudaStreamCreateWithFlags api w = (Some s, w') \<longrightarrow> s \<noteq> nullptr)"

text \<open>
  The runtime keeps one current device per thread: it is read by \<open>cudaGetDevice\<close>, changed by a
  successful \<open>cudaSetDevice\<close> and by nothing else of the calls made under a guard.
\<close>

definition tracks_device :: "('w, 'x) cuda_api_scheme \<Rightarrow> ('w \<Rightarrow> int) \<Rightarrow> bool" where
  "tracks_device api dev \<longleftrightarrow>
     (\<forall>w. dev (snd (cudaGetDevice api w)) = dev w)
     \<and> (\<forall>w d. fst (cudaGetDevice api w) = Some d \<longrightarrow> d = dev w)
     \<and> (\<forall>d w. dev (snd (cudaSetDevice api d w)) = (if fst (cudaSetDevice api d w) then d else dev w))"

lemma tracks_deviceD:
  assumes "tracks_device api dev"
  shows "cudaGetDevice api w = (r, w') \<Longrightarrow> dev w' = dev w"
    and "cudaGetDevice api w = (Some d, w') \<Longrightarrow> d = dev w"
    and "cudaSetDevice api d w = (ok, w') \<Longrightarrow> dev w' = (if ok then d else dev w)"
  using assms unfolding tracks_device_def by (metis fst_conv snd_conv)+

section \<open>The device guard\<close>

record CudaDeviceGuard =
  previousDevice :: int
  selected :: bool
  restorePrevious :: bool

definition guard_new :: "('w, 'x) cuda_api_scheme \<Rightarrow> int \<Rightarrow> 'w \<Rightarrow> CudaDeviceGuard \<times> 'w" where
  "guard_new api gpuId w =
     (if gpuId < 0 then (\<lparr>previousDevice = -1, selected = False, restorePrevious = False\<rparr>, w)
      else case cudaGetDevice api w of
        (None, w1) \<Rightarrow> (\<lparr>previousDevice = -1, selected = False, restorePrevious = False\<rparr>, w1)
      | (Some prev, w1) \<Rightarrow>
          if prev \<noteq> gpuId
          then case cudaSetDevice api gpuId w1 of
                 (False, w2) \<Rightarrow> (\<lparr>previousDevice = prev, selected = False, restorePrevious = False\<rparr>, w2)
               | (True, w2) \<Rightarrow> (\<lparr>previousDevice = prev, selected = True, restorePrevious = True\<rparr>, w2)
          else (\<lparr>previousDevice = prev, selected = True, restorePrevious = False\<rparr>, w1))"

definition guard_delete :: "('w, 'x) cuda_api_scheme \<Rightarrow> CudaDeviceGuard \<Rightarrow> 'w \<Rightarrow> 'w" where
  "guard_delete api g w =
     (if restorePrevious g then snd (cudaSetDevice api (previousDevice g) w) else w)"

definition guard_ok :: "CudaDeviceGuard \<Rightarrow> bool" where
  "guard_ok g = selected g"

lemma guard_new_cases:
  assumes "guard_new api gpuId w = (g, w1)"
  obtains (negative) "gpuId < 0" "\<not> guard_ok g" "\<not> restorePrevious g" "w1 = w"
  | (unknown) "0 \<le> gpuId" "cudaGetDevice api w = (None, w1)" "\<not> guard_ok g" "\<not> restorePrevious g"
  | (current) "0 \<le> gpuId" "cudaGetDevice api w = (Some gpuId, w1)" "guard_ok g" "\<not> restorePrevious g"
  | (refused) prev w' where "0 \<le> gpuId" "cudaGetDevice api w = (Some prev, w')" "prev \<noteq> gpuId"
      "cudaSetDevice api gpuId w' = (False, w1)" "\<not> guard_ok g" "\<not> restorePrevious g"
  | (switched) prev w' where "0 \<le> gpuId" "cudaGetDevice api w = (Some prev, w')" "prev \<noteq> gpuId"
      "cudaSetDevice api gpuId w' = (True, w1)" "guard_ok g" "restorePrevious g" "previousDevice g = prev"
  using assms by (auto simp: guard_new_def guard_ok_def split: if_splits prod.splits option.splits bool.splits)

lemma guard_new_selects:
  assumes "tracks_device api dev" "guard_new api gpuId w = (g, w1)" "guard_ok g"
  shows "0 \<le> gpuId \<and> dev w1 = gpuId \<and> (restorePrevious g \<longrightarrow> previousDevice g = dev w)
    \<and> (\<not> restorePrevious g \<longrightarrow> dev w = gpuId)"
  using assms(2) by (cases rule: guard_new_cases) (use assms(3) tracks_deviceD [OF assms(1)] in auto)

lemma guard_new_failed:
  assumes "tracks_device api dev" "guard_new api gpuId w = (g, w1)" "\<not> guard_ok g"
  shows "\<not> restorePrevious g \<and> dev w1 = dev w"
  using assms(2) by (cases rule: guard_new_cases) (use assms(3) tracks_deviceD [OF assms(1)] in auto)

section \<open>A concrete runtime\<close>

text \<open>
  One instance of the parameter, used where a theorem about the code is applied at a concrete
  input: the state is the current device and the next free address, and every call succeeds.
\<close>

definition sample_api :: "(int \<times> nat) cuda_api" where
  "sample_api = \<lparr>
     cudaGetDevice = \<lambda>(dev, a). (Some dev, (dev, a)),
     cudaSetDevice = \<lambda>d (dev, a). (True, (d, a)),
     cudaMalloc = \<lambda>n (dev, a). (Some (Some a), (dev, a + unat n)),
     cudaFree = \<lambda>p w. (True, w),
     cudaStreamCreateWithFlags = \<lambda>(dev, a). (Some (Some a), (dev, a + 1)),
     cudaStreamSynchronize = \<lambda>s w. (True, w),
     cudaStreamDestroy = \<lambda>s w. (True, w),
     cudaMemsetAsync = \<lambda>p n s w. (True, w),
     cudaMemcpyAsync = \<lambda>d p n s w. (True, w),
     cudaMemGetInfo = \<lambda>w. (Some (2 ^ 33, 2 ^ 34), w)\<rparr>"

lemma sample_api_documented:
  "malloc_gives_memory sample_api" "create_gives_stream sample_api" "tracks_device sample_api fst"
  by (auto simp: sample_api_def malloc_gives_memory_def create_gives_stream_def tracks_device_def)

end
