(* ===== verification/Cache_Entry.thy ===== *)
theory Cache_Entry
  imports Cuda_Runtime
begin

text \<open>
  \<open>DataCache/GpuDataCacheEntry.h\<close> and \<open>.cpp\<close>: one reusable cache entry, which owns its
  device allocations and carries the links, the reader count and the state the cache keeps for it.
  Device allocation and release go through the runtime parameter; \<open>hostAlloc\<close> says whether the
  growth of the \<open>replicas\<close> vector gets its memory.
\<close>

section \<open>The class\<close>

record GpuReplica =
  gpuId :: int
  d_data :: ptr
  valid :: bool

record GpuDataCacheEntry =
  metadata :: FrameMetadata
  cacheState :: GpuCacheState
  activeAccesses :: size_t
  previousEvictable :: nat
  nextEvictable :: nat
  previousFilled :: nat
  nextFilled :: nat
  replicas :: "GpuReplica list"
  entryBytes :: size_t
  inEvictableList :: bool
  inFilledList :: bool
  discardWhenUnused :: bool
  entryInitialized :: bool

definition new_entry :: GpuDataCacheEntry where
  "new_entry = \<lparr>metadata = default_metadata, cacheState = Empty, activeAccesses = 0,
     previousEvictable = NO_ENTRY, nextEvictable = NO_ENTRY,
     previousFilled = NO_ENTRY, nextFilled = NO_ENTRY, replicas = [], entryBytes = 0,
     inEvictableList = False, inFilledList = False, discardWhenUnused = False,
     entryInitialized = False\<rparr>"

subsection \<open>Releasing and acquiring the device memory\<close>

fun free_replicas ::
  "('w, 'x) cuda_api_scheme \<Rightarrow> GpuReplica list \<Rightarrow> 'w \<Rightarrow> bool \<times> GpuReplica list \<times> 'w" where
  "free_replicas api [] w = (True, [], w)"
| "free_replicas api (r # rs) w =
     (if d_data r = nullptr
      then let (ok, rs', w') = free_replicas api rs w in (ok, r # rs', w')
      else let (g, w1) = guard_new api (gpuId r) w
           in if \<not> guard_ok g
              then let (ok, rs', w') = free_replicas api rs (guard_delete api g w1)
                   in (False, r # rs', w')
              else let (freed, w2) = cudaFree api (d_data r) w1;
                       r' = (if freed then r\<lparr>d_data := nullptr, valid := False\<rparr> else r);
                       (ok, rs', w') = free_replicas api rs (guard_delete api g w2)
                   in (freed \<and> ok, r' # rs', w'))"

definition entry_release ::
  "('w, 'x) cuda_api_scheme \<Rightarrow> GpuDataCacheEntry \<Rightarrow> 'w \<Rightarrow> bool \<times> GpuDataCacheEntry \<times> 'w" where
  "entry_release api e w =
     (if activeAccesses e \<noteq> 0 \<or> cacheState e = Loading then (False, e, w)
      else let (ok, rs, w') = free_replicas api (replicas e) w;
               allReleased = list_all (\<lambda>r. d_data r = nullptr) rs
           in (ok,
               if allReleased
               then e\<lparr>metadata := default_metadata, cacheState := Empty, activeAccesses := 0,
                      previousEvictable := NO_ENTRY, nextEvictable := NO_ENTRY,
                      previousFilled := NO_ENTRY, nextFilled := NO_ENTRY,
                      replicas := [], entryBytes := 0,
                      inEvictableList := False, inFilledList := False,
                      discardWhenUnused := False, entryInitialized := False\<rparr>
               else e\<lparr>replicas := rs\<rparr>,
               w'))"

text \<open>
  The allocation loop runs over the positions of \<open>replicas\<close>.  On a failure the entry is released
  while the guard of the failing replica is still in scope.
\<close>

fun alloc_replicas ::
  "('w, 'x) cuda_api_scheme \<Rightarrow> nat list \<Rightarrow> GpuDataCacheEntry \<Rightarrow> 'w \<Rightarrow> bool \<times> GpuDataCacheEntry \<times> 'w" where
  "alloc_replicas api [] e w = (True, e, w)"
| "alloc_replicas api (i # is) e w =
     (let (g, w1) = guard_new api (gpuId (replicas e ! i)) w;
          (allocated, w2) = (if guard_ok g then cudaMalloc api (entryBytes e) w1 else (None, w1))
      in case allocated of
           None \<Rightarrow> let (_, e', w3) = entry_release api e w2 in (False, e', guard_delete api g w3)
         | Some p \<Rightarrow> alloc_replicas api is
             (e\<lparr>replicas := (replicas e)[i := (replicas e ! i)\<lparr>d_data := p\<rparr>]\<rparr>)
             (guard_delete api g w2))"

definition entry_initialize ::
  "('w, 'x) cuda_api_scheme \<Rightarrow> bool \<Rightarrow> int list \<Rightarrow> size_t \<Rightarrow> GpuDataCacheEntry \<Rightarrow> 'w
     \<Rightarrow> bool \<times> GpuDataCacheEntry \<times> 'w" where
  "entry_initialize api hostAlloc gpuIds n e w =
     (if entryInitialized e \<or> replicas e \<noteq> [] \<or> cacheState e \<noteq> Empty \<or> activeAccesses e \<noteq> 0
         \<or> previousEvictable e \<noteq> NO_ENTRY \<or> nextEvictable e \<noteq> NO_ENTRY \<or> inEvictableList e
         \<or> previousFilled e \<noteq> NO_ENTRY \<or> nextFilled e \<noteq> NO_ENTRY \<or> inFilledList e
         \<or> discardWhenUnused e \<or> length gpuIds \<noteq> 1 \<or> hd gpuIds < 0 \<or> n = 0
      then (False, e, w)
      else if \<not> hostAlloc then (False, e\<lparr>replicas := []\<rparr>, w)
      else let e1 = e\<lparr>replicas := map (\<lambda>g. \<lparr>gpuId = g, d_data = nullptr, valid = False\<rparr>) gpuIds,
                      entryBytes := n\<rparr>
           in case alloc_replicas api [0..<length (replicas e1)] e1 w of
                (False, e2, w2) \<Rightarrow> (False, e2, w2)
              | (True, e2, w2) \<Rightarrow> (True, e2\<lparr>entryInitialized := True\<rparr>, w2))"

definition entry_replicaCount :: "GpuDataCacheEntry \<Rightarrow> nat" where
  "entry_replicaCount e = length (replicas e)"

subsection \<open>Replicas\<close>

fun find_replica :: "int \<Rightarrow> GpuReplica list \<Rightarrow> GpuReplica option" where
  "find_replica g [] = None"
| "find_replica g (r # rs) = (if gpuId r = g then Some r else find_replica g rs)"

definition dataForGpu :: "int \<Rightarrow> GpuDataCacheEntry \<Rightarrow> ptr" where
  "dataForGpu g e = (case find_replica g (replicas e) of None \<Rightarrow> nullptr | Some r \<Rightarrow> d_data r)"

definition replicaValid :: "int \<Rightarrow> GpuDataCacheEntry \<Rightarrow> bool" where
  "replicaValid g e = (case find_replica g (replicas e) of None \<Rightarrow> False | Some r \<Rightarrow> valid r)"

definition invalidateReplicas :: "GpuDataCacheEntry \<Rightarrow> GpuDataCacheEntry" where
  "invalidateReplicas e = e\<lparr>replicas := map (\<lambda>r. r\<lparr>valid := False\<rparr>) (replicas e)\<rparr>"

fun mark_valid :: "int \<Rightarrow> GpuReplica list \<Rightarrow> bool \<times> GpuReplica list" where
  "mark_valid g [] = (False, [])"
| "mark_valid g (r # rs) =
     (if gpuId r = g then (True, r\<lparr>valid := True\<rparr> # rs)
      else let (found, rs') = mark_valid g rs in (found, r # rs'))"

definition markReplicaValid :: "int \<Rightarrow> GpuDataCacheEntry \<Rightarrow> bool \<times> GpuDataCacheEntry" where
  "markReplicaValid g e = (let (found, rs) = mark_valid g (replicas e) in (found, e\<lparr>replicas := rs\<rparr>))"

section \<open>Behaviour\<close>

lemma free_replicas_shape:
  "free_replicas api rs w = (ok, rs', w') \<Longrightarrow>
     list_all2 (\<lambda>r r'. r' = r \<or> r' = r\<lparr>d_data := nullptr, valid := False\<rparr>) rs rs'
     \<and> (ok \<longleftrightarrow> list_all (\<lambda>r. d_data r = nullptr) rs')"
  by (induction rs arbitrary: w ok rs' w')
    (fastforce simp: Let_def split: prod.splits if_splits)+

lemma free_replicas_null:
  "list_all (\<lambda>r. d_data r = nullptr) rs \<Longrightarrow> free_replicas api rs w = (True, rs, w)"
  by (induction rs) (auto simp: Let_def)

lemma entry_release_reset:
  assumes "activeAccesses e = 0" "cacheState e \<noteq> Loading" "entry_release api e w = (ok, e', w')"
  shows "ok \<longleftrightarrow> e' = new_entry \<and> list_all (\<lambda>r. d_data r = nullptr) (fst (snd (free_replicas api (replicas e) w)))"
    and "\<not> ok \<Longrightarrow> \<exists>rs. e' = e\<lparr>replicas := rs\<rparr> \<and> \<not> list_all (\<lambda>r. d_data r = nullptr) rs
        \<and> list_all2 (\<lambda>r r'. r' = r \<or> r' = r\<lparr>d_data := nullptr, valid := False\<rparr>) (replicas e) rs"
  using assms free_replicas_shape [of api "replicas e" w]
  by (auto simp: entry_release_def new_entry_def Let_def split: prod.splits if_splits)

lemma entry_initialize_new:
  assumes "entry_initialize api h gs n new_entry w = (ok, e, w')"
  shows "\<not> ok \<Longrightarrow> e = new_entry"
    and "ok \<Longrightarrow> \<exists>g p w1 w2. gs = [g] \<and> 0 \<le> g \<and> n \<noteq> 0 \<and> cudaMalloc api n w1 = (Some p, w2)
       \<and> e = new_entry\<lparr>replicas := [\<lparr>gpuId = g, d_data = p, valid = False\<rparr>], entryBytes := n,
                        entryInitialized := True\<rparr>"
proof -
  show "e = new_entry" if "\<not> ok"
    using assms that
    by (auto simp: entry_initialize_def new_entry_def Let_def entry_release_def length_Suc_conv upt_rec
        split: prod.splits option.splits if_splits bool.splits)
  show "\<exists>g p w1 w2. gs = [g] \<and> 0 \<le> g \<and> n \<noteq> 0 \<and> cudaMalloc api n w1 = (Some p, w2)
       \<and> e = new_entry\<lparr>replicas := [\<lparr>gpuId = g, d_data = p, valid = False\<rparr>], entryBytes := n,
                        entryInitialized := True\<rparr>" if ok
    using assms that
    by (auto simp: entry_initialize_def new_entry_def Let_def length_Suc_conv upt_rec
        split: prod.splits option.splits if_splits bool.splits)
qed

text \<open>
  Initialisation of a fresh entry is all or nothing.  When it reports success the entry is
  empty and unlinked, with exactly one replica, of the requested GPU, whose memory is allocated and
  not yet valid; when it reports failure, for whatever reason, the entry is as it was constructed.
\<close>

theorem entry_initialize_all_or_nothing:
  assumes "malloc_gives_memory api" "entry_initialize api hostAlloc gpuIds n new_entry w = (ok, e, w')"
  shows "if ok
    then \<exists>g p. gpuIds = [g] \<and> 0 \<le> g \<and> n \<noteq> 0 \<and> dataForGpu g e = Some p \<and> \<not> replicaValid g e
      \<and> e = new_entry\<lparr>replicas := [\<lparr>gpuId = g, d_data = Some p, valid = False\<rparr>], entryBytes := n,
                       entryInitialized := True\<rparr>
    else e = new_entry"
proof (cases ok)
  case True
  then obtain g p w1 w2 where "gpuIds = [g]" "0 \<le> g" "n \<noteq> 0" and m: "cudaMalloc api n w1 = (Some p, w2)"
      and e: "e = new_entry\<lparr>replicas := [\<lparr>gpuId = g, d_data = p, valid = False\<rparr>], entryBytes := n,
                        entryInitialized := True\<rparr>"
    using entry_initialize_new(2) [OF assms(2)] by blast
  moreover obtain q where "p = Some q"
    using assms(1) m \<open>n \<noteq> 0\<close> unfolding malloc_gives_memory_def by (metis option.exhaust)
  ultimately show ?thesis
    using True by (simp add: dataForGpu_def replicaValid_def)
qed (use entry_initialize_new(1) [OF assms(2)] in simp)

text \<open>
  Releasing an entry: refused, without any effect, while the entry has readers or is being
  filled.  Otherwise the reported result is true exactly when no replica still holds memory, and
  then the entry is as it was constructed; a failed release changes nothing but the replicas it
  freed, keeps the pointers it could not free, and so can be repeated.
\<close>

theorem entry_release_outcome:
  assumes "entry_release api e w = (ok, e', w')"
  shows "if activeAccesses e \<noteq> 0 \<or> cacheState e = Loading then \<not> ok \<and> e' = e \<and> w' = w
    else if ok then e' = new_entry
    else \<exists>rs. e' = e\<lparr>replicas := rs\<rparr>
      \<and> list_all2 (\<lambda>r r'. r' = r \<or> r' = r\<lparr>d_data := nullptr, valid := False\<rparr>) (replicas e) rs
      \<and> (\<exists>r\<in>set rs. d_data r \<noteq> nullptr)"
proof (cases "activeAccesses e \<noteq> 0 \<or> cacheState e = Loading")
  case True
  then show ?thesis using assms by (auto simp: entry_release_def)
next
  case False
  then show ?thesis
    using entry_release_reset [of e api w ok e' w'] assms by (auto simp: list_all_iff)
qed

end
