(* ===== verification/Residency_Index.thy ===== *)
theory Residency_Index
  imports Gpu_Types
begin

text \<open>
  What the cache relies on when it calls its residency table: a bounded partial map from keys to
  entry indexes.  The laws say what \<open>find\<close>, \<open>insert\<close> and \<open>erase\<close> return in each case, the
  refused ones included, and that \<open>erase\<close> always returns.  The lemmas of the locale are the
  patterns of use in \<open>GpuDataCache\<close>: reserving a free entry, rolling a reservation back, and
  replacing the key of a victim when the table is at its limit.
\<close>

locale residency_index =
  fixes find :: "'t \<Rightarrow> 'k \<Rightarrow> nat option"
    and ins :: "'t \<Rightarrow> 'k \<Rightarrow> nat \<Rightarrow> bool \<times> 't"
    and era :: "'t \<Rightarrow> 'k \<Rightarrow> nat \<Rightarrow> (bool \<times> 't) option"
    and invar :: "'t \<Rightarrow> bool"
    and limit :: "'t \<Rightarrow> nat"
    and alpha :: "'t \<Rightarrow> 'k \<Rightarrow> nat option"
  assumes find_alpha: "invar t \<Longrightarrow> find t k = alpha t k"
    and finite_alpha: "invar t \<Longrightarrow> finite (dom (alpha t))"
    and card_limit: "invar t \<Longrightarrow> card (dom (alpha t)) \<le> limit t"
    and ins_new: "invar t \<Longrightarrow> alpha t k = None \<Longrightarrow> card (dom (alpha t)) < limit t \<Longrightarrow>
      \<exists>t'. ins t k i = (True, t') \<and> invar t' \<and> alpha t' = (alpha t)(k \<mapsto> i) \<and> limit t' = limit t"
    and ins_refused: "invar t \<Longrightarrow> alpha t k \<noteq> None \<or> limit t \<le> card (dom (alpha t)) \<Longrightarrow>
      ins t k i = (False, t)"
    and era_found: "invar t \<Longrightarrow> alpha t k = Some i \<Longrightarrow>
      \<exists>t'. era t k i = Some (True, t') \<and> invar t' \<and> alpha t' = (alpha t)(k := None) \<and> limit t' = limit t"
    and era_refused: "invar t \<Longrightarrow> alpha t k \<noteq> Some i \<Longrightarrow> era t k i = Some (False, t)"
begin

lemma ins_TrueD:
  assumes "invar t" "ins t k i = (True, t')"
  shows "alpha t k = None \<and> invar t' \<and> alpha t' = (alpha t)(k \<mapsto> i) \<and> limit t' = limit t"
proof -
  have new: "alpha t k = None \<and> card (dom (alpha t)) < limit t"
    using assms ins_refused [of t k i] by (metis Pair_inject not_le)
  then show ?thesis
    using ins_new [of t k i] assms by auto
qed

lemma era_TrueD:
  assumes "invar t" "era t k i = Some (True, t')"
  shows "alpha t k = Some i \<and> invar t' \<and> alpha t' = (alpha t)(k := None) \<and> limit t' = limit t"
proof -
  have "alpha t k = Some i"
    using assms era_refused [of t k i] by (metis Pair_inject option.inject)
  then show ?thesis
    using era_found [of t k i] assms by auto
qed

lemma find_after_ins:
  assumes "invar t" "ins t k i = (True, t')"
  shows "find t' k' = (if k' = k then Some i else find t k')"
  using ins_TrueD [OF assms] assms(1) by (simp add: find_alpha)

lemma find_after_era:
  assumes "invar t" "era t k i = Some (True, t')"
  shows "find t' k' = (if k' = k then None else find t k')"
  using era_TrueD [OF assms] assms(1) by (simp add: find_alpha)

lemma ins_era_roundtrip:
  assumes "invar t" "ins t k i = (True, t')"
  shows "\<exists>t''. era t' k i = Some (True, t'') \<and> invar t'' \<and> alpha t'' = alpha t"
  using ins_TrueD [OF assms] era_found [of t' k i] by (auto simp: fun_upd_idem_iff)

text \<open>
  Eviction: the victim's key leaves before the new key enters, so the exchange succeeds even when
  the table is full.
\<close>

lemma replace_key:
  assumes "invar t" "alpha t old = Some i" "alpha t new = None"
  shows "\<exists>t1 t2. era t old i = Some (True, t1) \<and> ins t1 new i = (True, t2) \<and> invar t2
    \<and> alpha t2 = (alpha t)(old := None, new \<mapsto> i) \<and> limit t2 = limit t"
proof -
  obtain t1 where t1: "era t old i = Some (True, t1)" "invar t1"
      "alpha t1 = (alpha t)(old := None)" "limit t1 = limit t"
    using era_found [OF assms(1,2)] by blast
  have "card (dom (alpha t1)) < card (dom (alpha t))"
    using assms(2) t1(3) finite_alpha [OF assms(1)]
    by (metis card_Diff1_less domI dom_fun_upd)
  also have "\<dots> \<le> limit t1"
    using card_limit [OF assms(1)] t1(4) by simp
  finally have room: "card (dom (alpha t1)) < limit t1" .
  have "alpha t1 new = None" using assms t1 by simp
  with room obtain t2 where "ins t1 new i = (True, t2)" "invar t2"
      "alpha t2 = (alpha t1)(new \<mapsto> i)" "limit t2 = limit t1"
    using ins_new [OF t1(2), of new] by blast
  then show ?thesis using t1 by auto
qed

end

end
