(* ===== verification/Residency_Table.thy ===== *)
theory Residency_Table
  imports Residency_Index
begin

text \<open>
  \<open>DataCache/GpuResidencyTable.h\<close> and \<open>.cpp\<close>: the fixed-capacity, linear-probing table with
  backward-shift deletion that maps resident keys to entry indexes.  The class is a record, each
  method a function on it; the two loops that probe at most \<open>slots.size()\<close> times recurse on the
  number of probes left, and the two \<open>while\<close> loops are partial functions whose \<open>None\<close> is "does
  not return".

  The second half proves that an initialised table is a bounded map (an interpretation of
  \<open>residency_index\<close>): the probing invariant, its preservation by insertion and by the
  backward shift, and the termination of both \<open>while\<close> loops.
\<close>

section \<open>The class\<close>

record Slot =
  slotKey :: GpuDataKey
  slotEntryIndex :: nat
  occupied :: bool

definition empty_slot :: Slot where
  "empty_slot = \<lparr>slotKey = default_key, slotEntryIndex = 0, occupied = False\<rparr>"

record GpuResidencyTable =
  slots :: "Slot list"
  residentLimit :: size_t
  residentCount :: size_t
  tableInitialized :: bool

definition new_table :: GpuResidencyTable where
  "new_table = \<lparr>slots = [], residentLimit = 0, residentCount = 0, tableInitialized = False\<rparr>"

definition NO_SLOT :: nat where
  "NO_SLOT = 2 ^ 64 - 1"

subsection \<open>Probing\<close>

definition homeSlot :: "Slot list \<Rightarrow> GpuDataKey \<Rightarrow> nat" where
  "homeSlot ss k = unat (GpuDataKeyHash k AND (of_nat (length ss) - 1))"

definition nextSlot :: "Slot list \<Rightarrow> nat \<Rightarrow> nat" where
  "nextSlot ss index = (index + 1) AND (length ss - 1)"

definition probeDistance :: "Slot list \<Rightarrow> nat \<Rightarrow> nat \<Rightarrow> nat" where
  "probeDistance ss home index =
     (if home \<le> index then index - home else length ss - (home - index))"

fun findProbe :: "Slot list \<Rightarrow> GpuDataKey \<Rightarrow> nat \<Rightarrow> nat \<Rightarrow> nat" where
  "findProbe ss k index 0 = NO_SLOT"
| "findProbe ss k index (Suc probes) =
     (let slot = ss ! index
      in if \<not> occupied slot then NO_SLOT
         else if key_eq (slotKey slot) k then index
         else findProbe ss k (nextSlot ss index) probes)"

definition findSlot :: "GpuResidencyTable \<Rightarrow> GpuDataKey \<Rightarrow> nat" where
  "findSlot t k =
     (if slots t = [] then NO_SLOT
      else findProbe (slots t) k (homeSlot (slots t) k) (length (slots t)))"

subsection \<open>Operations\<close>

partial_function (option) growSlots :: "size_t \<Rightarrow> size_t \<Rightarrow> size_t option option" where
  "growSlots newSlotCount requiredSlots =
     (if newSlotCount < requiredSlots
      then if newSlotCount > SIZE_MAX div 2 then Some None
           else growSlots (newSlotCount * 2) requiredSlots
      else Some (Some newSlotCount))"

text \<open>
  \<open>alloc n\<close> says whether the resize to \<open>n\<close> slots gets its memory; a failed one throws and is
  caught.
\<close>

definition table_initialize ::
  "(nat \<Rightarrow> bool) \<Rightarrow> GpuResidencyTable \<Rightarrow> size_t \<Rightarrow> (bool \<times> GpuResidencyTable) option" where
  "table_initialize alloc t maxResidentEntries =
     (if tableInitialized t \<or> slots t \<noteq> [] \<or> residentLimit t \<noteq> 0 \<or> residentCount t \<noteq> 0
      then Some (False, t)
      else if maxResidentEntries \<noteq> 0 \<and> maxResidentEntries > SIZE_MAX div 2
      then Some (False, t)
      else let requiredSlots = (if maxResidentEntries \<noteq> 0 then maxResidentEntries * 2 else 0)
           in case growSlots (if requiredSlots = 0 then 0 else 1) requiredSlots of
                None \<Rightarrow> None
              | Some None \<Rightarrow> Some (False, t)
              | Some (Some newSlotCount) \<Rightarrow>
                  if \<not> alloc (unat newSlotCount) then Some (False, t)
                  else Some (True, t\<lparr>slots := replicate (unat newSlotCount) empty_slot,
                                     residentLimit := maxResidentEntries,
                                     residentCount := 0,
                                     tableInitialized := True\<rparr>))"

definition table_clear :: "GpuResidencyTable \<Rightarrow> GpuResidencyTable" where
  "table_clear t = t\<lparr>slots := map (\<lambda>slot. empty_slot) (slots t), residentCount := 0\<rparr>"

definition table_release :: "GpuResidencyTable \<Rightarrow> GpuResidencyTable" where
  "table_release t = t\<lparr>slots := [], residentLimit := 0, residentCount := 0, tableInitialized := False\<rparr>"

definition table_swap ::
  "GpuResidencyTable \<Rightarrow> GpuResidencyTable \<Rightarrow> GpuResidencyTable \<times> GpuResidencyTable" where
  "table_swap t other =
     (t\<lparr>slots := slots other, residentLimit := residentLimit other,
        residentCount := residentCount other, tableInitialized := tableInitialized other\<rparr>,
      other\<lparr>slots := slots t, residentLimit := residentLimit t,
        residentCount := residentCount t, tableInitialized := tableInitialized t\<rparr>)"

definition table_find :: "GpuResidencyTable \<Rightarrow> GpuDataKey \<Rightarrow> nat option" where
  "table_find t k =
     (if \<not> tableInitialized t then None
      else let index = findSlot t k
           in if index = NO_SLOT then None else Some (slotEntryIndex (slots t ! index)))"

fun insertProbe :: "Slot list \<Rightarrow> GpuDataKey \<Rightarrow> nat \<Rightarrow> nat \<Rightarrow> nat \<Rightarrow> Slot list option" where
  "insertProbe ss k entryIndex index 0 = None"
| "insertProbe ss k entryIndex index (Suc probes) =
     (let slot = ss ! index
      in if \<not> occupied slot
         then Some (ss[index := slot\<lparr>slotKey := k, slotEntryIndex := entryIndex, occupied := True\<rparr>])
         else if key_eq (slotKey slot) k then None
         else insertProbe ss k entryIndex (nextSlot ss index) probes)"

definition table_insert ::
  "GpuResidencyTable \<Rightarrow> GpuDataKey \<Rightarrow> nat \<Rightarrow> bool \<times> GpuResidencyTable" where
  "table_insert t k entryIndex =
     (if \<not> tableInitialized t \<or> residentCount t \<ge> residentLimit t \<or> slots t = []
      then (False, t)
      else case insertProbe (slots t) k entryIndex (homeSlot (slots t) k) (length (slots t)) of
             None \<Rightarrow> (False, t)
           | Some ss \<Rightarrow> (True, t\<lparr>slots := ss, residentCount := residentCount t + 1\<rparr>))"

partial_function (option) eraseLoop :: "Slot list \<Rightarrow> nat \<Rightarrow> nat \<Rightarrow> Slot list option" where
  "eraseLoop ss emptyIndex scanIndex =
     (if occupied (ss ! scanIndex)
      then let homeIndex = homeSlot ss (slotKey (ss ! scanIndex))
           in if probeDistance ss homeIndex emptyIndex < probeDistance ss homeIndex scanIndex
              then eraseLoop (ss[emptyIndex := ss ! scanIndex]) scanIndex (nextSlot ss scanIndex)
              else eraseLoop ss emptyIndex (nextSlot ss scanIndex)
      else Some (ss[emptyIndex := empty_slot]))"

definition eraseSlot :: "GpuResidencyTable \<Rightarrow> nat \<Rightarrow> GpuResidencyTable option" where
  "eraseSlot t index =
     (case eraseLoop (slots t) index (nextSlot (slots t) index) of
        None \<Rightarrow> None
      | Some ss \<Rightarrow> Some (t\<lparr>slots := ss\<rparr>))"

definition table_erase ::
  "GpuResidencyTable \<Rightarrow> GpuDataKey \<Rightarrow> nat \<Rightarrow> (bool \<times> GpuResidencyTable) option" where
  "table_erase t k entryIndex =
     (if \<not> tableInitialized t then Some (False, t)
      else let index = findSlot t k
           in if index = NO_SLOT \<or> slotEntryIndex (slots t ! index) \<noteq> entryIndex
              then Some (False, t)
              else case eraseSlot t index of
                     None \<Rightarrow> None
                   | Some t' \<Rightarrow> Some (True, t'\<lparr>residentCount := residentCount t' - 1\<rparr>))"

definition table_entryCount :: "GpuResidencyTable \<Rightarrow> size_t" where
  "table_entryCount t = residentCount t"

definition table_slotCount :: "GpuResidencyTable \<Rightarrow> nat" where
  "table_slotCount t = length (slots t)"

section \<open>The probing invariant\<close>

definition ring_size :: "nat \<Rightarrow> bool" where
  "ring_size n \<longleftrightarrow> (\<exists>m<64. n = 2 ^ m)"

lemma ring_size_pos: "ring_size n \<Longrightarrow> 0 < n"
  by (auto simp: ring_size_def)

lemma ring_size_le: "ring_size n \<Longrightarrow> n \<le> 2 ^ 63"
  using power_increasing [of _ 63 "2::nat"] by (auto simp: ring_size_def simp del: power_increasing_iff)

lemma homeSlot_mod:
  assumes "ring_size (length ss)"
  shows "homeSlot ss k = unat (GpuDataKeyHash k) mod length ss"
  using assms word_and_mask [of _ "GpuDataKeyHash k"] by (auto simp: homeSlot_def ring_size_def)

lemma homeSlot_less: "ring_size (length ss) \<Longrightarrow> homeSlot ss k < length ss"
  using ring_size_pos [of "length ss"] by (simp add: homeSlot_mod)

lemma nextSlot_mod: "ring_size (length ss) \<Longrightarrow> nextSlot ss i = Suc i mod length ss"
  using nat_and_mask [of "Suc i"] by (auto simp: nextSlot_def ring_size_def)

lemma nextSlot_less: "ss \<noteq> [] \<Longrightarrow> nextSlot ss i < length ss"
  using nat_and_less [of "length ss" "Suc i"] by (simp add: nextSlot_def)

lemma probeDistance_cdist:
  "home < length ss \<Longrightarrow> index < length ss \<Longrightarrow> probeDistance ss home index = cdist (length ss) home index"
  by (auto simp: probeDistance_def cdist_def)

text \<open>Slots an insertion or a move may change keep the ring, so the home slot is a function of the size.\<close>

lemma homeSlot_cong: "length ss = length ss' \<Longrightarrow> homeSlot ss k = homeSlot ss' k"
  by (simp add: homeSlot_def)

text \<open>
  \<open>reachable_slot ss i\<close>: every slot from the home of the key at \<open>i\<close> up to \<open>i\<close> is occupied, so a
  probe that starts at the home gets to \<open>i\<close>.
\<close>

definition reachable_slot :: "Slot list \<Rightarrow> nat \<Rightarrow> bool" where
  "reachable_slot ss i \<longleftrightarrow>
     (let n = length ss; h = homeSlot ss (slotKey (ss ! i))
      in \<forall>t<cdist n h i. occupied (ss ! ((h + t) mod n)))"

definition probing :: "Slot list \<Rightarrow> bool" where
  "probing ss \<longleftrightarrow> (\<forall>i<length ss. occupied (ss ! i) \<longrightarrow> reachable_slot ss i)"

definition unique_keys :: "Slot list \<Rightarrow> bool" where
  "unique_keys ss \<longleftrightarrow> (\<forall>i<length ss. \<forall>j<length ss.
     occupied (ss ! i) \<and> occupied (ss ! j) \<and> slotKey (ss ! i) = slotKey (ss ! j) \<longrightarrow> i = j)"

definition occupied_count :: "Slot list \<Rightarrow> nat" where
  "occupied_count ss = length (filter occupied ss)"

definition slot_map :: "Slot list \<Rightarrow> GpuDataKey \<Rightarrow> nat option" where
  "slot_map ss = map_of (map (\<lambda>s. (slotKey s, slotEntryIndex s)) (filter occupied ss))"

lemma occupied_count_card: "occupied_count ss = card {i. i < length ss \<and> occupied (ss ! i)}"
  by (simp add: occupied_count_def length_filter_conv_card)

lemma unique_keys_distinct:
  "unique_keys ss \<longleftrightarrow> distinct (map slotKey (filter occupied ss))"
proof (induction ss)
  case Nil
  show ?case by (simp add: unique_keys_def)
next
  case (Cons s ss)
  have "unique_keys (s # ss) \<longleftrightarrow>
      unique_keys ss \<and> (occupied s \<longrightarrow> (\<forall>j<length ss. occupied (ss ! j) \<longrightarrow> slotKey (ss ! j) \<noteq> slotKey s))"
    unfolding unique_keys_def by (simp add: All_less_Suc2) (blast dest: sym)
  also have "\<dots> \<longleftrightarrow> distinct (map slotKey (filter occupied (s # ss)))"
    using Cons.IH by (simp add: image_iff) (metis in_set_conv_nth)
  finally show ?case .
qed

lemma slot_map_Some_iff:
  assumes "unique_keys ss"
  shows "slot_map ss k = Some v \<longleftrightarrow>
    (\<exists>i<length ss. occupied (ss ! i) \<and> slotKey (ss ! i) = k \<and> slotEntryIndex (ss ! i) = v)"
proof -
  have "distinct (map fst (map (\<lambda>s. (slotKey s, slotEntryIndex s)) (filter occupied ss)))"
    using assms by (simp add: unique_keys_distinct comp_def)
  then have "slot_map ss k = Some v \<longleftrightarrow>
      (k, v) \<in> set (map (\<lambda>s. (slotKey s, slotEntryIndex s)) (filter occupied ss))"
    by (simp add: slot_map_def map_of_eq_Some_iff)
  also have "\<dots> \<longleftrightarrow> (\<exists>s\<in>set ss. occupied s \<and> slotKey s = k \<and> slotEntryIndex s = v)"
    by auto
  also have "\<dots> \<longleftrightarrow> (\<exists>i<length ss. occupied (ss ! i) \<and> slotKey (ss ! i) = k \<and> slotEntryIndex (ss ! i) = v)"
    by (metis in_set_conv_nth)
  finally show ?thesis .
qed

lemma slot_map_None_iff:
  "slot_map ss k = None \<longleftrightarrow> (\<forall>i<length ss. occupied (ss ! i) \<longrightarrow> slotKey (ss ! i) \<noteq> k)"
  by (auto simp: slot_map_def map_of_eq_None_iff image_iff in_set_conv_nth)

lemma dom_slot_map: "dom (slot_map ss) = slotKey ` set (filter occupied ss)"
  by (auto simp: slot_map_def dom_map_of_conv_image_fst image_image)

lemma card_dom_slot_map: "unique_keys ss \<Longrightarrow> card (dom (slot_map ss)) = occupied_count ss"
  unfolding dom_slot_map unique_keys_distinct occupied_count_def
  by (metis distinct_card length_map set_map)

section \<open>Lookup\<close>

lemma findProbe_miss:
  assumes "\<forall>i<length ss. occupied (ss ! i) \<longrightarrow> slotKey (ss ! i) \<noteq> k" "ss \<noteq> []" "i < length ss"
  shows "findProbe ss k i r = NO_SLOT"
  using assms(3) by (induction r arbitrary: i) (use assms(1,2) nextSlot_less in \<open>auto simp: Let_def\<close>)

lemma findProbe_hit:
  assumes ring: "ring_size (length ss)" and h: "h < length ss"
    and path: "\<forall>t<d. occupied (ss ! ((h + t) mod length ss)) \<and> slotKey (ss ! ((h + t) mod length ss)) \<noteq> k"
    and found: "occupied (ss ! ((h + d) mod length ss))" "slotKey (ss ! ((h + d) mod length ss)) = k"
  shows "j \<le> d \<Longrightarrow> d < j + r \<Longrightarrow> findProbe ss k ((h + j) mod length ss) r = (h + d) mod length ss"
proof (induction r arbitrary: j)
  case 0
  then show ?case by simp
next
  case (Suc r)
  have nxt: "nextSlot ss ((h + j) mod length ss) = (h + Suc j) mod length ss"
    using ring by (simp add: nextSlot_mod mod_Suc_eq)
  show ?case
  proof (cases "j = d")
    case True
    then show ?thesis using found by simp
  next
    case False
    then have "j < d" using Suc.prems by simp
    then show ?thesis using Suc.IH [of "Suc j"] Suc.prems path nxt by simp
  qed
qed

lemma findProbe_found:
  assumes "ring_size (length ss)" "probing ss" "unique_keys ss" "i < length ss" "occupied (ss ! i)"
  shows "findProbe ss (slotKey (ss ! i)) (homeSlot ss (slotKey (ss ! i))) (length ss) = i"
proof -
  let ?n = "length ss" let ?k = "slotKey (ss ! i)"
  let ?h = "homeSlot ss ?k" let ?d = "cdist ?n ?h i"
  have h: "?h < ?n" using assms homeSlot_less by blast
  have d: "?d < ?n" "(?h + ?d) mod ?n = i"
    using h assms cdist_less cdist_reach by auto
  have "occupied (ss ! ((?h + t) mod ?n)) \<and> slotKey (ss ! ((?h + t) mod ?n)) \<noteq> ?k" if "t < ?d" for t
  proof -
    have occ: "occupied (ss ! ((?h + t) mod ?n))"
      using assms that by (auto simp: probing_def reachable_slot_def Let_def)
    have "(?h + t) mod ?n \<noteq> i"
      using cdist_step [of ?h ?n t] h d that by auto
    moreover have "(?h + t) mod ?n < ?n" using h by (intro mod_less_divisor) auto
    ultimately show ?thesis
      using occ assms by (auto simp: unique_keys_def)
  qed
  then show ?thesis
    using findProbe_hit [of ss ?h ?d ?k 0 ?n] assms h d by simp
qed

section \<open>Insertion\<close>

lemma slot_overwrite:
  "(s::Slot)\<lparr>slotKey := k, slotEntryIndex := v, occupied := b\<rparr> = \<lparr>slotKey = k, slotEntryIndex = v, occupied = b\<rparr>"
  by (cases s) simp

lemma insertProbe_lands:
  assumes ring: "ring_size (length ss)" and h: "h < length ss"
    and fresh: "\<forall>i<length ss. occupied (ss ! i) \<longrightarrow> slotKey (ss ! i) \<noteq> k"
    and free: "u < length ss" "\<not> occupied (ss ! u)"
  shows "\<forall>t<j. occupied (ss ! ((h + t) mod length ss)) \<Longrightarrow> j \<le> cdist (length ss) h u \<Longrightarrow>
    cdist (length ss) h u < j + r \<Longrightarrow>
    \<exists>d<length ss. \<not> occupied (ss ! ((h + d) mod length ss)) \<and>
      (\<forall>t<d. occupied (ss ! ((h + t) mod length ss))) \<and>
      insertProbe ss k v ((h + j) mod length ss) r =
        Some (ss[(h + d) mod length ss := \<lparr>slotKey = k, slotEntryIndex = v, occupied = True\<rparr>])"
proof (induction r arbitrary: j)
  case 0
  then show ?case by simp
next
  case (Suc r)
  let ?n = "length ss" let ?i = "(h + j) mod length ss"
  have i: "?i < ?n" using h by (intro mod_less_divisor) auto
  have nxt: "nextSlot ss ?i = (h + Suc j) mod ?n"
    using ring by (simp add: nextSlot_mod mod_Suc_eq)
  show ?case
  proof (cases "occupied (ss ! ?i)")
    case True
    then have "j \<noteq> cdist ?n h u" using free h cdist_reach by auto
    then show ?thesis
      using Suc.IH [of "Suc j"] Suc.prems True fresh i nxt by (auto simp: Let_def less_Suc_eq)
  next
    case False
    moreover have "j < ?n" using Suc.prems(2) cdist_less [OF h free(1)] by simp
    ultimately show ?thesis using Suc.prems by (auto simp: Let_def slot_overwrite intro!: exI [of _ j])
  qed
qed

lemma insertProbe_dup:
  assumes "ring_size (length ss)" "probing ss" "unique_keys ss" "i < length ss" "occupied (ss ! i)"
  shows "insertProbe ss (slotKey (ss ! i)) v (homeSlot ss (slotKey (ss ! i))) (length ss) = None"
proof -
  have gen: "findProbe ss k j r \<noteq> NO_SLOT \<Longrightarrow> insertProbe ss k v j r = None" for k j r
    by (induction r arbitrary: j) (auto simp: Let_def split: if_splits)
  have "i \<noteq> NO_SLOT"
    using ring_size_le [OF assms(1)] assms(4) by (simp add: NO_SLOT_def)
  then show ?thesis using gen findProbe_found [OF assms] by metis
qed

definition put_slot :: "Slot list \<Rightarrow> nat \<Rightarrow> GpuDataKey \<Rightarrow> nat \<Rightarrow> Slot list" where
  "put_slot ss p k v = ss[p := \<lparr>slotKey = k, slotEntryIndex = v, occupied = True\<rparr>]"

lemma put_slot_nth:
  "p < length ss \<Longrightarrow> put_slot ss p k v ! i =
     (if i = p then \<lparr>slotKey = k, slotEntryIndex = v, occupied = True\<rparr> else ss ! i)"
  by (simp add: put_slot_def nth_list_update)

lemma length_put_slot [simp]: "length (put_slot ss p k v) = length ss"
  by (simp add: put_slot_def)

lemma put_slot_probing:
  assumes "ring_size (length ss)" "probing ss" "d < length ss"
    and "\<forall>t<d. occupied (ss ! ((homeSlot ss k + t) mod length ss))"
  shows "probing (put_slot ss ((homeSlot ss k + d) mod length ss) k v)"
proof -
  let ?n = "length ss" let ?p = "(homeSlot ss k + d) mod length ss"
  let ?ss = "put_slot ss ?p k v"
  have p: "?p < ?n" using assms(3) by (intro mod_less_divisor) auto
  have h: "homeSlot ?ss k' = homeSlot ss k'" for k' by (rule homeSlot_cong) simp
  have mono: "occupied (ss ! j) \<Longrightarrow> occupied (?ss ! j)" for j
    using p by (simp add: put_slot_nth)
  have "reachable_slot ?ss i" if "i < ?n" "occupied (?ss ! i)" for i
  proof (cases "i = ?p")
    case True
    then show ?thesis
      using assms p mono cdist_step [of "homeSlot ss k" ?n d] homeSlot_less [OF assms(1)]
      by (simp add: reachable_slot_def h put_slot_nth Let_def)
  next
    case False
    then have "reachable_slot ss i" using assms that p by (simp add: probing_def put_slot_nth)
    then show ?thesis
      using mono False p by (simp add: reachable_slot_def h put_slot_nth Let_def)
  qed
  then show ?thesis by (simp add: probing_def)
qed

lemma put_slot_unique:
  assumes "unique_keys ss" "p < length ss" "\<forall>i<length ss. occupied (ss ! i) \<longrightarrow> slotKey (ss ! i) \<noteq> k"
  shows "unique_keys (put_slot ss p k v)"
  using assms by (auto simp: unique_keys_def put_slot_nth)

lemma put_slot_map:
  assumes "unique_keys ss" "p < length ss" "\<not> occupied (ss ! p)"
    "\<forall>i<length ss. occupied (ss ! i) \<longrightarrow> slotKey (ss ! i) \<noteq> k"
  shows "slot_map (put_slot ss p k v) = (slot_map ss)(k \<mapsto> v)"
proof (rule map_ext_Some)
  fix k' v'
  have uniq: "unique_keys (put_slot ss p k v)"
    using assms by (intro put_slot_unique)
  have "slot_map (put_slot ss p k v) k' = Some v' \<longleftrightarrow>
      (k' = k \<and> v' = v \<or> (\<exists>i<length ss. i \<noteq> p \<and> occupied (ss ! i) \<and> slotKey (ss ! i) = k' \<and> slotEntryIndex (ss ! i) = v'))"
    unfolding slot_map_Some_iff [OF uniq] using assms(2) by (auto simp: put_slot_nth)
  also have "\<dots> \<longleftrightarrow> ((slot_map ss)(k \<mapsto> v)) k' = Some v'"
    using assms by (auto simp: slot_map_Some_iff)
  finally show "slot_map (put_slot ss p k v) k' = Some v' \<longleftrightarrow> ((slot_map ss)(k \<mapsto> v)) k' = Some v'" .
qed

lemma put_slot_count:
  assumes "p < length ss" "\<not> occupied (ss ! p)"
  shows "occupied_count (put_slot ss p k v) = Suc (occupied_count ss)"
proof -
  have "{i. i < length ss \<and> occupied (put_slot ss p k v ! i)} = insert p {i. i < length ss \<and> occupied (ss ! i)}"
    using assms by (auto simp: put_slot_nth)
  then show ?thesis using assms by (simp add: occupied_count_card)
qed

section \<open>Backward-shift deletion\<close>

text \<open>
  During the loop the slot at \<open>e\<close> is the hole: it is still flagged occupied but its content is
  either the erased pair or a pair that has been moved back.  \<open>hole_inv\<close> is the loop invariant:
  everything from the hole up to the scan position is occupied, every other occupied slot is
  reachable as long as the hole counts as occupied, and no slot already scanned is reached
  through the hole.
\<close>

definition hole_inv :: "Slot list \<Rightarrow> nat \<Rightarrow> nat \<Rightarrow> bool" where
  "hole_inv ss e s \<longleftrightarrow>
     (let n = length ss in
      e < n \<and> s < n \<and> e \<noteq> s \<and> occupied (ss ! e) \<and>
      (\<forall>t<cdist n e s. occupied (ss ! ((e + t) mod n))) \<and>
      (\<forall>i<n. i \<noteq> e \<and> occupied (ss ! i) \<longrightarrow> reachable_slot ss i) \<and>
      (\<forall>i<n. i \<noteq> e \<and> cdist n e i < cdist n e s \<longrightarrow>
         cdist n (homeSlot ss (slotKey (ss ! i))) i \<le> cdist n (homeSlot ss (slotKey (ss ! i))) e) \<and>
      (\<forall>i<n. \<forall>j<n. i \<noteq> e \<and> j \<noteq> e \<and> occupied (ss ! i) \<and> occupied (ss ! j)
         \<and> slotKey (ss ! i) = slotKey (ss ! j) \<longrightarrow> i = j))"

lemma hole_invD:
  assumes "hole_inv ss e s"
  shows "e < length ss" "s < length ss" "e \<noteq> s" "occupied (ss ! e)"
    and "\<And>t. t < cdist (length ss) e s \<Longrightarrow> occupied (ss ! ((e + t) mod length ss))"
    and "\<And>i. i < length ss \<Longrightarrow> i \<noteq> e \<Longrightarrow> occupied (ss ! i) \<Longrightarrow> reachable_slot ss i"
    and "\<And>i. i < length ss \<Longrightarrow> i \<noteq> e \<Longrightarrow> cdist (length ss) e i < cdist (length ss) e s \<Longrightarrow>
      cdist (length ss) (homeSlot ss (slotKey (ss ! i))) i \<le> cdist (length ss) (homeSlot ss (slotKey (ss ! i))) e"
    and "\<And>i j. i < length ss \<Longrightarrow> j < length ss \<Longrightarrow> i \<noteq> e \<Longrightarrow> j \<noteq> e \<Longrightarrow> occupied (ss ! i) \<Longrightarrow>
      occupied (ss ! j) \<Longrightarrow> slotKey (ss ! i) = slotKey (ss ! j) \<Longrightarrow> i = j"
  using assms unfolding hole_inv_def Let_def by blast+

definition live_pairs :: "Slot list \<Rightarrow> nat \<Rightarrow> (GpuDataKey \<times> nat) set" where
  "live_pairs ss e = {(slotKey (ss ! i), slotEntryIndex (ss ! i)) | i. i < length ss \<and> i \<noteq> e \<and> occupied (ss ! i)}"

lemma hole_start:
  assumes "ring_size (length ss)" "probing ss" "unique_keys ss" "e < length ss" "occupied (ss ! e)"
    "u < length ss" "\<not> occupied (ss ! u)"
  shows "hole_inv ss e (nextSlot ss e)"
proof -
  let ?n = "length ss"
  have "1 < ?n" using assms by (cases ?n; cases "?n - 1") auto
  then have s: "nextSlot ss e < ?n" "e \<noteq> nextSlot ss e" "cdist ?n e (nextSlot ss e) = 1"
    using assms(1,4) nextSlot_mod [OF assms(1), of e] by (auto simp: cdist_def mod_if split: if_splits)
  have near: "i = e" if "i < ?n" "cdist ?n e i < 1" for i
    using that assms(4) by (simp add: cdist_0_iff)
  have "\<forall>t<1. occupied (ss ! ((e + t) mod ?n))" using assms(4,5) by simp
  moreover have "\<forall>i<?n. occupied (ss ! i) \<longrightarrow> reachable_slot ss i" using assms(2) by (simp add: probing_def)
  ultimately show ?thesis
    unfolding hole_inv_def Let_def s(3) using assms(3,4,5) s(1,2) near unfolding unique_keys_def by blast
qed

text \<open>Where the scan stops, clearing the hole restores the probing invariant.\<close>

lemma hole_stop:
  assumes ring: "ring_size (length ss)" and inv: "hole_inv ss e s" and stop: "\<not> occupied (ss ! s)"
  shows "probing (ss[e := empty_slot])"
proof -
  let ?n = "length ss" let ?ss = "ss[e := empty_slot]"
  note e = hole_invD(1-3) [OF inv]
  have "reachable_slot ?ss i" if i: "i < ?n" "occupied (?ss ! i)" for i
  proof -
    have ie: "i \<noteq> e" and occ: "occupied (ss ! i)"
      using i e by (auto simp: nth_list_update empty_slot_def split: if_splits)
    let ?h = "homeSlot ss (slotKey (ss ! i))"
    have h: "?h < ?n" using homeSlot_less [OF ring] .
    have path: "\<forall>t<cdist ?n ?h i. occupied (ss ! ((?h + t) mod ?n))"
      using hole_invD(6) [OF inv, of i] i ie occ by (simp add: reachable_slot_def Let_def)
    have "cdist ?n ?h i \<le> cdist ?n ?h e"
    proof (rule ccontr)
      assume "\<not> ?thesis"
      then have lt: "cdist ?n ?h e < cdist ?n ?h i" by simp
      then have split: "cdist ?n ?h i = cdist ?n ?h e + cdist ?n e i"
        using cdist_add [of ?h ?n e i] h e i by simp
      show False
      proof (cases "cdist ?n e i < cdist ?n e s")
        case True
        then show ?thesis using hole_invD(7) [OF inv, of i] i ie lt by simp
      next
        case False
        then have "s \<noteq> i \<and> cdist ?n e s < cdist ?n e i"
          using occ stop e i cdist_reach [of e ?n s] cdist_reach [of e ?n i] by (metis nat_neq_iff)
        then have "cdist ?n ?h e + cdist ?n e s < cdist ?n ?h i" using split by simp
        then have "occupied (ss ! ((?h + (cdist ?n ?h e + cdist ?n e s)) mod ?n))" using path by blast
        moreover have "(?h + (cdist ?n ?h e + cdist ?n e s)) mod ?n = s"
          using cdist_reach [OF h e(1)] cdist_reach [OF e(1,2)]
          by (metis add.assoc mod_add_left_eq)
        ultimately show ?thesis using stop by simp
      qed
    qed
    then have "(?h + t) mod ?n \<noteq> e" if "t < cdist ?n ?h i" for t
      using that h e cdist_step [of ?h ?n t] cdist_less [of ?h ?n i] i by fastforce
    then show ?thesis
      using path i ie e homeSlot_cong [of ?ss ss]
      by (auto simp: reachable_slot_def Let_def nth_list_update)
  qed
  then show ?thesis by (simp add: probing_def)
qed

lemma hole_step_keep:
  assumes ring: "ring_size (length ss)" and inv: "hole_inv ss e s" and occ: "occupied (ss ! s)"
    and free: "u < length ss" "\<not> occupied (ss ! u)"
    and keep: "\<not> cdist (length ss) (homeSlot ss (slotKey (ss ! s))) e < cdist (length ss) (homeSlot ss (slotKey (ss ! s))) s"
  shows "hole_inv ss e (nextSlot ss s)"
proof -
  let ?n = "length ss" let ?s = "nextSlot ss s"
  note e = hole_invD(1-4) [OF inv] and run = hole_invD(5) [OF inv] and reach = hole_invD(6) [OF inv]
    and scanned = hole_invD(7) [OF inv] and uniq = hole_invD(8) [OF inv]
  have next_s: "?s = Suc s mod ?n" using ring by (rule nextSlot_mod)
  have "cdist ?n e s < cdist ?n e u"
    using run occ free e cdist_reach [of e ?n u] cdist_reach [of e ?n s] by (metis linorder_cases)
  then have "Suc (cdist ?n e s) < ?n" using cdist_less [OF e(1) free(1)] by simp
  moreover have "?s = (e + Suc (cdist ?n e s)) mod ?n"
    using next_s cdist_reach [OF e(1,2)] by (metis add_Suc_right mod_Suc_eq)
  ultimately have far: "cdist ?n e ?s = Suc (cdist ?n e s)" using cdist_step [OF e(1)] by metis
  then have "e \<noteq> ?s" by auto
  moreover have "?s < ?n" by (rule nextSlot_less) (use e in auto)
  moreover have "\<forall>t<cdist ?n e ?s. occupied (ss ! ((e + t) mod ?n))"
    using run occ far cdist_reach [OF e(1,2)] by (auto simp: less_Suc_eq)
  moreover have "\<forall>i<?n. i \<noteq> e \<and> cdist ?n e i < cdist ?n e ?s \<longrightarrow>
         cdist ?n (homeSlot ss (slotKey (ss ! i))) i \<le> cdist ?n (homeSlot ss (slotKey (ss ! i))) e"
    using scanned keep far e cdist_reach by (metis less_Suc_eq not_le)
  ultimately show ?thesis
    unfolding hole_inv_def Let_def using e reach uniq by blast
qed

lemma hole_step_move:
  assumes ring: "ring_size (length ss)" and inv: "hole_inv ss e s" and occ: "occupied (ss ! s)"
    and free: "u < length ss" "\<not> occupied (ss ! u)"
    and move: "cdist (length ss) (homeSlot ss (slotKey (ss ! s))) e < cdist (length ss) (homeSlot ss (slotKey (ss ! s))) s"
  shows "hole_inv (ss[e := ss ! s]) s (nextSlot ss s)"
    and "live_pairs (ss[e := ss ! s]) s = live_pairs ss e"
proof -
  let ?n = "length ss" let ?s = "nextSlot ss s" let ?ss = "ss[e := ss ! s]"
  note e = hole_invD(1-4) [OF inv] and reach = hole_invD(6) [OF inv] and uniq = hole_invD(8) [OF inv]
  have nth: "?ss ! i = (if i = e then ss ! s else ss ! i)" for i
    using e by (simp add: nth_list_update)
  have flags: "occupied (?ss ! i) \<longleftrightarrow> occupied (ss ! i)" for i
    using e occ by (simp add: nth)
  have h: "homeSlot ?ss k = homeSlot ss k" for k by (rule homeSlot_cong) simp
  have two: "1 < ?n" using e by (cases ?n; cases "?n - 1") auto
  have s: "?s < ?n" "s \<noteq> ?s" "cdist ?n s ?s = 1"
    using two e nextSlot_mod [OF ring, of s] by (auto simp: cdist_def mod_if split: if_splits)
  have near: "i = s" if "i < ?n" "cdist ?n s i < 1" for i
    using that e by (simp add: cdist_0_iff)
  have reach': "reachable_slot ?ss i" if "i < ?n" "i \<noteq> s" "occupied (?ss ! i)" for i
  proof (cases "i = e")
    case True
    have "reachable_slot ss s" using reach e occ by auto
    then show ?thesis using True move occ by (auto simp: reachable_slot_def Let_def h nth)
  next
    case False
    then have "reachable_slot ss i" using reach that flags by simp
    then show ?thesis using False occ by (auto simp: reachable_slot_def Let_def h nth)
  qed
  have uniq': "i = j" if "i < ?n" "j < ?n" "i \<noteq> s" "j \<noteq> s" "occupied (?ss ! i)" "occupied (?ss ! j)"
    "slotKey (?ss ! i) = slotKey (?ss ! j)" for i j
    using that uniq e occ unfolding flags by (metis nth)
  show "hole_inv ?ss s ?s"
    unfolding hole_inv_def Let_def length_list_update s(3)
  proof (intro conjI allI impI)
    show "occupied (?ss ! ((s + t) mod ?n))" if "t < 1" for t
      using that e occ flags by simp
  qed (use e s occ near reach' uniq' flags in blast)+
  show "live_pairs ?ss s = live_pairs ss e"
    unfolding live_pairs_def flags length_list_update using e occ by (auto simp: nth)
qed

text \<open>
  The loop returns: the free slot \<open>u\<close> gets nearer with every scan, and occupancy does not change
  until the loop stops there or before.
\<close>

lemma eraseLoop_returns:
  assumes "ring_size (length ss)" "hole_inv ss e s" "u < length ss" "\<not> occupied (ss ! u)"
  shows "\<exists>ss'. eraseLoop ss e s = Some ss' \<and> length ss' = length ss \<and> probing ss' \<and> unique_keys ss'
    \<and> (\<exists>e'<length ss. occupied (ss ! e') \<and> (\<forall>i<length ss. occupied (ss' ! i) \<longleftrightarrow> i \<noteq> e' \<and> occupied (ss ! i)))
    \<and> {(slotKey (ss' ! i), slotEntryIndex (ss' ! i)) | i. i < length ss \<and> occupied (ss' ! i)} = live_pairs ss e"
  using assms
proof (induction "cdist (length ss) s u" arbitrary: ss e s rule: less_induct)
  case less
  let ?n = "length ss" let ?h = "homeSlot ss (slotKey (ss ! s))" let ?s = "nextSlot ss s"
  note e = hole_invD(1-4) [OF less.prems(2)]
  have h: "?h < ?n" using less.prems(1) by (rule homeSlot_less)
  show ?case
  proof (cases "occupied (ss ! s)")
    case False
    have nth: "ss[e := empty_slot] ! i = (if i = e then empty_slot else ss ! i)" for i
      using e by (simp add: nth_list_update)
    have flags: "occupied (ss[e := empty_slot] ! i) \<longleftrightarrow> i \<noteq> e \<and> occupied (ss ! i)" for i
      unfolding nth by (simp add: empty_slot_def)
    have "unique_keys (ss[e := empty_slot])"
      unfolding unique_keys_def flags using hole_invD(8) [OF less.prems(2)] by (auto simp: nth)
    moreover have "{(slotKey (ss[e := empty_slot] ! i), slotEntryIndex (ss[e := empty_slot] ! i)) | i.
        i < ?n \<and> occupied (ss[e := empty_slot] ! i)} = live_pairs ss e"
      unfolding live_pairs_def flags by (auto simp: nth)
    ultimately show ?thesis
      using False e hole_stop [OF less.prems(1,2) False] flags
      by (subst eraseLoop.simps) auto
  next
    case True
    have us: "u \<noteq> s" using True less.prems by auto
    have closer: "cdist ?n ?s u < cdist ?n s u"
      using cdist_Suc [of s ?n u] us e less.prems nextSlot_mod [of ss s] by simp
    show ?thesis
    proof (cases "cdist ?n ?h e < cdist ?n ?h s")
      case False
      have "hole_inv ss e ?s"
        using hole_step_keep [OF less.prems(1,2) True less.prems(3,4) False] .
      from less.hyps [OF closer less.prems(1) this less.prems(3,4)] show ?thesis
        using True False h e by (subst eraseLoop.simps) (simp add: Let_def probeDistance_cdist)
    next
      case move: True
      let ?ss = "ss[e := ss ! s]"
      have flags: "occupied (?ss ! i) \<longleftrightarrow> occupied (ss ! i)" for i
        using e True by (auto simp: nth_list_update)
      note inv = hole_step_move [OF less.prems(1,2) True less.prems(3,4) move]
      have "ring_size (length ?ss)" "u < length ?ss" "\<not> occupied (?ss ! u)" "cdist (length ?ss) ?s u < cdist ?n s u"
        using less.prems closer flags by simp_all
      from less.hyps [OF this(4,1) inv(1) this(2,3)] show ?thesis
        using True move h e unfolding inv(2) flags length_list_update
        by (subst eraseLoop.simps) (simp add: Let_def probeDistance_cdist)
    qed
  qed
qed

section \<open>The table as a bounded map\<close>

definition table_invar :: "GpuResidencyTable \<Rightarrow> bool" where
  "table_invar t \<longleftrightarrow> tableInitialized t \<and> (slots t = [] \<or> ring_size (length (slots t)))
     \<and> 2 * unat (residentLimit t) \<le> length (slots t)
     \<and> unat (residentCount t) = occupied_count (slots t)
     \<and> residentCount t \<le> residentLimit t
     \<and> probing (slots t) \<and> unique_keys (slots t)"

definition table_map :: "GpuResidencyTable \<Rightarrow> GpuDataKey \<Rightarrow> nat option" where
  "table_map t = slot_map (slots t)"

lemma table_free_slot:
  assumes "table_invar t" "slots t \<noteq> []"
  shows "\<exists>u<length (slots t). \<not> occupied (slots t ! u)"
proof (rule ccontr)
  assume "\<not> ?thesis"
  then have "occupied_count (slots t) = length (slots t)"
    by (simp add: occupied_count_def all_set_conv_all_nth filter_True)
  moreover have "2 * occupied_count (slots t) \<le> length (slots t)" "0 < length (slots t)"
    using assms by (auto simp: table_invar_def word_le_nat_alt)
  ultimately show False by simp
qed

lemma table_map_finite: "finite (dom (table_map t))"
  by (simp add: table_map_def dom_slot_map)

lemma table_map_card: "table_invar t \<Longrightarrow> card (dom (table_map t)) = unat (residentCount t)"
  by (simp add: table_invar_def table_map_def card_dom_slot_map)

lemma findSlot_None:
  "table_map t k = None \<Longrightarrow> (slots t = [] \<or> ring_size (length (slots t))) \<Longrightarrow> findSlot t k = NO_SLOT"
  using findProbe_miss [of "slots t" k "homeSlot (slots t) k"] homeSlot_less [of "slots t" k]
  by (auto simp: findSlot_def table_map_def slot_map_None_iff)

lemma findSlot_Some:
  assumes "table_invar t" "table_map t k = Some v"
  shows "findSlot t k < length (slots t)" "findSlot t k \<noteq> NO_SLOT"
    "occupied (slots t ! findSlot t k)" "slotKey (slots t ! findSlot t k) = k"
    "slotEntryIndex (slots t ! findSlot t k) = v"
proof -
  obtain i where i: "i < length (slots t)" "occupied (slots t ! i)" "slotKey (slots t ! i) = k"
      "slotEntryIndex (slots t ! i) = v"
    using assms by (auto simp: table_map_def table_invar_def slot_map_Some_iff)
  then have ring: "ring_size (length (slots t))" using assms by (auto simp: table_invar_def)
  then have "findSlot t k = i"
    using findProbe_found [of "slots t" i] i assms by (auto simp: findSlot_def table_invar_def)
  moreover have "i \<noteq> NO_SLOT" using ring_size_le [OF ring] i(1) by (simp add: NO_SLOT_def)
  ultimately show "findSlot t k < length (slots t)" "findSlot t k \<noteq> NO_SLOT"
    "occupied (slots t ! findSlot t k)" "slotKey (slots t ! findSlot t k) = k"
    "slotEntryIndex (slots t ! findSlot t k) = v"
    using i by simp_all
qed

lemma table_find_map: "table_invar t \<Longrightarrow> table_find t k = table_map t k"
  using findSlot_None [of t k] findSlot_Some [of t k]
  by (cases "table_map t k") (auto simp: table_find_def table_invar_def Let_def)

lemma table_insert_new:
  assumes inv: "table_invar t" and new: "table_map t k = None"
    and room: "card (dom (table_map t)) < unat (residentLimit t)"
  shows "\<exists>t'. table_insert t k v = (True, t') \<and> table_invar t' \<and> table_map t' = (table_map t)(k \<mapsto> v)
    \<and> residentLimit t' = residentLimit t"
proof -
  let ?ss = "slots t" let ?n = "length (slots t)" let ?h = "homeSlot (slots t) k"
  have count: "unat (residentCount t) < unat (residentLimit t)"
    using room inv by (simp add: table_map_card)
  have ne: "?ss \<noteq> []" and ring: "ring_size ?n"
    using inv count by (auto simp: table_invar_def)
  obtain u where u: "u < ?n" "\<not> occupied (?ss ! u)" using table_free_slot [OF inv ne] by blast
  have h: "?h < ?n" using ring by (rule homeSlot_less)
  have fresh: "\<forall>i<?n. occupied (?ss ! i) \<longrightarrow> slotKey (?ss ! i) \<noteq> k"
    using new by (simp add: table_map_def slot_map_None_iff)
  obtain d where d: "d < ?n" "\<not> occupied (?ss ! ((?h + d) mod ?n))"
      "\<forall>t<d. occupied (?ss ! ((?h + t) mod ?n))"
      "insertProbe ?ss k v ?h ?n = Some (put_slot ?ss ((?h + d) mod ?n) k v)"
    using insertProbe_lands [OF ring h fresh u, of 0 ?n v] cdist_less [OF h u(1)] h by (auto simp: put_slot_def)
  let ?p = "(?h + d) mod ?n"
  let ?t = "t\<lparr>slots := put_slot ?ss ?p k v, residentCount := residentCount t + 1\<rparr>"
  have p: "?p < ?n" using h by (intro mod_less_divisor) auto
  have "table_insert t k v = (True, ?t)"
    using d(4) inv count ne by (simp add: table_insert_def table_invar_def word_le_nat_alt)
  moreover have "unat (residentCount t + 1) = Suc (unat (residentCount t))"
    using count unat_size_t_less [of "residentLimit t"] unat_Suc_no_wrap [of "residentCount t"] by simp
  then have "table_invar ?t"
    using inv count put_slot_probing [OF ring _ d(1,3)] put_slot_unique [OF _ p fresh] put_slot_count [OF p d(2)] ring
    by (simp add: table_invar_def word_le_nat_alt)
  moreover have "table_map ?t = (table_map t)(k \<mapsto> v)"
    using put_slot_map [OF _ p d(2) fresh] inv by (simp add: table_map_def table_invar_def)
  ultimately show ?thesis by auto
qed

lemma table_insert_refused:
  assumes inv: "table_invar t" and "table_map t k \<noteq> None \<or> unat (residentLimit t) \<le> card (dom (table_map t))"
  shows "table_insert t k v = (False, t)"
proof (cases "unat (residentLimit t) \<le> card (dom (table_map t))")
  case True
  then show ?thesis using inv by (simp add: table_insert_def table_map_card word_le_nat_alt)
next
  case False
  then obtain i where i: "i < length (slots t)" "occupied (slots t ! i)" "slotKey (slots t ! i) = k"
    using assms by (auto simp: table_map_def slot_map_None_iff simp del: not_None_eq)
  then have "insertProbe (slots t) k v (homeSlot (slots t) k) (length (slots t)) = None"
    using insertProbe_dup [of "slots t" i v] inv by (auto simp: table_invar_def)
  then show ?thesis by (simp add: table_insert_def)
qed

lemma table_erase_found:
  assumes inv: "table_invar t" and found: "table_map t k = Some v"
  shows "\<exists>t'. table_erase t k v = Some (True, t') \<and> table_invar t' \<and> table_map t' = (table_map t)(k := None)
    \<and> residentLimit t' = residentLimit t"
proof -
  let ?ss = "slots t" let ?n = "length (slots t)" let ?e = "findSlot t k"
  note e = findSlot_Some [OF inv found]
  have ne: "?ss \<noteq> []" and ring: "ring_size ?n" and probing: "probing ?ss" and uniq: "unique_keys ?ss"
    using inv e(1) by (auto simp: table_invar_def)
  obtain u where u: "u < ?n" "\<not> occupied (?ss ! u)" using table_free_slot [OF inv ne] by blast
  have start: "hole_inv ?ss ?e (nextSlot ?ss ?e)"
    using hole_start [OF ring probing uniq e(1,3) u] .
  obtain ss' e' where ss': "eraseLoop ?ss ?e (nextSlot ?ss ?e) = Some ss'" "length ss' = ?n" "probing ss'"
      "unique_keys ss'" and e': "e' < ?n" "occupied (?ss ! e')"
      "\<forall>i<?n. occupied (ss' ! i) \<longleftrightarrow> i \<noteq> e' \<and> occupied (?ss ! i)"
      and pairs: "{(slotKey (ss' ! i), slotEntryIndex (ss' ! i)) | i. i < ?n \<and> occupied (ss' ! i)} = live_pairs ?ss ?e"
    using eraseLoop_returns [OF ring start u] by blast
  let ?A = "{i. i < ?n \<and> occupied (?ss ! i)}"
  have "{i. i < ?n \<and> occupied (ss' ! i)} = ?A - {e'}" using e' by auto
  moreover have "Suc (card (?A - {e'})) = card ?A" by (rule card_Suc_Diff1) (use e' in auto)
  ultimately have count: "Suc (occupied_count ss') = occupied_count ?ss"
    unfolding occupied_count_card ss'(2) by simp
  have "slot_map ss' k' = Some v' \<longleftrightarrow> (k', v') \<in> live_pairs ?ss ?e" for k' v'
    unfolding slot_map_Some_iff [OF ss'(4)] ss'(2) pairs [symmetric] by auto
  moreover have "(k', v') \<in> live_pairs ?ss ?e \<longleftrightarrow> ((slot_map ?ss)(k := None)) k' = Some v'" for k' v'
    using e uniq by (auto simp: live_pairs_def slot_map_Some_iff unique_keys_def)
  ultimately have map: "slot_map ss' = (slot_map ?ss)(k := None)"
    by (intro map_ext_Some) simp
  let ?t = "t\<lparr>slots := ss', residentCount := residentCount t - 1\<rparr>"
  have "table_erase t k v = Some (True, ?t)"
    using ss'(1) e inv by (simp add: table_erase_def eraseSlot_def table_invar_def)
  moreover have "residentCount t \<noteq> 0"
    using count inv by (auto simp: table_invar_def)
  then have "unat (residentCount t - 1) = unat (residentCount t) - 1"
    by (simp add: unat_minus_one)
  then have "table_invar ?t"
    using inv count ss' ring by (auto simp: table_invar_def word_le_nat_alt)
  ultimately show ?thesis using map by (auto simp: table_map_def)
qed

lemma table_erase_refused:
  assumes "table_invar t" "table_map t k \<noteq> Some v"
  shows "table_erase t k v = Some (False, t)"
  using assms findSlot_None [of t k] findSlot_Some [of t k]
  by (cases "table_map t k") (auto simp: table_erase_def table_invar_def Let_def)

interpretation rt: residency_index table_find table_insert table_erase table_invar
  "\<lambda>t. unat (residentLimit t)" table_map
proof (unfold_locales, goal_cases)
  case (1 t k) then show ?case by (rule table_find_map)
next
  case (2 t) show ?case by (rule table_map_finite)
next
  case (3 t) then show ?case by (simp add: table_map_card) (simp add: table_invar_def word_le_nat_alt)
next
  case (4 t k i) then show ?case using table_insert_new [of t k i] by auto
next
  case (5 t k i) then show ?case by (rule table_insert_refused)
next
  case (6 t k i) then show ?case using table_erase_found [of t k i] by auto
next
  case (7 t k i) then show ?case by (rule table_erase_refused)
qed

section \<open>Initialisation\<close>

lemma growSlots_stop: "\<not> c < r \<Longrightarrow> growSlots c r = Some (Some c)"
  by (subst growSlots.simps) simp

lemma growSlots_returns:
  assumes "m \<le> 63"
  shows "(unat r \<le> 2 ^ 63 \<longrightarrow> (\<exists>j. m \<le> j \<and> j \<le> 63 \<and> growSlots (2 ^ m) r = Some (Some (2 ^ j))
            \<and> unat r \<le> 2 ^ j \<and> (j = m \<or> 2 ^ (j - 1) < unat r)))
    \<and> (2 ^ 63 < unat r \<longrightarrow> growSlots (2 ^ m) r = Some None)"
  using assms
proof (induction "63 - m" arbitrary: m)
  case 0
  then have m: "m = 63" by simp
  show ?case
    unfolding m by (subst (1 2) growSlots.simps) (auto simp: word_less_nat_alt unat_two_power SIZE_MAX_def intro!: exI [of _ 63])
next
  case (Suc x)
  then have IH: "(unat r \<le> 2 ^ 63 \<longrightarrow> (\<exists>j. Suc m \<le> j \<and> j \<le> 63 \<and> growSlots (2 ^ Suc m) r = Some (Some (2 ^ j))
            \<and> unat r \<le> 2 ^ j \<and> (j = Suc m \<or> 2 ^ (j - 1) < unat r)))
    \<and> (2 ^ 63 < unat r \<longrightarrow> growSlots (2 ^ Suc m) r = Some None)"
    by (intro Suc.hyps) auto
  have m: "m < 63" using Suc by simp
  then have small: "\<not> (2::size_t) ^ m > SIZE_MAX div 2"
    using power_strict_increasing [of m 63 "2::nat"] by (simp add: word_less_nat_alt unat_two_power SIZE_MAX_half unat_sub)
  show ?case
  proof (cases "(2::size_t) ^ m < r")
    case True
    then have step: "growSlots (2 ^ m) r = growSlots (2 ^ Suc m) r"
      using small by (subst growSlots.simps) (simp add: mult.commute)
    have "2 ^ m < unat r" using True m by (simp add: word_less_nat_alt unat_two_power)
    then show ?thesis unfolding step using IH by (metis Suc_leD diff_Suc_1)
  next
    case False
    then have "unat r \<le> 2 ^ m" using m by (simp add: word_less_nat_alt unat_two_power not_less)
    moreover have "(2::nat) ^ m \<le> 2 ^ 63" using m by (intro power_increasing) auto
    ultimately show ?thesis using False m by (auto simp: growSlots_stop intro!: exI [of _ m])
  qed
qed


lemma replicate_empty_slots:
  "occupied_count (replicate n empty_slot) = 0" "probing (replicate n empty_slot)"
  "unique_keys (replicate n empty_slot)" "slot_map (replicate n empty_slot) = Map.empty"
  by (auto simp: occupied_count_def probing_def unique_keys_def slot_map_def empty_slot_def)

text \<open>
  A request for more than \<open>2 ^ 62\<close> entries is refused, by the doubling check or by the overflow
  check before it; any other gets a ring with at least twice and less than four times as many
  slots as entries, if the memory is there.
\<close>

lemma table_initialize_cases:
  assumes "t = new_table"
  shows "2 ^ 62 < unat n \<Longrightarrow> table_initialize alloc t n = Some (False, t)"
    and "n = 0 \<Longrightarrow> table_initialize alloc t n = Some (if alloc 0 then (True, t\<lparr>tableInitialized := True\<rparr>) else (False, t))"
    and "0 < unat n \<Longrightarrow> unat n \<le> 2 ^ 62 \<Longrightarrow> \<exists>j\<le>63. 2 * unat n \<le> 2 ^ j \<and> 2 ^ j < 4 * unat n \<and>
      table_initialize alloc t n = Some (if alloc (2 ^ j)
        then (True, t\<lparr>slots := replicate (2 ^ j) empty_slot, residentLimit := n, tableInitialized := True\<rparr>)
        else (False, t))"
proof -
  have double: "unat (n * 2) = 2 * unat n" if "unat n < 2 ^ 63"
    using that by (simp add: unat_word_ariths)
  have nz: "n \<noteq> 0 \<and> n * 2 \<noteq> 0" if "0 < unat n" "unat n < 2 ^ 63"
    using double that by (metis nat_neq_iff mult_pos_pos unat_0 zero_less_numeral)
  have guard: "n > SIZE_MAX div 2 \<longleftrightarrow> 2 ^ 63 \<le> unat n"
    by (auto simp: word_less_nat_alt SIZE_MAX_def)
  show "table_initialize alloc t n = Some (False, t)" if big: "2 ^ 62 < unat n"
  proof (cases "unat n < 2 ^ 63")
    case True
    then have "2 ^ 63 < unat (n * 2)" using double big by simp
    then have "growSlots 1 (n * 2) = Some None" using growSlots_returns [of 0 "n * 2"] by simp
    then show ?thesis using assms nz big True by (simp add: table_initialize_def new_table_def guard)
  next
    case False
    then show ?thesis using assms big by (auto simp: table_initialize_def guard)
  qed
  show "table_initialize alloc t n = Some (if alloc 0 then (True, t\<lparr>tableInitialized := True\<rparr>) else (False, t))"
    if "n = 0"
    using that assms by (simp add: table_initialize_def new_table_def growSlots_stop)
  show "\<exists>j\<le>63. 2 * unat n \<le> 2 ^ j \<and> 2 ^ j < 4 * unat n \<and>
      table_initialize alloc t n = Some (if alloc (2 ^ j)
        then (True, t\<lparr>slots := replicate (2 ^ j) empty_slot, residentLimit := n, tableInitialized := True\<rparr>)
        else (False, t))"
    if small: "0 < unat n" "unat n \<le> 2 ^ 62"
  proof -
    have d: "unat (n * 2) = 2 * unat n" using double small by simp
    then have "unat (n * 2) \<le> 2 ^ 63" using small by simp
    then obtain j where j: "j \<le> 63" "growSlots 1 (n * 2) = Some (Some (2 ^ j))" "unat (n * 2) \<le> 2 ^ j"
        "j = 0 \<or> 2 ^ (j - 1) < unat (n * 2)"
      using growSlots_returns [of 0 "n * 2"] by auto
    have "j \<noteq> 0" using j(3) d small by (cases j) auto
    then have "(2::nat) ^ j < 4 * unat n" using j(4) d by (cases j) auto
    moreover have "table_initialize alloc t n = Some (if alloc (2 ^ j)
        then (True, t\<lparr>slots := replicate (2 ^ j) empty_slot, residentLimit := n, tableInitialized := True\<rparr>)
        else (False, t))"
      using assms nz small j guard by (simp add: table_initialize_def new_table_def unat_two_power)
    ultimately show ?thesis using j(1,3) d by auto
  qed
qed

lemma table_initialize_invar:
  assumes "table_initialize alloc new_table n = Some (True, t)"
  shows "table_invar t \<and> table_map t = Map.empty \<and> residentLimit t = n \<and> unat n \<le> 2 ^ 62"
proof (cases "unat n = 0")
  case True
  then have "n = 0" by (simp add: unat_eq_zero)
  then show ?thesis
    using assms table_initialize_cases(2) [OF refl, of n alloc] replicate_empty_slots [of 0]
    by (auto simp: table_invar_def table_map_def new_table_def split: if_splits)
next
  case False
  have "unat n \<le> 2 ^ 62"
    using assms table_initialize_cases(1) [OF refl, of n alloc] by (cases "2 ^ 62 < unat n") auto
  then obtain j where j: "j \<le> 63" "2 * unat n \<le> 2 ^ j" "t = new_table\<lparr>slots := replicate (2 ^ j) empty_slot,
      residentLimit := n, tableInitialized := True\<rparr>"
    using assms False table_initialize_cases(3) [OF refl, of n alloc] by (auto split: if_splits)
  moreover have "ring_size (2 ^ j)" using j(1) by (auto simp: ring_size_def intro: exI [of _ j])
  ultimately show ?thesis
    using \<open>unat n \<le> 2 ^ 62\<close> replicate_empty_slots [of "2 ^ j"]
    by (simp add: table_invar_def table_map_def new_table_def)
qed

lemma table_initialize_returns: "\<exists>ok t. table_initialize alloc new_table n = Some (ok, t)"
proof -
  consider "2 ^ 62 < unat n" | "n = 0" | "0 < unat n" "unat n \<le> 2 ^ 62"
    by (metis not_le not_gr_zero unat_eq_zero)
  then have "table_initialize alloc new_table n \<noteq> None"
    using table_initialize_cases [OF refl, of n alloc] by cases auto
  then show ?thesis by auto
qed

lemma table_clear_invar:
  "table_invar t \<Longrightarrow> table_invar (table_clear t) \<and> table_map (table_clear t) = Map.empty
    \<and> residentLimit (table_clear t) = residentLimit t"
  using replicate_empty_slots [of "length (slots t)"]
  by (auto simp: table_invar_def table_map_def table_clear_def map_replicate_const)

lemma table_release_new: "table_release t = new_table"
  by (simp add: table_release_def new_table_def)

section \<open>Observational refinement\<close>

text \<open>
  The abstract index is an association list with a capacity.  A run of calls on the table gives
  the answers the abstract index gives, call by call.
\<close>

datatype index_call =
    CallFind GpuDataKey
  | CallInsert GpuDataKey nat
  | CallErase GpuDataKey nat
  | CallClear

datatype index_answer = Found "nat option" | Did bool | Cleared

fun table_call :: "index_call \<Rightarrow> GpuResidencyTable \<Rightarrow> (index_answer \<times> GpuResidencyTable) option" where
  "table_call (CallFind k) t = Some (Found (table_find t k), t)"
| "table_call (CallInsert k v) t = Some (case table_insert t k v of (b, t') \<Rightarrow> (Did b, t'))"
| "table_call (CallErase k v) t = map_option (\<lambda>(b, t'). (Did b, t')) (table_erase t k v)"
| "table_call CallClear t = Some (Cleared, table_clear t)"

fun table_run :: "index_call list \<Rightarrow> GpuResidencyTable \<Rightarrow> (index_answer list \<times> GpuResidencyTable) option" where
  "table_run [] t = Some ([], t)"
| "table_run (c # cs) t =
     (case table_call c t of
        None \<Rightarrow> None
      | Some (a, t') \<Rightarrow> map_option (\<lambda>(as, t''). (a # as, t'')) (table_run cs t'))"

fun abs_call :: "nat \<Rightarrow> index_call \<Rightarrow> (GpuDataKey \<times> nat) list \<Rightarrow> index_answer \<times> (GpuDataKey \<times> nat) list" where
  "abs_call cap (CallFind k) m = (Found (map_of m k), m)"
| "abs_call cap (CallInsert k v) m =
     (if map_of m k = None \<and> length m < cap then (Did True, (k, v) # m) else (Did False, m))"
| "abs_call cap (CallErase k v) m =
     (if map_of m k = Some v then (Did True, filter (\<lambda>(k', v'). k' \<noteq> k) m) else (Did False, m))"
| "abs_call cap CallClear m = (Cleared, [])"

fun abs_run :: "nat \<Rightarrow> index_call list \<Rightarrow> (GpuDataKey \<times> nat) list \<Rightarrow> index_answer list" where
  "abs_run cap [] m = []"
| "abs_run cap (c # cs) m = (case abs_call cap c m of (a, m') \<Rightarrow> a # abs_run cap cs m')"

definition table_sim :: "GpuResidencyTable \<Rightarrow> (GpuDataKey \<times> nat) list \<Rightarrow> bool" where
  "table_sim t m \<longleftrightarrow> table_invar t \<and> table_map t = map_of m \<and> distinct (map fst m)"

lemma table_sim_size: "table_sim t m \<Longrightarrow> card (dom (table_map t)) = length m"
  unfolding table_sim_def by (metis distinct_card dom_map_of_conv_image_fst length_map set_map)

lemma map_of_filter_key: "map_of (filter (\<lambda>(k', v'). k' \<noteq> k) m) = (map_of m)(k := None)"
  by (induction m) (auto simp: fun_eq_iff)

lemma table_call_simulates:
  assumes "table_sim t m"
  shows "\<exists>t'. table_call c t = Some (fst (abs_call (unat (residentLimit t)) c m), t')
    \<and> table_sim t' (snd (abs_call (unat (residentLimit t)) c m)) \<and> residentLimit t' = residentLimit t"
proof (cases c)
  case (CallFind k)
  then show ?thesis using assms by (simp add: table_sim_def rt.find_alpha)
next
  case (CallInsert k v)
  show ?thesis
  proof (cases "map_of m k = None \<and> length m < unat (residentLimit t)")
    case True
    then obtain t' where "table_insert t k v = (True, t')" "table_invar t'"
        "table_map t' = (table_map t)(k \<mapsto> v)" "residentLimit t' = residentLimit t"
      using assms table_sim_size [OF assms] table_insert_new [of t k v] by (auto simp: table_sim_def)
    then show ?thesis using CallInsert assms True by (auto simp: table_sim_def map_of_eq_None_iff)
  next
    case False
    then have "table_insert t k v = (False, t)"
      using assms table_sim_size [OF assms] by (intro rt.ins_refused) (auto simp: table_sim_def)
    then show ?thesis using CallInsert assms False by simp
  qed
next
  case (CallErase k v)
  show ?thesis
  proof (cases "map_of m k = Some v")
    case True
    then obtain t' where "table_erase t k v = Some (True, t')" "table_invar t'"
        "table_map t' = (table_map t)(k := None)" "residentLimit t' = residentLimit t"
      using assms table_erase_found [of t k v] by (auto simp: table_sim_def)
    then show ?thesis using CallErase assms True
      by (auto simp: table_sim_def map_of_filter_key distinct_map_filter)
  next
    case False
    then have "table_erase t k v = Some (False, t)"
      using assms by (intro rt.era_refused) (auto simp: table_sim_def)
    then show ?thesis using CallErase assms False by simp
  qed
next
  case CallClear
  then show ?thesis using assms table_clear_invar [of t] by (auto simp: table_sim_def)
qed

lemma table_run_simulates:
  "table_sim t m \<Longrightarrow> \<exists>t'. table_run cs t = Some (abs_run (unat (residentLimit t)) cs m, t') \<and> table_invar t'"
proof (induction cs arbitrary: t m)
  case Nil
  then show ?case by (simp add: table_sim_def)
next
  case (Cons c cs)
  let ?cap = "unat (residentLimit t)"
  obtain t' where t': "table_call c t = Some (fst (abs_call ?cap c m), t')"
      "table_sim t' (snd (abs_call ?cap c m))" "residentLimit t' = residentLimit t"
    using table_call_simulates [OF Cons.prems] by blast
  from Cons.IH [OF t'(2)] t' show ?case by (auto split: prod.splits)
qed

section \<open>A sample table\<close>

text \<open>A table for two keys, used by the witnesses below.\<close>

definition sample_table :: GpuResidencyTable where
  "sample_table = \<lparr>slots = replicate 4 empty_slot, residentLimit = 2, residentCount = 0, tableInitialized = True\<rparr>"

definition sample_key :: "u64 \<Rightarrow> GpuDataKey" where
  "sample_key n = default_key\<lparr>frameId := n\<rparr>"

definition sample_calls :: "index_call list" where
  "sample_calls = [CallInsert (sample_key 1) 0, CallInsert (sample_key 5) 1, CallInsert (sample_key 9) 0,
     CallErase (sample_key 1) 0, CallFind (sample_key 1), CallFind (sample_key 5)]"

lemma sample_table_init: "table_initialize (\<lambda>_. True) new_table 2 = Some (True, sample_table)"
  by (simp add: table_initialize_def new_table_def growSlots.simps SIZE_MAX_def sample_table_def)

lemma sample_table_invar: "table_invar sample_table" "table_find sample_table k = None"
  using table_initialize_invar [OF sample_table_init] by (simp_all add: table_find_map)

lemma sample_insert:
  "\<exists>t. table_insert sample_table (sample_key 1) 7 = (True, t) \<and> table_invar t \<and> table_find t (sample_key 1) = Some 7"
proof -
  have "card (dom (table_map sample_table)) < unat (residentLimit sample_table)"
    unfolding table_map_card [OF sample_table_invar(1)] by (simp add: sample_table_def)
  moreover have "table_map sample_table (sample_key 1) = None"
    using sample_table_invar by (simp add: table_find_map)
  ultimately show ?thesis
    using table_insert_new [OF sample_table_invar(1), of "sample_key 1" 7] by (auto simp: table_find_map)
qed

section \<open>Properties\<close>

text \<open>C1.  After a successful initialisation, any sequence of find, insert, erase and clear calls
  returns, and answers call by call as a map with a capacity does: the linear probing, the
  backward shift and the slot arithmetic are invisible.\<close>

theorem residency_table_refines_bounded_map:
  assumes "table_initialize alloc new_table n = Some (True, t)"
  shows "\<exists>t'. table_run cs t = Some (abs_run (unat n) cs [], t') \<and> table_invar t'"
  using table_run_simulates [of t "[]" cs] table_initialize_invar [OF assms] by (simp add: table_sim_def)

theorem residency_table_refines_bounded_map_witness:
  "table_initialize (\<lambda>_. True) new_table 2 = Some (True, sample_table) \<and>
   (\<exists>t'. table_run sample_calls sample_table =
       Some ([Did True, Did True, Did False, Did True, Found None, Found (Some 1)], t') \<and> table_invar t')"
proof -
  have "abs_run (unat (2::size_t)) sample_calls [] =
      [Did True, Did True, Did False, Did True, Found None, Found (Some 1)]"
    by (simp add: sample_calls_def sample_key_def default_key_def)
  then show ?thesis
    using residency_table_refines_bounded_map [OF sample_table_init, of sample_calls] sample_table_init
    by simp
qed

text \<open>Insertion succeeds exactly when the key is absent and fewer than the limit are resident,
  and then changes the answer for that key only.\<close>

theorem table_insert_spec:
  assumes "table_invar t"
  shows "(fst (table_insert t k v) \<longleftrightarrow> table_find t k = None \<and> residentCount t < residentLimit t)
    \<and> (fst (table_insert t k v) \<longrightarrow> table_find (snd (table_insert t k v)) k' = (if k' = k then Some v else table_find t k'))
    \<and> (\<not> fst (table_insert t k v) \<longrightarrow> snd (table_insert t k v) = t)"
proof (cases "table_find t k = None \<and> residentCount t < residentLimit t")
  case True
  then obtain t' where t': "table_insert t k v = (True, t')"
    using table_insert_new [OF assms, of k v] assms by (auto simp: table_find_map table_map_card word_less_nat_alt)
  then show ?thesis using True rt.find_after_ins [OF assms t'] by simp
next
  case False
  then have "table_insert t k v = (False, t)"
    using table_insert_refused [OF assms, of k v] assms by (auto simp: table_find_map table_map_card word_less_nat_alt)
  then show ?thesis using False by simp
qed

text \<open>Erasure always returns; it succeeds exactly when the key is resident under the given entry
  index, and then forgets that key and keeps every other one, whatever the backward shift moved.\<close>

theorem table_erase_spec:
  assumes "table_invar t"
  shows "\<exists>b t'. table_erase t k v = Some (b, t') \<and> table_invar t' \<and> (b \<longleftrightarrow> table_find t k = Some v)
    \<and> (\<forall>k'. table_find t' k' = (if b \<and> k' = k then None else table_find t k'))"
proof (cases "table_find t k = Some v")
  case True
  then obtain t' where t': "table_erase t k v = Some (True, t')" "table_invar t'"
    using table_erase_found [OF assms, of k v] assms by (auto simp: table_find_map)
  then show ?thesis using True rt.find_after_era [OF assms t'(1)] by auto
next
  case False
  then show ?thesis using table_erase_refused [OF assms, of k v] assms by (auto simp: table_find_map)
qed

text \<open>Initialisation always returns. It is refused for more than \<open>2 ^ 62\<close> entries (the size
  computation would leave 64 bits); otherwise, if memory is there, the ring has a power-of-two
  number of slots, at least twice and less than four times the number of entries, all free.\<close>

theorem table_initialize_spec:
  "(2 ^ 62 < unat n \<longrightarrow> table_initialize alloc new_table n = Some (False, new_table))
   \<and> (0 < unat n \<and> unat n \<le> 2 ^ 62 \<longrightarrow>
       (\<exists>j\<le>63. 2 * unat n \<le> 2 ^ j \<and> 2 ^ j < 4 * unat n \<and>
          (alloc (2 ^ j) \<longrightarrow> (\<exists>t. table_initialize alloc new_table n = Some (True, t) \<and> table_invar t
             \<and> table_slotCount t = 2 ^ j \<and> table_entryCount t = 0 \<and> (\<forall>k. table_find t k = None)))
          \<and> (\<not> alloc (2 ^ j) \<longrightarrow> table_initialize alloc new_table n = Some (False, new_table))))"
proof (intro conjI impI)
  show "table_initialize alloc new_table n = Some (False, new_table)" if "2 ^ 62 < unat n"
    using table_initialize_cases(1) [OF refl that] .
next
  assume n: "0 < unat n \<and> unat n \<le> 2 ^ 62"
  then obtain j where j: "j \<le> 63" "2 * unat n \<le> 2 ^ j" "2 ^ j < 4 * unat n"
      "table_initialize alloc new_table n = Some (if alloc (2 ^ j)
        then (True, new_table\<lparr>slots := replicate (2 ^ j) empty_slot, residentLimit := n, tableInitialized := True\<rparr>)
        else (False, new_table))"
    using table_initialize_cases(3) [OF refl, of n alloc] by blast
  let ?t = "new_table\<lparr>slots := replicate (2 ^ j) empty_slot, residentLimit := n, tableInitialized := True\<rparr>"
  have "table_invar ?t \<and> table_slotCount ?t = 2 ^ j \<and> table_entryCount ?t = 0 \<and> (\<forall>k. table_find ?t k = None)"
    if "alloc (2 ^ j)"
    using table_initialize_invar [of alloc n ?t] j(4) that
    by (simp add: table_find_map table_slotCount_def table_entryCount_def) (simp add: new_table_def)
  then show "\<exists>j\<le>63. 2 * unat n \<le> 2 ^ j \<and> 2 ^ j < 4 * unat n \<and>
          (alloc (2 ^ j) \<longrightarrow> (\<exists>t. table_initialize alloc new_table n = Some (True, t) \<and> table_invar t
             \<and> table_slotCount t = 2 ^ j \<and> table_entryCount t = 0 \<and> (\<forall>k. table_find t k = None)))
          \<and> (\<not> alloc (2 ^ j) \<longrightarrow> table_initialize alloc new_table n = Some (False, new_table))"
    using j by (intro exI [of _ j]) auto
qed

theorem table_initialize_spec_witness:
  "table_initialize (\<lambda>_. True) new_table (2 ^ 63) = Some (False, new_table)
   \<and> (\<exists>j\<le>63. 2 * 3 \<le> (2::nat) ^ j \<and> 2 ^ j < 4 * (3::nat)
        \<and> (\<exists>t. table_initialize (\<lambda>_. True) new_table 3 = Some (True, t) \<and> table_slotCount t = 2 ^ j))"
proof -
  have three: "unat (3::size_t) = 3" by simp
  have "2 ^ 62 < unat ((2::size_t) ^ 63)" using unat_two_power [of 63] by simp
  then show ?thesis
    using table_initialize_spec [of "2 ^ 63" "\<lambda>_. True"] table_initialize_spec [of 3 "\<lambda>_. True"] three
    by auto
qed

end
