(* ===== verification/Data_Cache.thy ===== *)
theory Data_Cache
  imports Cache_Entry Residency_Table
begin

text \<open>
  \<open>DataCache/GpuDataCache.h\<close> and \<open>.cpp\<close>, with the lease type of
  \<open>DataCache/GpuDataAccess.h\<close>: the model only, method by method in the order of the source.

  The class is a record; \<open>self\<close> stands for \<open>this\<close> and \<open>notifications\<close> counts the calls of
  \<open>cacheChanged.notify_all()\<close>.  Every method below runs under the mutex, so it is one atomic
  step.  The two methods that give the mutex up are cut there: \<open>waitForCacheChange\<close> into
  \<open>wait_enter\<close> (up to the wait) and \<open>wait_leave\<close> (after it), and \<open>initialize\<close> and
  \<open>release\<close> into their critical sections and the unlocked work between them.  The loop of
  \<open>getCacheData\<close> is \<open>attempt\<close>, one pass over its body, which returns a lease or goes to
  sleep.  Times are nanoseconds of the steady clock, read by the caller and passed in.  The
  diagnostics and profiler scopes have no effect on the state and are left out.

  The result \<open>None\<close> is a C++ access out of bounds or through a null pointer, or a loop that does
  not end.
\<close>

section \<open>Leases\<close>

record GpuDataAccess =
  owner :: "nat option"
  accessData :: ptr
  accessBytes :: size_t
  entryIndex :: nat
  dataKey :: GpuDataKey
  accessStream :: stream
  deviceId :: int
  accessStatus :: CacheStatus

definition default_access :: GpuDataAccess where
  "default_access = \<lparr>owner = None, accessData = nullptr, accessBytes = 0, entryIndex = 0,
     dataKey = default_key, accessStream = nullptr, deviceId = -1, accessStatus = Invalid\<rparr>"

section \<open>The cache\<close>

record GpuDataCache =
  self :: nat
  statistics :: CacheStatistics
  notifications :: nat
  waitTimeout :: int
  evictionPolicy :: CacheEvictionPolicy
  waitingAccesses :: size_t
  entries :: "GpuDataCacheEntry option list"
  eligibleGpuIds :: "int list"
  residencyTable :: GpuResidencyTable
  emptyEntries :: "nat list"
  leastRecentlyUsed :: nat
  mostRecentlyUsed :: nat
  oldestFilled :: nat
  newestFilled :: nat
  cacheBytes :: size_t
  activeFallbackAccesses :: size_t
  cacheInitialized :: bool
  releasing :: bool
  failed :: bool

definition new_cache :: "nat \<Rightarrow> GpuDataCache" where
  "new_cache this = \<lparr>self = this, statistics = zero_statistics, notifications = 0,
     waitTimeout = 50, evictionPolicy = LRU, waitingAccesses = 0, entries = [],
     eligibleGpuIds = [], residencyTable = new_table, emptyEntries = [],
     leastRecentlyUsed = NO_ENTRY, mostRecentlyUsed = NO_ENTRY,
     oldestFilled = NO_ENTRY, newestFilled = NO_ENTRY, cacheBytes = 0,
     activeFallbackAccesses = 0, cacheInitialized = False, releasing = False, failed = False\<rparr>"

definition notify_all :: "GpuDataCache \<Rightarrow> GpuDataCache" where
  "notify_all s = s\<lparr>notifications := notifications s + 1\<rparr>"

definition count_stat :: "(CacheStatistics \<Rightarrow> CacheStatistics) \<Rightarrow> GpuDataCache \<Rightarrow> GpuDataCache" where
  "count_stat f s = s\<lparr>statistics := f (statistics s)\<rparr>"

abbreviation inc_invalid :: "CacheStatistics \<Rightarrow> CacheStatistics" where
  "inc_invalid t \<equiv> t\<lparr>invalid := invalid t + 1\<rparr>"

abbreviation inc_discard :: "CacheStatistics \<Rightarrow> CacheStatistics" where
  "inc_discard t \<equiv> t\<lparr>discard := discard t + 1\<rparr>"

abbreviation inc_fillFailed :: "CacheStatistics \<Rightarrow> CacheStatistics" where
  "inc_fillFailed t \<equiv> t\<lparr>fillFailed := fillFailed t + 1\<rparr>"

abbreviation inc_fillSucceeded :: "CacheStatistics \<Rightarrow> CacheStatistics" where
  "inc_fillSucceeded t \<equiv> t\<lparr>fillSucceeded := fillSucceeded t + 1\<rparr>"

text \<open>\<open>*entries[i]\<close>: no value out of bounds or for a null pointer.\<close>

definition entry_at :: "GpuDataCache \<Rightarrow> nat \<Rightarrow> GpuDataCacheEntry option" where
  "entry_at s i = (if i < length (entries s) then entries s ! i else None)"

definition modify_entry ::
  "nat \<Rightarrow> (GpuDataCacheEntry \<Rightarrow> GpuDataCacheEntry) \<Rightarrow> GpuDataCache \<Rightarrow> GpuDataCache option" where
  "modify_entry i f s =
     (case entry_at s i of None \<Rightarrow> None | Some e \<Rightarrow> Some (s\<lparr>entries := (entries s)[i := Some (f e)]\<rparr>))"

subsection \<open>The two intrusive lists\<close>

definition addEvictableEntry :: "nat \<Rightarrow> GpuDataCache \<Rightarrow> (bool \<times> GpuDataCache) option" where
  "addEvictableEntry index s =
     (case entry_at s index of
        None \<Rightarrow> Some (False, s)
      | Some e \<Rightarrow>
          if cacheState e \<noteq> Valid \<or> activeAccesses e \<noteq> 0 \<or> inEvictableList e then Some (False, s)
          else do {
            s1 \<leftarrow> modify_entry index (\<lambda>e. e\<lparr>previousEvictable := mostRecentlyUsed s,
                    nextEvictable := NO_ENTRY, inEvictableList := True\<rparr>) s;
            s2 \<leftarrow> (if mostRecentlyUsed s1 \<noteq> NO_ENTRY
                   then modify_entry (mostRecentlyUsed s1) (\<lambda>e. e\<lparr>nextEvictable := index\<rparr>) s1
                   else Some (s1\<lparr>leastRecentlyUsed := index\<rparr>));
            Some (True, notify_all (s2\<lparr>mostRecentlyUsed := index\<rparr>))
          })"

definition removeEvictableEntry :: "nat \<Rightarrow> GpuDataCache \<Rightarrow> (bool \<times> GpuDataCache) option" where
  "removeEvictableEntry index s =
     (case entry_at s index of
        None \<Rightarrow> Some (False, s)
      | Some e \<Rightarrow>
          if \<not> inEvictableList e then Some (False, s)
          else do {
            s1 \<leftarrow> (if previousEvictable e \<noteq> NO_ENTRY
                   then modify_entry (previousEvictable e) (\<lambda>p. p\<lparr>nextEvictable := nextEvictable e\<rparr>) s
                   else Some (s\<lparr>leastRecentlyUsed := nextEvictable e\<rparr>));
            e1 \<leftarrow> entry_at s1 index;
            s2 \<leftarrow> (if nextEvictable e1 \<noteq> NO_ENTRY
                   then modify_entry (nextEvictable e1) (\<lambda>n. n\<lparr>previousEvictable := previousEvictable e1\<rparr>) s1
                   else Some (s1\<lparr>mostRecentlyUsed := previousEvictable e1\<rparr>));
            s3 \<leftarrow> modify_entry index (\<lambda>e. e\<lparr>previousEvictable := NO_ENTRY,
                    nextEvictable := NO_ENTRY, inEvictableList := False\<rparr>) s2;
            Some (True, s3)
          })"

definition addFilledEntry :: "nat \<Rightarrow> GpuDataCache \<Rightarrow> (bool \<times> GpuDataCache) option" where
  "addFilledEntry index s =
     (if evictionPolicy s \<noteq> FIFO then Some (True, s)
      else case entry_at s index of
        None \<Rightarrow> Some (False, s)
      | Some e \<Rightarrow>
          if cacheState e \<noteq> Valid \<or> activeAccesses e \<noteq> 0 \<or> inFilledList e then Some (False, s)
          else do {
            s1 \<leftarrow> modify_entry index (\<lambda>e. e\<lparr>previousFilled := newestFilled s,
                    nextFilled := NO_ENTRY, inFilledList := True\<rparr>) s;
            s2 \<leftarrow> (if newestFilled s1 \<noteq> NO_ENTRY
                   then modify_entry (newestFilled s1) (\<lambda>e. e\<lparr>nextFilled := index\<rparr>) s1
                   else Some (s1\<lparr>oldestFilled := index\<rparr>));
            Some (True, s2\<lparr>newestFilled := index\<rparr>)
          })"

definition removeFilledEntry :: "nat \<Rightarrow> GpuDataCache \<Rightarrow> (bool \<times> GpuDataCache) option" where
  "removeFilledEntry index s =
     (case entry_at s index of
        None \<Rightarrow> Some (False, s)
      | Some e \<Rightarrow>
          if \<not> inFilledList e then Some (False, s)
          else do {
            s1 \<leftarrow> (if previousFilled e \<noteq> NO_ENTRY
                   then modify_entry (previousFilled e) (\<lambda>p. p\<lparr>nextFilled := nextFilled e\<rparr>) s
                   else Some (s\<lparr>oldestFilled := nextFilled e\<rparr>));
            e1 \<leftarrow> entry_at s1 index;
            s2 \<leftarrow> (if nextFilled e1 \<noteq> NO_ENTRY
                   then modify_entry (nextFilled e1) (\<lambda>n. n\<lparr>previousFilled := previousFilled e1\<rparr>) s1
                   else Some (s1\<lparr>newestFilled := previousFilled e1\<rparr>));
            s3 \<leftarrow> modify_entry index (\<lambda>e. e\<lparr>previousFilled := NO_ENTRY,
                    nextFilled := NO_ENTRY, inFilledList := False\<rparr>) s2;
            Some (True, s3)
          })"

subsection \<open>Candidates\<close>

partial_function (option) fifoScan :: "GpuDataCache \<Rightarrow> nat \<Rightarrow> nat option" where
  "fifoScan s index =
     (if index = NO_ENTRY then Some NO_ENTRY
      else case entry_at s index of
             None \<Rightarrow> None
           | Some e \<Rightarrow> if activeAccesses e \<noteq> 0 then fifoScan s (nextFilled e) else Some index)"

text \<open>The index, the value of \<open>wasEmpty\<close> afterwards (false before the call), and the cache.\<close>

definition takeCandidate :: "GpuDataCache \<Rightarrow> (nat \<times> bool \<times> GpuDataCache) option" where
  "takeCandidate s =
     (if emptyEntries s \<noteq> []
      then Some (last (emptyEntries s), True, s\<lparr>emptyEntries := butlast (emptyEntries s)\<rparr>)
      else if leastRecentlyUsed s = NO_ENTRY then Some (NO_ENTRY, False, s)
      else do {
        index \<leftarrow> (if evictionPolicy s = FIFO then fifoScan s (oldestFilled s)
                  else Some (leastRecentlyUsed s));
        if index = NO_ENTRY then Some (NO_ENTRY, False, s)
        else do {
          (removed, s1) \<leftarrow> removeEvictableEntry index s;
          if \<not> removed then Some (NO_ENTRY, False, s1) else Some (index, False, s1)
        }
      })"

definition restoreCandidate :: "nat \<Rightarrow> bool \<Rightarrow> GpuDataCache \<Rightarrow> GpuDataCache option" where
  "restoreCandidate index wasEmpty s =
     (if wasEmpty then Some (s\<lparr>emptyEntries := emptyEntries s @ [index]\<rparr>)
      else do { (_, s1) \<leftarrow> addEvictableEntry index s; Some s1 })"

subsection \<open>Resetting entries\<close>

definition clear_entry :: "GpuDataCacheEntry \<Rightarrow> GpuDataCacheEntry" where
  "clear_entry e = (invalidateReplicas (e\<lparr>metadata := default_metadata\<rparr>))
     \<lparr>cacheState := Empty, activeAccesses := 0,
      previousEvictable := NO_ENTRY, nextEvictable := NO_ENTRY, inEvictableList := False,
      previousFilled := NO_ENTRY, nextFilled := NO_ENTRY, inFilledList := False,
      discardWhenUnused := False\<rparr>"

definition resetEntry :: "nat \<Rightarrow> GpuDataCache \<Rightarrow> GpuDataCache option" where
  "resetEntry index s =
     do {
       e \<leftarrow> entry_at s index;
       (_, s1) \<leftarrow> (if inEvictableList e then removeEvictableEntry index s else Some (False, s));
       e1 \<leftarrow> entry_at s1 index;
       (_, s2) \<leftarrow> (if inFilledList e1 then removeFilledEntry index s1 else Some (False, s1));
       e2 \<leftarrow> entry_at s2 index;
       (_, t) \<leftarrow> table_erase (residencyTable s2) (key (metadata e2)) index;
       s3 \<leftarrow> modify_entry index clear_entry (s2\<lparr>residencyTable := t\<rparr>);
       Some (notify_all (s3\<lparr>emptyEntries := emptyEntries s3 @ [index]\<rparr>))
     }"

definition releaseReaderEntry :: "nat \<Rightarrow> GpuDataCache \<Rightarrow> (bool \<times> GpuDataCache) option" where
  "releaseReaderEntry index s =
     do {
       e \<leftarrow> entry_at s index;
       if activeAccesses e \<noteq> 0 then Some (True, s)
       else if discardWhenUnused e
       then do { s1 \<leftarrow> resetEntry index s; Some (True, count_stat inc_discard s1) }
       else addEvictableEntry index s
     }"

fun clear_from :: "nat \<Rightarrow> GpuDataCache \<Rightarrow> GpuDataCache option" where
  "clear_from 0 s = Some s"
| "clear_from (Suc index) s =
     do {
       s1 \<leftarrow> modify_entry index clear_entry s;
       clear_from index (s1\<lparr>emptyEntries := emptyEntries s1 @ [index]\<rparr>)
     }"

definition resetEntriesLocked :: "GpuDataCache \<Rightarrow> GpuDataCache option" where
  "resetEntriesLocked s =
     clear_from (length (entries s))
       (s\<lparr>residencyTable := table_clear (residencyTable s), emptyEntries := [],
          leastRecentlyUsed := NO_ENTRY, mostRecentlyUsed := NO_ENTRY,
          oldestFilled := NO_ENTRY, newestFilled := NO_ENTRY\<rparr>)"

definition entry_idle :: "GpuDataCacheEntry option \<Rightarrow> bool" where
  "entry_idle x = (case x of None \<Rightarrow> False | Some e \<Rightarrow> activeAccesses e = 0 \<and> cacheState e \<noteq> Loading)"

definition canResetLocked :: "GpuDataCache \<Rightarrow> bool" where
  "canResetLocked s =
     (if activeFallbackAccesses s \<noteq> 0 \<or> waitingAccesses s \<noteq> 0 then False
      else list_all entry_idle (entries s))"

definition resetCache :: "GpuDataCache \<Rightarrow> (CacheStatistics option \<times> GpuDataCache) option" where
  "resetCache s =
     (if \<not> cacheInitialized s \<or> releasing s \<or> failed s \<or> \<not> canResetLocked s then Some (None, s)
      else do {
        s1 \<leftarrow> resetEntriesLocked (s\<lparr>statistics := zero_statistics\<rparr>);
        Some (Some (statistics s), s1)
      })"

subsection \<open>Requests\<close>

definition STEADY_MAX :: int where
  "STEADY_MAX = 2 ^ 63 - 1"

record RequestState =
  deadline :: int
  blocked :: bool
  waited :: bool
  requestWait :: int
  waitStarted :: int

datatype attempt_result = Returned GpuDataAccess | Sleeping

definition request_invalid :: "FrameMetadata \<Rightarrow> GpuCacheRequest \<Rightarrow> GpuDataCache \<Rightarrow> bool" where
  "request_invalid md rq s \<longleftrightarrow>
     \<not> cacheInitialized s \<or> releasing s \<or> failed s \<or> bytes md \<noteq> cacheBytes s
     \<or> width md \<le> 0 \<or> height md \<le> 0 \<or> req_gpuId rq < 0 \<or> req_stream rq = nullptr
     \<or> d_fallback rq = nullptr \<or> fallbackBytes rq < cacheBytes s
     \<or> req_gpuId rq \<notin> set (eligibleGpuIds s)"

definition request_deadline :: "int \<Rightarrow> GpuDataCache \<Rightarrow> int" where
  "request_deadline started s =
     (let maximumWait = (STEADY_MAX - started) div 1000000
      in started + min (waitTimeout s) maximumWait * 1000000)"

text \<open>The part of \<open>getCacheData\<close> before its loop.\<close>

definition getCacheData_begin ::
  "FrameMetadata \<Rightarrow> GpuCacheRequest \<Rightarrow> int \<Rightarrow> GpuDataCache \<Rightarrow> RequestState option \<times> GpuDataCache" where
  "getCacheData_begin md rq started s =
     (if request_invalid md rq s then (None, count_stat inc_invalid s)
      else (Some \<lparr>deadline = request_deadline started s, blocked = False, waited = False,
                  requestWait = 0, waitStarted = 0\<rparr>, s))"

definition makeFallbackAccess ::
  "FrameMetadata \<Rightarrow> GpuCacheRequest \<Rightarrow> CacheFallbackReason \<Rightarrow> GpuDataCache \<Rightarrow> GpuDataAccess \<times> GpuDataCache" where
  "makeFallbackAccess md rq reason s =
     (\<lparr>owner = Some (self s), accessData = d_fallback rq, accessBytes = cacheBytes s,
       entryIndex = NO_ENTRY, dataKey = key md, accessStream = req_stream rq,
       deviceId = req_gpuId rq, accessStatus = TaskFallback\<rparr>,
      (count_stat (\<lambda>t. t\<lparr>fallback := fallback t + 1,
                          fallbackReasons := count_reason reason (fallbackReasons t)\<rparr>) s)
        \<lparr>activeFallbackAccesses := activeFallbackAccesses s + 1\<rparr>)"

text \<open>\<open>waitForCacheChange\<close> up to the wait; \<open>now\<close> and \<open>start\<close> are its two clock reads.\<close>

definition wait_enter ::
  "int \<Rightarrow> int \<Rightarrow> RequestState \<Rightarrow> GpuDataCache \<Rightarrow> bool \<times> RequestState \<times> GpuDataCache" where
  "wait_enter now start r s =
     (if entries s = [] \<or> waitTimeout s = 0 \<or> now \<ge> deadline r then (False, r, s)
      else let s1 = (if waited r then s
                     else count_stat (\<lambda>t. t\<lparr>waitedRequests := waitedRequests t + 1\<rparr>) s)
           in (True, r\<lparr>waited := True, waitStarted := start\<rparr>,
               s1\<lparr>waitingAccesses := waitingAccesses s1 + 1\<rparr>))"

text \<open>\<open>waitForCacheChange\<close> after the wait.\<close>

definition wait_leave :: "int \<Rightarrow> RequestState \<Rightarrow> GpuDataCache \<Rightarrow> RequestState \<times> GpuDataCache" where
  "wait_leave now r s =
     (let elapsed = now - waitStarted r;
          r1 = r\<lparr>requestWait := requestWait r + elapsed\<rparr>
      in (r1, (count_stat (\<lambda>t. t\<lparr>totalWaitTime := totalWaitTime t + elapsed,
                                  maxWaitTime := max (maxWaitTime t) (requestWait r1)\<rparr>) s)
                \<lparr>waitingAccesses := waitingAccesses s - 1\<rparr>))"

abbreviation invalid_return ::
  "RequestState \<Rightarrow> GpuDataCache \<Rightarrow> (attempt_result \<times> RequestState \<times> GpuDataCache) option" where
  "invalid_return r s \<equiv> Some (Returned default_access, r, count_stat inc_invalid s)"

text \<open>Block on a cache change, or fall back when there is nothing to wait for.\<close>

definition block_or_fall_back ::
  "int \<Rightarrow> int \<Rightarrow> FrameMetadata \<Rightarrow> GpuCacheRequest \<Rightarrow> CacheFallbackReason \<Rightarrow> CacheFallbackReason
     \<Rightarrow> (CacheStatistics \<Rightarrow> CacheStatistics) \<Rightarrow> RequestState \<Rightarrow> GpuDataCache
     \<Rightarrow> attempt_result \<times> RequestState \<times> GpuDataCache" where
  "block_or_fall_back now start md rq noWait timedOut firstBlocked r s =
     (let s1 = (if blocked r then s else count_stat firstBlocked s);
          (sleeps, r2, s2) = wait_enter now start (r\<lparr>blocked := True\<rparr>) s1
      in if sleeps then (Sleeping, r2, s2)
         else let (a, s3) = makeFallbackAccess md rq (if waitTimeout s2 = 0 then noWait else timedOut) s2
              in (Returned a, r2, s3))"

definition attempt_resident ::
  "int \<Rightarrow> int \<Rightarrow> FrameMetadata \<Rightarrow> GpuCacheRequest \<Rightarrow> nat \<Rightarrow> RequestState \<Rightarrow> GpuDataCache
     \<Rightarrow> (attempt_result \<times> RequestState \<times> GpuDataCache) option" where
  "attempt_resident now start md rq index r s =
     (case entry_at s index of
        None \<Rightarrow> invalid_return r s
      | Some e \<Rightarrow>
          if \<not> metadata_eq (metadata e) md then invalid_return r s
          else if cacheState e = Loading
          then Some (block_or_fall_back now start md rq LoadingNoWait LoadingTimeout
                       (\<lambda>t. t\<lparr>firstBlockedLoading := firstBlockedLoading t + 1\<rparr>) r s)
          else if cacheState e \<noteq> Valid then invalid_return r s
          else if dataForGpu (req_gpuId rq) e = nullptr \<or> \<not> replicaValid (req_gpuId rq) e
          then let (a, s1) = makeFallbackAccess md rq ReplicaUnavailable s in Some (Returned a, r, s1)
          else if evictionPolicy s = FIFO \<and> \<not> inFilledList e then invalid_return r s
          else do {
            (leased, s1) \<leftarrow> (if activeAccesses e = 0 then removeEvictableEntry index s
                             else Some (\<not> inEvictableList e, s));
            if \<not> leased then invalid_return r s1
            else do {
              s2 \<leftarrow> modify_entry index (\<lambda>e. e\<lparr>activeAccesses := activeAccesses e + 1\<rparr>)
                     (count_stat (\<lambda>t. t\<lparr>hit := hit t + 1\<rparr>) s1);
              Some (Returned \<lparr>owner = Some (self s), accessData = dataForGpu (req_gpuId rq) e,
                      accessBytes = cacheBytes s, entryIndex = index, dataKey = key md,
                      accessStream = req_stream rq, deviceId = req_gpuId rq,
                      accessStatus = CacheHit\<rparr>, r, s2)
            }
          })"

text \<open>
  The reservation of a candidate taken by \<open>takeCandidate\<close>: the victim's key leaves the table, the
  new key enters, the entry turns to \<open>Loading\<close>.  Every failure undoes what was done before it.
\<close>

definition reserve_candidate ::
  "FrameMetadata \<Rightarrow> GpuCacheRequest \<Rightarrow> nat \<Rightarrow> bool \<Rightarrow> RequestState \<Rightarrow> GpuDataCache
     \<Rightarrow> (attempt_result \<times> RequestState \<times> GpuDataCache) option" where
  "reserve_candidate md rq index wasEmpty r s =
     do {
       e \<leftarrow> entry_at s index;
       if dataForGpu (req_gpuId rq) e = nullptr
       then do { s1 \<leftarrow> restoreCandidate index wasEmpty s; invalid_return r s1 }
       else if cacheState e \<noteq> (if wasEmpty then Empty else Valid) \<or> activeAccesses e \<noteq> 0
               \<or> inEvictableList e
       then do { s1 \<leftarrow> restoreCandidate index wasEmpty s; invalid_return r s1 }
       else do {
         (erased, t1) \<leftarrow> (if wasEmpty then Some (True, residencyTable s)
                          else table_erase (residencyTable s) (key (metadata e)) index);
         if \<not> erased
         then do { s1 \<leftarrow> restoreCandidate index False (s\<lparr>residencyTable := t1\<rparr>); invalid_return r s1 }
         else let (inserted, t2) = table_insert t1 (key md) index
              in if \<not> inserted
                 then let t3 = (if wasEmpty then t2
                                else snd (table_insert t2 (key (metadata e)) index))
                      in do { s1 \<leftarrow> restoreCandidate index wasEmpty (s\<lparr>residencyTable := t3\<rparr>);
                              invalid_return r s1 }
                 else do {
                   (unlinked, s3) \<leftarrow> (if \<not> wasEmpty \<and> evictionPolicy s = FIFO
                                       then removeFilledEntry index (s\<lparr>residencyTable := t2\<rparr>)
                                       else Some (True, s\<lparr>residencyTable := t2\<rparr>));
                   if \<not> unlinked
                   then do {
                     (_, t4) \<leftarrow> table_erase (residencyTable s3) (key md) index;
                     s4 \<leftarrow> restoreCandidate index False
                            (s3\<lparr>residencyTable := snd (table_insert t4 (key (metadata e)) index)\<rparr>);
                     invalid_return r s4
                   }
                   else do {
                     s5 \<leftarrow> modify_entry index
                            (\<lambda>e. (invalidateReplicas (e\<lparr>metadata := md\<rparr>))
                              \<lparr>cacheState := Loading, activeAccesses := 1, discardWhenUnused := False\<rparr>)
                            (count_stat (\<lambda>t. t\<lparr>fill := fill t + 1,
                                eviction := (if wasEmpty then eviction t else eviction t + 1)\<rparr>) s3);
                     Some (Returned \<lparr>owner = Some (self s), accessData = dataForGpu (req_gpuId rq) e,
                             accessBytes = cacheBytes s, entryIndex = index, dataKey = key md,
                             accessStream = req_stream rq, deviceId = req_gpuId rq,
                             accessStatus = CacheFill\<rparr>, r, s5)
                   }
                 }
       }
     }"

definition attempt_miss ::
  "int \<Rightarrow> int \<Rightarrow> FrameMetadata \<Rightarrow> GpuCacheRequest \<Rightarrow> RequestState \<Rightarrow> GpuDataCache
     \<Rightarrow> (attempt_result \<times> RequestState \<times> GpuDataCache) option" where
  "attempt_miss now start md rq r s =
     do {
       (index, wasEmpty, s1) \<leftarrow> takeCandidate s;
       if index = NO_ENTRY
       then if entries s1 = []
            then let (a, s2) = makeFallbackAccess md rq CapacityZero s1 in Some (Returned a, r, s2)
            else Some (block_or_fall_back now start md rq FullNoWait FullTimeout
                         (\<lambda>t. t\<lparr>firstBlockedFull := firstBlockedFull t + 1\<rparr>) r s1)
       else reserve_candidate md rq index wasEmpty r s1
     }"

definition attempt ::
  "int \<Rightarrow> int \<Rightarrow> FrameMetadata \<Rightarrow> GpuCacheRequest \<Rightarrow> RequestState \<Rightarrow> GpuDataCache
     \<Rightarrow> (attempt_result \<times> RequestState \<times> GpuDataCache) option" where
  "attempt now start md rq r s =
     (if failed s then invalid_return r s
      else case table_find (residencyTable s) (key md) of
             Some index \<Rightarrow> attempt_resident now start md rq index r s
           | None \<Rightarrow> attempt_miss now start md rq r s)"

subsection \<open>Finishing a lease\<close>

definition noteSyncFailure :: "GpuDataCache \<Rightarrow> GpuDataCache" where
  "noteSyncFailure s =
     notify_all ((count_stat (\<lambda>t. t\<lparr>syncFailures := syncFailures t + 1\<rparr>) s)\<lparr>failed := True\<rparr>)"

definition lease_matches :: "GpuDataAccess \<Rightarrow> GpuDataCacheEntry \<Rightarrow> GpuDataCache \<Rightarrow> bool" where
  "lease_matches a e s \<longleftrightarrow> key_eq (key (metadata e)) (dataKey a)
     \<and> dataForGpu (deviceId a) e = accessData a \<and> accessBytes a = cacheBytes s"

text \<open>
  The \<open>CacheHit\<close> branch of \<open>completeAccess\<close>: the entry the lease names, if it is still the one
  that was leased.
\<close>

definition complete_hit ::
  "GpuDataAccess \<Rightarrow> CacheRetention \<Rightarrow> GpuDataCacheEntry \<Rightarrow> GpuDataCache \<Rightarrow> (bool \<times> GpuDataCache) option" where
  "complete_hit a retention e s =
     (if cacheState e = Valid \<and> activeAccesses e > 0 \<and> \<not> inEvictableList e \<and> replicaValid (deviceId a) e
      then do {
        s1 \<leftarrow> modify_entry (entryIndex a) (\<lambda>e. e\<lparr>discardWhenUnused := (discardWhenUnused e \<or> retention = Discard),
                activeAccesses := activeAccesses e - 1\<rparr>) s;
        releaseReaderEntry (entryIndex a) s1
      }
      else Some (False, s))"

text \<open>
  The \<open>CacheFill\<close> branch: the values of \<open>valid\<close> and \<open>succeeded\<close> after it, and the cache.
\<close>

definition complete_fill ::
  "GpuDataAccess \<Rightarrow> bool \<Rightarrow> CacheRetention \<Rightarrow> GpuDataCacheEntry \<Rightarrow> GpuDataCache
     \<Rightarrow> (bool \<times> bool \<times> GpuDataCache) option" where
  "complete_fill a succeeded retention e s =
     (if \<not> (cacheState e = Loading \<and> activeAccesses e = 1 \<and> \<not> inEvictableList e)
      then Some (False, False, s)
      else if \<not> succeeded
      then do { s1 \<leftarrow> resetEntry (entryIndex a) s; Some (True, False, s1) }
      else if \<not> fst (markReplicaValid (deviceId a) e)
      then do { s1 \<leftarrow> resetEntry (entryIndex a) s; Some (True, False, s1) }
      else do {
        s1 \<leftarrow> modify_entry (entryIndex a)
               (\<lambda>e. (snd (markReplicaValid (deviceId a) e))\<lparr>cacheState := Valid, activeAccesses := 0\<rparr>) s;
        if retention = Discard
        then do { s2 \<leftarrow> resetEntry (entryIndex a) s1; Some (True, True, count_stat inc_discard s2) }
        else do {
          (filled, s2) \<leftarrow> addFilledEntry (entryIndex a) s1;
          (listed, s3) \<leftarrow> (if filled then addEvictableEntry (entryIndex a) s2 else Some (False, s2));
          if filled \<and> listed then Some (True, True, s3)
          else do { s4 \<leftarrow> resetEntry (entryIndex a) s3; Some (True, False, s4) }
        }
      })"

definition completeAccess ::
  "GpuDataAccess \<Rightarrow> bool \<Rightarrow> CacheRetention \<Rightarrow> GpuDataCache
     \<Rightarrow> (bool \<times> GpuDataAccess \<times> GpuDataCache) option" where
  "completeAccess a succeeded retention s =
     (if owner a \<noteq> Some (self s) then Some (False, a, s)
      else if accessStatus a = TaskFallback
      then let v = (cacheInitialized s \<and> \<not> releasing s \<and> activeFallbackAccesses s > 0
                    \<and> entryIndex a = NO_ENTRY \<and> accessData a \<noteq> nullptr \<and> accessBytes a = cacheBytes s)
           in Some (v \<and> succeeded, default_access,
                    if v then s\<lparr>activeFallbackAccesses := activeFallbackAccesses s - 1\<rparr> else s)
      else let target = (if cacheInitialized s \<and> \<not> releasing s
                         then case entry_at s (entryIndex a) of
                                Some e \<Rightarrow> if lease_matches a e s then Some e else None
                              | None \<Rightarrow> None
                         else None)
           in case accessStatus a of
                CacheHit \<Rightarrow> do {
                  (v, s1) \<leftarrow> (case target of None \<Rightarrow> Some (False, s) | Some e \<Rightarrow> complete_hit a retention e s);
                  Some (v \<and> succeeded, default_access, s1)
                }
              | CacheFill \<Rightarrow> do {
                  (v, ok, s1) \<leftarrow> (case target of
                      None \<Rightarrow> Some (False, False, s)
                    | Some e \<Rightarrow> complete_fill a succeeded retention e s);
                  Some (v \<and> ok, default_access,
                        count_stat (if v \<and> ok then inc_fillSucceeded else inc_fillFailed) s1)
                }
              | _ \<Rightarrow> Some (False, default_access, s))"

definition abortAccess :: "GpuDataAccess \<Rightarrow> GpuDataCache \<Rightarrow> (GpuDataAccess \<times> GpuDataCache) option" where
  "abortAccess a s =
     (if owner a \<noteq> Some (self s) then Some (a, s)
      else if accessStatus a = TaskFallback
      then Some (default_access,
                 if activeFallbackAccesses s > 0
                 then s\<lparr>activeFallbackAccesses := activeFallbackAccesses s - 1\<rparr> else s)
      else let s1 = (if accessStatus a = CacheFill then count_stat inc_fillFailed s else s)
           in if entryIndex a < length (entries s1)
              then do {
                e \<leftarrow> entry_at s1 (entryIndex a);
                if lease_matches a e s1 \<and> accessStatus a = CacheHit \<and> cacheState e = Valid
                   \<and> activeAccesses e > 0 \<and> \<not> inEvictableList e
                then do {
                  s2 \<leftarrow> modify_entry (entryIndex a) (\<lambda>e. e\<lparr>activeAccesses := activeAccesses e - 1\<rparr>) s1;
                  (_, s3) \<leftarrow> releaseReaderEntry (entryIndex a) s2;
                  Some (default_access, s3)
                }
                else if lease_matches a e s1 \<and> accessStatus a = CacheFill \<and> cacheState e = Loading
                        \<and> activeAccesses e = 1 \<and> \<not> inEvictableList e
                then do { s2 \<leftarrow> resetEntry (entryIndex a) s1; Some (default_access, s2) }
                else Some (default_access, s1)
              }
              else Some (default_access, s1))"

end
