(* ===== verification/Intrusive_List.thy ===== *)
theory Intrusive_List
  imports GPUInfra_Prelude
begin

text \<open>
  The doubly linked list the cache threads through its entries, twice: the evictable list and the
  filled list.  Links are vector positions with \<open>NO_ENTRY\<close> as the end.  This theory states the
  shape once, on the four link functions of a view, and proves the effect of the two operations of
  the code, append at the tail and unlink, on the list a view represents.  \<open>Data_Cache\<close> shows
  that its four list methods act on its two views as these operations do.
\<close>

section \<open>Views\<close>

record link_view =
  prv :: "nat \<Rightarrow> nat"
  nxt :: "nat \<Rightarrow> nat"
  member :: "nat \<Rightarrow> bool"
  first :: nat
  final :: nat

definition link_append :: "nat \<Rightarrow> link_view \<Rightarrow> link_view" where
  "link_append i v =
     \<lparr>prv = (prv v)(i := final v),
      nxt = (if final v \<noteq> NO_ENTRY then ((nxt v)(i := NO_ENTRY))(final v := i) else (nxt v)(i := NO_ENTRY)),
      member = (member v)(i := True),
      first = (if final v \<noteq> NO_ENTRY then first v else i),
      final = i\<rparr>"

definition link_remove :: "nat \<Rightarrow> link_view \<Rightarrow> link_view" where
  "link_remove i v =
     \<lparr>prv = (if nxt v i \<noteq> NO_ENTRY then (prv v)(nxt v i := prv v i) else prv v)(i := NO_ENTRY),
      nxt = (if prv v i \<noteq> NO_ENTRY then (nxt v)(prv v i := nxt v i) else nxt v)(i := NO_ENTRY),
      member = (member v)(i := False),
      first = (if prv v i \<noteq> NO_ENTRY then first v else nxt v i),
      final = (if nxt v i \<noteq> NO_ENTRY then final v else prv v i)\<rparr>"

section \<open>What a view represents\<close>

text \<open>
  \<open>linked p q v xs\<close>: the positions \<open>xs\<close> are chained in this order, the first one points back to
  \<open>p\<close> and the last one forward to \<open>q\<close>.
\<close>

fun linked :: "nat \<Rightarrow> nat \<Rightarrow> link_view \<Rightarrow> nat list \<Rightarrow> bool" where
  "linked p q v [] \<longleftrightarrow> True"
| "linked p q v (x # xs) \<longleftrightarrow> prv v x = p \<and> nxt v x = (case xs of [] \<Rightarrow> q | y # _ \<Rightarrow> y) \<and> linked x q v xs"

definition hd_or :: "nat list \<Rightarrow> nat" where
  "hd_or xs = (case xs of [] \<Rightarrow> NO_ENTRY | x # _ \<Rightarrow> x)"

definition last_or :: "nat list \<Rightarrow> nat" where
  "last_or xs = (if xs = [] then NO_ENTRY else last xs)"

definition represents :: "link_view \<Rightarrow> nat list \<Rightarrow> bool" where
  "represents v xs \<longleftrightarrow> distinct xs \<and> NO_ENTRY \<notin> set xs
     \<and> first v = hd_or xs \<and> final v = last_or xs
     \<and> linked NO_ENTRY NO_ENTRY v xs
     \<and> (\<forall>i. member v i \<longleftrightarrow> i \<in> set xs)"

lemma hd_or_simps [simp]: "hd_or [] = NO_ENTRY" "hd_or (x # xs) = x"
  by (simp_all add: hd_or_def)

lemma last_or_simps [simp]: "last_or [] = NO_ENTRY" "last_or [x] = x" "last_or (xs @ [x]) = x"
  by (simp_all add: last_or_def)

lemma hd_or_append: "hd_or (xs @ ys) = (if xs = [] then hd_or ys else hd xs)"
  by (cases xs) simp_all

lemma linked_append:
  "linked p q v (xs @ ys) \<longleftrightarrow>
     linked p (case ys of [] \<Rightarrow> q | y # _ \<Rightarrow> y) v xs \<and> linked (if xs = [] then p else last xs) q v ys"
  by (induction xs arbitrary: p) (auto split: list.splits)

lemma linked_cong:
  "\<forall>x\<in>set xs. prv v x = prv v' x \<and> nxt v x = nxt v' x \<Longrightarrow> linked p q v xs \<longleftrightarrow> linked p q v' xs"
  by (induction xs arbitrary: p) auto

lemma represents_empty:
  "first v = NO_ENTRY \<Longrightarrow> final v = NO_ENTRY \<Longrightarrow> (\<And>i. \<not> member v i) \<Longrightarrow> represents v []"
  by (simp add: represents_def)

lemma linked_unique:
  "linked p q v xs \<Longrightarrow> linked p q v ys \<Longrightarrow> hd_or xs = hd_or ys \<Longrightarrow> set xs = set ys \<Longrightarrow>
     distinct xs \<Longrightarrow> distinct ys \<Longrightarrow> xs = ys"
proof (induction xs arbitrary: ys p)
  case Nil
  then show ?case by simp
next
  case (Cons x xs)
  then obtain ys' where ys: "ys = x # ys'"
    by (cases ys) auto
  have "set xs = set ys'" using Cons.prems(4-6) ys by auto
  moreover have "hd_or xs = hd_or ys'"
    using Cons.prems(1,2) \<open>set xs = set ys'\<close> unfolding ys by (cases xs; cases ys') simp_all
  ultimately have "xs = ys'"
    using Cons.prems unfolding ys by (intro Cons.IH [of x]) simp_all
  then show ?case using ys by simp
qed

lemma representsD:
  assumes "represents v xs"
  shows "distinct xs" "NO_ENTRY \<notin> set xs" "first v = hd_or xs" "final v = last_or xs"
    "linked NO_ENTRY NO_ENTRY v xs" "member v i \<longleftrightarrow> i \<in> set xs"
  using assms by (simp_all add: represents_def)

lemma represents_unique: "represents v xs \<Longrightarrow> represents v ys \<Longrightarrow> xs = ys"
  using representsD [of v xs] representsD [of v ys]
  by (intro linked_unique [of NO_ENTRY NO_ENTRY v]) (simp_all add: set_eq_iff)

section \<open>The operations on represented lists\<close>

lemma represents_append:
  assumes "represents v xs" "i \<notin> set xs" "i \<noteq> NO_ENTRY"
  shows "represents (link_append i v) (xs @ [i])"
proof (cases xs rule: rev_cases)
  case Nil
  then show ?thesis using assms by (auto simp: represents_def link_append_def)
next
  case (snoc ys y)
  have y: "final v = y" "y \<noteq> NO_ENTRY" "y \<noteq> i" "y \<notin> set ys" "i \<notin> set ys"
    using assms snoc by (auto simp: represents_def)
  have "linked NO_ENTRY y v ys" "prv v y = (if ys = [] then NO_ENTRY else last ys)"
    using assms snoc by (auto simp: represents_def linked_append)
  moreover have "linked NO_ENTRY y v ys \<longleftrightarrow> linked NO_ENTRY y (link_append i v) ys"
    using y by (intro linked_cong) (auto simp: link_append_def)
  ultimately have "linked NO_ENTRY NO_ENTRY (link_append i v) (ys @ [y, i])"
    using y by (simp add: linked_append) (simp add: link_append_def)
  moreover have "first (link_append i v) = hd_or (xs @ [i])"
    using representsD(3) [OF assms(1)] y snoc by (cases ys) (simp_all add: link_append_def)
  moreover have "member (link_append i v) j \<longleftrightarrow> j \<in> set (xs @ [i])" for j
    using representsD(6) [OF assms(1)] by (auto simp: link_append_def)
  moreover have "final (link_append i v) = last_or (xs @ [i])"
    by (simp add: link_append_def)
  ultimately show ?thesis
    using representsD(1,2) [OF assms(1)] assms(2,3) snoc by (simp add: represents_def)
qed

lemma represents_remove:
  assumes "represents v (as @ i # bs)"
  shows "represents (link_remove i v) (as @ bs)"
proof -
  let ?v = "link_remove i v"
  have dist: "distinct (as @ i # bs)" "NO_ENTRY \<notin> set (as @ i # bs)"
    using assms by (auto simp: represents_def)
  have p: "prv v i = last_or as" and n: "nxt v i = hd_or bs"
    using assms by (auto simp: represents_def linked_append last_or_def hd_or_def)
  have as: "linked NO_ENTRY i v as" and bs: "linked i NO_ENTRY v bs"
    using assms by (auto simp: represents_def linked_append)
  have nxt': "nxt ?v x = (if x = i then NO_ENTRY else if as \<noteq> [] \<and> x = last as then hd_or bs else nxt v x)" for x
    using p n dist by (cases as rule: rev_cases) (simp_all add: link_remove_def)
  have prv': "prv ?v x = (if x = i then NO_ENTRY else if bs \<noteq> [] \<and> x = hd bs then last_or as else prv v x)" for x
    using p n dist by (cases bs) (simp_all add: link_remove_def)
  have "linked NO_ENTRY (hd_or bs) ?v as"
  proof (cases as rule: rev_cases)
    case (snoc ys y)
    have "linked NO_ENTRY y v ys \<longleftrightarrow> linked NO_ENTRY y ?v ys"
      using dist snoc by (intro linked_cong) (cases bs; auto simp: nxt' prv')
    moreover have "y \<noteq> i" "bs \<noteq> [] \<longrightarrow> y \<noteq> hd bs" using dist snoc by (cases bs; auto)+
    ultimately show ?thesis using as snoc by (auto simp: linked_append nxt' prv')
  qed simp
  moreover have "linked (last_or as) NO_ENTRY ?v bs"
  proof (cases bs)
    case (Cons y ys)
    have "set as \<inter> set ys = {}" using dist Cons by auto
    then have "as \<noteq> [] \<longrightarrow> last as \<notin> set ys" using last_in_set by blast
    then have "linked y NO_ENTRY v ys \<longleftrightarrow> linked y NO_ENTRY ?v ys"
      using dist Cons by (intro linked_cong) (auto simp: nxt' prv')
    moreover have "y \<noteq> i" "as \<noteq> [] \<longrightarrow> y \<noteq> last as" using dist Cons last_in_set [of as] by auto
    ultimately show ?thesis using bs Cons by (auto simp: nxt' prv')
  qed simp
  ultimately have "linked NO_ENTRY NO_ENTRY ?v (as @ bs)"
    by (simp add: linked_append hd_or_def last_or_def)
  moreover have "first ?v = hd_or (as @ bs)"
    using representsD(3) [OF assms] p n dist(2) by (cases as rule: rev_cases) (simp_all add: link_remove_def hd_or_append)
  moreover have "final ?v = last_or (as @ bs)"
    using representsD(4) [OF assms] p n dist(2) by (cases bs) (simp_all add: link_remove_def last_or_def)
  moreover have "member ?v j \<longleftrightarrow> j \<in> set (as @ bs)" for j
    using representsD(6) [OF assms, of j] dist(1) by (auto simp: link_remove_def)
  ultimately show ?thesis
    using dist by (simp add: represents_def)
qed

section \<open>Neighbours in a represented list\<close>

lemma linked_neighbours:
  assumes "linked p q v xs" "x \<in> set xs" "distinct xs"
  shows "(prv v x = p \<or> prv v x \<in> set xs \<and> prv v x \<noteq> x) \<and> (nxt v x = q \<or> nxt v x \<in> set xs \<and> nxt v x \<noteq> x)"
proof -
  obtain as bs where xs: "xs = as @ x # bs" using in_set_split assms(2) by metis
  have "prv v x = (if as = [] then p else last as)" "nxt v x = (case bs of [] \<Rightarrow> q | y # _ \<Rightarrow> y)"
    using assms(1) unfolding xs by (auto simp: linked_append split: list.splits)
  moreover have "as \<noteq> [] \<Longrightarrow> last as \<noteq> x" using assms(3) unfolding xs by auto
  moreover have "bs \<noteq> [] \<Longrightarrow> hd bs \<noteq> x" using assms(3) unfolding xs by (cases bs) auto
  ultimately show ?thesis unfolding xs by (cases bs) auto
qed

lemma represents_neighbours:
  assumes "represents v xs" "x \<in> set xs"
  shows "prv v x = NO_ENTRY \<or> prv v x \<in> set xs \<and> prv v x \<noteq> x"
    and "nxt v x = NO_ENTRY \<or> nxt v x \<in> set xs \<and> nxt v x \<noteq> x"
  using linked_neighbours [OF representsD(5) [OF assms(1)] assms(2) representsD(1) [OF assms(1)]] by blast+

lemma represents_final:
  assumes "represents v xs"
  shows "final v = NO_ENTRY \<or> final v \<in> set xs"
  using representsD(4) [OF assms] by (auto simp: last_or_def)

lemma represents_remove_elem:
  assumes "represents v xs" "x \<in> set xs"
  shows "represents (link_remove x v) (remove1 x xs)"
proof -
  obtain as bs where xs: "xs = as @ x # bs" using in_set_split assms(2) by metis
  have "x \<notin> set as" using representsD(1) [OF assms(1)] xs by auto
  then show ?thesis using represents_remove assms(1) unfolding xs by (simp add: remove1_append)
qed

lemma represents_cong:
  assumes "represents v xs" "\<And>i. i \<in> set xs \<Longrightarrow> prv v' i = prv v i \<and> nxt v' i = nxt v i"
    "\<And>i. member v' i = member v i" "first v' = first v" "final v' = final v"
  shows "represents v' xs"
  using assms linked_cong [of xs v v'] unfolding represents_def by auto

end
