(* ===== verification/Cache_Links.thy ===== *)
theory Cache_Links
  imports Data_Cache Intrusive_List
begin

text \<open>
  The evictable list and the filled list of the cache as two views of its entries, and what the
  four list methods do to them: on a well-linked cache each method is the corresponding operation
  of \<open>Intrusive_List\<close> on its own view and changes nothing else.
\<close>

section \<open>The views\<close>

definition nth_entry :: "GpuDataCacheEntry option list \<Rightarrow> nat \<Rightarrow> GpuDataCacheEntry" where
  "nth_entry es i = (if i < length es then case es ! i of None \<Rightarrow> new_entry | Some e \<Rightarrow> e else new_entry)"

definition no_null :: "GpuDataCacheEntry option list \<Rightarrow> bool" where
  "no_null es \<longleftrightarrow> (\<forall>i<length es. es ! i \<noteq> None)"

abbreviation ent :: "GpuDataCache \<Rightarrow> nat \<Rightarrow> GpuDataCacheEntry" where
  "ent s i \<equiv> nth_entry (entries s) i"

abbreviation full :: "GpuDataCache \<Rightarrow> bool" where
  "full s \<equiv> no_null (entries s)"

abbreviation size_of :: "GpuDataCache \<Rightarrow> nat" where
  "size_of s \<equiv> length (entries s)"

definition ev :: "GpuDataCache \<Rightarrow> link_view" where
  "ev s = \<lparr>prv = (\<lambda>i. previousEvictable (ent s i)), nxt = (\<lambda>i. nextEvictable (ent s i)),
     member = (\<lambda>i. inEvictableList (ent s i)), first = leastRecentlyUsed s, final = mostRecentlyUsed s\<rparr>"

definition fl :: "GpuDataCache \<Rightarrow> link_view" where
  "fl s = \<lparr>prv = (\<lambda>i. previousFilled (ent s i)), nxt = (\<lambda>i. nextFilled (ent s i)),
     member = (\<lambda>i. inFilledList (ent s i)), first = oldestFilled s, final = newestFilled s\<rparr>"

text \<open>Writing a view back into the entries.\<close>

definition update_entries ::
  "(nat \<Rightarrow> GpuDataCacheEntry \<Rightarrow> GpuDataCacheEntry) \<Rightarrow> GpuDataCacheEntry option list
     \<Rightarrow> GpuDataCacheEntry option list" where
  "update_entries f es = map (\<lambda>i. map_option (f i) (es ! i)) [0..<length es]"

definition ev_put :: "link_view \<Rightarrow> nat \<Rightarrow> GpuDataCacheEntry \<Rightarrow> GpuDataCacheEntry" where
  "ev_put v i e = e\<lparr>previousEvictable := prv v i, nextEvictable := nxt v i, inEvictableList := member v i\<rparr>"

definition fl_put :: "link_view \<Rightarrow> nat \<Rightarrow> GpuDataCacheEntry \<Rightarrow> GpuDataCacheEntry" where
  "fl_put v i e = e\<lparr>previousFilled := prv v i, nextFilled := nxt v i, inFilledList := member v i\<rparr>"

definition set_ev :: "link_view \<Rightarrow> GpuDataCache \<Rightarrow> GpuDataCache" where
  "set_ev v s = s\<lparr>entries := update_entries (ev_put v) (entries s),
     leastRecentlyUsed := first v, mostRecentlyUsed := final v\<rparr>"

definition set_fl :: "link_view \<Rightarrow> GpuDataCache \<Rightarrow> GpuDataCache" where
  "set_fl v s = s\<lparr>entries := update_entries (fl_put v) (entries s),
     oldestFilled := first v, newestFilled := final v\<rparr>"

lemma view_sel [simp]:
  "prv (ev s) i = previousEvictable (ent s i)" "nxt (ev s) i = nextEvictable (ent s i)"
  "member (ev s) i = inEvictableList (ent s i)" "first (ev s) = leastRecentlyUsed s"
  "final (ev s) = mostRecentlyUsed s"
  "prv (fl s) i = previousFilled (ent s i)" "nxt (fl s) i = nextFilled (ent s i)"
  "member (fl s) i = inFilledList (ent s i)" "first (fl s) = oldestFilled s"
  "final (fl s) = newestFilled s"
  by (simp_all add: ev_def fl_def)

lemma entry_at_ent: "full s \<Longrightarrow> i < size_of s \<Longrightarrow> entry_at s i = Some (ent s i)"
  by (auto simp: no_null_def nth_entry_def entry_at_def split: option.splits)

lemma entry_at_out: "size_of s \<le> i \<Longrightarrow> entry_at s i = None"
  by (simp add: entry_at_def)

lemma nth_ent: "no_null es \<Longrightarrow> i < length es \<Longrightarrow> es ! i = Some (nth_entry es i)"
  by (auto simp: no_null_def nth_entry_def)

lemma modify_entry_ent:
  "full s \<Longrightarrow> i < size_of s \<Longrightarrow>
     modify_entry i f s = Some (s\<lparr>entries := (entries s)[i := Some (f (ent s i))]\<rparr>)"
  by (simp add: modify_entry_def entry_at_ent)

lemma nth_entry_put [simp]:
  "i < length es \<Longrightarrow> nth_entry (es[i := Some e]) j = (if j = i then e else nth_entry es j)"
  by (auto simp: nth_entry_def)

lemma no_null_put [simp]: "no_null es \<Longrightarrow> no_null (es[i := Some e])"
  unfolding no_null_def
proof (intro allI impI)
  fix j assume "\<forall>i<length es. es ! i \<noteq> None" "j < length (es[i := Some e])"
  then show "es[i := Some e] ! j \<noteq> None" by (cases "j = i") auto
qed

lemma length_update_entries [simp]: "length (update_entries f es) = length es"
  by (simp add: update_entries_def)

lemma no_null_update [simp]: "no_null (update_entries f es) = no_null es"
  by (simp add: no_null_def update_entries_def)

lemma nth_entry_update [simp]:
  "no_null es \<Longrightarrow> nth_entry (update_entries f es) i = (if i < length es then f i (nth_entry es i) else new_entry)"
  by (auto simp: nth_entry_def update_entries_def no_null_def split: option.splits)

lemma nth_entry_out: "length es \<le> i \<Longrightarrow> nth_entry es i = new_entry"
  by (simp add: nth_entry_def)

lemma entries_eqI:
  assumes "no_null es" "no_null xs" "length xs = length es"
    "\<And>i. i < length es \<Longrightarrow> nth_entry xs i = nth_entry es i"
  shows "xs = es"
  using assms by (intro nth_equalityI) (auto simp: nth_ent)

section \<open>The list methods act on the views\<close>

lemma set_ev_eqI:
  assumes "full s" "no_null es" "length es = size_of s" "a = first v" "b = final v"
    "\<And>i. i < size_of s \<Longrightarrow> nth_entry es i = ev_put v i (ent s i)"
  shows "s\<lparr>entries := es, leastRecentlyUsed := a, mostRecentlyUsed := b\<rparr> = set_ev v s"
proof -
  have "es = update_entries (ev_put v) (entries s)"
    using assms by (intro entries_eqI) simp_all
  then show ?thesis using assms(4,5) by (simp add: set_ev_def)
qed

lemma removeEvictableEntry_link:
  assumes "full s" "represents (ev s) E" "set E \<subseteq> {..<size_of s}" "i \<in> set E"
  shows "removeEvictableEntry i s = Some (True, set_ev (link_remove i (ev s)) s)"
proof -
  let ?p = "previousEvictable (ent s i)" and ?n = "nextEvictable (ent s i)"
  let ?cut = "\<lambda>e. e\<lparr>previousEvictable := NO_ENTRY, nextEvictable := NO_ENTRY, inEvictableList := False\<rparr>"
  have i: "i < size_of s" "inEvictableList (ent s i)"
    using assms representsD(6) [OF assms(2), of i] by auto
  have p: "?p \<noteq> NO_ENTRY \<Longrightarrow> ?p < size_of s \<and> ?p \<noteq> i" and n: "?n \<noteq> NO_ENTRY \<Longrightarrow> ?n < size_of s \<and> ?n \<noteq> i"
    using represents_neighbours [OF assms(2,4)] assms(3) by auto
  define es1 where "es1 = (if ?p \<noteq> NO_ENTRY then (entries s)[?p := Some ((ent s ?p)\<lparr>nextEvictable := ?n\<rparr>)] else entries s)"
  define es2 where "es2 = (if ?n \<noteq> NO_ENTRY then es1[?n := Some ((nth_entry es1 ?n)\<lparr>previousEvictable := ?p\<rparr>)] else es1)"
  define es3 where "es3 = es2[i := Some (?cut (nth_entry es2 i))]"
  have es1: "no_null es1" "length es1 = size_of s"
      "\<And>j. nth_entry es1 j = (if ?p \<noteq> NO_ENTRY \<and> j = ?p then (ent s j)\<lparr>nextEvictable := ?n\<rparr> else ent s j)"
    using assms(1) p by (auto simp: es1_def)
  have es2: "no_null es2" "length es2 = size_of s"
      "\<And>j. nth_entry es2 j = (if ?n \<noteq> NO_ENTRY \<and> j = ?n then (nth_entry es1 j)\<lparr>previousEvictable := ?p\<rparr> else nth_entry es1 j)"
    using es1 n by (auto simp: es2_def)
  have e1: "nth_entry es1 i = ent s i" using es1(3) p by auto
  have run: "removeEvictableEntry i s = Some (True, s\<lparr>entries := es3,
       leastRecentlyUsed := (if ?p \<noteq> NO_ENTRY then leastRecentlyUsed s else ?n),
       mostRecentlyUsed := (if ?n \<noteq> NO_ENTRY then mostRecentlyUsed s else ?p)\<rparr>)"
    using assms(1) i p n es1(1,2) es2(1,2) e1
    by (cases "?p = NO_ENTRY"; cases "?n = NO_ENTRY")
      (simp_all add: removeEvictableEntry_def entry_at_ent modify_entry_ent es1_def es2_def es3_def)
  show ?thesis
    unfolding run option.inject prod.inject
    using assms(1) i es1(3) es2
    by (intro conjI refl set_ev_eqI)
      (auto simp: es3_def link_remove_def ev_put_def)
qed

lemma set_fl_eqI:
  assumes "full s" "no_null es" "length es = size_of s" "a = first v" "b = final v"
    "\<And>i. i < size_of s \<Longrightarrow> nth_entry es i = fl_put v i (ent s i)"
  shows "s\<lparr>entries := es, oldestFilled := a, newestFilled := b\<rparr> = set_fl v s"
proof -
  have "es = update_entries (fl_put v) (entries s)"
    using assms by (intro entries_eqI) simp_all
  then show ?thesis using assms(4,5) by (simp add: set_fl_def)
qed

lemma removeFilledEntry_link:
  assumes "full s" "represents (fl s) F" "set F \<subseteq> {..<size_of s}" "i \<in> set F"
  shows "removeFilledEntry i s = Some (True, set_fl (link_remove i (fl s)) s)"
proof -
  let ?p = "previousFilled (ent s i)" and ?n = "nextFilled (ent s i)"
  let ?cut = "\<lambda>e. e\<lparr>previousFilled := NO_ENTRY, nextFilled := NO_ENTRY, inFilledList := False\<rparr>"
  have i: "i < size_of s" "inFilledList (ent s i)"
    using assms representsD(6) [OF assms(2), of i] by auto
  have p: "?p \<noteq> NO_ENTRY \<Longrightarrow> ?p < size_of s \<and> ?p \<noteq> i" and n: "?n \<noteq> NO_ENTRY \<Longrightarrow> ?n < size_of s \<and> ?n \<noteq> i"
    using represents_neighbours [OF assms(2,4)] assms(3) by auto
  define es1 where "es1 = (if ?p \<noteq> NO_ENTRY then (entries s)[?p := Some ((ent s ?p)\<lparr>nextFilled := ?n\<rparr>)] else entries s)"
  define es2 where "es2 = (if ?n \<noteq> NO_ENTRY then es1[?n := Some ((nth_entry es1 ?n)\<lparr>previousFilled := ?p\<rparr>)] else es1)"
  define es3 where "es3 = es2[i := Some (?cut (nth_entry es2 i))]"
  have es1: "no_null es1" "length es1 = size_of s"
      "\<And>j. nth_entry es1 j = (if ?p \<noteq> NO_ENTRY \<and> j = ?p then (ent s j)\<lparr>nextFilled := ?n\<rparr> else ent s j)"
    using assms(1) p by (auto simp: es1_def)
  have es2: "no_null es2" "length es2 = size_of s"
      "\<And>j. nth_entry es2 j = (if ?n \<noteq> NO_ENTRY \<and> j = ?n then (nth_entry es1 j)\<lparr>previousFilled := ?p\<rparr> else nth_entry es1 j)"
    using es1 n by (auto simp: es2_def)
  have e1: "nth_entry es1 i = ent s i" using es1(3) p by auto
  have run: "removeFilledEntry i s = Some (True, s\<lparr>entries := es3,
       oldestFilled := (if ?p \<noteq> NO_ENTRY then oldestFilled s else ?n),
       newestFilled := (if ?n \<noteq> NO_ENTRY then newestFilled s else ?p)\<rparr>)"
    using assms(1) i p n es1(1,2) es2(1,2) e1
    by (cases "?p = NO_ENTRY"; cases "?n = NO_ENTRY")
      (simp_all add: removeFilledEntry_def entry_at_ent modify_entry_ent es1_def es2_def es3_def)
  show ?thesis
    unfolding run option.inject prod.inject
    using assms(1) i es1(3) es2
    by (intro conjI refl set_fl_eqI)
      (auto simp: es3_def link_remove_def fl_put_def)
qed

lemma addEvictableEntry_link:
  assumes "full s" "represents (ev s) E" "set E \<subseteq> {..<size_of s}" "i < size_of s" "i \<notin> set E"
    "cacheState (ent s i) = Valid" "activeAccesses (ent s i) = 0"
  shows "addEvictableEntry i s = Some (True, notify_all (set_ev (link_append i (ev s)) s))"
proof -
  let ?m = "mostRecentlyUsed s"
  let ?new = "\<lambda>e. e\<lparr>previousEvictable := ?m, nextEvictable := NO_ENTRY, inEvictableList := True\<rparr>"
  have i: "\<not> inEvictableList (ent s i)"
    using assms(5) representsD(6) [OF assms(2), of i] by simp
  have m: "?m \<noteq> NO_ENTRY \<Longrightarrow> ?m < size_of s \<and> ?m \<noteq> i"
    using represents_final [OF assms(2)] assms(3,5) by auto
  define es1 where "es1 = (entries s)[i := Some (?new (ent s i))]"
  define es2 where "es2 = (if ?m \<noteq> NO_ENTRY then es1[?m := Some ((nth_entry es1 ?m)\<lparr>nextEvictable := i\<rparr>)] else es1)"
  have es1: "no_null es1" "length es1 = size_of s" "\<And>j. nth_entry es1 j = (if j = i then ?new (ent s j) else ent s j)"
    using assms(1,4) by (auto simp: es1_def)
  have es2: "no_null es2" "length es2 = size_of s"
      "\<And>j. nth_entry es2 j = (if ?m \<noteq> NO_ENTRY \<and> j = ?m then (nth_entry es1 j)\<lparr>nextEvictable := i\<rparr> else nth_entry es1 j)"
    using es1 m by (auto simp: es2_def)
  have run: "addEvictableEntry i s = Some (True, notify_all (s\<lparr>entries := es2,
       leastRecentlyUsed := (if ?m \<noteq> NO_ENTRY then leastRecentlyUsed s else i), mostRecentlyUsed := i\<rparr>))"
    using assms i m es1(1,2)
    by (cases "?m = NO_ENTRY") (simp_all add: addEvictableEntry_def entry_at_ent modify_entry_ent es1_def es2_def)
  show ?thesis
    unfolding run option.inject prod.inject
    using assms(1,4) i es1 es2 m
    by (intro conjI refl arg_cong [where f = notify_all] set_ev_eqI) (auto simp: link_append_def ev_put_def)
qed

lemma addFilledEntry_link:
  assumes "full s" "represents (fl s) F" "set F \<subseteq> {..<size_of s}" "i < size_of s" "i \<notin> set F"
    "cacheState (ent s i) = Valid" "activeAccesses (ent s i) = 0" "evictionPolicy s = FIFO"
  shows "addFilledEntry i s = Some (True, set_fl (link_append i (fl s)) s)"
proof -
  let ?m = "newestFilled s"
  let ?new = "\<lambda>e. e\<lparr>previousFilled := ?m, nextFilled := NO_ENTRY, inFilledList := True\<rparr>"
  have i: "\<not> inFilledList (ent s i)"
    using assms(5) representsD(6) [OF assms(2), of i] by simp
  have m: "?m \<noteq> NO_ENTRY \<Longrightarrow> ?m < size_of s \<and> ?m \<noteq> i"
    using represents_final [OF assms(2)] assms(3,5) by auto
  define es1 where "es1 = (entries s)[i := Some (?new (ent s i))]"
  define es2 where "es2 = (if ?m \<noteq> NO_ENTRY then es1[?m := Some ((nth_entry es1 ?m)\<lparr>nextFilled := i\<rparr>)] else es1)"
  have es1: "no_null es1" "length es1 = size_of s" "\<And>j. nth_entry es1 j = (if j = i then ?new (ent s j) else ent s j)"
    using assms(1,4) by (auto simp: es1_def)
  have es2: "no_null es2" "length es2 = size_of s"
      "\<And>j. nth_entry es2 j = (if ?m \<noteq> NO_ENTRY \<and> j = ?m then (nth_entry es1 j)\<lparr>nextFilled := i\<rparr> else nth_entry es1 j)"
    using es1 m by (auto simp: es2_def)
  have run: "addFilledEntry i s = Some (True, s\<lparr>entries := es2,
       oldestFilled := (if ?m \<noteq> NO_ENTRY then oldestFilled s else i), newestFilled := i\<rparr>)"
    using assms i m es1(1,2)
    by (cases "?m = NO_ENTRY") (simp_all add: addFilledEntry_def entry_at_ent modify_entry_ent es1_def es2_def)
  show ?thesis
    unfolding run option.inject prod.inject
    using assms(1,4) i es1 es2 m
    by (intro conjI refl set_fl_eqI) (auto simp: link_append_def fl_put_def)
qed

section \<open>Frames\<close>

lemma set_ev_frame [simp]:
  "length (entries (set_ev v s)) = size_of s" "no_null (entries (set_ev v s)) = full s"
  "full s \<Longrightarrow> ent (set_ev v s) i = (if i < size_of s then ev_put v i (ent s i) else new_entry)"
  "leastRecentlyUsed (set_ev v s) = first v" "mostRecentlyUsed (set_ev v s) = final v"
  "self (set_ev v s) = self s" "statistics (set_ev v s) = statistics s"
  "notifications (set_ev v s) = notifications s" "waitTimeout (set_ev v s) = waitTimeout s"
  "evictionPolicy (set_ev v s) = evictionPolicy s" "waitingAccesses (set_ev v s) = waitingAccesses s"
  "eligibleGpuIds (set_ev v s) = eligibleGpuIds s" "residencyTable (set_ev v s) = residencyTable s"
  "emptyEntries (set_ev v s) = emptyEntries s" "oldestFilled (set_ev v s) = oldestFilled s"
  "newestFilled (set_ev v s) = newestFilled s" "cacheBytes (set_ev v s) = cacheBytes s"
  "activeFallbackAccesses (set_ev v s) = activeFallbackAccesses s"
  "cacheInitialized (set_ev v s) = cacheInitialized s" "releasing (set_ev v s) = releasing s"
  "failed (set_ev v s) = failed s"
  by (simp_all add: set_ev_def)

lemma set_fl_frame [simp]:
  "length (entries (set_fl v s)) = size_of s" "no_null (entries (set_fl v s)) = full s"
  "full s \<Longrightarrow> ent (set_fl v s) i = (if i < size_of s then fl_put v i (ent s i) else new_entry)"
  "oldestFilled (set_fl v s) = first v" "newestFilled (set_fl v s) = final v"
  "self (set_fl v s) = self s" "statistics (set_fl v s) = statistics s"
  "notifications (set_fl v s) = notifications s" "waitTimeout (set_fl v s) = waitTimeout s"
  "evictionPolicy (set_fl v s) = evictionPolicy s" "waitingAccesses (set_fl v s) = waitingAccesses s"
  "eligibleGpuIds (set_fl v s) = eligibleGpuIds s" "residencyTable (set_fl v s) = residencyTable s"
  "emptyEntries (set_fl v s) = emptyEntries s" "leastRecentlyUsed (set_fl v s) = leastRecentlyUsed s"
  "mostRecentlyUsed (set_fl v s) = mostRecentlyUsed s" "cacheBytes (set_fl v s) = cacheBytes s"
  "activeFallbackAccesses (set_fl v s) = activeFallbackAccesses s"
  "cacheInitialized (set_fl v s) = cacheInitialized s" "releasing (set_fl v s) = releasing s"
  "failed (set_fl v s) = failed s"
  by (simp_all add: set_fl_def)

lemma new_entry_sel [simp]:
  "previousEvictable new_entry = NO_ENTRY" "nextEvictable new_entry = NO_ENTRY"
  "inEvictableList new_entry = False" "previousFilled new_entry = NO_ENTRY"
  "nextFilled new_entry = NO_ENTRY" "inFilledList new_entry = False"
  "cacheState new_entry = Empty" "activeAccesses new_entry = 0" "replicas new_entry = []"
  by (simp_all add: new_entry_def)

lemma ev_put_sel [simp]:
  "previousEvictable (ev_put v i e) = prv v i" "nextEvictable (ev_put v i e) = nxt v i"
  "inEvictableList (ev_put v i e) = member v i" "metadata (ev_put v i e) = metadata e"
  "cacheState (ev_put v i e) = cacheState e" "activeAccesses (ev_put v i e) = activeAccesses e"
  "previousFilled (ev_put v i e) = previousFilled e" "nextFilled (ev_put v i e) = nextFilled e"
  "replicas (ev_put v i e) = replicas e" "entryBytes (ev_put v i e) = entryBytes e"
  "inFilledList (ev_put v i e) = inFilledList e" "discardWhenUnused (ev_put v i e) = discardWhenUnused e"
  "entryInitialized (ev_put v i e) = entryInitialized e"
  by (simp_all add: ev_put_def)

lemma fl_put_sel [simp]:
  "previousFilled (fl_put v i e) = prv v i" "nextFilled (fl_put v i e) = nxt v i"
  "inFilledList (fl_put v i e) = member v i" "metadata (fl_put v i e) = metadata e"
  "cacheState (fl_put v i e) = cacheState e" "activeAccesses (fl_put v i e) = activeAccesses e"
  "previousEvictable (fl_put v i e) = previousEvictable e" "nextEvictable (fl_put v i e) = nextEvictable e"
  "replicas (fl_put v i e) = replicas e" "entryBytes (fl_put v i e) = entryBytes e"
  "inEvictableList (fl_put v i e) = inEvictableList e" "discardWhenUnused (fl_put v i e) = discardWhenUnused e"
  "entryInitialized (fl_put v i e) = entryInitialized e"
  by (simp_all add: fl_put_def)

lemma represents_set_ev:
  assumes "full s" "represents v E" "set E \<subseteq> {..<size_of s}"
  shows "represents (ev (set_ev v s)) E"
  using assms(1,3) representsD(6) [OF assms(2)]
  by (intro represents_cong [OF assms(2)]) auto

lemma represents_set_fl:
  assumes "full s" "represents v F" "set F \<subseteq> {..<size_of s}"
  shows "represents (fl (set_fl v s)) F"
  using assms(1,3) representsD(6) [OF assms(2)]
  by (intro represents_cong [OF assms(2)]) auto

lemma represents_ev_frame:
  assumes "represents (ev s) E" "leastRecentlyUsed s' = leastRecentlyUsed s" "mostRecentlyUsed s' = mostRecentlyUsed s"
    "\<And>i. inEvictableList (ent s' i) = inEvictableList (ent s i)"
    "\<And>i. i \<in> set E \<Longrightarrow> previousEvictable (ent s' i) = previousEvictable (ent s i) \<and> nextEvictable (ent s' i) = nextEvictable (ent s i)"
  shows "represents (ev s') E"
  using assms(2-) by (intro represents_cong [OF assms(1)]) auto

lemma represents_fl_frame:
  assumes "represents (fl s) F" "oldestFilled s' = oldestFilled s" "newestFilled s' = newestFilled s"
    "\<And>i. inFilledList (ent s' i) = inFilledList (ent s i)"
    "\<And>i. i \<in> set F \<Longrightarrow> previousFilled (ent s' i) = previousFilled (ent s i) \<and> nextFilled (ent s' i) = nextFilled (ent s i)"
  shows "represents (fl s') F"
  using assms(2-) by (intro represents_cong [OF assms(1)]) auto

end
