(* ===== verification/Cache_Spec.thy ===== *)
theory Cache_Spec
  imports Gpu_Types
begin

text \<open>
  What the cache promises, without its representation: a fixed number of cells, each free, being
  filled, or holding a payload with some readers; the stack of free cells; the order of the idle
  cells (least recently used first); and, under FIFO, the order in which the payloads were filled.
  The operations are the decisions of \<open>GpuDataCache\<close>; \<open>Cache_Refinement\<close> proves that the
  methods of the class make exactly these decisions.
\<close>

section \<open>The abstract cache\<close>

datatype cell = Free | Filling FrameMetadata | Ready FrameMetadata nat bool

record abstract_cache =
  cells :: "cell list"
  free :: "nat list"
  idle :: "nat list"
  ages :: "nat list"
  fifo :: bool

fun cell_key :: "cell \<Rightarrow> GpuDataKey option" where
  "cell_key Free = None"
| "cell_key (Filling m) = Some (key m)"
| "cell_key (Ready m n d) = Some (key m)"

fun readers :: "cell \<Rightarrow> nat" where
  "readers (Ready m n d) = n"
| "readers _ = 0"

fun is_Ready :: "cell \<Rightarrow> bool" where
  "is_Ready (Ready m n d) = True"
| "is_Ready _ = False"

definition find_cell :: "GpuDataKey \<Rightarrow> abstract_cache \<Rightarrow> nat option" where
  "find_cell k A = find (\<lambda>i. cell_key (cells A ! i) = Some k) [0..<length (cells A)]"

text \<open>
  The cell a miss takes: a free one if there is one, else the least recently used idle one, or
  under FIFO the oldest payload that nobody reads.
\<close>

definition choose_cell :: "abstract_cache \<Rightarrow> nat option" where
  "choose_cell A =
     (if free A \<noteq> [] then Some (last (free A))
      else if fifo A then find (\<lambda>i. readers (cells A ! i) = 0) (ages A)
      else case idle A of [] \<Rightarrow> None | i # _ \<Rightarrow> Some i)"

datatype decision = Hit nat | Fill nat | BusyLoading | BusyFull | NoCapacity | Mismatch

definition drop_cell :: "nat \<Rightarrow> abstract_cache \<Rightarrow> abstract_cache" where
  "drop_cell i A = A\<lparr>cells := (cells A)[i := Free], free := free A @ [i],
     idle := remove1 i (idle A), ages := remove1 i (ages A)\<rparr>"

definition take_cell :: "nat \<Rightarrow> FrameMetadata \<Rightarrow> abstract_cache \<Rightarrow> abstract_cache" where
  "take_cell i md A = A\<lparr>cells := (cells A)[i := Filling md], free := remove1 i (free A),
     idle := remove1 i (idle A), ages := remove1 i (ages A)\<rparr>"

definition read_cell :: "nat \<Rightarrow> abstract_cache \<Rightarrow> abstract_cache" where
  "read_cell i A = (case cells A ! i of
       Ready m n d \<Rightarrow> A\<lparr>cells := (cells A)[i := Ready m (n + 1) d], idle := remove1 i (idle A)\<rparr>
     | _ \<Rightarrow> A)"

definition decide :: "FrameMetadata \<Rightarrow> abstract_cache \<Rightarrow> decision" where
  "decide md A =
     (case find_cell (key md) A of
        Some i \<Rightarrow> (case cells A ! i of
            Ready m n d \<Rightarrow> if m = md then Hit i else Mismatch
          | Filling m \<Rightarrow> if m = md then BusyLoading else Mismatch
          | Free \<Rightarrow> Mismatch)
      | None \<Rightarrow> (case choose_cell A of
            Some i \<Rightarrow> Fill i
          | None \<Rightarrow> if cells A = [] then NoCapacity else BusyFull))"

fun perform :: "FrameMetadata \<Rightarrow> decision \<Rightarrow> abstract_cache \<Rightarrow> abstract_cache" where
  "perform md (Hit i) A = read_cell i A"
| "perform md (Fill i) A = take_cell i md A"
| "perform md _ A = A"

text \<open>A reader leaves; \<open>disc\<close> is its wish to discard the payload once it is unused.\<close>

definition leave_cell :: "nat \<Rightarrow> bool \<Rightarrow> abstract_cache \<Rightarrow> abstract_cache" where
  "leave_cell i disc A = (case cells A ! i of
       Ready m n d \<Rightarrow>
         if n > 1 then A\<lparr>cells := (cells A)[i := Ready m (n - 1) (d \<or> disc)]\<rparr>
         else if d \<or> disc then drop_cell i A
         else A\<lparr>cells := (cells A)[i := Ready m 0 False], idle := idle A @ [i]\<rparr>
     | _ \<Rightarrow> A)"

text \<open>A fill is published.\<close>

definition publish_cell :: "nat \<Rightarrow> bool \<Rightarrow> abstract_cache \<Rightarrow> abstract_cache" where
  "publish_cell i disc A = (case cells A ! i of
       Filling m \<Rightarrow>
         if disc then drop_cell i A
         else A\<lparr>cells := (cells A)[i := Ready m 0 False], idle := idle A @ [i],
                ages := (if fifo A then ages A @ [i] else ages A)\<rparr>
     | _ \<Rightarrow> A)"

definition empty_cache :: "nat \<Rightarrow> bool \<Rightarrow> abstract_cache" where
  "empty_cache n f = \<lparr>cells = replicate n Free, free = rev [0..<n], idle = [], ages = [], fifo = f\<rparr>"

section \<open>Well-formedness\<close>

definition wf_cache :: "abstract_cache \<Rightarrow> bool" where
  "wf_cache A \<longleftrightarrow>
     distinct (free A) \<and> set (free A) = {i. i < length (cells A) \<and> cells A ! i = Free}
     \<and> distinct (idle A) \<and> set (idle A) = {i. i < length (cells A) \<and> (\<exists>m d. cells A ! i = Ready m 0 d)}
     \<and> distinct (ages A) \<and> set (ages A) = {i. i < length (cells A) \<and> fifo A \<and> is_Ready (cells A ! i)}
     \<and> (\<forall>i<length (cells A). \<forall>m. cells A ! i \<noteq> Ready m 0 True)
     \<and> (\<forall>i<length (cells A). \<forall>j<length (cells A). \<forall>k.
          cell_key (cells A ! i) = Some k \<and> cell_key (cells A ! j) = Some k \<longrightarrow> i = j)"

lemma wf_cacheD:
  assumes "wf_cache A"
  shows "distinct (free A)" "distinct (idle A)" "distinct (ages A)"
    "i \<in> set (free A) \<longleftrightarrow> i < length (cells A) \<and> cells A ! i = Free"
    "i \<in> set (idle A) \<longleftrightarrow> i < length (cells A) \<and> (\<exists>m d. cells A ! i = Ready m 0 d)"
    "i \<in> set (ages A) \<longleftrightarrow> i < length (cells A) \<and> fifo A \<and> is_Ready (cells A ! i)"
    "i < length (cells A) \<Longrightarrow> cells A ! i \<noteq> Ready m 0 True"
    "i < length (cells A) \<Longrightarrow> j < length (cells A) \<Longrightarrow> cell_key (cells A ! i) = Some k \<Longrightarrow>
       cell_key (cells A ! j) = Some k \<Longrightarrow> i = j"
  using assms unfolding wf_cache_def by blast+

lemma find_cell_Some:
  assumes "wf_cache A"
  shows "find_cell k A = Some i \<longleftrightarrow> i < length (cells A) \<and> cell_key (cells A ! i) = Some k"
proof
  show "i < length (cells A) \<and> cell_key (cells A ! i) = Some k" if "find_cell k A = Some i"
    using that by (auto simp: find_cell_def find_Some_iff)
next
  assume i: "i < length (cells A) \<and> cell_key (cells A ! i) = Some k"
  show "find_cell k A = Some i"
  proof (cases "find_cell k A")
    case None
    then show ?thesis using i by (auto simp: find_cell_def find_None_iff)
  next
    case (Some j)
    then have "j < length (cells A) \<and> cell_key (cells A ! j) = Some k"
      by (auto simp: find_cell_def find_Some_iff)
    then show ?thesis using Some i wf_cacheD(8) [OF assms, of i j k] by simp
  qed
qed

lemma find_cell_None:
  "find_cell k A = None \<longleftrightarrow> (\<forall>i<length (cells A). cell_key (cells A ! i) \<noteq> Some k)"
  by (auto simp: find_cell_def find_None_iff)

lemma ages_lru: "wf_cache A \<Longrightarrow> \<not> fifo A \<Longrightarrow> ages A = []"
  using wf_cacheD(6) [of A] by (metis last_in_set)

lemma find_cell_update:
  assumes "wf_cache A" "wf_cache A'" "cells A' = (cells A)[i := c]" "i < length (cells A)"
  shows "find_cell k A' = (if cell_key c = Some k then Some i
    else if find_cell k A = Some i then None else find_cell k A)"
proof -
  have nth: "cells A' ! j = (if j = i then c else cells A ! j)" if "j < length (cells A)" for j
    using that assms(3,4) by simp
  have "find_cell k A' = Some j \<longleftrightarrow> (if cell_key c = Some k then Some i
    else if find_cell k A = Some i then None else find_cell k A) = Some j" for j
    using wf_cacheD(8) [OF assms(2), of i j k] wf_cacheD(8) [OF assms(1), of i j k] assms(3,4) nth
    by (auto simp: find_cell_Some [OF assms(1)] find_cell_Some [OF assms(2)])
  then show ?thesis by (metis option.exhaust)
qed

text \<open>A change of one cell keeps the cache well formed if the orders follow it.\<close>

lemma wf_cache_change:
  assumes wf: "wf_cache A" and i: "i < length (cells A)"
    and A': "cells A' = (cells A)[i := c]" "fifo A' = fifo A"
    and free: "distinct (free A')" "set (free A') = (set (free A) - {i}) \<union> (if c = Free then {i} else {})"
    and idle: "distinct (idle A')" "set (idle A') = (set (idle A) - {i}) \<union> (if \<exists>m d. c = Ready m 0 d then {i} else {})"
    and ages: "distinct (ages A')" "set (ages A') = (set (ages A) - {i}) \<union> (if fifo A \<and> is_Ready c then {i} else {})"
    and c: "\<And>m. c \<noteq> Ready m 0 True"
      "\<And>k j. cell_key c = Some k \<Longrightarrow> j < length (cells A) \<Longrightarrow> j \<noteq> i \<Longrightarrow> cell_key (cells A ! j) \<noteq> Some k"
  shows "wf_cache A'"
proof -
  have nth: "cells A' ! j = (if j = i then c else cells A ! j)" if "j < length (cells A)" for j
    using that i A'(1) by simp
  have len: "length (cells A') = length (cells A)" using A'(1) by simp
  have "set (free A') = {j. j < length (cells A') \<and> cells A' ! j = Free}"
    unfolding free len using wf_cacheD(4) [OF wf] i nth by (auto split: if_splits)
  moreover have "set (idle A') = {j. j < length (cells A') \<and> (\<exists>m d. cells A' ! j = Ready m 0 d)}"
    unfolding idle len using wf_cacheD(5) [OF wf] i nth by (auto split: if_splits)
  moreover have "set (ages A') = {j. j < length (cells A') \<and> fifo A' \<and> is_Ready (cells A' ! j)}"
    unfolding ages len A'(2) using wf_cacheD(6) [OF wf] i nth by (auto split: if_splits)
  moreover have "\<forall>j<length (cells A'). \<forall>m. cells A' ! j \<noteq> Ready m 0 True"
    unfolding len using wf_cacheD(7) [OF wf] nth c(1) by auto
  moreover have "\<forall>j<length (cells A'). \<forall>j'<length (cells A'). \<forall>k.
      cell_key (cells A' ! j) = Some k \<and> cell_key (cells A' ! j') = Some k \<longrightarrow> j = j'"
    unfolding len using wf_cacheD(8) [OF wf] nth c(2) by (auto split: if_splits)
  ultimately show ?thesis
    unfolding wf_cache_def using free(1) idle(1) ages(1) by blast
qed

lemma wf_drop_cell:
  assumes "wf_cache A" "i < length (cells A)" "cells A ! i \<noteq> Free"
  shows "wf_cache (drop_cell i A)"
  using assms wf_cacheD(1-4) [OF assms(1)]
  by (intro wf_cache_change [where i = i and c = Free, OF assms(1,2)]) (auto simp: drop_cell_def)

lemma wf_take_cell:
  assumes "wf_cache A" "i < length (cells A)" "find_cell (key md) A = None"
  shows "wf_cache (take_cell i md A)"
  using assms(3) wf_cacheD(1-3) [OF assms(1)]
  by (intro wf_cache_change [where i = i and c = "Filling md", OF assms(1,2)])
    (auto simp: take_cell_def find_cell_None)

lemma wf_recount:
  assumes "wf_cache A" "i < length (cells A)" "cells A ! i = Ready m n d" "0 < n'"
  shows "wf_cache (A\<lparr>cells := (cells A)[i := Ready m n' d'], idle := remove1 i (idle A)\<rparr>)"
proof -
  have "i \<notin> set (free A)" "fifo A \<Longrightarrow> i \<in> set (ages A)" "\<not> fifo A \<Longrightarrow> ages A = []"
    using assms wf_cacheD(4,6) [OF assms(1), of i] ages_lru [OF assms(1)] by auto
  then show ?thesis
    using assms(3,4) wf_cacheD(1-3) [OF assms(1)] wf_cacheD(8) [OF assms(1,2)]
    by (intro wf_cache_change [where i = i and c = "Ready m n' d'", OF assms(1,2)]) auto
qed

lemma wf_publish:
  assumes "wf_cache A" "i < length (cells A)" "cells A ! i \<noteq> Free" "cell_key (cells A ! i) = Some (key m)"
    "i \<notin> set (idle A)" "i \<in> set (ages A) \<Longrightarrow> as = ages A" "i \<notin> set (ages A) \<Longrightarrow> as = (if fifo A then ages A @ [i] else ages A)"
  shows "wf_cache (A\<lparr>cells := (cells A)[i := Ready m 0 False], idle := idle A @ [i], ages := as\<rparr>)"
proof -
  have "i \<notin> set (free A)" "\<not> fifo A \<Longrightarrow> ages A = []"
    using assms(2,3) wf_cacheD(4) [OF assms(1), of i] ages_lru [OF assms(1)] by auto
  moreover have "distinct as \<and> set as = set (ages A) - {i} \<union> (if fifo A then {i} else {})"
    using assms(6,7) wf_cacheD(3,6) [OF assms(1)] by (cases "i \<in> set (ages A)") auto
  ultimately show ?thesis
    using assms(4,5) wf_cacheD(1,2) [OF assms(1)] wf_cacheD(8) [OF assms(1,2)]
    by (intro wf_cache_change [where i = i and c = "Ready m 0 False", OF assms(1,2)]) auto
qed

lemma wf_read_cell:
  "wf_cache A \<Longrightarrow> i < length (cells A) \<Longrightarrow> wf_cache (read_cell i A)"
  using wf_recount [of A i] by (auto simp: read_cell_def split: cell.splits)

lemma wf_leave_cell:
  assumes "wf_cache A" "i < length (cells A)" "cells A ! i = Ready m n d" "0 < n"
  shows "wf_cache (leave_cell i disc A)"
proof -
  have out: "i \<notin> set (idle A)" using assms(3,4) wf_cacheD(5) [OF assms(1), of i] by auto
  then have "wf_cache (A\<lparr>cells := (cells A)[i := Ready m (n - 1) (d \<or> disc)]\<rparr>)" if "1 < n"
    using wf_recount [OF assms(1-3), of "n - 1" "d \<or> disc"] that by (simp add: remove1_idem)
  moreover have "wf_cache (A\<lparr>cells := (cells A)[i := Ready m 0 False], idle := idle A @ [i]\<rparr>)"
    using wf_publish [OF assms(1,2), of m "ages A"] assms(3) out wf_cacheD(6) [OF assms(1), of i] assms(2)
    by simp
  ultimately show ?thesis
    using wf_drop_cell [OF assms(1,2)] assms(3,4) by (auto simp: leave_cell_def)
qed

lemma wf_publish_cell:
  assumes "wf_cache A" "i < length (cells A)" "cells A ! i = Filling m"
  shows "wf_cache (publish_cell i disc A)"
  using wf_publish [OF assms(1,2), of m] wf_drop_cell [OF assms(1,2)] assms(2,3)
    wf_cacheD(5,6) [OF assms(1), of i] by (auto simp: publish_cell_def)

lemma wf_empty_cache: "wf_cache (empty_cache n f)"
  by (auto simp: wf_cache_def empty_cache_def)

lemma choose_cell_SomeD:
  assumes "wf_cache A" "choose_cell A = Some i"
  shows "i < length (cells A)"
    "cells A ! i = Free \<and> i \<in> set (free A) \<or> (\<exists>m. cells A ! i = Ready m 0 False \<and> i \<in> set (idle A)) \<and> free A = []"
proof -
  consider "free A \<noteq> []" "i = last (free A)" | "free A = []" "fifo A" "i \<in> set (ages A)" "readers (cells A ! i) = 0"
    | "free A = []" "\<not> fifo A" "i \<in> set (idle A)"
    using assms(2) by (auto simp: choose_cell_def find_Some_iff split: if_splits list.splits)
  then have "i < length (cells A) \<and> (cells A ! i = Free \<and> i \<in> set (free A) \<or> (\<exists>m. cells A ! i = Ready m 0 False \<and> i \<in> set (idle A)) \<and> free A = [])"
  proof cases
    case 1
    then show ?thesis using wf_cacheD(4) [OF assms(1), of i] by simp
  next
    case 2
    then obtain m d where "cells A ! i = Ready m 0 d" "i < length (cells A)"
      using wf_cacheD(6) [OF assms(1), of i] by (cases "cells A ! i") auto
    then show ?thesis using 2 wf_cacheD(5,7) [OF assms(1), of i] by (cases d) auto
  next
    case 3
    then obtain m d where "cells A ! i = Ready m 0 d" "i < length (cells A)"
      using wf_cacheD(5) [OF assms(1), of i] by auto
    then show ?thesis using 3 wf_cacheD(7) [OF assms(1), of i] by (cases d) auto
  qed
  then show "i < length (cells A)"
    "cells A ! i = Free \<and> i \<in> set (free A) \<or> (\<exists>m. cells A ! i = Ready m 0 False \<and> i \<in> set (idle A)) \<and> free A = []"
    by blast+
qed

lemma choose_cell_None:
  assumes "wf_cache A"
  shows "choose_cell A = None \<longleftrightarrow> free A = [] \<and> idle A = []"
proof -
  have "idle A = [] \<longleftrightarrow> (\<forall>i\<in>set (ages A). readers (cells A ! i) \<noteq> 0)" if "fifo A"
  proof -
    have "i \<in> set (idle A) \<longleftrightarrow> i \<in> set (ages A) \<and> readers (cells A ! i) = 0" for i
      using wf_cacheD(5,6) [OF assms, of i] that by (cases "cells A ! i") auto
    then have "set (idle A) = {i \<in> set (ages A). readers (cells A ! i) = 0}" by blast
    then show ?thesis by (metis (mono_tags, lifting) empty_Collect_eq set_empty)
  qed
  then show ?thesis
    by (auto simp: choose_cell_def find_None_iff split: list.splits)
qed

lemma wf_perform:
  assumes "wf_cache A" "decide md A = dec"
  shows "wf_cache (perform md dec A)"
proof (cases dec)
  case (Hit i)
  then have "find_cell (key md) A = Some i"
    using assms(2) by (auto simp: decide_def split: option.splits cell.splits if_splits)
  then show ?thesis using Hit wf_read_cell [OF assms(1)] find_cell_Some [OF assms(1)] by simp
next
  case (Fill i)
  then have "find_cell (key md) A = None" "choose_cell A = Some i"
    using assms(2) by (auto simp: decide_def split: option.splits cell.splits if_splits)
  then show ?thesis using Fill wf_take_cell [OF assms(1)] choose_cell_SomeD [OF assms(1)] by simp
qed (use assms(1) in simp_all)

end
