(* ===== verification/Cache_Refinement.thy ===== *)
theory Cache_Refinement
  imports Cache_Links Cache_Spec
begin

text \<open>
  The methods of \<open>GpuDataCache\<close> implement the abstract cache of \<open>Cache_Spec\<close>.  The coupling
  \<open>implements s A\<close> holds between a cache object and its abstract state: the residency table is
  the search by key, the vector of free indexes is the free stack, the two intrusive lists are the
  idle order and the fill order, and each entry is the cell at its position.  For every method the
  theory gives the result it returns and shows that the coupling is kept by the abstract
  operation; in particular none of the defensive error branches of the source is taken and no
  index out of range is used.
\<close>

section \<open>The coupling invariant\<close>

definition cell_of :: "GpuDataCacheEntry \<Rightarrow> cell" where
  "cell_of e = (case cacheState e of
      Empty \<Rightarrow> Free
    | Loading \<Rightarrow> Filling (metadata e)
    | Valid \<Rightarrow> Ready (metadata e) (unat (activeAccesses e)) (discardWhenUnused e))"

text \<open>An entry on GPU \<open>g\<close> with a payload of \<open>b\<close> bytes: its one replica is valid exactly in state \<open>Valid\<close>.\<close>

definition entry_ok :: "int \<Rightarrow> size_t \<Rightarrow> GpuDataCacheEntry \<Rightarrow> bool" where
  "entry_ok g b e \<longleftrightarrow> entryInitialized e \<and> entryBytes e = b
     \<and> (\<exists>p. replicas e = [\<lparr>gpuId = g, d_data = Some p, valid = (cacheState e = Valid)\<rparr>])
     \<and> (cacheState e = Empty \<longrightarrow> activeAccesses e = 0)
     \<and> (cacheState e = Loading \<longrightarrow> activeAccesses e = 1)
     \<and> (cacheState e \<noteq> Valid \<longrightarrow> \<not> discardWhenUnused e)"

definition core :: "GpuDataCacheEntry \<Rightarrow> GpuDataCacheEntry" where
  "core e = e\<lparr>previousEvictable := NO_ENTRY, nextEvictable := NO_ENTRY, inEvictableList := False,
     previousFilled := NO_ENTRY, nextFilled := NO_ENTRY, inFilledList := False\<rparr>"

abbreviation gpu :: "GpuDataCache \<Rightarrow> int" where
  "gpu s \<equiv> hd (eligibleGpuIds s)"

definition implements :: "GpuDataCache \<Rightarrow> abstract_cache \<Rightarrow> bool" where
  "implements s A \<longleftrightarrow>
     cacheInitialized s \<and> (evictionPolicy s = LRU \<or> evictionPolicy s = FIFO) \<and> 0 \<le> waitTimeout s
     \<and> length (eligibleGpuIds s) = 1 \<and> 0 \<le> gpu s
     \<and> full s \<and> size_of s \<le> 2 ^ 62
     \<and> (\<forall>i < size_of s. entry_ok (gpu s) (cacheBytes s) (ent s i))
     \<and> table_invar (residencyTable s) \<and> unat (residentLimit (residencyTable s)) = size_of s
     \<and> (\<forall>k. table_map (residencyTable s) k = find_cell k A)
     \<and> cells A = map (\<lambda>i. cell_of (ent s i)) [0..<size_of s]
     \<and> free A = emptyEntries s
     \<and> represents (ev s) (idle A) \<and> represents (fl s) (ages A)
     \<and> fifo A = (evictionPolicy s = FIFO) \<and> wf_cache A"

lemma implementsD:
  assumes "implements s A"
  shows "full s" "size_of s \<le> 2 ^ 62" "i < size_of s \<Longrightarrow> entry_ok (gpu s) (cacheBytes s) (ent s i)"
    "table_invar (residencyTable s)" "unat (residentLimit (residencyTable s)) = size_of s"
    "table_map (residencyTable s) k = find_cell k A"
    "length (cells A) = size_of s" "i < size_of s \<Longrightarrow> cells A ! i = cell_of (ent s i)"
    "free A = emptyEntries s" "represents (ev s) (idle A)" "represents (fl s) (ages A)"
    "fifo A = (evictionPolicy s = FIFO)" "wf_cache A" "cacheInitialized s"
    "evictionPolicy s = LRU \<or> evictionPolicy s = FIFO" "0 \<le> waitTimeout s"
    "eligibleGpuIds s = [gpu s]" "0 \<le> gpu s"
    "set (idle A) \<subseteq> {..<size_of s}" "set (ages A) \<subseteq> {..<size_of s}" "set (free A) \<subseteq> {..<size_of s}"
proof -
  show "full s" "size_of s \<le> 2 ^ 62" "i < size_of s \<Longrightarrow> entry_ok (gpu s) (cacheBytes s) (ent s i)"
    "table_invar (residencyTable s)" "unat (residentLimit (residencyTable s)) = size_of s"
    "table_map (residencyTable s) k = find_cell k A"
    "free A = emptyEntries s" "represents (ev s) (idle A)" "represents (fl s) (ages A)"
    "fifo A = (evictionPolicy s = FIFO)" and wf: "wf_cache A" and "cacheInitialized s"
    "evictionPolicy s = LRU \<or> evictionPolicy s = FIFO" "0 \<le> waitTimeout s" "0 \<le> gpu s"
    using assms unfolding implements_def by blast+
  have cells: "cells A = map (\<lambda>i. cell_of (ent s i)) [0..<size_of s]"
    using assms unfolding implements_def by blast
  then show len: "length (cells A) = size_of s" and "i < size_of s \<Longrightarrow> cells A ! i = cell_of (ent s i)"
    by simp_all
  have "length (eligibleGpuIds s) = 1" using assms unfolding implements_def by blast
  then show "eligibleGpuIds s = [gpu s]" by (cases "eligibleGpuIds s") auto
  show "set (idle A) \<subseteq> {..<size_of s}" "set (ages A) \<subseteq> {..<size_of s}" "set (free A) \<subseteq> {..<size_of s}"
    using wf_cacheD(4-6) [OF wf] len by auto
qed

lemma core_eqD:
  assumes "core e = core e'"
  shows "metadata e = metadata e'" "cacheState e = cacheState e'" "activeAccesses e = activeAccesses e'"
    "replicas e = replicas e'" "entryBytes e = entryBytes e'" "discardWhenUnused e = discardWhenUnused e'"
    "entryInitialized e = entryInitialized e'"
  using assms by (cases e; cases e'; simp add: core_def)+

lemma core_cell_of: "core e = core e' \<Longrightarrow> cell_of e = cell_of e'"
  using core_eqD [of e e'] by (simp add: cell_of_def split: GpuCacheState.splits)

lemma core_entry_ok: "core e = core e' \<Longrightarrow> entry_ok g b e \<longleftrightarrow> entry_ok g b e'"
  using core_eqD [of e e'] by (simp add: entry_ok_def)

lemma core_put [simp]: "core (ev_put v i e) = core e" "core (fl_put v i e) = core e"
  by (simp_all add: core_def ev_put_def fl_put_def)

lemma cell_of_put [simp]: "cell_of (ev_put v i e) = cell_of e" "cell_of (fl_put v i e) = cell_of e"
  by (simp_all add: cell_of_def split: GpuCacheState.splits)

lemma entry_ok_put [simp]: "entry_ok g b (ev_put v i e) = entry_ok g b e" "entry_ok g b (fl_put v i e) = entry_ok g b e"
  by (simp_all add: entry_ok_def)

definition same_config :: "GpuDataCache \<Rightarrow> GpuDataCache \<Rightarrow> bool" where
  "same_config s' s \<longleftrightarrow> self s' = self s \<and> size_of s' = size_of s \<and> eligibleGpuIds s' = eligibleGpuIds s
     \<and> cacheBytes s' = cacheBytes s \<and> evictionPolicy s' = evictionPolicy s \<and> waitTimeout s' = waitTimeout s
     \<and> cacheInitialized s' = cacheInitialized s \<and> releasing s' = releasing s
     \<and> (\<forall>j g. dataForGpu g (ent s' j) = dataForGpu g (ent s j))"

text \<open>Nothing but the entries, their orders, the statistics and the notifications changed.\<close>

definition quiet :: "GpuDataCache \<Rightarrow> GpuDataCache \<Rightarrow> bool" where
  "quiet s' s \<longleftrightarrow> same_config s' s \<and> waitingAccesses s' = waitingAccesses s
     \<and> activeFallbackAccesses s' = activeFallbackAccesses s \<and> failed s' = failed s"

lemma implements_change:
  assumes impl: "implements s A" and i: "i < size_of s" and same: "same_config s' s" and full: "full s'"
    and others: "\<And>j. j < size_of s \<Longrightarrow> j \<noteq> i \<Longrightarrow> core (ent s' j) = core (ent s j)"
    and ok: "entry_ok (gpu s) (cacheBytes s) (ent s' i)"
    and table: "table_invar (residencyTable s')"
      "residentLimit (residencyTable s') = residentLimit (residencyTable s)"
      "\<And>k. table_map (residencyTable s') k = (if cell_key (cell_of (ent s' i)) = Some k then Some i
         else if find_cell k A = Some i then None else find_cell k A)"
    and A': "cells A' = (cells A)[i := cell_of (ent s' i)]" "free A' = emptyEntries s'"
      "represents (ev s') (idle A')" "represents (fl s') (ages A')" "fifo A' = fifo A" "wf_cache A'"
  shows "implements s' A'"
proof -
  note D = implementsD [OF impl]
  note C = same [unfolded same_config_def]
  have "entry_ok (gpu s) (cacheBytes s) (ent s' j)" if "j < size_of s" for j
    using that ok D(3) core_entry_ok [OF others] by (cases "j = i") auto
  moreover have "cells A' = map (\<lambda>j. cell_of (ent s' j)) [0..<size_of s]"
    unfolding A'(1) using i D(7,8) core_cell_of [OF others]
    by (intro nth_equalityI) (auto simp: nth_list_update)
  moreover have "table_map (residencyTable s') k = find_cell k A'" for k
    using find_cell_update [OF D(13) A'(6,1)] D(7) i table(3) by simp
  moreover have "length (eligibleGpuIds s) = 1"
    using impl unfolding implements_def by blast
  ultimately show ?thesis
    unfolding implements_def using C D(1-16,18) full table(1,2) A'(2-) by simp
qed


section \<open>Candidates\<close>

lemma fifoScan_linked:
  assumes "full s" "linked p NO_ENTRY (fl s) xs" "set xs \<subseteq> {..<size_of s}" "NO_ENTRY \<notin> set xs"
  shows "fifoScan s (hd_or xs) =
    Some (case find (\<lambda>i. activeAccesses (ent s i) = 0) xs of None \<Rightarrow> NO_ENTRY | Some i \<Rightarrow> i)"
  using assms(2-)
proof (induction xs arbitrary: p)
  case Nil
  then show ?case by (subst fifoScan.simps) simp
next
  case (Cons x xs)
  have succ: "nextFilled (ent s x) = hd_or xs"
    using Cons.prems(1) by (cases xs) simp_all
  have "fifoScan s (hd_or xs) = Some (case find (\<lambda>i. activeAccesses (ent s i) = 0) xs of None \<Rightarrow> NO_ENTRY | Some i \<Rightarrow> i)"
    using Cons.prems by (intro Cons.IH [of x]) auto
  then show ?case
    using Cons.prems(2,3) succ assms(1) by (subst fifoScan.simps) (auto simp: entry_at_ent)
qed

lemma find_cong_set: "(\<And>x. x \<in> set xs \<Longrightarrow> P x = Q x) \<Longrightarrow> find P xs = find Q xs"
  by (induction xs) auto

lemma takeCandidate_choose:
  assumes impl: "implements s A"
  shows "takeCandidate s = Some (case choose_cell A of
      None \<Rightarrow> (NO_ENTRY, False, s)
    | Some i \<Rightarrow> if free A \<noteq> [] then (i, True, s\<lparr>emptyEntries := butlast (emptyEntries s)\<rparr>)
        else (i, False, set_ev (link_remove i (ev s)) s))"
proof (cases "free A = []")
  case False
  then show ?thesis using implementsD(9) [OF impl] by (simp add: takeCandidate_def choose_cell_def)
next
  case no_free: True
  note D = implementsD [OF impl]
  have no: "NO_ENTRY \<notin> set (ages A)" "NO_ENTRY \<notin> set (idle A)"
    using representsD(2) [OF D(10)] representsD(2) [OF D(11)] by auto
  have head: "leastRecentlyUsed s = hd_or (idle A)" using representsD(3) [OF D(10)] by simp
  have scan: "fifoScan s (oldestFilled s) = Some (case choose_cell A of None \<Rightarrow> NO_ENTRY | Some i \<Rightarrow> i)" if "fifo A"
  proof -
    have "readers (cells A ! i) = 0 \<longleftrightarrow> activeAccesses (ent s i) = 0" if "i \<in> set (ages A)" for i
      using that wf_cacheD(6) [OF D(13), of i] D(7,8)
      by (auto simp: cell_of_def unat_eq_zero split: GpuCacheState.splits)
    then have "find (\<lambda>i. activeAccesses (ent s i) = 0) (ages A) = choose_cell A"
      using that no_free by (auto simp: choose_cell_def intro: find_cong_set)
    then show ?thesis
      using fifoScan_linked [OF D(1) representsD(5) [OF D(11)] D(20) no(1)] representsD(3) [OF D(11)] by simp
  qed
  show ?thesis
  proof (cases "choose_cell A")
    case None
    then have "idle A = []" using choose_cell_None [OF D(13)] by simp
    then show ?thesis using None no_free head D(9) by (simp add: takeCandidate_def)
  next
    case (Some i)
    then have i: "i \<in> set (idle A)" using choose_cell_SomeD [OF D(13)] no_free by auto
    then have "leastRecentlyUsed s \<noteq> NO_ENTRY" "i \<noteq> NO_ENTRY" using no head by (cases "idle A"; auto)+
    moreover have "\<not> fifo A \<Longrightarrow> leastRecentlyUsed s = i"
      using Some no_free head by (cases "idle A") (simp_all add: choose_cell_def)
    ultimately show ?thesis
      using Some no_free scan D(9,12) removeEvictableEntry_link [OF D(1,10,19) i]
      by (cases "fifo A") (simp_all add: takeCandidate_def)
  qed
qed


section \<open>Unlinking\<close>

definition unlink_ev :: "nat \<Rightarrow> GpuDataCache \<Rightarrow> GpuDataCache" where
  "unlink_ev i s = (if inEvictableList (ent s i) then set_ev (link_remove i (ev s)) s else s)"

definition unlink_fl :: "nat \<Rightarrow> GpuDataCache \<Rightarrow> GpuDataCache" where
  "unlink_fl i s = (if inFilledList (ent s i) then set_fl (link_remove i (fl s)) s else s)"

lemma core_sel [simp]: "dataForGpu g (core e) = dataForGpu g e"
  by (simp add: dataForGpu_def core_def)

lemma core_dataForGpu: "core e = core e' \<Longrightarrow> dataForGpu g e = dataForGpu g e'"
  by (metis core_sel)

lemma ev_frame_eq:
  "entries s' = entries s \<Longrightarrow> leastRecentlyUsed s' = leastRecentlyUsed s \<Longrightarrow>
     mostRecentlyUsed s' = mostRecentlyUsed s \<Longrightarrow> ev s' = ev s"
  by (simp add: ev_def)

lemma fl_frame_eq:
  "entries s' = entries s \<Longrightarrow> oldestFilled s' = oldestFilled s \<Longrightarrow>
     newestFilled s' = newestFilled s \<Longrightarrow> fl s' = fl s"
  by (simp add: fl_def)

lemma unlink_ev_frame [simp]:
  "length (entries (unlink_ev i s)) = size_of s" "no_null (entries (unlink_ev i s)) = full s"
  "self (unlink_ev i s) = self s" "statistics (unlink_ev i s) = statistics s"
  "notifications (unlink_ev i s) = notifications s" "waitTimeout (unlink_ev i s) = waitTimeout s"
  "evictionPolicy (unlink_ev i s) = evictionPolicy s" "waitingAccesses (unlink_ev i s) = waitingAccesses s"
  "eligibleGpuIds (unlink_ev i s) = eligibleGpuIds s" "residencyTable (unlink_ev i s) = residencyTable s"
  "emptyEntries (unlink_ev i s) = emptyEntries s" "oldestFilled (unlink_ev i s) = oldestFilled s"
  "newestFilled (unlink_ev i s) = newestFilled s" "cacheBytes (unlink_ev i s) = cacheBytes s"
  "activeFallbackAccesses (unlink_ev i s) = activeFallbackAccesses s"
  "cacheInitialized (unlink_ev i s) = cacheInitialized s" "releasing (unlink_ev i s) = releasing s"
  "failed (unlink_ev i s) = failed s"
  by (simp_all add: unlink_ev_def)

lemma unlink_fl_frame [simp]:
  "length (entries (unlink_fl i s)) = size_of s" "no_null (entries (unlink_fl i s)) = full s"
  "self (unlink_fl i s) = self s" "statistics (unlink_fl i s) = statistics s"
  "notifications (unlink_fl i s) = notifications s" "waitTimeout (unlink_fl i s) = waitTimeout s"
  "evictionPolicy (unlink_fl i s) = evictionPolicy s" "waitingAccesses (unlink_fl i s) = waitingAccesses s"
  "eligibleGpuIds (unlink_fl i s) = eligibleGpuIds s" "residencyTable (unlink_fl i s) = residencyTable s"
  "emptyEntries (unlink_fl i s) = emptyEntries s" "leastRecentlyUsed (unlink_fl i s) = leastRecentlyUsed s"
  "mostRecentlyUsed (unlink_fl i s) = mostRecentlyUsed s" "cacheBytes (unlink_fl i s) = cacheBytes s"
  "activeFallbackAccesses (unlink_fl i s) = activeFallbackAccesses s"
  "cacheInitialized (unlink_fl i s) = cacheInitialized s" "releasing (unlink_fl i s) = releasing s"
  "failed (unlink_fl i s) = failed s"
  by (simp_all add: unlink_fl_def)

lemma unlink_core [simp]:
  "full s \<Longrightarrow> core (ent (unlink_ev i s) j) = core (ent s j)"
  "full s \<Longrightarrow> core (ent (unlink_fl i s) j) = core (ent s j)"
  by (auto simp: unlink_ev_def unlink_fl_def nth_entry_out)

lemma unlink_ev_lists:
  assumes "full s" "represents (ev s) E" "set E \<subseteq> {..<size_of s}"
  shows "represents (ev (unlink_ev i s)) (remove1 i E)"
    and "represents (fl s) F \<Longrightarrow> represents (fl (unlink_ev i s)) F"
    and "\<not> inEvictableList (ent (unlink_ev i s) i)"
    and "inFilledList (ent (unlink_ev i s) j) = inFilledList (ent s j)"
proof -
  note M = representsD(6) [OF assms(2), of i]
  show rep: "represents (ev (unlink_ev i s)) (remove1 i E)"
  proof (cases "i \<in> set E")
    case True
    have "represents (link_remove i (ev s)) (remove1 i E)" by (rule represents_remove_elem [OF assms(2) True])
    moreover have "set (remove1 i E) \<subseteq> {..<size_of s}" using assms(3) set_remove1_subset [of i E] by blast
    ultimately show ?thesis
      using represents_set_ev [OF assms(1)] M True by (simp add: unlink_ev_def)
  next
    case False
    then show ?thesis using assms(2) M by (simp add: unlink_ev_def remove1_idem)
  qed
  have same: "previousFilled (ent (unlink_ev i s) j) = previousFilled (ent s j)"
    "nextFilled (ent (unlink_ev i s) j) = nextFilled (ent s j)"
    "inFilledList (ent (unlink_ev i s) j) = inFilledList (ent s j)" for j
    using assms(1) by (simp_all add: unlink_ev_def nth_entry_out)
  show "represents (fl (unlink_ev i s)) F" if "represents (fl s) F"
    using same by (intro represents_fl_frame [OF that]) simp_all
  show "inFilledList (ent (unlink_ev i s) j) = inFilledList (ent s j)" by (rule same)
  have "i \<notin> set (remove1 i E)" using representsD(1) [OF assms(2)] by simp
  then show "\<not> inEvictableList (ent (unlink_ev i s) i)" using representsD(6) [OF rep, of i] by simp
qed

lemma unlink_fl_lists:
  assumes "full s" "represents (fl s) F" "set F \<subseteq> {..<size_of s}"
  shows "represents (fl (unlink_fl i s)) (remove1 i F)"
    and "represents (ev s) E \<Longrightarrow> represents (ev (unlink_fl i s)) E"
    and "\<not> inFilledList (ent (unlink_fl i s) i)"
    and "inEvictableList (ent (unlink_fl i s) j) = inEvictableList (ent s j)"
proof -
  note M = representsD(6) [OF assms(2), of i]
  show rep: "represents (fl (unlink_fl i s)) (remove1 i F)"
  proof (cases "i \<in> set F")
    case True
    have "represents (link_remove i (fl s)) (remove1 i F)" by (rule represents_remove_elem [OF assms(2) True])
    moreover have "set (remove1 i F) \<subseteq> {..<size_of s}" using assms(3) set_remove1_subset [of i F] by blast
    ultimately show ?thesis
      using represents_set_fl [OF assms(1)] M True by (simp add: unlink_fl_def)
  next
    case False
    then show ?thesis using assms(2) M by (simp add: unlink_fl_def remove1_idem)
  qed
  have same: "previousEvictable (ent (unlink_fl i s) j) = previousEvictable (ent s j)"
    "nextEvictable (ent (unlink_fl i s) j) = nextEvictable (ent s j)"
    "inEvictableList (ent (unlink_fl i s) j) = inEvictableList (ent s j)" for j
    using assms(1) by (simp_all add: unlink_fl_def nth_entry_out)
  show "represents (ev (unlink_fl i s)) E" if "represents (ev s) E"
    using same by (intro represents_ev_frame [OF that]) simp_all
  show "inEvictableList (ent (unlink_fl i s) j) = inEvictableList (ent s j)" by (rule same)
  have "i \<notin> set (remove1 i F)" using representsD(1) [OF assms(2)] by simp
  then show "\<not> inFilledList (ent (unlink_fl i s) i)" using representsD(6) [OF rep, of i] by simp
qed

text \<open>Rewriting one entry that is on neither list, or rewriting it without touching its links.\<close>

lemma put_entry_ev:
  assumes "represents (ev s) E" "i < size_of s" "entries s' = (entries s)[i := Some e]"
    "leastRecentlyUsed s' = leastRecentlyUsed s" "mostRecentlyUsed s' = mostRecentlyUsed s"
    "inEvictableList e = inEvictableList (ent s i)"
    "i \<in> set E \<Longrightarrow> previousEvictable e = previousEvictable (ent s i) \<and> nextEvictable e = nextEvictable (ent s i)"
  shows "represents (ev s') E"
  using assms(2-) by (intro represents_ev_frame [OF assms(1)]) (auto split: if_split)

lemma put_entry_fl:
  assumes "represents (fl s) F" "i < size_of s" "entries s' = (entries s)[i := Some e]"
    "oldestFilled s' = oldestFilled s" "newestFilled s' = newestFilled s"
    "inFilledList e = inFilledList (ent s i)"
    "i \<in> set F \<Longrightarrow> previousFilled e = previousFilled (ent s i) \<and> nextFilled e = nextFilled (ent s i)"
  shows "represents (fl s') F"
  using assms(2-) by (intro represents_fl_frame [OF assms(1)]) (auto split: if_split)

section \<open>Entries in good order\<close>

lemma entry_okD:
  assumes "entry_ok g b e"
  shows "\<exists>p. dataForGpu g e = Some p" "replicaValid g e \<longleftrightarrow> cacheState e = Valid"
    "fst (markReplicaValid g e)" "entryBytes e = b" "entryInitialized e"
  using assms by (auto simp: entry_ok_def dataForGpu_def replicaValid_def markReplicaValid_def)

lemma dataForGpu_invalidate [simp]: "dataForGpu g (invalidateReplicas e) = dataForGpu g e"
proof -
  have "find_replica g (map (\<lambda>r. r\<lparr>valid := False\<rparr>) rs) = map_option (\<lambda>r. r\<lparr>valid := False\<rparr>) (find_replica g rs)" for rs
    by (induction rs) simp_all
  then show ?thesis by (simp add: dataForGpu_def invalidateReplicas_def split: option.splits)
qed

lemma dataForGpu_mark [simp]: "dataForGpu g (snd (markReplicaValid h e)) = dataForGpu g e"
proof -
  have "map_option d_data (find_replica g (snd (mark_valid h rs))) = map_option d_data (find_replica g rs)" for rs
    by (induction rs) (auto simp: case_prod_beta Let_def)
  then have "map_option d_data (find_replica g (snd (mark_valid h (replicas e)))) = map_option d_data (find_replica g (replicas e))" .
  then show ?thesis
    by (auto simp: dataForGpu_def markReplicaValid_def case_prod_beta Let_def split: option.splits)
qed

section \<open>Requests\<close>

definition lease :: "GpuDataCache \<Rightarrow> GpuCacheRequest \<Rightarrow> FrameMetadata \<Rightarrow> nat \<Rightarrow> CacheStatus \<Rightarrow> GpuDataAccess" where
  "lease s rq md i st = \<lparr>owner = Some (self s), accessData = dataForGpu (req_gpuId rq) (ent s i),
     accessBytes = cacheBytes s, entryIndex = i, dataKey = key md, accessStream = req_stream rq,
     deviceId = req_gpuId rq, accessStatus = st\<rparr>"

text \<open>The unlinked entry after a change that keeps the two links and the memory of every entry.\<close>

lemma same_configI:
  assumes "full s" "i < size_of s" "entries s' = (entries t)[i := Some e]" "size_of t = size_of s"
    "\<And>j. core (ent t j) = core (ent s j)" "\<And>g. dataForGpu g e = dataForGpu g (ent s i)"
    "self s' = self s" "eligibleGpuIds s' = eligibleGpuIds s" "cacheBytes s' = cacheBytes s"
    "evictionPolicy s' = evictionPolicy s" "waitTimeout s' = waitTimeout s"
    "cacheInitialized s' = cacheInitialized s" "releasing s' = releasing s"
  shows "same_config s' s"
  unfolding same_config_def using assms(2-) core_dataForGpu [OF assms(5)] by auto

lemma cell_of_iff:
  "cell_of e = Free \<longleftrightarrow> cacheState e = Empty"
  "cell_of e = Filling m \<longleftrightarrow> cacheState e = Loading \<and> metadata e = m"
  "cell_of e = Ready m n d \<longleftrightarrow> cacheState e = Valid \<and> metadata e = m \<and> unat (activeAccesses e) = n \<and> discardWhenUnused e = d"
  by (auto simp: cell_of_def split: GpuCacheState.splits)

lemma unlink_ev_remove:
  assumes "implements s A" "i \<in> set (idle A)"
  shows "removeEvictableEntry i s = Some (True, unlink_ev i s)"
  using removeEvictableEntry_link [OF implementsD(1,10,19) [OF assms(1)] assms(2)] assms(2)
    representsD(6) [OF implementsD(10) [OF assms(1)], of i] by (simp add: unlink_ev_def)

lemma attempt_hit:
  assumes impl: "implements s A" and i: "i < size_of s" "cells A ! i = Ready md n d"
    and rq: "req_gpuId rq = gpu s" and room: "n < 2 ^ 64 - 1"
  shows "\<exists>s'. attempt_resident now start md rq i r s = Some (Returned (lease s rq md i CacheHit), r, s')
    \<and> implements s' (read_cell i A) \<and> quiet s' s
    \<and> statistics s' = (statistics s)\<lparr>hit := hit (statistics s) + 1\<rparr> \<and> notifications s' = notifications s"
proof -
  note D = implementsD [OF impl]
  let ?e = "ent s i" and ?t = "unlink_ev i s"
  define s' where "s' = (count_stat (\<lambda>t. t\<lparr>hit := hit t + 1\<rparr>) ?t)
    \<lparr>entries := (entries ?t)[i := Some ((ent ?t i)\<lparr>activeAccesses := activeAccesses (ent ?t i) + 1\<rparr>)]\<rparr>"
  have e: "cacheState ?e = Valid" "metadata ?e = md" "unat (activeAccesses ?e) = n" "discardWhenUnused ?e = d"
    using i D(8) by (simp_all add: cell_of_iff)
  note t = core_eqD [OF unlink_core(1) [OF D(1), of i i]]
  note U = unlink_ev_lists [OF D(1,10,19), where i = i]
  have n: "n = 0 \<longleftrightarrow> i \<in> set (idle A)" using wf_cacheD(5) [OF D(13), of i] i D(7) by auto
  have mem: "inEvictableList ?e \<longleftrightarrow> i \<in> set (idle A)" using representsD(6) [OF D(10)] by simp
  have a: "activeAccesses ?e = 0 \<longleftrightarrow> n = 0" using e(3) by (metis unat_0 unat_eq_zero)
  have succ: "unat (activeAccesses ?e + 1) = n + 1" using e(3) room unat_Suc_no_wrap by simp
  have filled: "(evictionPolicy s = FIFO \<and> \<not> inFilledList ?e) = False"
    using representsD(6) [OF D(11), of i] wf_cacheD(6) [OF D(13), of i] D(7,12) i by simp
  have t': "n \<noteq> 0 \<Longrightarrow> ?t = s" using mem n by (simp add: unlink_ev_def)
  obtain p where p: "dataForGpu (gpu s) ?e = Some p" "replicaValid (gpu s) ?e"
    using entry_okD(1,2) [OF D(3) [OF i(1)]] e(1) by blast
  have es': "entries s' = (entries ?t)[i := Some ((ent ?t i)\<lparr>activeAccesses := activeAccesses (ent ?t i) + 1\<rparr>)]"
    by (simp add: s'_def)
  have ev': "represents (ev s') (remove1 i (idle A))"
    using U i(1) by (intro put_entry_ev [OF U(1) _ es']) (auto simp: s'_def count_stat_def)
  have fl': "represents (fl s') (ages A)"
    using U i(1) by (intro put_entry_fl [OF U(2) [OF D(11)] _ es']) (auto simp: s'_def count_stat_def)
  have run: "attempt_resident now start md rq i r s = Some (Returned (lease s rq md i CacheHit), r, s')"
    using e p i(1) D(1) rq a n mem t' unlink_ev_remove [OF impl, of i]
    by (cases "n = 0") (simp_all add: filled attempt_resident_def entry_at_ent modify_entry_ent s'_def count_stat_def lease_def)
  have same: "same_config s' s"
    using D(1) i(1) t(4) by (intro same_configI [OF D(1) i(1) es']) (simp_all add: s'_def count_stat_def dataForGpu_def)
  have ent': "ent s' j = (if j = i then (ent ?t i)\<lparr>activeAccesses := activeAccesses (ent ?t i) + 1\<rparr> else ent ?t j)" for j
    using i(1) D(1) by (simp add: s'_def)
  have cell: "cell_of (ent s' i) = Ready md (n + 1) d"
    using e t succ by (simp add: ent' cell_of_iff)
  have "entry_ok (gpu s) (cacheBytes s) (ent s' i)"
    using D(3) [OF i(1)] t e by (simp add: ent' entry_ok_def)
  moreover have "find_cell (key md) A = Some i" using find_cell_Some [OF D(13)] i D(7) by simp
  moreover have "wf_cache (read_cell i A)" using wf_read_cell [OF D(13)] i(1) D(7) by simp
  ultimately have "implements s' (read_cell i A)"
    using impl i same D ev' fl' cell
    by (intro implements_change [OF impl i(1) same])
      (auto simp: ent' s'_def count_stat_def read_cell_def find_cell_Some)
  moreover have "quiet s' s" using same by (simp add: quiet_def s'_def count_stat_def)
  ultimately show ?thesis using run by (auto simp: s'_def count_stat_def)
qed


lemma remove1_last: "distinct xs \<Longrightarrow> xs \<noteq> [] \<Longrightarrow> remove1 (last xs) xs = butlast xs"
  by (induction xs rule: rev_induct) (simp_all add: remove1_append)

lemma card_find_cell:
  assumes "wf_cache A" "i < length (cells A)" "cells A ! i = Free"
  shows "card (dom (\<lambda>k. find_cell k A)) < length (cells A)"
proof -
  let ?f = "\<lambda>k. the (find_cell k A)"
  have "inj_on ?f (dom (\<lambda>k. find_cell k A))"
  proof (rule inj_onI)
    fix k k' assume "k \<in> dom (\<lambda>k. find_cell k A)" "k' \<in> dom (\<lambda>k. find_cell k A)" "?f k = ?f k'"
    then obtain j where "find_cell k A = Some j" "find_cell k' A = Some j" by auto
    then show "k = k'" using find_cell_Some [OF assms(1)] by simp
  qed
  moreover have "?f ` dom (\<lambda>k. find_cell k A) \<subseteq> {..<length (cells A)} - {i}"
  proof
    fix j assume "j \<in> ?f ` dom (\<lambda>k. find_cell k A)"
    then obtain k where "find_cell k A = Some j" by auto
    then show "j \<in> {..<length (cells A)} - {i}" using find_cell_Some [OF assms(1)] assms(3) by auto
  qed
  ultimately have "card (dom (\<lambda>k. find_cell k A)) \<le> card ({..<length (cells A)} - {i})"
    by (intro card_inj_on_le) auto
  then show ?thesis using assms(2) by simp
qed

lemma take_candidate_unlinked:
  assumes impl: "implements s A" and c: "choose_cell A = Some i"
  shows "takeCandidate s = Some (i, free A \<noteq> [], (unlink_ev i s)\<lparr>emptyEntries := remove1 i (emptyEntries s)\<rparr>)"
    and "i \<noteq> NO_ENTRY"
proof -
  note D = implementsD [OF impl]
  have "i < size_of s" using choose_cell_SomeD(1) [OF D(13) c] D(7) by simp
  then show "i \<noteq> NO_ENTRY" using D(2) by (simp add: NO_ENTRY_num)
  have mem: "inEvictableList (ent s i) \<longleftrightarrow> i \<in> set (idle A)" using representsD(6) [OF D(10)] by simp
  show "takeCandidate s = Some (i, free A \<noteq> [], (unlink_ev i s)\<lparr>emptyEntries := remove1 i (emptyEntries s)\<rparr>)"
  proof (cases "free A = []")
    case True
    then have "i \<in> set (idle A)" using choose_cell_SomeD(2) [OF D(13) c] by auto
    then show ?thesis using takeCandidate_choose [OF impl] c True D(9) mem by (simp add: unlink_ev_def)
  next
    case False
    have i: "i = last (free A)" using c False by (simp add: choose_cell_def)
    then have "cells A ! i = Free" using wf_cacheD(4) [OF D(13), of i] False by simp
    then have "i \<notin> set (idle A)" using wf_cacheD(5) [OF D(13), of i] by auto
    moreover have "remove1 i (emptyEntries s) = butlast (emptyEntries s)"
      using i False wf_cacheD(1) [OF D(13)] D(9) remove1_last by metis
    ultimately show ?thesis using takeCandidate_choose [OF impl] c False mem by (simp add: unlink_ev_def)
  qed
qed

text \<open>The table after the candidate's key has been exchanged.\<close>

lemma exchange_keys:
  assumes impl: "implements s A" and c: "choose_cell A = Some i" and new: "find_cell (key md) A = None"
  obtains t1 t2 where
    "(if free A \<noteq> [] then Some (True, residencyTable s)
      else table_erase (residencyTable s) (key (metadata (ent s i))) i) = Some (True, t1)"
    "table_insert t1 (key md) i = (True, t2)" "table_invar t2" "residentLimit t2 = residentLimit (residencyTable s)"
    "\<And>k. table_map t2 k = (if k = key md then Some i else if find_cell k A = Some i then None else find_cell k A)"
proof -
  note D = implementsD [OF impl]
  let ?T = "residencyTable s"
  have map: "table_map ?T = (\<lambda>k. find_cell k A)" using D(6) by (rule ext)
  show thesis
  proof (cases "free A = []")
    case False
    then have i: "i < length (cells A)" "cells A ! i = Free"
      using choose_cell_SomeD [OF D(13) c] by auto
    then have "card (dom (table_map ?T)) < unat (residentLimit ?T)"
      using card_find_cell [OF D(13)] D(5,7) map by simp
    then obtain t2 where "table_insert ?T (key md) i = (True, t2)" "table_invar t2"
        "table_map t2 = (table_map ?T)(key md \<mapsto> i)" "unat (residentLimit t2) = unat (residentLimit ?T)"
      using rt.ins_new [OF D(4)] new map by metis
    moreover have "find_cell k A \<noteq> Some i" for k using find_cell_Some [OF D(13)] i by simp
    ultimately show ?thesis
      by (intro that [of ?T t2]) (use False map in \<open>auto simp: word_unat_eq_iff\<close>)
  next
    case True
    then obtain m where i: "i < size_of s" "cells A ! i = Ready m 0 False"
      using choose_cell_SomeD [OF D(13) c] wf_cacheD(4) [OF D(13), of i] D(7) by auto
    then have m: "metadata (ent s i) = m" using D(8) by (simp add: cell_of_iff)
    have old: "find_cell (key m) A = Some i" using find_cell_Some [OF D(13)] i D(7) by simp
    then obtain t1 t2 where t: "table_erase ?T (key m) i = Some (True, t1)" "table_insert t1 (key md) i = (True, t2)"
        "table_invar t2" "table_map t2 = (table_map ?T)(key m := None, key md \<mapsto> i)"
        "unat (residentLimit t2) = unat (residentLimit ?T)"
      using rt.replace_key [OF D(4), of "key m" i "key md"] new map by auto
    have "find_cell k A = Some i \<longleftrightarrow> k = key m" for k using find_cell_Some [OF D(13)] i D(7) by auto
    then have "table_map t2 k = (if k = key md then Some i else if find_cell k A = Some i then None else find_cell k A)" for k
      unfolding t(4) map using new by auto
    moreover have "residentLimit t2 = residentLimit ?T" using t(5) by (simp add: word_unat_eq_iff)
    ultimately show ?thesis using that [of t1 t2] t(1-3) True m by simp
  qed
qed


lemma reserve_candidate_run:
  assumes "entry_at s i = Some e" "dataForGpu (req_gpuId rq) e = Some p"
    "cacheState e = (if wasEmpty then Empty else Valid)" "activeAccesses e = 0" "\<not> inEvictableList e"
    "(if wasEmpty then Some (True, residencyTable s)
      else table_erase (residencyTable s) (key (metadata e)) i) = Some (True, t1)"
    "table_insert t1 (key md) i = (True, t2)"
    "(if \<not> wasEmpty \<and> evictionPolicy s = FIFO then removeFilledEntry i (s\<lparr>residencyTable := t2\<rparr>)
      else Some (True, s\<lparr>residencyTable := t2\<rparr>)) = Some (True, s3)"
    "modify_entry i (\<lambda>e. (invalidateReplicas (e\<lparr>metadata := md\<rparr>))
        \<lparr>cacheState := Loading, activeAccesses := 1, discardWhenUnused := False\<rparr>)
       (count_stat (\<lambda>t. t\<lparr>fill := fill t + 1,
          eviction := (if wasEmpty then eviction t else eviction t + 1)\<rparr>) s3) = Some s5"
  shows "reserve_candidate md rq i wasEmpty r s = Some (Returned
     \<lparr>owner = Some (self s), accessData = dataForGpu (req_gpuId rq) e, accessBytes = cacheBytes s,
      entryIndex = i, dataKey = key md, accessStream = req_stream rq, deviceId = req_gpuId rq,
      accessStatus = CacheFill\<rparr>, r, s5)"
  unfolding reserve_candidate_def using assms(1-5) by (simp add: assms(6-9))

section \<open>Unlinking from both lists\<close>

definition unlink :: "nat \<Rightarrow> GpuDataCache \<Rightarrow> GpuDataCache" where
  "unlink i s = unlink_fl i (unlink_ev i s)"

lemma unlink_frame [simp]:
  "length (entries (unlink i s)) = size_of s" "no_null (entries (unlink i s)) = full s"
  "self (unlink i s) = self s" "statistics (unlink i s) = statistics s"
  "notifications (unlink i s) = notifications s" "waitTimeout (unlink i s) = waitTimeout s"
  "evictionPolicy (unlink i s) = evictionPolicy s" "waitingAccesses (unlink i s) = waitingAccesses s"
  "eligibleGpuIds (unlink i s) = eligibleGpuIds s" "residencyTable (unlink i s) = residencyTable s"
  "emptyEntries (unlink i s) = emptyEntries s" "cacheBytes (unlink i s) = cacheBytes s"
  "activeFallbackAccesses (unlink i s) = activeFallbackAccesses s"
  "cacheInitialized (unlink i s) = cacheInitialized s" "releasing (unlink i s) = releasing s"
  "failed (unlink i s) = failed s" "full s \<Longrightarrow> core (ent (unlink i s) j) = core (ent s j)"
  by (simp_all add: unlink_def)

lemma unlink_fl_frame_update:
  "unlink_fl i (s\<lparr>emptyEntries := xs\<rparr>) = (unlink_fl i s)\<lparr>emptyEntries := xs\<rparr>"
  "unlink_fl i (s\<lparr>residencyTable := t\<rparr>) = (unlink_fl i s)\<lparr>residencyTable := t\<rparr>"
  by (simp_all add: unlink_fl_def set_fl_def fl_def)

lemma unlink_lists:
  assumes "implements s A"
  shows "represents (ev (unlink i s)) (remove1 i (idle A))" "represents (fl (unlink i s)) (remove1 i (ages A))"
    "\<not> inEvictableList (ent (unlink i s) i)" "\<not> inFilledList (ent (unlink i s) i)"
    "i \<notin> set (remove1 i (idle A))" "i \<notin> set (remove1 i (ages A))"
proof -
  note D = implementsD [OF assms]
  note U = unlink_ev_lists [OF D(1,10,19), where i = i]
  have "full (unlink_ev i s)" "set (ages A) \<subseteq> {..<size_of (unlink_ev i s)}" using D(1,20) by simp_all
  note V = unlink_fl_lists [OF this(1) U(2) [OF D(11)] this(2), where i = i]
  show "represents (ev (unlink i s)) (remove1 i (idle A))" "represents (fl (unlink i s)) (remove1 i (ages A))"
    "\<not> inEvictableList (ent (unlink i s) i)" "\<not> inFilledList (ent (unlink i s) i)"
    unfolding unlink_def using U V by auto
  show "i \<notin> set (remove1 i (idle A))" "i \<notin> set (remove1 i (ages A))"
    using representsD(1) [OF D(10)] representsD(1) [OF D(11)] by simp_all
qed

text \<open>
  An entry taken off both lists and rewritten: the rest of the cache is as before.
\<close>

lemma implements_unlinked:
  assumes impl: "implements s A" and i: "i < size_of s"
    and es: "entries s' = (entries (unlink i s))[i := Some e]" "\<not> inEvictableList e" "\<not> inFilledList e"
      "\<And>g. dataForGpu g e = dataForGpu g (ent s i)" "entry_ok (gpu s) (cacheBytes s) e"
    and heads: "leastRecentlyUsed s' = leastRecentlyUsed (unlink i s)" "mostRecentlyUsed s' = mostRecentlyUsed (unlink i s)"
      "oldestFilled s' = oldestFilled (unlink i s)" "newestFilled s' = newestFilled (unlink i s)"
    and config: "self s' = self s" "eligibleGpuIds s' = eligibleGpuIds s" "cacheBytes s' = cacheBytes s"
      "evictionPolicy s' = evictionPolicy s" "waitTimeout s' = waitTimeout s"
      "cacheInitialized s' = cacheInitialized s" "releasing s' = releasing s"
    and table: "table_invar (residencyTable s')"
      "residentLimit (residencyTable s') = residentLimit (residencyTable s)"
      "\<And>k. table_map (residencyTable s') k = (if cell_key (cell_of e) = Some k then Some i
         else if find_cell k A = Some i then None else find_cell k A)"
    and A': "cells A' = (cells A)[i := cell_of e]" "free A' = emptyEntries s'"
      "idle A' = remove1 i (idle A)" "ages A' = remove1 i (ages A)" "fifo A' = fifo A" "wf_cache A'"
  shows "implements s' A'" "same_config s' s"
proof -
  note D = implementsD [OF impl] and U = unlink_lists [OF impl, where i = i]
  have ent': "ent s' j = (if j = i then e else ent (unlink i s) j)" for j
    using i es(1) D(1) by simp
  show same: "same_config s' s"
    using D(1) es(4) config by (intro same_configI [OF D(1) i es(1)]) simp_all
  have "represents (ev s') (idle A')"
    unfolding A' using i U heads es by (intro put_entry_ev [OF U(1) _ es(1)]) auto
  moreover have "represents (fl s') (ages A')"
    unfolding A' using i U heads es by (intro put_entry_fl [OF U(2) _ es(1)]) auto
  moreover have "full s'" using es(1) D(1) by simp
  ultimately show "implements s' A'"
    using D(1) es(5) table A' by (intro implements_change [OF impl i same]) (simp_all add: ent')
qed

lemma unlink_remove:
  assumes impl: "implements s A"
  shows "inEvictableList (ent s i) \<Longrightarrow> removeEvictableEntry i s = Some (True, unlink_ev i s)"
    and "inFilledList (ent s i) \<Longrightarrow> removeFilledEntry i ((unlink_ev i s)\<lparr>emptyEntries := xs, residencyTable := t\<rparr>)
      = Some (True, (unlink i s)\<lparr>emptyEntries := xs, residencyTable := t\<rparr>)"
    and "inFilledList (ent s i) \<Longrightarrow> removeFilledEntry i (unlink_ev i s) = Some (True, unlink i s)"
proof -
  note D = implementsD [OF impl]
  note U = unlink_ev_lists [OF D(1,10,19), where i = i]
  show "removeEvictableEntry i s = Some (True, unlink_ev i s)" if "inEvictableList (ent s i)"
    using that unlink_ev_remove [OF impl, of i] representsD(6) [OF D(10), of i] by simp
  have rem: "removeFilledEntry i s1 = Some (True, unlink_fl i s1)"
    if "inFilledList (ent s i)" "entries s1 = entries (unlink_ev i s)" "oldestFilled s1 = oldestFilled s" "newestFilled s1 = newestFilled s" for s1
  proof -
    have "represents (fl s1) (ages A)" using U(2) [OF D(11)] that(2-) fl_frame_eq [of s1 "unlink_ev i s"] by simp
    moreover have "i \<in> set (ages A)" using representsD(6) [OF D(11), of i] that(1) by simp
    ultimately show ?thesis
      using removeFilledEntry_link [of s1 "ages A" i] D(1,20) that(1,2) U(4) by (simp add: unlink_fl_def)
  qed
  show "removeFilledEntry i ((unlink_ev i s)\<lparr>emptyEntries := xs, residencyTable := t\<rparr>)
      = Some (True, (unlink i s)\<lparr>emptyEntries := xs, residencyTable := t\<rparr>)" if "inFilledList (ent s i)"
    using rem [OF that, of "(unlink_ev i s)\<lparr>emptyEntries := xs, residencyTable := t\<rparr>"]
    by (simp add: unlink_def unlink_fl_frame_update)
  show "removeFilledEntry i (unlink_ev i s) = Some (True, unlink i s)" if "inFilledList (ent s i)"
    using rem [OF that, of "unlink_ev i s"] by (simp add: unlink_def)
qed

lemma unlink_fl_idle: "implements s A \<Longrightarrow> \<not> inFilledList (ent s i) \<Longrightarrow> unlink i s = unlink_ev i s"
  using unlink_ev_lists(4) [OF implementsD(1,10,19)] by (simp add: unlink_def unlink_fl_def)

lemma attempt_fill:
  assumes impl: "implements s A" and c: "choose_cell A = Some i" and new: "find_cell (key md) A = None"
    and rq: "req_gpuId rq = gpu s"
  shows "\<exists>s'. attempt_miss now start md rq r s = Some (Returned (lease s rq md i CacheFill), r, s')
    \<and> implements s' (take_cell i md A) \<and> quiet s' s
    \<and> statistics s' = (statistics s)\<lparr>fill := fill (statistics s) + 1,
         eviction := (if free A \<noteq> [] then eviction (statistics s) else eviction (statistics s) + 1)\<rparr>
    \<and> notifications s' = notifications s"
proof -
  note D = implementsD [OF impl]
  obtain t1 t2 where t1: "(if free A \<noteq> [] then Some (True, residencyTable s)
      else table_erase (residencyTable s) (key (metadata (ent s i))) i) = Some (True, t1)"
    and t2: "table_insert t1 (key md) i = (True, t2)" "table_invar t2" "residentLimit t2 = residentLimit (residencyTable s)"
    and map: "\<And>k. table_map t2 k = (if k = key md then Some i else if find_cell k A = Some i then None else find_cell k A)"
    using exchange_keys [OF impl c new] by metis
  have i: "i < size_of s" using choose_cell_SomeD(1) [OF D(13) c] D(7) by simp
  let ?s0 = "(unlink_ev i s)\<lparr>emptyEntries := remove1 i (emptyEntries s)\<rparr>"
  define s1 where "s1 = ?s0\<lparr>residencyTable := t2\<rparr>"
  define t where "t = (unlink i s)\<lparr>emptyEntries := remove1 i (emptyEntries s), residencyTable := t2\<rparr>"
  let ?load = "\<lambda>e. (invalidateReplicas (e\<lparr>metadata := md\<rparr>))\<lparr>cacheState := Loading, activeAccesses := 1, discardWhenUnused := False\<rparr>"
  let ?fill = "\<lambda>t. t\<lparr>fill := fill t + 1, eviction := (if free A \<noteq> [] then eviction t else eviction t + 1)\<rparr>"
  define s' where "s' = (count_stat ?fill t)\<lparr>entries := (entries t)[i := Some (?load (ent t i))]\<rparr>"
  note c0 = core_eqD [OF unlink_core(1) [OF D(1), of i i]] and ct = core_eqD [OF unlink_frame(17) [OF D(1), of i i]]
  have cand: "cacheState (ent s i) = (if free A \<noteq> [] then Empty else Valid)" "activeAccesses (ent s i) = 0"
    using choose_cell_SomeD(2) [OF D(13) c] D(8) [OF i] D(3) [OF i] wf_cacheD(4) [OF D(13), of i]
    by (auto simp: cell_of_iff entry_ok_def unat_eq_zero)
  have inF: "inFilledList (ent s i) \<longleftrightarrow> free A = [] \<and> evictionPolicy s = FIFO"
    using representsD(6) [OF D(11), of i] wf_cacheD(6) [OF D(13), of i] cand D(7,8,12) i
    by (auto simp: cell_of_def split: if_splits)
  have rem: "(if \<not> free A \<noteq> [] \<and> evictionPolicy ?s0 = FIFO then removeFilledEntry i (?s0\<lparr>residencyTable := t2\<rparr>)
      else Some (True, ?s0\<lparr>residencyTable := t2\<rparr>)) = Some (True, t)"
    using unlink_remove(2) [OF impl, where i = i and xs = "remove1 i (emptyEntries s)" and t = t2] unlink_fl_idle [OF impl, of i] inF
    by (auto simp: t_def)
  obtain p where p: "dataForGpu (gpu s) (ent s i) = Some p" using entry_okD(1) [OF D(3) [OF i]] by blast
  have s0: "entry_at ?s0 i = Some (ent (unlink_ev i s) i)" using i D(1) by (simp add: entry_at_ent)
  have put: "modify_entry i ?load (count_stat ?fill t) = Some s'"
    using i D(1) by (simp add: modify_entry_ent s'_def count_stat_def t_def)
  have h1: "(if free A \<noteq> [] then Some (True, residencyTable ?s0)
      else table_erase (residencyTable ?s0) (key (metadata (ent (unlink_ev i s) i))) i) = Some (True, t1)"
  proof -
    have "residencyTable ?s0 = residencyTable s" by simp
    then show ?thesis unfolding c0(1) using t1 by (simp only:)
  qed
  have reserve: "reserve_candidate md rq i (free A \<noteq> []) r ?s0 = Some (Returned (lease s rq md i CacheFill), r, s')"
    using reserve_candidate_run [OF s0 _ _ _ _ h1 t2(1) rem put, of rq p r] p rq cand c0
      core_dataForGpu [OF unlink_core(1) [OF D(1), of i i]] unlink_ev_lists(3) [OF D(1,10,19)]
    by (simp add: lease_def)
  have run: "attempt_miss now start md rq r s = Some (Returned (lease s rq md i CacheFill), r, s')"
    using take_candidate_unlinked [OF impl c] reserve by (simp add: attempt_miss_def)
  have ok: "entry_ok (gpu s) (cacheBytes s) (?load (ent t i))"
    using D(3) [OF i] ct by (auto simp: t_def entry_ok_def invalidateReplicas_def)
  have data: "dataForGpu g (?load (ent t i)) = dataForGpu g (ent s i)" for g
    using dataForGpu_invalidate [of g "ent t i"] ct(4) by (simp add: dataForGpu_def invalidateReplicas_def t_def)
  have cell: "cell_of (?load (ent t i)) = Filling md" by (simp add: cell_of_iff invalidateReplicas_def)
  have "implements s' (take_cell i md A) \<and> same_config s' s"
    using D(7,9) i t2(2,3) map cell ok data unlink_lists(3,4) [OF impl, of i] wf_take_cell [OF D(13) _ new]
    by (intro conjI implements_unlinked [OF impl i, where e = "?load (ent t i)" and A' = "take_cell i md A"])
      (auto simp: s'_def t_def count_stat_def take_cell_def invalidateReplicas_def)
  then show ?thesis using run by (auto simp: quiet_def s'_def count_stat_def t_def)
qed

section \<open>One pass of the request loop\<close>

text \<open>The coupling does not depend on the statistics, the notifications or the lease counters.\<close>

lemma implements_frame [simp]:
  "implements (s\<lparr>statistics := st\<rparr>) A = implements s A"
  "implements (s\<lparr>notifications := k\<rparr>) A = implements s A"
  "implements (s\<lparr>waitingAccesses := c\<rparr>) A = implements s A"
  "implements (s\<lparr>activeFallbackAccesses := c\<rparr>) A = implements s A"
  "implements (s\<lparr>failed := b\<rparr>) A = implements s A"
  by (simp_all add: implements_def ev_def fl_def)

lemma implements_count [simp]:
  "implements (count_stat f s) A = implements s A" "implements (notify_all s) A = implements s A"
  by (simp_all add: count_stat_def notify_all_def)

lemma same_config_refl [simp]: "same_config s s"
  by (simp add: same_config_def)

lemma same_config_trans: "same_config a b \<Longrightarrow> same_config b c \<Longrightarrow> same_config a c"
  by (simp add: same_config_def)

lemma decide_cases:
  assumes "wf_cache A"
  obtains (Hit) i n d where "decide md A = Hit i" "find_cell (key md) A = Some i" "i < length (cells A)" "cells A ! i = Ready md n d"
  | (Fill) i where "decide md A = Fill i" "find_cell (key md) A = None" "choose_cell A = Some i"
  | (BusyLoading) i where "decide md A = BusyLoading" "find_cell (key md) A = Some i" "i < length (cells A)" "cells A ! i = Filling md"
  | (BusyFull) "decide md A = BusyFull" "find_cell (key md) A = None" "choose_cell A = None" "cells A \<noteq> []"
  | (NoCapacity) "decide md A = NoCapacity" "find_cell (key md) A = None" "choose_cell A = None" "cells A = []"
  | (Mismatch) i m where "decide md A = Mismatch" "find_cell (key md) A = Some i" "i < length (cells A)" "m \<noteq> md"
      "cells A ! i = Filling m \<or> (\<exists>n d. cells A ! i = Ready m n d)"
proof (cases "find_cell (key md) A")
  case None
  then show thesis using that(2,4,5) by (cases "choose_cell A") (auto simp: decide_def)
next
  case (Some i)
  then have i: "i < length (cells A)" "cell_key (cells A ! i) = Some (key md)"
    using find_cell_Some [OF assms] by simp_all
  show thesis
  proof (cases "cells A ! i")
    case (Filling m)
    then show thesis using Some i that(3,6) by (cases "m = md") (simp_all add: decide_def)
  next
    case (Ready m n d)
    then show thesis using Some i that(1,6) by (cases "m = md") (simp_all add: decide_def)
  qed (use i in simp)
qed

lemma attempt_decides:
  assumes impl: "implements s A" and ok: "\<not> failed s" and rq: "req_gpuId rq = gpu s"
    and room: "\<And>i. i < length (cells A) \<Longrightarrow> readers (cells A ! i) < 2 ^ 64 - 1"
  shows "case decide md A of
      Hit i \<Rightarrow> \<exists>s'. attempt now start md rq r s = Some (Returned (lease s rq md i CacheHit), r, s')
        \<and> implements s' (perform md (Hit i) A) \<and> quiet s' s
        \<and> statistics s' = (statistics s)\<lparr>hit := hit (statistics s) + 1\<rparr> \<and> notifications s' = notifications s
    | Fill i \<Rightarrow> \<exists>s'. attempt now start md rq r s = Some (Returned (lease s rq md i CacheFill), r, s')
        \<and> implements s' (perform md (Fill i) A) \<and> quiet s' s
        \<and> statistics s' = (statistics s)\<lparr>fill := fill (statistics s) + 1,
            eviction := (if free A \<noteq> [] then eviction (statistics s) else eviction (statistics s) + 1)\<rparr>
        \<and> notifications s' = notifications s
    | BusyLoading \<Rightarrow> attempt now start md rq r s = Some (block_or_fall_back now start md rq LoadingNoWait LoadingTimeout
        (\<lambda>t. t\<lparr>firstBlockedLoading := firstBlockedLoading t + 1\<rparr>) r s)
    | BusyFull \<Rightarrow> attempt now start md rq r s = Some (block_or_fall_back now start md rq FullNoWait FullTimeout
        (\<lambda>t. t\<lparr>firstBlockedFull := firstBlockedFull t + 1\<rparr>) r s)
    | NoCapacity \<Rightarrow> attempt now start md rq r s =
        Some (Returned (fst (makeFallbackAccess md rq CapacityZero s)), r, snd (makeFallbackAccess md rq CapacityZero s))
    | Mismatch \<Rightarrow> attempt now start md rq r s = invalid_return r s"
proof -
  note D = implementsD [OF impl]
  have find: "table_find (residencyTable s) (key md) = find_cell (key md) A"
    using rt.find_alpha [OF D(4)] D(6) by simp
  have at: "entry_at s i = Some (ent s i)" if "i < length (cells A)" for i
    using that D(1,7) by (simp add: entry_at_ent)
  from D(13) show ?thesis
  proof (cases rule: decide_cases [where md = md])
    case (Hit i n d)
    then show ?thesis
      using attempt_hit [OF impl _ _ rq, of i md n d now start r] room [of i] D(7) ok find
      by (simp add: attempt_def)
  next
    case (Fill i)
    then show ?thesis
      using attempt_fill [OF impl _ _ rq, of i md now start r] ok find by (simp add: attempt_def)
  next
    case (BusyLoading i)
    then have "cacheState (ent s i) = Loading" "metadata (ent s i) = md"
      using D(7,8) by (simp_all add: cell_of_iff)
    then show ?thesis
      using BusyLoading ok find at by (simp add: attempt_def attempt_resident_def)
  next
    case BusyFull
    moreover have "entries s \<noteq> []" using BusyFull D(7) by auto
    ultimately show ?thesis
      using takeCandidate_choose [OF impl] ok find by (simp add: attempt_def attempt_miss_def)
  next
    case NoCapacity
    moreover have "entries s = []" using NoCapacity D(7) by auto
    ultimately show ?thesis
      using takeCandidate_choose [OF impl] ok find by (simp add: attempt_def attempt_miss_def case_prod_beta Let_def)
  next
    case (Mismatch i m)
    then have "metadata (ent s i) = m" using D(7,8) by (auto simp: cell_of_iff)
    then show ?thesis
      using Mismatch ok find at by (simp add: attempt_def attempt_resident_def)
  qed
qed


section \<open>Dropping an entry\<close>

lemma clear_entry_facts:
  assumes "entry_ok g b e"
  shows "entry_ok g b (clear_entry e)" "cell_of (clear_entry e) = Free"
    "dataForGpu h (clear_entry e) = dataForGpu h e" "\<not> inEvictableList (clear_entry e)" "\<not> inFilledList (clear_entry e)"
  using assms dataForGpu_invalidate [of h e]
  by (auto simp: clear_entry_def entry_ok_def cell_of_def dataForGpu_def invalidateReplicas_def)

text \<open>\<open>resetEntry\<close> on a resident entry, linked or not, is the abstract \<open>drop_cell\<close>.\<close>

lemma resetEntry_run:
  assumes "full s" "i < size_of s"
    "inEvictableList (ent s i) \<Longrightarrow> removeEvictableEntry i s = Some (True, unlink_ev i s)"
    "inFilledList (ent (unlink_ev i s) i) \<Longrightarrow> removeFilledEntry i (unlink_ev i s) = Some (True, unlink i s)"
    "table_erase (residencyTable s) (key (metadata (ent s i))) i = Some (b, t)"
  shows "resetEntry i s = Some (notify_all ((unlink i s)\<lparr>residencyTable := t,
     entries := (entries (unlink i s))[i := Some (clear_entry (ent (unlink i s) i))],
     emptyEntries := emptyEntries s @ [i]\<rparr>))"
proof -
  have e1: "(if inEvictableList (ent s i) then removeEvictableEntry i s else Some (False, s))
      = Some (inEvictableList (ent s i), unlink_ev i s)"
    using assms(3) by (auto simp: unlink_ev_def)
  have e2: "(if inFilledList (ent (unlink_ev i s) i) then removeFilledEntry i (unlink_ev i s) else Some (False, unlink_ev i s))
      = Some (inFilledList (ent (unlink_ev i s) i), unlink i s)"
    using assms(4) by (auto simp: unlink_def unlink_fl_def)
  have m: "metadata (ent (unlink i s) i) = metadata (ent s i)"
    using core_eqD(1) [OF unlink_frame(17) [OF assms(1)]] .
  show ?thesis
    unfolding resetEntry_def
    using assms(1,2,5) e1 e2 m by (simp add: entry_at_ent modify_entry_ent)
qed

lemma resetEntry_drops:
  assumes impl: "implements s A" and i: "i < size_of s" "cells A ! i \<noteq> Free"
  shows "\<exists>s'. resetEntry i s = Some s' \<and> implements s' (drop_cell i A) \<and> quiet s' s
    \<and> statistics s' = statistics s \<and> notifications s' = notifications s + 1"
proof -
  note D = implementsD [OF impl] and U = unlink_lists [OF impl, where i = i]
  let ?k = "key (metadata (ent s i))"
  have "cell_key (cells A ! i) = Some ?k"
    using i D(8) by (auto simp: cell_of_def split: GpuCacheState.splits)
  then have k: "find_cell k A = Some i \<longleftrightarrow> k = ?k" for k using find_cell_Some [OF D(13)] i D(7) by auto
  then obtain t where t: "table_erase (residencyTable s) ?k i = Some (True, t)" "table_invar t"
      "table_map t = (table_map (residencyTable s))(?k := None)" "unat (residentLimit t) = unat (residentLimit (residencyTable s))"
    using rt.era_found [OF D(4), of ?k i] D(6) by auto
  have map: "table_map t k = (if find_cell k A = Some i then None else find_cell k A)" for k
    using t(3) D(6) k by auto
  let ?e = "clear_entry (ent (unlink i s) i)"
  define s' where "s' = notify_all ((unlink i s)\<lparr>residencyTable := t, entries := (entries (unlink i s))[i := Some ?e],
     emptyEntries := emptyEntries s @ [i]\<rparr>)"
  have run: "resetEntry i s = Some s'"
    unfolding s'_def using unlink_remove [OF impl, of i] unlink_ev_lists(4) [OF D(1,10,19)]
    by (intro resetEntry_run [OF D(1) i(1) _ _ t(1)]) simp_all
  have core: "core (ent (unlink i s) i) = core (ent s i)" using D(1) by simp
  have ok: "entry_ok (gpu s) (cacheBytes s) (ent (unlink i s) i)" using core_entry_ok [OF core] D(3) [OF i(1)] by simp
  have "implements s' (drop_cell i A) \<and> same_config s' s"
    using D(7,9) i t(2,4) map clear_entry_facts [OF ok] core_dataForGpu [OF core] wf_drop_cell [OF D(13)]
    by (intro conjI implements_unlinked [OF impl i(1), where e = ?e and A' = "drop_cell i A"])
      (auto simp: s'_def notify_all_def drop_cell_def word_unat_eq_iff)
  then show ?thesis using run by (auto simp: quiet_def s'_def notify_all_def)
qed

section \<open>Rewriting an entry in place\<close>

definition put_entry :: "nat \<Rightarrow> GpuDataCacheEntry \<Rightarrow> GpuDataCache \<Rightarrow> GpuDataCache" where
  "put_entry i e s = s\<lparr>entries := (entries s)[i := Some e]\<rparr>"

definition same_links :: "GpuDataCacheEntry \<Rightarrow> GpuDataCacheEntry \<Rightarrow> bool" where
  "same_links e e' \<longleftrightarrow> previousEvictable e = previousEvictable e' \<and> nextEvictable e = nextEvictable e'
     \<and> inEvictableList e = inEvictableList e' \<and> previousFilled e = previousFilled e'
     \<and> nextFilled e = nextFilled e' \<and> inFilledList e = inFilledList e'"

lemma put_entry_frame [simp]:
  "length (entries (put_entry i e s)) = size_of s" "full s \<Longrightarrow> no_null (entries (put_entry i e s))"
  "i < size_of s \<Longrightarrow> ent (put_entry i e s) j = (if j = i then e else ent s j)"
  "self (put_entry i e s) = self s" "statistics (put_entry i e s) = statistics s"
  "notifications (put_entry i e s) = notifications s" "waitTimeout (put_entry i e s) = waitTimeout s"
  "evictionPolicy (put_entry i e s) = evictionPolicy s" "waitingAccesses (put_entry i e s) = waitingAccesses s"
  "eligibleGpuIds (put_entry i e s) = eligibleGpuIds s" "residencyTable (put_entry i e s) = residencyTable s"
  "emptyEntries (put_entry i e s) = emptyEntries s" "leastRecentlyUsed (put_entry i e s) = leastRecentlyUsed s"
  "mostRecentlyUsed (put_entry i e s) = mostRecentlyUsed s" "oldestFilled (put_entry i e s) = oldestFilled s"
  "newestFilled (put_entry i e s) = newestFilled s" "cacheBytes (put_entry i e s) = cacheBytes s"
  "activeFallbackAccesses (put_entry i e s) = activeFallbackAccesses s"
  "cacheInitialized (put_entry i e s) = cacheInitialized s" "releasing (put_entry i e s) = releasing s"
  "failed (put_entry i e s) = failed s"
  by (simp_all add: put_entry_def)

lemma modify_entry_put: "full s \<Longrightarrow> i < size_of s \<Longrightarrow> modify_entry i f s = Some (put_entry i (f (ent s i)) s)"
  by (simp add: modify_entry_ent put_entry_def)

lemma put_entry_views:
  assumes "i < size_of s" "same_links e (ent s i)"
  shows "ev (put_entry i e s) = ev s" "fl (put_entry i e s) = fl s"
  using assms by (auto simp: ev_def fl_def same_links_def intro!: ext)

lemma update_entries_put:
  "i < length es \<Longrightarrow> update_entries f (es[i := Some e]) = (update_entries f es)[i := Some (f i e)]"
  by (intro nth_equalityI) (auto simp: update_entries_def nth_list_update)

lemma clear_entry_put [simp]: "clear_entry (fl_put v i e) = clear_entry e"
  by (simp add: clear_entry_def invalidateReplicas_def fl_put_def)

text \<open>The same entry is dropped whether or not its payload state was rewritten just before.\<close>

lemma resetEntry_put:
  assumes impl: "implements s A" and i: "i < size_of s" "cells A ! i \<noteq> Free" "i \<notin> set (idle A)"
    and e: "same_links e (ent s i)" "metadata e = metadata (ent s i)"
      "clear_entry e = clear_entry (ent s i)"
  shows "resetEntry i (put_entry i e s) = resetEntry i s"
proof -
  note D = implementsD [OF impl]
  let ?s1 = "put_entry i e s"
  note V = put_entry_views [OF i(1) e(1)]
  have out: "\<not> inEvictableList (ent s i)" using representsD(6) [OF D(10), of i] i(3) by simp
  have ue: "unlink_ev i s = s" "unlink_ev i ?s1 = ?s1"
    using out e(1) i(1) by (simp_all add: unlink_ev_def same_links_def)
  have inF: "inFilledList (ent ?s1 i) = inFilledList (ent s i)" using e(1) i(1) by (simp add: same_links_def)
  obtain b t where t: "table_erase (residencyTable s) (key (metadata (ent s i))) i = Some (b, t)"
    using rt.era_found [OF D(4)] rt.era_refused [OF D(4)] by metis
  have rem: "removeFilledEntry i s0 = Some (True, unlink i s0)" if "inFilledList (ent s0 i)" "s0 = s \<or> s0 = ?s1" for s0
  proof -
    have "represents (fl s0) (ages A)" "full s0" "size_of s0 = size_of s" "unlink_ev i s0 = s0"
      using that(2) D(1,11) V ue by auto
    moreover have "i \<in> set (ages A)" using representsD(6) [OF calculation(1)] that(1) by simp
    ultimately show ?thesis
      using removeFilledEntry_link [of s0 "ages A" i] D(20) that(1) by (simp add: unlink_def unlink_fl_def)
  qed
  have run: "resetEntry i s0 = Some (notify_all ((unlink i s0)\<lparr>residencyTable := t,
     entries := (entries (unlink i s0))[i := Some (clear_entry (ent (unlink i s0) i))],
     emptyEntries := emptyEntries s0 @ [i]\<rparr>))" if "s0 = s \<or> s0 = ?s1" for s0
    using that D(1) i(1) rem [of s0] ue out inF t e(1,2)
    by (intro resetEntry_run [where b = b]) (auto simp: same_links_def)
  have "(unlink i ?s1)\<lparr>residencyTable := t, entries := (entries (unlink i ?s1))[i := Some (clear_entry (ent (unlink i ?s1) i))],
       emptyEntries := emptyEntries ?s1 @ [i]\<rparr>
    = (unlink i s)\<lparr>residencyTable := t, entries := (entries (unlink i s))[i := Some (clear_entry (ent (unlink i s) i))],
       emptyEntries := emptyEntries s @ [i]\<rparr>"
    using D(1) i(1) e(3) ue inF V(2)
    by (auto simp: unlink_def unlink_fl_def set_fl_def put_entry_def update_entries_put)
  then show ?thesis using run [of s] run [of ?s1] by simp
qed

section \<open>Linking an idle entry\<close>

lemma addEvictable_appends:
  assumes "full s" "represents (ev s) E" "set E \<subseteq> {..<size_of s}" "represents (fl s) F"
    "i < size_of s" "i \<notin> set E" "i \<noteq> NO_ENTRY" "cacheState (ent s i) = Valid" "activeAccesses (ent s i) = 0"
  shows "\<exists>s'. addEvictableEntry i s = Some (True, s') \<and> represents (ev s') (E @ [i]) \<and> represents (fl s') F
    \<and> full s' \<and> size_of s' = size_of s \<and> (\<forall>j. core (ent s' j) = core (ent s j)) \<and> quiet s' s
    \<and> residencyTable s' = residencyTable s \<and> emptyEntries s' = emptyEntries s
    \<and> statistics s' = statistics s \<and> notifications s' = notifications s + 1"
proof -
  let ?v = "link_append i (ev s)"
  let ?s' = "notify_all (set_ev ?v s)"
  have run: "addEvictableEntry i s = Some (True, ?s')"
    by (rule addEvictableEntry_link [OF assms(1-3,5,6,8,9)])
  have "represents ?v (E @ [i])" by (rule represents_append [OF assms(2,6,7)])
  then have "represents (ev (set_ev ?v s)) (E @ [i])"
    using assms(3,5) by (intro represents_set_ev [OF assms(1)]) auto
  moreover have "represents (fl (set_ev ?v s)) F"
    using assms(1) by (intro represents_fl_frame [OF assms(4)]) (auto simp: nth_entry_out)
  moreover have core: "core (ent (set_ev ?v s) j) = core (ent s j)" for j
    using assms(1) by (simp add: nth_entry_out)
  moreover have "quiet (set_ev ?v s) s"
    using core_dataForGpu [OF core] by (simp add: quiet_def same_config_def)
  ultimately show ?thesis
    using run assms(1) ev_frame_eq [of ?s' "set_ev ?v s"] fl_frame_eq [of ?s' "set_ev ?v s"]
    by (auto simp: notify_all_def quiet_def same_config_def)
qed

lemma addFilled_appends:
  assumes "full s" "represents (fl s) F" "set F \<subseteq> {..<size_of s}" "represents (ev s) E"
    "i < size_of s" "i \<notin> set F" "i \<noteq> NO_ENTRY" "cacheState (ent s i) = Valid" "activeAccesses (ent s i) = 0"
  shows "\<exists>s'. addFilledEntry i s = Some (True, s') \<and> represents (fl s') (if evictionPolicy s = FIFO then F @ [i] else F)
    \<and> represents (ev s') E \<and> full s' \<and> size_of s' = size_of s \<and> (\<forall>j. core (ent s' j) = core (ent s j)) \<and> quiet s' s
    \<and> residencyTable s' = residencyTable s \<and> emptyEntries s' = emptyEntries s
    \<and> statistics s' = statistics s \<and> notifications s' = notifications s"
proof (cases "evictionPolicy s = FIFO")
  case True
  let ?v = "link_append i (fl s)"
  have run: "addFilledEntry i s = Some (True, set_fl ?v s)"
    using addFilledEntry_link [OF assms(1-3,5,6,8,9)] True by simp
  have "represents ?v (F @ [i])" by (rule represents_append [OF assms(2,6,7)])
  then have "represents (fl (set_fl ?v s)) (F @ [i])"
    using assms(3,5) by (intro represents_set_fl [OF assms(1)]) auto
  moreover have "represents (ev (set_fl ?v s)) E"
    using assms(1) by (intro represents_ev_frame [OF assms(4)]) (auto simp: nth_entry_out)
  moreover have core: "core (ent (set_fl ?v s) j) = core (ent s j)" for j
    using assms(1) by (simp add: nth_entry_out)
  moreover have "quiet (set_fl ?v s) s"
    using core_dataForGpu [OF core] by (simp add: quiet_def same_config_def)
  ultimately show ?thesis
    using run assms(1) True by auto
next
  case False
  then show ?thesis using assms by (auto simp: addFilledEntry_def quiet_def)
qed

section \<open>Readers leave\<close>

lemma quiet_refl [simp]: "quiet s s"
  by (simp add: quiet_def)

text \<open>
  One entry is rewritten, keeping its key and its memory, and the lists follow.
\<close>

lemma implements_rewritten:
  assumes impl: "implements s A" and i: "i < size_of s"
    and e: "\<And>g. dataForGpu g e = dataForGpu g (ent s i)" "entry_ok (gpu s) (cacheBytes s) e"
      "cell_key (cell_of e) = cell_key (cells A ! i)"
    and s': "\<And>j. core (ent s' j) = core (if j = i then e else ent s j)" "full s'" "quiet s' (put_entry i e s)"
      "residencyTable s' = residencyTable s"
    and A': "cells A' = (cells A)[i := cell_of e]" "free A' = emptyEntries s'" "represents (ev s') (idle A')"
      "represents (fl s') (ages A')" "fifo A' = fifo A" "wf_cache A'"
  shows "implements s' A'" "quiet s' s"
proof -
  note D = implementsD [OF impl]
  have "same_config (put_entry i e s) s"
    using D(1) e(1) by (intro same_configI [OF D(1) i, where t = s and e = e]) (simp_all add: put_entry_def)
  then have q: "quiet (put_entry i e s) s" by (simp add: quiet_def)
  then show "quiet s' s" using s'(3) same_config_trans by (auto simp: quiet_def)
  then have same: "same_config s' s" by (simp add: quiet_def)
  have ci: "core (ent s' i) = core e" using s'(1) by simp
  have "(if cell_key (cell_of e) = Some k then Some i else if find_cell k A = Some i then None else find_cell k A)
    = find_cell k A" for k
    using find_cell_Some [OF D(13), of k i] e(3) i D(7) by auto
  then show "implements s' A'"
    using D(4,6) s' e(2) A' core_entry_ok [OF ci] core_cell_of [OF ci]
    by (intro implements_change [OF impl i same]) simp_all
qed

lemma unat_dec: "0 < unat (a :: size_t) \<Longrightarrow> unat (a - 1) = unat a - 1"
  by (rule unat_minus_one) auto

lemma same_links_refl [simp]: "same_links (e\<lparr>activeAccesses := a\<rparr>) e" "same_links (e\<lparr>discardWhenUnused := d, activeAccesses := a\<rparr>) e"
  by (simp_all add: same_links_def)

definition leave_with :: "bool \<Rightarrow> GpuDataCacheEntry \<Rightarrow> GpuDataCacheEntry" where
  "leave_with disc e = e\<lparr>discardWhenUnused := (discardWhenUnused e \<or> disc), activeAccesses := activeAccesses e - 1\<rparr>"

lemma leave_with_sel [simp]:
  "same_links (leave_with disc e) e" "dataForGpu g (leave_with disc e) = dataForGpu g e"
  "metadata (leave_with disc e) = metadata e" "cacheState (leave_with disc e) = cacheState e"
  "activeAccesses (leave_with disc e) = activeAccesses e - 1"
  "discardWhenUnused (leave_with disc e) = (discardWhenUnused e \<or> disc)"
  "replicas (leave_with disc e) = replicas e" "clear_entry (leave_with disc e) = clear_entry e"
  "entry_ok g b (leave_with disc e) = entry_ok g b e" if "cacheState e = Valid"
  using that by (simp_all add: leave_with_def same_links_def dataForGpu_def clear_entry_def invalidateReplicas_def entry_ok_def)

lemma reader_leaves:
  assumes impl: "implements s A" and i: "i < size_of s" "cells A ! i = Ready m n d" "0 < n"
  shows "\<exists>s'. modify_entry i (leave_with disc) s \<bind> releaseReaderEntry i = Some (True, s')
    \<and> implements s' (leave_cell i disc A) \<and> quiet s' s
    \<and> statistics s' = (if n = 1 \<and> (d \<or> disc) then inc_discard (statistics s) else statistics s)
    \<and> notifications s' = (if n = 1 then notifications s + 1 else notifications s)"
proof -
  note D = implementsD [OF impl]
  let ?e = "ent s i"
  let ?e' = "leave_with disc ?e"
  let ?s1 = "put_entry i ?e' s"
  have e: "cacheState ?e = Valid" "metadata ?e = m" "unat (activeAccesses ?e) = n" "discardWhenUnused ?e = d"
    using i D(8) by (simp_all add: cell_of_iff)
  note L = leave_with_sel [OF e(1)]
  have idle: "i \<notin> set (idle A)" using wf_cacheD(5) [OF D(13), of i] i by auto
  have a: "unat (activeAccesses ?e') = n - 1" using unat_dec [of "activeAccesses ?e"] e(3) i(3) L by simp
  have start: "modify_entry i (leave_with disc) s \<bind> releaseReaderEntry i = releaseReaderEntry i ?s1"
    using D(1) i(1) by (simp add: modify_entry_put)
  have at: "entry_at ?s1 i = Some ?e'" using D(1) i(1) by (simp add: entry_at_ent)
  consider (readers) "1 < n" | (discarded) "n = 1" "d \<or> disc" | (idle) "n = 1" "\<not> (d \<or> disc)" using i(3) by linarith
  then show ?thesis
  proof cases
    case readers
    then have "activeAccesses ?e' \<noteq> 0" using a by auto
    then have "releaseReaderEntry i ?s1 = Some (True, ?s1)" using at by (simp add: releaseReaderEntry_def)
    moreover have "implements ?s1 (leave_cell i disc A) \<and> quiet ?s1 s"
      using readers i D(1,3,7,9,10,11) e a L put_entry_views [OF i(1) L(1)] wf_leave_cell [OF D(13) _ i(2,3), of disc]
      by (intro conjI implements_rewritten [OF impl i(1), where e = ?e' and A' = "leave_cell i disc A"])
        (auto simp: leave_cell_def cell_of_def)
    ultimately show ?thesis using start readers by auto
  next
    case discarded
    then have "activeAccesses ?e' = 0" using a by (simp add: unat_eq_zero)
    moreover have "resetEntry i ?s1 = resetEntry i s"
      using L i(2) by (intro resetEntry_put [OF impl i(1) _ idle]) simp_all
    moreover have "cells A ! i \<noteq> Free" using i(2) by simp
    ultimately show ?thesis
      using resetEntry_drops [OF impl i(1)] at L e(4) discarded start i(2)
      by (auto simp: releaseReaderEntry_def leave_cell_def count_stat_def quiet_def same_config_def)
  next
    case idle
    have "activeAccesses ?e' = 0" using idle(1) a by (simp add: unat_eq_zero)
    moreover have "i \<noteq> NO_ENTRY" using i(1) D(2) by (simp add: NO_ENTRY_num)
    ultimately obtain s' where s': "addEvictableEntry i ?s1 = Some (True, s')" "represents (ev s') (idle A @ [i])"
        "represents (fl s') (ages A)" "full s'" "size_of s' = size_of s" "\<And>j. core (ent s' j) = core (ent ?s1 j)"
        "quiet s' ?s1" "residencyTable s' = residencyTable s" "emptyEntries s' = emptyEntries s"
        "statistics s' = statistics s" "notifications s' = notifications s + 1"
      using addEvictable_appends [of ?s1 "idle A" "ages A" i] D(1,10,11,19) i(1) \<open>i \<notin> set (idle A)\<close>
        put_entry_views [OF i(1) L(1)] e(1) L by auto
    have "releaseReaderEntry i ?s1 = Some (True, s')"
      using at \<open>activeAccesses ?e' = 0\<close> L e(4) idle(2) s'(1) by (simp add: releaseReaderEntry_def)
    moreover have "implements s' (leave_cell i disc A) \<and> quiet s' s"
      using idle i D(3,7,9) e a L s' wf_leave_cell [OF D(13) _ i(2,3), of disc]
      by (intro conjI implements_rewritten [OF impl i(1), where e = ?e' and A' = "leave_cell i disc A"])
        (auto simp: leave_cell_def cell_of_def)
    ultimately show ?thesis using start idle s'(10,11) by auto
  qed
qed


section \<open>Fills are published or rolled back\<close>

definition publish_with :: "int \<Rightarrow> GpuDataCacheEntry \<Rightarrow> GpuDataCacheEntry" where
  "publish_with g e = (snd (markReplicaValid g e))\<lparr>cacheState := Valid, activeAccesses := 0\<rparr>"

lemma publish_with_facts:
  assumes "entry_ok g b e" "cacheState e = Loading"
  shows "same_links (publish_with g e) e" "dataForGpu h (publish_with g e) = dataForGpu h e"
    "metadata (publish_with g e) = metadata e" "cacheState (publish_with g e) = Valid"
    "activeAccesses (publish_with g e) = 0" "clear_entry (publish_with g e) = clear_entry e"
    "entry_ok g b (publish_with g e)" "cell_of (publish_with g e) = Ready (metadata e) 0 False"
  using assms dataForGpu_mark [of h g e]
  by (auto simp: publish_with_def same_links_def markReplicaValid_def clear_entry_def invalidateReplicas_def
      entry_ok_def cell_of_def dataForGpu_def)

lemma fill_published:
  assumes impl: "implements s A" and i: "i < size_of s" "cells A ! i = Filling m"
    and a: "entryIndex a = i" "deviceId a = gpu s"
  shows "\<exists>s'. complete_fill a True retention (ent s i) s = Some (True, True, s')
    \<and> implements s' (publish_cell i (retention = Discard) A) \<and> quiet s' s
    \<and> statistics s' = (if retention = Discard then inc_discard (statistics s) else statistics s)
    \<and> notifications s' = notifications s + 1"
proof -
  note D = implementsD [OF impl]
  let ?e = "ent s i"
  let ?e' = "publish_with (gpu s) ?e"
  let ?s1 = "put_entry i ?e' s"
  have e: "cacheState ?e = Loading" "metadata ?e = m" using i D(8) by (simp_all add: cell_of_iff)
  have e1: "activeAccesses ?e = 1" using D(3) [OF i(1)] e(1) by (simp add: entry_ok_def)
  note P = publish_with_facts [OF D(3) [OF i(1)] e(1)]
  have out: "i \<notin> set (idle A)" "i \<notin> set (ages A)" "i \<noteq> NO_ENTRY"
    using wf_cacheD(5,6) [OF D(13), of i] i D(2) by (auto simp: NO_ENTRY_num)
  have nev: "\<not> inEvictableList ?e" using representsD(6) [OF D(10), of i] out by simp
  have mod: "modify_entry i (\<lambda>e. (snd (markReplicaValid (gpu s) e))\<lparr>cacheState := Valid, activeAccesses := 0\<rparr>) s = Some ?s1"
    using D(1) i(1) by (simp add: modify_entry_put publish_with_def)
  show ?thesis
  proof (cases "retention = Discard")
    case True
    have "resetEntry i ?s1 = resetEntry i s"
      using P i(2) by (intro resetEntry_put [OF impl i(1) _ out(1)]) simp_all
    then show ?thesis
      using resetEntry_drops [OF impl i(1)] True a e e1 nev mod entry_okD(3) [OF D(3) [OF i(1)]] i(2)
      by (auto simp: complete_fill_def publish_cell_def count_stat_def quiet_def same_config_def)
  next
    case False
    have V: "represents (ev ?s1) (idle A)" "represents (fl ?s1) (ages A)"
      using put_entry_views [OF i(1) P(1)] D(10,11) by simp_all
    obtain s2 where s2: "addFilledEntry i ?s1 = Some (True, s2)"
        "represents (fl s2) (if evictionPolicy ?s1 = FIFO then ages A @ [i] else ages A)"
        "represents (ev s2) (idle A)" "full s2" "size_of s2 = size_of s" "\<And>j. core (ent s2 j) = core (ent ?s1 j)"
        "quiet s2 ?s1" "residencyTable s2 = residencyTable s" "emptyEntries s2 = emptyEntries s"
        "statistics s2 = statistics s" "notifications s2 = notifications s"
      using addFilled_appends [of ?s1 "ages A" "idle A" i] V D(1,20) i(1) out P by auto
    have "cacheState (ent s2 i) = Valid" "activeAccesses (ent s2 i) = 0"
      using core_eqD(2,3) [OF s2(6) [of i]] P i(1) by simp_all
    then obtain s3 where s3: "addEvictableEntry i s2 = Some (True, s3)" "represents (ev s3) (idle A @ [i])"
        "represents (fl s3) (if evictionPolicy ?s1 = FIFO then ages A @ [i] else ages A)" "full s3"
        "\<And>j. core (ent s3 j) = core (ent s2 j)" "quiet s3 s2" "residencyTable s3 = residencyTable s"
        "emptyEntries s3 = emptyEntries s" "statistics s3 = statistics s" "notifications s3 = notifications s + 1"
      using addEvictable_appends [OF s2(4,3) _ s2(2), of i] s2(5,8-11) D(19) i(1) out by auto
    have "quiet s3 ?s1" using s3(6) s2(7) same_config_trans by (auto simp: quiet_def)
    moreover have "core (ent s3 j) = core (if j = i then ?e' else ent s j)" for j
      using s3(5) s2(6) i(1) by simp
    ultimately have "implements s3 (publish_cell i False A) \<and> quiet s3 s"
      using i D(7,9,12) P e(2) s3 wf_publish_cell [OF D(13) _ i(2), of False]
      by (intro conjI implements_rewritten [OF impl i(1), where e = ?e' and A' = "publish_cell i False A"])
        (auto simp: publish_cell_def)
    then show ?thesis
      using False a e e1 nev mod entry_okD(3) [OF D(3) [OF i(1)]] s2(1) s3(1,9,10)
      by (auto simp: complete_fill_def)
  qed
qed

lemma fill_rolled_back:
  assumes impl: "implements s A" and i: "i < size_of s" "cells A ! i = Filling m" and a: "entryIndex a = i"
  shows "\<exists>s'. complete_fill a False retention (ent s i) s = Some (True, False, s')
    \<and> implements s' (drop_cell i A) \<and> quiet s' s \<and> statistics s' = statistics s \<and> notifications s' = notifications s + 1"
proof -
  note D = implementsD [OF impl]
  have "cacheState (ent s i) = Loading" using i D(8) by (simp add: cell_of_iff)
  moreover from this have "activeAccesses (ent s i) = 1" using D(3) [OF i(1)] by (simp add: entry_ok_def)
  moreover have "\<not> inEvictableList (ent s i)"
    using representsD(6) [OF D(10), of i] wf_cacheD(5) [OF D(13), of i] i by simp
  ultimately show ?thesis
    using resetEntry_drops [OF impl i(1)] i(2) a by (auto simp: complete_fill_def)
qed

section \<open>Completing and aborting leases\<close>

text \<open>A lease the cache has handed out and that is not finished yet.\<close>

definition live :: "GpuDataCache \<Rightarrow> abstract_cache \<Rightarrow> GpuDataAccess \<Rightarrow> bool" where
  "live s A a \<longleftrightarrow> owner a = Some (self s) \<and> deviceId a = gpu s \<and> accessBytes a = cacheBytes s \<and>
     (case accessStatus a of
        CacheHit \<Rightarrow> entryIndex a < size_of s \<and> accessData a = dataForGpu (gpu s) (ent s (entryIndex a))
          \<and> (\<exists>m n d. cells A ! entryIndex a = Ready m n d \<and> 0 < n \<and> key m = dataKey a)
      | CacheFill \<Rightarrow> entryIndex a < size_of s \<and> accessData a = dataForGpu (gpu s) (ent s (entryIndex a))
          \<and> (\<exists>m. cells A ! entryIndex a = Filling m \<and> key m = dataKey a)
      | TaskFallback \<Rightarrow> entryIndex a = NO_ENTRY \<and> accessData a \<noteq> nullptr \<and> 0 < activeFallbackAccesses s
      | Invalid \<Rightarrow> False)"

fun finish :: "CacheStatus \<Rightarrow> nat \<Rightarrow> bool \<Rightarrow> bool \<Rightarrow> abstract_cache \<Rightarrow> abstract_cache" where
  "finish CacheHit i ok disc A = leave_cell i disc A"
| "finish CacheFill i ok disc A = (if ok then publish_cell i disc A else drop_cell i A)"
| "finish _ i ok disc A = A"

definition finished :: "GpuDataAccess \<Rightarrow> GpuDataCache \<Rightarrow> GpuDataCache \<Rightarrow> bool" where
  "finished a s' s \<longleftrightarrow> same_config s' s \<and> waitingAccesses s' = waitingAccesses s \<and> failed s' = failed s
     \<and> activeFallbackAccesses s' =
         (if accessStatus a = TaskFallback then activeFallbackAccesses s - 1 else activeFallbackAccesses s)"

text \<open>The end of this lease makes an entry available and is announced to the sleeping requests.\<close>

definition wakes :: "GpuDataAccess \<Rightarrow> abstract_cache \<Rightarrow> bool" where
  "wakes a A \<longleftrightarrow> accessStatus a = CacheFill
     \<or> accessStatus a = CacheHit \<and> readers (cells A ! entryIndex a) = 1"

lemma live_matches:
  assumes impl: "implements s A" and a: "live s A a" and "accessStatus a \<noteq> TaskFallback"
  shows "entryIndex a < size_of s" "entry_at s (entryIndex a) = Some (ent s (entryIndex a))"
    "lease_matches a (ent s (entryIndex a)) s"
    "accessStatus a = CacheHit \<or> accessStatus a = CacheFill"
proof -
  note D = implementsD [OF impl]
  have i: "entryIndex a < size_of s" "deviceId a = gpu s" "accessData a = dataForGpu (gpu s) (ent s (entryIndex a))"
      "accessBytes a = cacheBytes s"
    using a assms(3) by (auto simp: live_def split: CacheStatus.splits)
  moreover have "key (metadata (ent s (entryIndex a))) = dataKey a"
    using a assms(3) i(1) D(8) by (auto simp: live_def cell_of_iff split: CacheStatus.splits)
  ultimately show "lease_matches a (ent s (entryIndex a)) s" by (simp add: lease_matches_def)
  show "entryIndex a < size_of s" "entry_at s (entryIndex a) = Some (ent s (entryIndex a))"
    using i(1) D(1) by (simp_all add: entry_at_ent)
  show "accessStatus a = CacheHit \<or> accessStatus a = CacheFill"
    using a assms(3) by (auto simp: live_def split: CacheStatus.splits)
qed

lemma hit_state:
  assumes impl: "implements s A" and i: "i < size_of s" "cells A ! i = Ready m n d" "0 < n"
  shows "cacheState (ent s i) = Valid" "0 < activeAccesses (ent s i)" "\<not> inEvictableList (ent s i)" "replicaValid (gpu s) (ent s i)"
proof -
  note D = implementsD [OF impl]
  show v: "cacheState (ent s i) = Valid" using i D(8) by (simp add: cell_of_iff)
  have "unat (activeAccesses (ent s i)) = n" using i D(8) by (simp add: cell_of_iff)
  then show "0 < activeAccesses (ent s i)" using i(3) by (simp add: word_less_nat_alt)
  show "\<not> inEvictableList (ent s i)"
    using representsD(6) [OF D(10), of i] wf_cacheD(5) [OF D(13), of i] i by simp
  show "replicaValid (gpu s) (ent s i)" using entry_okD(2) [OF D(3) [OF i(1)]] v by simp
qed

lemma complete_hit_leave:
  "complete_hit a retention e s =
     (if cacheState e = Valid \<and> activeAccesses e > 0 \<and> \<not> inEvictableList e \<and> replicaValid (deviceId a) e
      then modify_entry (entryIndex a) (leave_with (retention = Discard)) s \<bind> releaseReaderEntry (entryIndex a)
      else Some (False, s))"
  by (simp add: complete_hit_def leave_with_def [abs_def])

lemma completeAccess_finishes:
  assumes impl: "implements s A" and a: "live s A a" and rel: "\<not> releasing s"
  shows "\<exists>s'. completeAccess a ok retention s = Some (ok, default_access, s')
    \<and> implements s' (finish (accessStatus a) (entryIndex a) ok (retention = Discard) A) \<and> finished a s' s
    \<and> notifications s' = (if wakes a A then notifications s + 1 else notifications s)"
proof (cases "accessStatus a = TaskFallback")
  case True
  then show ?thesis
    using a impl rel implementsD(14) [OF impl]
    by (auto simp: live_def completeAccess_def finished_def same_config_def wakes_def)
next
  case False
  note D = implementsD [OF impl] and M = live_matches [OF impl a False]
  let ?i = "entryIndex a"
  have own: "owner a = Some (self s)" "deviceId a = gpu s" using a by (simp_all add: live_def)
  have target: "(if cacheInitialized s \<and> \<not> releasing s then case entry_at s ?i of
       Some e \<Rightarrow> if lease_matches a e s then Some e else None | None \<Rightarrow> None else None) = Some (ent s ?i)"
    using M rel D(14) by simp
  from M(4) show ?thesis
  proof
    assume hit: "accessStatus a = CacheHit"
    then obtain m n d where c: "cells A ! ?i = Ready m n d" "0 < n" using a by (auto simp: live_def)
    obtain s' where s': "modify_entry ?i (leave_with (retention = Discard)) s \<bind> releaseReaderEntry ?i = Some (True, s')"
        "implements s' (leave_cell ?i (retention = Discard) A)" "quiet s' s"
        "notifications s' = (if n = 1 then notifications s + 1 else notifications s)"
      using reader_leaves [OF impl M(1) c] by blast
    then have "complete_hit a retention (ent s ?i) s = Some (True, s')"
      using hit_state [OF impl M(1) c] own(2) by (simp add: complete_hit_leave)
    then show ?thesis
      using own hit target s' c(1) by (simp add: completeAccess_def finished_def quiet_def wakes_def)
  next
    assume fill: "accessStatus a = CacheFill"
    then obtain m where c: "cells A ! ?i = Filling m" using a by (auto simp: live_def)
    obtain s' where s': "complete_fill a ok retention (ent s ?i) s = Some (True, ok, s')"
        "implements s' (finish CacheFill ?i ok (retention = Discard) A)" "quiet s' s"
        "notifications s' = notifications s + 1"
      using fill_published [OF impl M(1) c refl own(2), of retention] fill_rolled_back [OF impl M(1) c refl, of retention]
      by (cases ok) auto
    then show ?thesis
      using own fill target by (simp add: completeAccess_def finished_def quiet_def count_stat_def same_config_def wakes_def)
  qed
qed

lemma abortAccess_finishes:
  assumes impl: "implements s A" and a: "live s A a"
  shows "\<exists>s'. abortAccess a s = Some (default_access, s')
    \<and> implements s' (finish (accessStatus a) (entryIndex a) False False A) \<and> finished a s' s
    \<and> notifications s' = (if wakes a A then notifications s + 1 else notifications s)"
proof (cases "accessStatus a = TaskFallback")
  case True
  then show ?thesis
    using a impl by (auto simp: live_def abortAccess_def finished_def same_config_def wakes_def)
next
  case False
  note D = implementsD [OF impl] and M = live_matches [OF impl a False]
  let ?i = "entryIndex a"
  have own: "owner a = Some (self s)" using a by (simp add: live_def)
  from M(4) show ?thesis
  proof
    assume hit: "accessStatus a = CacheHit"
    then obtain m n d where c: "cells A ! ?i = Ready m n d" "0 < n" using a by (auto simp: live_def)
    have leave: "(\<lambda>e. e\<lparr>activeAccesses := activeAccesses e - 1\<rparr>) = leave_with False"
      by (simp add: leave_with_def [abs_def])
    obtain s' where s': "modify_entry ?i (leave_with False) s \<bind> releaseReaderEntry ?i = Some (True, s')"
        "implements s' (leave_cell ?i False A)" "quiet s' s"
        "notifications s' = (if n = 1 then notifications s + 1 else notifications s)"
      using reader_leaves [OF impl M(1) c] by blast
    then obtain s2 where "modify_entry ?i (leave_with False) s = Some s2" "releaseReaderEntry ?i s2 = Some (True, s')"
      by (auto simp: bind_eq_Some_conv)
    then show ?thesis
      using own hit s' M hit_state [OF impl M(1) c] c(1) unfolding abortAccess_def leave
      by (simp add: finished_def quiet_def wakes_def)
  next
    assume fill: "accessStatus a = CacheFill"
    then obtain m where c: "cells A ! ?i = Filling m" using a by (auto simp: live_def)
    let ?s1 = "count_stat inc_fillFailed s"
    have impl1: "implements ?s1 A" using impl by simp
    have e: "cacheState (ent s ?i) = Loading" "activeAccesses (ent s ?i) = 1" "\<not> inEvictableList (ent s ?i)"
      using c D(3,8) [OF M(1)] representsD(6) [OF D(10), of ?i] wf_cacheD(5) [OF D(13), of ?i]
      by (auto simp: cell_of_iff entry_ok_def)
    obtain s' where s': "resetEntry ?i ?s1 = Some s'" "implements s' (drop_cell ?i A)" "quiet s' ?s1"
        "notifications s' = notifications s + 1"
      using resetEntry_drops [OF impl1, of ?i] M(1) c by (auto simp: count_stat_def)
    have "entry_at ?s1 ?i = Some (ent s ?i)" "lease_matches a (ent s ?i) ?s1" "size_of ?s1 = size_of s"
      using M by (simp_all add: count_stat_def entry_at_def lease_matches_def)
    then show ?thesis
      using own fill s' M(1) e unfolding abortAccess_def Let_def
      by (simp add: finished_def quiet_def same_config_def wakes_def) (simp add: count_stat_def)
  qed
qed

section \<open>Resetting the cache\<close>

lemma update_entries_id: "full s \<Longrightarrow> s\<lparr>entries := update_entries (\<lambda>i e. if i < 0 then f e else e) (entries s)\<rparr> = s"
proof -
  assume "full s"
  then have "update_entries (\<lambda>i e. if i < 0 then f e else e) (entries s) = entries s"
    by (intro entries_eqI) (auto simp: nth_entry_out)
  then show ?thesis by simp
qed

lemma clear_from_run:
  "full s \<Longrightarrow> k \<le> size_of s \<Longrightarrow> clear_from k s =
     Some (s\<lparr>entries := update_entries (\<lambda>i e. if i < k then clear_entry e else e) (entries s),
             emptyEntries := emptyEntries s @ rev [0..<k]\<rparr>)"
proof (induction k arbitrary: s)
  case 0
  then show ?case using update_entries_id [of s clear_entry] by simp
next
  case (Suc k)
  let ?s1 = "(put_entry k (clear_entry (ent s k)) s)\<lparr>emptyEntries := emptyEntries s @ [k]\<rparr>"
  have "clear_from (Suc k) s = clear_from k ?s1"
    using Suc.prems by (simp add: modify_entry_put)
  also have "\<dots> = Some (?s1\<lparr>entries := update_entries (\<lambda>i e. if i < k then clear_entry e else e) (entries ?s1),
       emptyEntries := emptyEntries ?s1 @ rev [0..<k]\<rparr>)"
    using Suc.prems by (intro Suc.IH) simp_all
  also have "update_entries (\<lambda>i e. if i < k then clear_entry e else e) (entries ?s1)
      = update_entries (\<lambda>i e. if i < Suc k then clear_entry e else e) (entries s)"
    using Suc.prems by (intro entries_eqI) (auto simp: less_Suc_eq)
  finally show ?case by (simp add: put_entry_def)
qed

lemma empty_cache_sel [simp]:
  "free (empty_cache n f) = rev [0..<n]" "idle (empty_cache n f) = []" "ages (empty_cache n f) = []"
  "fifo (empty_cache n f) = f" "length (cells (empty_cache n f)) = n"
  by (simp_all add: empty_cache_def)

lemma resetEntriesLocked_empties:
  assumes impl: "implements s A"
  shows "\<exists>s'. resetEntriesLocked s = Some s' \<and> implements s' (empty_cache (size_of s) (evictionPolicy s = FIFO))
    \<and> quiet s' s \<and> statistics s' = statistics s \<and> notifications s' = notifications s"
proof -
  note D = implementsD [OF impl]
  define s' where "s' = s\<lparr>residencyTable := table_clear (residencyTable s),
     leastRecentlyUsed := NO_ENTRY, mostRecentlyUsed := NO_ENTRY, oldestFilled := NO_ENTRY, newestFilled := NO_ENTRY,
     entries := update_entries (\<lambda>i e. if i < size_of s then clear_entry e else e) (entries s),
     emptyEntries := rev [0..<size_of s]\<rparr>"
  have run: "resetEntriesLocked s = Some s'"
    using clear_from_run [of "s\<lparr>residencyTable := table_clear (residencyTable s), emptyEntries := [],
       leastRecentlyUsed := NO_ENTRY, mostRecentlyUsed := NO_ENTRY, oldestFilled := NO_ENTRY, newestFilled := NO_ENTRY\<rparr>"] D(1)
    by (simp add: resetEntriesLocked_def s'_def)
  have ent': "ent s' j = (if j < size_of s then clear_entry (ent s j) else new_entry)" for j
    using D(1) by (simp add: s'_def)
  have len: "size_of s' = size_of s" by (simp add: s'_def)
  have f: "residencyTable s' = table_clear (residencyTable s)" "emptyEntries s' = rev [0..<size_of s]" "full s'"
      "eligibleGpuIds s' = eligibleGpuIds s" "cacheBytes s' = cacheBytes s" "evictionPolicy s' = evictionPolicy s"
      "waitTimeout s' = waitTimeout s" "cacheInitialized s' = cacheInitialized s"
    using D(1) by (simp_all add: s'_def)
  have one: "length (eligibleGpuIds s) = 1" using impl unfolding implements_def by blast
  note C = clear_entry_facts [OF D(3)]
  have "represents (ev s') []" "represents (fl s') []"
    using C(4,5) by (auto intro!: represents_empty simp: ent' split: if_splits) (simp_all add: s'_def)
  moreover have "cells (empty_cache (size_of s) f) = map (\<lambda>i. cell_of (ent s' i)) [0..<size_of s']" for f
    using C(2) len by (intro nth_equalityI) (auto simp: empty_cache_def ent')
  moreover have "find_cell k (empty_cache (size_of s) f) = None" for k f
    by (auto simp: find_cell_None empty_cache_def)
  moreover have "entry_ok (gpu s) (cacheBytes s) (ent s' i)" if "i < size_of s" for i
    using C(1) that by (simp add: ent')
  ultimately have "implements s' (empty_cache (size_of s) (evictionPolicy s = FIFO))"
    using D(1,2,5,14-16,18) table_clear_invar [OF D(4)] one wf_empty_cache f len
    unfolding implements_def by simp
  moreover have "dataForGpu g (ent s' j) = dataForGpu g (ent s j)" for g j
    using C(3) by (simp add: ent' nth_entry_out)
  ultimately show ?thesis using run by (auto simp: quiet_def same_config_def s'_def)
qed

lemma canResetLocked_iff:
  assumes impl: "implements s A"
  shows "canResetLocked s \<longleftrightarrow> activeFallbackAccesses s = 0 \<and> waitingAccesses s = 0
    \<and> (\<forall>i<length (cells A). readers (cells A ! i) = 0 \<and> (\<forall>m. cells A ! i \<noteq> Filling m))"
proof -
  note D = implementsD [OF impl]
  have "entry_idle (entries s ! i) \<longleftrightarrow> readers (cells A ! i) = 0 \<and> (\<forall>m. cells A ! i \<noteq> Filling m)" if "i < size_of s" for i
    using that D(3,8) [OF that] nth_ent [OF D(1) that]
    by (auto simp: entry_idle_def cell_of_def entry_ok_def unat_eq_zero split: GpuCacheState.splits)
  then show ?thesis
    using D(7) by (auto simp: canResetLocked_def list_all_length)
qed

end
