(* ===== verification/Cache_Lifecycle.thy ===== *)
theory Cache_Lifecycle
  imports Cache_Refinement
begin

text \<open>
  \<open>initialize\<close> and \<open>release\<close> of \<open>DataCache/GpuDataCache.cpp\<close>, with their critical
  sections and the unlocked device work between them, the two destructors they rely on, and the
  state they leave behind.  \<open>cache_initialize\<close> and \<open>cache_release\<close> are the calls that no other
  thread interrupts; their parts are definitions of their own.
\<close>

section \<open>Initialisation\<close>

text \<open>Which host allocations of \<open>initialize\<close> get their memory.\<close>

record host_memory =
  tableMemory :: "nat \<Rightarrow> bool"
  vectorMemory :: bool
  entryMemory :: "nat \<Rightarrow> bool"
  replicaMemory :: "nat \<Rightarrow> bool"
  idsMemory :: bool

definition init_blocked :: "GpuDataCache \<Rightarrow> bool" where
  "init_blocked s \<longleftrightarrow> cacheInitialized s \<or> releasing s \<or> entries s \<noteq> [] \<or> eligibleGpuIds s \<noteq> []
     \<or> tableInitialized (residencyTable s) \<or> emptyEntries s \<noteq> []
     \<or> leastRecentlyUsed s \<noteq> NO_ENTRY \<or> mostRecentlyUsed s \<noteq> NO_ENTRY
     \<or> oldestFilled s \<noteq> NO_ENTRY \<or> newestFilled s \<noteq> NO_ENTRY"

text \<open>The first critical section: the guard of \<open>initialize\<close>.\<close>

definition init_rejected :: "int list \<Rightarrow> size_t \<Rightarrow> int \<Rightarrow> CacheEvictionPolicy \<Rightarrow> GpuDataCache \<Rightarrow> bool" where
  "init_rejected gpuIds n timeout policy s \<longleftrightarrow> init_blocked s \<or> length gpuIds \<noteq> 1 \<or> hd gpuIds < 0 \<or> n = 0
     \<or> timeout < 0 \<or> (policy \<noteq> LRU \<and> policy \<noteq> FIFO)"

text \<open>The destructor of the entries built so far.\<close>

fun destroy_entries :: "('w, 'x) cuda_api_scheme \<Rightarrow> GpuDataCacheEntry option list \<Rightarrow> 'w \<Rightarrow> 'w" where
  "destroy_entries api [] w = w"
| "destroy_entries api (None # es) w = destroy_entries api es w"
| "destroy_entries api (Some e # es) w = (let (_, _, w') = entry_release api e w in destroy_entries api es w')"

text \<open>The unlocked work: \<open>cacheEntryCount\<close> entries, each with its device memory.\<close>

fun build_entries ::
  "('w, 'x) cuda_api_scheme \<Rightarrow> host_memory \<Rightarrow> int list \<Rightarrow> size_t \<Rightarrow> nat list \<Rightarrow> GpuDataCacheEntry option list \<Rightarrow> 'w
     \<Rightarrow> GpuDataCacheEntry option list option \<times> 'w" where
  "build_entries api mem gpuIds n [] acc w = (Some acc, w)"
| "build_entries api mem gpuIds n (index # is) acc w =
     (if \<not> entryMemory mem index then (None, destroy_entries api acc w)
      else case entry_initialize api (replicaMemory mem index) gpuIds n new_entry w of
             (False, e, w1) \<Rightarrow> (None, destroy_entries api acc (destroy_entries api [Some e] w1))
           | (True, e, w1) \<Rightarrow> build_entries api mem gpuIds n is (acc @ [Some e]) w1)"

text \<open>The second critical section.\<close>

definition init_commit ::
  "bool \<Rightarrow> int list \<Rightarrow> size_t \<Rightarrow> int \<Rightarrow> CacheEvictionPolicy \<Rightarrow> GpuResidencyTable \<Rightarrow> GpuDataCacheEntry option list
     \<Rightarrow> nat list \<Rightarrow> GpuDataCache \<Rightarrow> bool \<times> GpuDataCache" where
  "init_commit idsOk gpuIds n timeout policy newTable newEntries newEmpty s =
     (if init_blocked s then (False, s)
      else if \<not> idsOk then (False, s\<lparr>eligibleGpuIds := []\<rparr>)
      else (True, s\<lparr>eligibleGpuIds := gpuIds, entries := newEntries,
              residencyTable := fst (table_swap (residencyTable s) newTable),
              emptyEntries := newEmpty, cacheBytes := n, waitTimeout := timeout,
              evictionPolicy := policy, activeFallbackAccesses := 0, statistics := zero_statistics,
              failed := False, cacheInitialized := True\<rparr>))"

definition cache_initialize ::
  "('w, 'x) cuda_api_scheme \<Rightarrow> host_memory \<Rightarrow> int list \<Rightarrow> size_t \<Rightarrow> size_t \<Rightarrow> int \<Rightarrow> CacheEvictionPolicy
     \<Rightarrow> GpuDataCache \<Rightarrow> 'w \<Rightarrow> (bool \<times> GpuDataCache \<times> 'w) option" where
  "cache_initialize api mem gpuIds n cacheEntryCount timeout policy s w =
     (if init_rejected gpuIds n timeout policy s then Some (False, s, w)
      else do {
        (tableOk, newTable) \<leftarrow> table_initialize (tableMemory mem) new_table cacheEntryCount;
        if \<not> tableOk \<or> \<not> vectorMemory mem then Some (False, s, w)
        else case build_entries api mem gpuIds n [0..<unat cacheEntryCount] [] w of
               (None, w1) \<Rightarrow> Some (False, s, w1)
             | (Some newEntries, w1) \<Rightarrow>
                 let (ok, s1) = init_commit (idsMemory mem) gpuIds n timeout policy newTable newEntries
                                  (rev [0..<unat cacheEntryCount]) s
                 in Some (ok, s1, if ok then w1 else destroy_entries api newEntries w1)
      })"

section \<open>Release\<close>

text \<open>The first critical section; \<open>Some b\<close> is an early return of \<open>b\<close>.\<close>

definition release_begin :: "GpuDataCache \<Rightarrow> bool option \<times> GpuDataCache" where
  "release_begin s =
     (if \<not> cacheInitialized s \<and> entries s = [] \<and> eligibleGpuIds s = []
         \<and> \<not> tableInitialized (residencyTable s) \<and> emptyEntries s = [] then (Some True, s)
      else if releasing s \<or> \<not> canResetLocked s then (Some False, s)
      else (None, s\<lparr>cacheInitialized := False, releasing := True\<rparr>))"

text \<open>The unlocked loop over the entries: \<open>ok\<close>, \<open>allReleased\<close>, the entries and the runtime afterwards.\<close>

fun release_entries ::
  "('w, 'x) cuda_api_scheme \<Rightarrow> GpuDataCacheEntry option list \<Rightarrow> 'w
     \<Rightarrow> bool \<times> bool \<times> GpuDataCacheEntry option list \<times> 'w" where
  "release_entries api [] w = (True, True, [], w)"
| "release_entries api (None # es) w =
     (let (ok, allReleased, es', w') = release_entries api es w in (ok, allReleased, None # es', w'))"
| "release_entries api (Some e # es) w =
     (let (released, e', w1) = entry_release api e w;
          (ok, allReleased, es', w') = release_entries api es w1
      in (released \<and> ok, \<not> entryInitialized e' \<and> allReleased, Some e' # es', w'))"

definition release_finish :: "bool \<Rightarrow> GpuDataCache \<Rightarrow> GpuDataCache" where
  "release_finish allReleased s =
     (if allReleased
      then s\<lparr>entries := [], eligibleGpuIds := [], residencyTable := table_release (residencyTable s),
             emptyEntries := [], leastRecentlyUsed := NO_ENTRY, mostRecentlyUsed := NO_ENTRY,
             oldestFilled := NO_ENTRY, newestFilled := NO_ENTRY, cacheBytes := 0,
             activeFallbackAccesses := 0, failed := False, cacheInitialized := False, releasing := False\<rparr>
      else s\<lparr>releasing := False\<rparr>)"

definition cache_release ::
  "('w, 'x) cuda_api_scheme \<Rightarrow> GpuDataCache \<Rightarrow> 'w \<Rightarrow> bool \<times> GpuDataCache \<times> 'w" where
  "cache_release api s w =
     (case release_begin s of
        (Some b, s1) \<Rightarrow> (b, s1, w)
      | (None, s1) \<Rightarrow>
          let (ok, allReleased, es, w1) = release_entries api (entries s1) w
          in (ok, release_finish allReleased (s1\<lparr>entries := es\<rparr>), w1))"

section \<open>A successful initialisation gives an empty cache\<close>

lemma build_entries_ok:
  assumes "malloc_gives_memory api" "build_entries api mem gs n is acc w = (Some es, w')"
    "\<forall>x\<in>set acc. \<exists>e. x = Some e \<and> entry_ok (hd gs) n e \<and> cell_of e = Free \<and> \<not> inEvictableList e \<and> \<not> inFilledList e"
  shows "length es = length acc + length is
    \<and> (\<forall>x\<in>set es. \<exists>e. x = Some e \<and> entry_ok (hd gs) n e \<and> cell_of e = Free \<and> \<not> inEvictableList e \<and> \<not> inFilledList e)"
  using assms(2,3)
proof (induction "is" arbitrary: acc w)
  case (Cons i "is")
  obtain ok e w1 where init: "entry_initialize api (replicaMemory mem i) gs n new_entry w = (ok, e, w1)"
    by (metis prod_cases3)
  have ok and rest: "build_entries api mem gs n is (acc @ [Some e]) w1 = (Some es, w')"
    using Cons.prems(1) init by (auto split: if_splits bool.splits)
  then obtain g p wa wb where e: "gs = [g]" "n \<noteq> 0" "cudaMalloc api n wa = (Some p, wb)"
      "e = new_entry\<lparr>replicas := [\<lparr>gpuId = g, d_data = p, valid = False\<rparr>], entryBytes := n, entryInitialized := True\<rparr>"
    using entry_initialize_new(2) [OF init] by blast
  then obtain q where "p = Some q"
    using assms(1) unfolding malloc_gives_memory_def by (metis option.exhaust)
  then have "entry_ok (hd gs) n e \<and> cell_of e = Free \<and> \<not> inEvictableList e \<and> \<not> inFilledList e"
    using e by (simp add: entry_ok_def cell_of_def new_entry_def)
  then show ?case using Cons.IH [OF rest] Cons.prems(2) by auto
qed simp

lemma init_commit_implements:
  assumes "\<not> init_rejected gs n timeout policy s"
    and t: "table_initialize alloc new_table count = Some (True, t)"
    and es: "length es = unat count" "\<forall>x\<in>set es. \<exists>e. x = Some e \<and> entry_ok (hd gs) n e \<and> cell_of e = Free
      \<and> \<not> inEvictableList e \<and> \<not> inFilledList e"
  shows "\<exists>s'. init_commit True gs n timeout policy t es (rev [0..<unat count]) s = (True, s')
    \<and> implements s' (empty_cache (unat count) (policy = FIFO)) \<and> \<not> failed s' \<and> \<not> releasing s' \<and> statistics s' = zero_statistics
    \<and> activeFallbackAccesses s' = 0 \<and> waitingAccesses s' = waitingAccesses s \<and> self s' = self s
    \<and> eligibleGpuIds s' = gs \<and> cacheBytes s' = n \<and> waitTimeout s' = timeout"
proof -
  note T = table_initialize_invar [OF t]
  let ?A = "empty_cache (unat count) (policy = FIFO)"
  define s' where "s' = snd (init_commit True gs n timeout policy t es (rev [0..<unat count]) s)"
  have nb: "\<not> init_blocked s" and guard: "length gs = 1" "0 \<le> hd gs" "0 \<le> timeout" "policy = LRU \<or> policy = FIFO"
    using assms(1) by (auto simp: init_rejected_def)
  have run: "init_commit True gs n timeout policy t es (rev [0..<unat count]) s = (True, s')"
    using nb by (simp add: s'_def init_commit_def)
  have f: "entries s' = es" "residencyTable s' = t" "emptyEntries s' = rev [0..<unat count]" "cacheBytes s' = n"
      "eligibleGpuIds s' = gs" "waitTimeout s' = timeout" "evictionPolicy s' = policy" "cacheInitialized s'" "\<not> failed s'"
      "leastRecentlyUsed s' = NO_ENTRY" "mostRecentlyUsed s' = NO_ENTRY" "oldestFilled s' = NO_ENTRY"
      "newestFilled s' = NO_ENTRY" "statistics s' = zero_statistics" "activeFallbackAccesses s' = 0"
      "waitingAccesses s' = waitingAccesses s" "self s' = self s" "\<not> releasing s'"
    using nb by (simp_all add: s'_def init_commit_def table_swap_def init_blocked_def)
  have null: "no_null es"
    unfolding no_null_def using es(2) by (metis nth_mem option.distinct(1))
  have e: "entry_ok (hd gs) n (nth_entry es i) \<and> cell_of (nth_entry es i) = Free \<and> \<not> inEvictableList (nth_entry es i)
      \<and> \<not> inFilledList (nth_entry es i)" if "i < length es" for i
  proof -
    have "es ! i \<in> set es" using that by simp
    then obtain x where "es ! i = Some x" "entry_ok (hd gs) n x \<and> cell_of x = Free \<and> \<not> inEvictableList x \<and> \<not> inFilledList x"
      using es(2) by blast
    then show ?thesis using nth_ent [OF null that] by simp
  qed
  have mem: "\<not> inEvictableList (nth_entry es i)" "\<not> inFilledList (nth_entry es i)" for i
    using e [of i] by (cases "i < length es"; simp add: nth_entry_out)+
  have "represents (ev s') []" "represents (fl s') []"
    using mem f by (auto intro!: represents_empty)
  moreover have "cells ?A = map (\<lambda>i. cell_of (nth_entry es i)) [0..<length es]"
    using e es(1) by (intro nth_equalityI) (auto simp: empty_cache_def)
  moreover have "find_cell k ?A = None" for k by (auto simp: find_cell_None empty_cache_def)
  ultimately have "implements s' ?A"
    unfolding implements_def using f T guard null e es(1) wf_empty_cache by simp
  then show ?thesis using run f by simp
qed


section \<open>What a release leaves behind\<close>

text \<open>An entry that a release may take: idle, and either initialised or as constructed.\<close>

definition releasable :: "GpuDataCacheEntry option \<Rightarrow> bool" where
  "releasable x \<longleftrightarrow> (\<exists>e. x = Some e \<and> activeAccesses e = 0 \<and> cacheState e \<noteq> Loading
     \<and> (entryInitialized e \<or> e = new_entry))"

lemma entry_release_releasable:
  assumes "releasable (Some e)" "entry_release api e w = (ok, e', w')"
  shows "releasable (Some e') \<and> (ok \<longleftrightarrow> \<not> entryInitialized e')"
proof -
  have e: "activeAccesses e = 0" "cacheState e \<noteq> Loading" "entryInitialized e \<or> e = new_entry"
    using assms(1) by (auto simp: releasable_def)
  note R = entry_release_reset [OF e(1,2) assms(2)]
  show ?thesis
  proof (cases ok)
    case True
    then have "e' = new_entry" using R(1) by blast
    then show ?thesis using True by (simp add: releasable_def new_entry_def)
  next
    case False
    then obtain rs where e': "e' = e\<lparr>replicas := rs\<rparr>" using R(2) by blast
    have "e \<noteq> new_entry" using assms(2) False by (auto simp: entry_release_def new_entry_def)
    then show ?thesis using e e' False by (simp add: releasable_def)
  qed
qed

lemma release_entries_all:
  assumes "\<forall>x\<in>set es. releasable x" "release_entries api es w = (ok, allReleased, es', w')"
  shows "(ok \<longleftrightarrow> allReleased) \<and> length es' = length es \<and> (\<forall>x\<in>set es'. releasable x)"
  using assms
proof (induction es arbitrary: w ok allReleased es' w')
  case (Cons x es)
  then obtain e where x: "x = Some e" by (auto simp: releasable_def)
  obtain r e' w1 where e': "entry_release api e w = (r, e', w1)" by (metis prod_cases3)
  obtain ok2 all2 es2 w2 where rest: "release_entries api es w1 = (ok2, all2, es2, w2)" by (metis prod_cases4)
  have "(ok2 \<longleftrightarrow> all2) \<and> length es2 = length es \<and> (\<forall>x\<in>set es2. releasable x)"
    using Cons.IH [OF _ rest] Cons.prems(1) by simp
  moreover have "releasable (Some e') \<and> (r \<longleftrightarrow> \<not> entryInitialized e')"
    using entry_release_releasable [OF _ e'] Cons.prems(1) x by simp
  ultimately show ?case using Cons.prems(2) x e' rest by auto
qed simp

lemma implements_releasable:
  assumes impl: "implements s A" and "canResetLocked s"
  shows "\<forall>x\<in>set (entries s). releasable x"
proof
  fix x assume "x \<in> set (entries s)"
  then obtain i where i: "i < size_of s" "x = entries s ! i" by (auto simp: in_set_conv_nth)
  then have "entry_idle (Some (ent s i))"
    using assms(2) nth_ent [OF implementsD(1) [OF impl] i(1)]
    by (auto simp: canResetLocked_def list_all_length split: if_splits)
  then show "releasable x"
    using i nth_ent [OF implementsD(1) [OF impl] i(1)] entry_okD(5) [OF implementsD(3) [OF impl i(1)]]
    by (simp add: releasable_def entry_idle_def)
qed

lemma releasable_canReset:
  "\<forall>x\<in>set (entries s). releasable x \<Longrightarrow> activeFallbackAccesses s = 0 \<Longrightarrow> waitingAccesses s = 0 \<Longrightarrow> canResetLocked s"
  by (auto simp: canResetLocked_def list_all_iff releasable_def entry_idle_def)

section \<open>A concrete cache\<close>

definition sample_entry :: "nat \<Rightarrow> GpuDataCacheEntry" where
  "sample_entry p = new_entry\<lparr>replicas := [\<lparr>gpuId = 0, d_data = Some p, valid = False\<rparr>], entryBytes := 64,
     entryInitialized := True\<rparr>"

text \<open>An initialised cache of two entries on GPU 0.\<close>

definition sample_cache :: "CacheEvictionPolicy \<Rightarrow> GpuDataCache" where
  "sample_cache policy = snd (init_commit True [0] 64 50 policy sample_table
     [Some (sample_entry 4096), Some (sample_entry 8192)] [1, 0] (new_cache 7))"

lemma sample_cache_implements:
  assumes "policy = LRU \<or> policy = FIFO"
  shows "implements (sample_cache policy) (empty_cache 2 (policy = FIFO))" "\<not> failed (sample_cache policy)"
    "\<not> releasing (sample_cache policy)" "waitTimeout (sample_cache policy) = 50" "eligibleGpuIds (sample_cache policy) = [0]"
    "cacheBytes (sample_cache policy) = 64" "self (sample_cache policy) = 7" "statistics (sample_cache policy) = zero_statistics"
    "waitingAccesses (sample_cache policy) = 0" "activeFallbackAccesses (sample_cache policy) = 0"
proof -
  have "\<not> init_rejected [0] 64 50 policy (new_cache 7)"
    using assms by (simp add: init_rejected_def init_blocked_def new_cache_def new_table_def)
  moreover have "entry_ok 0 64 (sample_entry p) \<and> cell_of (sample_entry p) = Free \<and> \<not> inEvictableList (sample_entry p)
      \<and> \<not> inFilledList (sample_entry p)" for p
    by (simp add: sample_entry_def entry_ok_def cell_of_def new_entry_def)
  moreover have two: "unat (2::size_t) = 2" "rev [0..<2] = [1, 0::nat]" by (simp_all add: upt_rec)
  ultimately obtain s' where "init_commit True [0] 64 50 policy sample_table
      [Some (sample_entry 4096), Some (sample_entry 8192)] [1, 0] (new_cache 7) = (True, s')"
    and "implements s' (empty_cache 2 (policy = FIFO)) \<and> \<not> failed s' \<and> \<not> releasing s' \<and> statistics s' = zero_statistics
    \<and> activeFallbackAccesses s' = 0 \<and> waitingAccesses s' = waitingAccesses (new_cache 7) \<and> self s' = self (new_cache 7)
    \<and> eligibleGpuIds s' = [0] \<and> cacheBytes s' = 64 \<and> waitTimeout s' = 50"
    using init_commit_implements [of "[0]" 64 50 policy "new_cache 7" "\<lambda>_. True" 2 sample_table
        "[Some (sample_entry 4096), Some (sample_entry 8192)]"] sample_table_init two
    by auto
  then show "implements (sample_cache policy) (empty_cache 2 (policy = FIFO))" "\<not> failed (sample_cache policy)"
    "\<not> releasing (sample_cache policy)" "waitTimeout (sample_cache policy) = 50" "eligibleGpuIds (sample_cache policy) = [0]"
    "cacheBytes (sample_cache policy) = 64" "self (sample_cache policy) = 7" "statistics (sample_cache policy) = zero_statistics"
    "waitingAccesses (sample_cache policy) = 0" "activeFallbackAccesses (sample_cache policy) = 0"
    by (simp_all add: sample_cache_def new_cache_def)
qed

section \<open>Initialisation and release\<close>

lemma cache_initialize_result:
  assumes "malloc_gives_memory api"
  shows "\<exists>ok s' w'. cache_initialize api mem gpuIds n count timeout policy s w = Some (ok, s', w')
    \<and> (if ok
       then \<not> init_rejected gpuIds n timeout policy s \<and> implements s' (empty_cache (unat count) (policy = FIFO))
         \<and> \<not> failed s' \<and> \<not> releasing s' \<and> statistics s' = zero_statistics \<and> activeFallbackAccesses s' = 0
         \<and> eligibleGpuIds s' = gpuIds \<and> cacheBytes s' = n \<and> waitTimeout s' = timeout
       else s' = s)"
proof (cases "init_rejected gpuIds n timeout policy s")
  case True
  then show ?thesis by (auto simp: cache_initialize_def)
next
  case go: False
  obtain tok t where t: "table_initialize (tableMemory mem) new_table count = Some (tok, t)"
    using table_initialize_returns by blast
  obtain es w1 where b: "build_entries api mem gpuIds n [0..<unat count] [] w = (es, w1)" by fastforce
  have nb: "\<not> init_blocked s" using go by (simp add: init_rejected_def)
  show ?thesis
  proof (cases "tok \<and> vectorMemory mem \<and> es \<noteq> None \<and> idsMemory mem")
    case True
    then obtain es' where "es = Some es'" by auto
    then show ?thesis
      using init_commit_implements [OF go, of "tableMemory mem" count t es'] build_entries_ok [OF assms, of mem gpuIds n _ "[]" w es' w1]
        go t b True by (auto simp: cache_initialize_def)
  next
    case False
    moreover have "s\<lparr>eligibleGpuIds := []\<rparr> = s" using nb by (simp add: init_blocked_def)
    ultimately show ?thesis
      using go t b nb by (cases es) (auto simp: cache_initialize_def init_commit_def)
  qed
qed

section \<open>Properties\<close>

text \<open>
  Initialising the cache returns for every request (no capacity makes its growth loop run for
  ever), and is all or nothing: on success the cache is healthy, empty, has the requested number of
  entries, all free, with fresh statistics and no lease outstanding; on failure, whatever failed,
  the cache object is exactly as it was before the call.
\<close>

theorem cache_initialize_outcome:
  assumes "malloc_gives_memory api"
  shows "\<exists>ok s' w'. cache_initialize api mem gpuIds n count timeout policy s w = Some (ok, s', w')
    \<and> (if ok
       then \<not> init_rejected gpuIds n timeout policy s \<and> implements s' (empty_cache (unat count) (policy = FIFO))
         \<and> \<not> failed s' \<and> \<not> releasing s' \<and> statistics s' = zero_statistics \<and> activeFallbackAccesses s' = 0
         \<and> eligibleGpuIds s' = gpuIds \<and> cacheBytes s' = n \<and> waitTimeout s' = timeout
       else s' = s)"
  using cache_initialize_result [OF assms] .

theorem cache_initialize_outcome_witness:
  "\<exists>ok s' w'. cache_initialize sample_api \<lparr>tableMemory = \<lambda>_. True, vectorMemory = True, entryMemory = \<lambda>_. True,
      replicaMemory = \<lambda>_. True, idsMemory = True\<rparr> [0] 64 2 50 LRU (new_cache 7) (0, 4096) = Some (ok, s', w')"
  using cache_initialize_outcome [OF sample_api_documented(1)] by blast

lemma cache_release_result:
  assumes "implements s A" "\<not> releasing s" "cache_release api s w = (ok, s', w')"
  shows "if activeFallbackAccesses s \<noteq> 0 \<or> waitingAccesses s \<noteq> 0
            \<or> (\<exists>i<length (cells A). readers (cells A ! i) \<noteq> 0 \<or> (\<exists>m. cells A ! i = Filling m))
    then \<not> ok \<and> s' = s \<and> w' = w
    else if ok then entries s' = [] \<and> \<not> init_blocked s' \<and> \<not> failed s'
    else \<not> cacheInitialized s' \<and> init_blocked s' \<and> fst (release_begin s') = None
      \<and> size_of s' = size_of s"
proof (cases "canResetLocked s")
  case False
  have "cacheInitialized s" using implementsD(14) [OF assms(1)] .
  then have "cache_release api s w = (False, s, w)" using False by (simp add: cache_release_def release_begin_def)
  then show ?thesis using assms(3) False canResetLocked_iff [OF assms(1)] by auto
next
  case True
  note D = implementsD [OF assms(1)]
  let ?s1 = "s\<lparr>cacheInitialized := False, releasing := True\<rparr>"
  obtain ok2 all2 es2 w2 where rel: "release_entries api (entries s) w = (ok2, all2, es2, w2)" by (metis prod_cases4)
  have run: "(ok, s', w') = (ok2, release_finish all2 (?s1\<lparr>entries := es2\<rparr>), w2)"
    using assms(2,3) True D(14) rel by (simp add: cache_release_def release_begin_def)
  note R = release_entries_all [OF implements_releasable [OF assms(1) True] rel]
  have idle: "activeFallbackAccesses s = 0" "waitingAccesses s = 0"
      "\<not> (\<exists>i<length (cells A). readers (cells A ! i) \<noteq> 0 \<or> (\<exists>m. cells A ! i = Filling m))"
    using True canResetLocked_iff [OF assms(1)] by auto
  show ?thesis
  proof (cases ok)
    case True
    then show ?thesis
      using run R idle by (auto simp: release_finish_def init_blocked_def table_release_def)
  next
    case False
    have "canResetLocked s'"
      using run R False idle by (intro releasable_canReset) (auto simp: release_finish_def)
    moreover have "eligibleGpuIds s \<noteq> []" using D(17) by (metis list.distinct(1))
    ultimately show ?thesis
      using run R idle False by (auto simp: release_finish_def release_begin_def init_blocked_def)
  qed
qed

text \<open>
  Releasing an initialised cache: refused without any effect while a lease is unfinished (hit,
  fill or fallback) or a request sleeps.  Otherwise a reported success leaves the object ready for
  another initialisation, also after a synchronisation failure; a reported failure leaves it
  unavailable for requests and for initialisation but ready for another release.
\<close>

theorem cache_release_outcome:
  assumes "implements s A" "\<not> releasing s" "cache_release api s w = (ok, s', w')"
  shows "if activeFallbackAccesses s \<noteq> 0 \<or> waitingAccesses s \<noteq> 0
            \<or> (\<exists>i<length (cells A). readers (cells A ! i) \<noteq> 0 \<or> (\<exists>m. cells A ! i = Filling m))
    then \<not> ok \<and> s' = s \<and> w' = w
    else if ok then entries s' = [] \<and> \<not> init_blocked s' \<and> \<not> failed s'
    else \<not> cacheInitialized s' \<and> init_blocked s' \<and> fst (release_begin s') = None
      \<and> size_of s' = size_of s"
  using cache_release_result [OF assms] .

end
