(* ===== verification/Data_Access.thy ===== *)
theory Data_Access
  imports Cache_Lifecycle
begin

text \<open>
  \<open>DataCache/GpuDataAccess.cpp\<close>: the lease object, which ends its lease exactly once, by
  \<open>freeCacheData\<close> on the normal path or by its destructor.  A lease points to its cache; the
  methods below take the cache object behind that pointer as their argument \<open>s\<close> and the CUDA
  runtime for the stream synchronisation.
\<close>

section \<open>The class\<close>

definition access_reset :: "GpuDataAccess \<Rightarrow> GpuDataAccess" where
  "access_reset a = a\<lparr>owner := None, accessData := nullptr, accessBytes := 0, entryIndex := 0,
     dataKey := default_key, accessStream := nullptr, deviceId := -1, accessStatus := Invalid\<rparr>"

text \<open>The destination and the source afterwards.\<close>

definition takeAccess :: "GpuDataAccess \<Rightarrow> GpuDataAccess \<Rightarrow> GpuDataAccess \<times> GpuDataAccess" where
  "takeAccess a other =
     (a\<lparr>owner := owner other, accessData := accessData other, accessBytes := accessBytes other,
        entryIndex := entryIndex other, dataKey := dataKey other, accessStream := accessStream other,
        deviceId := deviceId other, accessStatus := accessStatus other\<rparr>,
      access_reset other)"

definition abortUnfinishedAccess ::
  "('w, 'x) cuda_api_scheme \<Rightarrow> GpuDataAccess \<Rightarrow> GpuDataCache \<Rightarrow> 'w
     \<Rightarrow> (GpuDataAccess \<times> GpuDataCache \<times> 'w) option" where
  "abortUnfinishedAccess api a s w =
     (if owner a = None then Some (a, s, w)
      else let (synchronized, w1) = cudaStreamSynchronize api (accessStream a) w;
               s1 = (if synchronized then s else noteSyncFailure s)
           in do { (a', s2) \<leftarrow> abortAccess a s1; Some (a', s2, w1) })"

definition move_construct :: "GpuDataAccess \<Rightarrow> GpuDataAccess \<times> GpuDataAccess" where
  "move_construct other = takeAccess default_access other"

text \<open>\<open>operator=\<close>; \<open>sameObject\<close> is the test \<open>this == &other\<close>.\<close>

definition move_assign ::
  "('w, 'x) cuda_api_scheme \<Rightarrow> bool \<Rightarrow> GpuDataAccess \<Rightarrow> GpuDataAccess \<Rightarrow> GpuDataCache \<Rightarrow> 'w
     \<Rightarrow> (GpuDataAccess \<times> GpuDataAccess \<times> GpuDataCache \<times> 'w) option" where
  "move_assign api sameObject a other s w =
     (if sameObject then Some (a, other, s, w)
      else do {
        (a1, s1, w1) \<leftarrow> abortUnfinishedAccess api a s w;
        let (a2, other') = takeAccess a1 other in Some (a2, other', s1, w1)
      })"

definition access_operator_bool :: "GpuDataAccess \<Rightarrow> bool" where
  "access_operator_bool a = (owner a \<noteq> None)"

definition writableData :: "GpuDataAccess \<Rightarrow> ptr" where
  "writableData a =
     (if accessStatus a = CacheFill \<or> accessStatus a = TaskFallback then accessData a else nullptr)"

definition freeCacheData ::
  "('w, 'x) cuda_api_scheme \<Rightarrow> GpuDataAccess \<Rightarrow> bool \<Rightarrow> CacheRetention \<Rightarrow> GpuDataCache \<Rightarrow> 'w
     \<Rightarrow> (bool \<times> GpuDataAccess \<times> GpuDataCache \<times> 'w) option" where
  "freeCacheData api a submittedSuccessfully retention s w =
     (if owner a = None \<or> accessStream a = nullptr then Some (False, a, s, w)
      else let validRetention = (retention = Keep \<or> retention = Discard);
               succeeded = (submittedSuccessfully \<and> validRetention);
               (synchronized, w1) = cudaStreamSynchronize api (accessStream a) w;
               (succeeded, s1) = (if synchronized then (succeeded, s) else (False, noteSyncFailure s))
           in do {
                (ok, a', s2) \<leftarrow> completeAccess a succeeded (if validRetention then retention else Keep) s1;
                Some (ok, a', s2, w1)
              })"

section \<open>Behaviour\<close>

lemma noteSyncFailure_frame:
  "implements (noteSyncFailure s) A = implements s A" "same_config (noteSyncFailure s) s" "failed (noteSyncFailure s)"
  "waitingAccesses (noteSyncFailure s) = waitingAccesses s"
  "activeFallbackAccesses (noteSyncFailure s) = activeFallbackAccesses s"
  "notifications (noteSyncFailure s) = notifications s + 1"
  "live (noteSyncFailure s) A a = live s A a"
  by (simp_all add: noteSyncFailure_def notify_all_def count_stat_def same_config_def live_def
      cong: CacheStatus.case_cong)

lemma access_reset_default: "access_reset a = default_access"
  by (simp add: access_reset_def default_access_def)

lemma takeAccess_moves: "takeAccess a other = (other, default_access)"
  by (simp add: takeAccess_def access_reset_default)

text \<open>What a lease's end leaves of the cache, healthy or not.\<close>

definition ended :: "bool \<Rightarrow> GpuDataAccess \<Rightarrow> GpuDataCache \<Rightarrow> GpuDataCache \<Rightarrow> bool" where
  "ended synchronized a s' s \<longleftrightarrow> same_config s' s \<and> waitingAccesses s' = waitingAccesses s
     \<and> failed s' = (failed s \<or> \<not> synchronized)
     \<and> activeFallbackAccesses s' =
         (if accessStatus a = TaskFallback then activeFallbackAccesses s - 1 else activeFallbackAccesses s)"

lemma finished_ended:
  "finished a s' s \<Longrightarrow> ended True a s' s" "finished a s' (noteSyncFailure s) \<Longrightarrow> ended False a s' s"
  using noteSyncFailure_frame(2) same_config_trans
  by (auto simp: finished_def ended_def noteSyncFailure_frame)

lemma live_owner: "live s A a \<Longrightarrow> owner a = Some (self s)"
  by (simp add: live_def)

lemma freeCacheData_ends:
  assumes impl: "implements s A" and a: "live s A a" "accessStream a \<noteq> nullptr" and rel: "\<not> releasing s"
    and sync: "cudaStreamSynchronize api (accessStream a) w = (synchronized, w1)"
  shows "\<exists>s'. freeCacheData api a submitted retention s w =
      Some (submitted \<and> synchronized \<and> (retention = Keep \<or> retention = Discard), default_access, s', w1)
    \<and> implements s' (finish (accessStatus a) (entryIndex a)
        (submitted \<and> synchronized \<and> (retention = Keep \<or> retention = Discard)) (retention = Discard) A)
    \<and> ended synchronized a s' s"
proof -
  let ?r = "if retention = Keep \<or> retention = Discard then retention else Keep"
  let ?ok = "submitted \<and> synchronized \<and> (retention = Keep \<or> retention = Discard)"
  let ?s1 = "if synchronized then s else noteSyncFailure s"
  have s1: "implements ?s1 A" "live ?s1 A a" "\<not> releasing ?s1"
    using impl a(1) rel noteSyncFailure_frame by (auto simp: noteSyncFailure_def notify_all_def count_stat_def)
  have disc: "(?r = Discard) = (retention = Discard)" by simp
  obtain s' where "completeAccess a ?ok ?r ?s1 = Some (?ok, default_access, s')"
      "implements s' (finish (accessStatus a) (entryIndex a) ?ok (retention = Discard) A)" "finished a s' ?s1"
    using completeAccess_finishes [OF s1, of ?ok ?r] unfolding disc by blast
  then show ?thesis
    using live_owner [OF a(1)] a(2) sync finished_ended
    by (cases synchronized) (auto simp: freeCacheData_def)
qed

lemma abortUnfinishedAccess_ends:
  assumes impl: "implements s A" and a: "live s A a"
    and sync: "cudaStreamSynchronize api (accessStream a) w = (synchronized, w1)"
  shows "\<exists>s'. abortUnfinishedAccess api a s w = Some (default_access, s', w1)
    \<and> implements s' (finish (accessStatus a) (entryIndex a) False False A) \<and> ended synchronized a s' s"
proof -
  let ?s1 = "if synchronized then s else noteSyncFailure s"
  have s1: "implements ?s1 A" "live ?s1 A a" using impl a noteSyncFailure_frame by auto
  obtain s' where "abortAccess a ?s1 = Some (default_access, s')"
      "implements s' (finish (accessStatus a) (entryIndex a) False False A)" "finished a s' ?s1"
    using abortAccess_finishes [OF s1] by blast
  then show ?thesis
    using live_owner [OF a] sync finished_ended
    by (cases synchronized) (auto simp: abortUnfinishedAccess_def)
qed

end
