(* ===== verification/Cache_System.thy ===== *)
theory Cache_System
  imports Data_Access
begin

text \<open>
  The cache with all its users: the unfinished leases and the requests asleep in
  \<open>waitForCacheChange\<close>.  A step of the system is one critical section of some thread: the first or
  a later pass of a request's loop, the end of a lease by completion or abort, the report of a
  failed stream synchronisation, or a reset.  Steps of different threads interleave freely.  The
  invariant \<open>books\<close> says that the counters in the cache are the numbers of leases and sleepers
  there are, cell by cell.
\<close>

section \<open>The system\<close>

type_synonym sleeper = "FrameMetadata \<times> GpuCacheRequest \<times> RequestState"

record system =
  cache :: GpuDataCache
  leases :: "GpuDataAccess list"
  sleepers :: "sleeper list"

text \<open>
  The lease and waiter counters of the code are \<open>size_t\<close>.  Each unfinished lease and each waiting
  thread occupies memory of the process, so there are always fewer than \<open>2 ^ 64 - 1\<close> of them.
\<close>

definition crowded :: "system \<Rightarrow> bool" where
  "crowded S \<longleftrightarrow> length (leases S) + length (sleepers S) \<ge> 2 ^ 64 - 2"

definition add_lease :: "GpuDataAccess \<Rightarrow> GpuDataAccess list \<Rightarrow> GpuDataAccess list" where
  "add_lease a L = (if owner a = None then L else a # L)"

inductive step :: "system \<Rightarrow> system \<Rightarrow> bool" for S :: system where
  request_rejected:
    "getCacheData_begin md rq started (cache S) = (None, s1) \<Longrightarrow> step S (S\<lparr>cache := s1\<rparr>)"
| request_returns:
    "\<not> crowded S \<Longrightarrow> getCacheData_begin md rq started (cache S) = (Some r, s1) \<Longrightarrow>
     attempt now start md rq r s1 = Some (Returned a, r', s2) \<Longrightarrow>
     step S (S\<lparr>cache := s2, leases := add_lease a (leases S)\<rparr>)"
| request_sleeps:
    "\<not> crowded S \<Longrightarrow> getCacheData_begin md rq started (cache S) = (Some r, s1) \<Longrightarrow>
     attempt now start md rq r s1 = Some (Sleeping, r', s2) \<Longrightarrow>
     step S (S\<lparr>cache := s2, sleepers := (md, rq, r') # sleepers S\<rparr>)"
| wake_returns:
    "(md, rq, r) \<in> set (sleepers S) \<Longrightarrow> wait_leave woken r (cache S) = (r1, s1) \<Longrightarrow>
     attempt now start md rq r1 s1 = Some (Returned a, r2, s2) \<Longrightarrow>
     step S (S\<lparr>cache := s2, leases := add_lease a (leases S), sleepers := remove1 (md, rq, r) (sleepers S)\<rparr>)"
| wake_sleeps:
    "(md, rq, r) \<in> set (sleepers S) \<Longrightarrow> wait_leave woken r (cache S) = (r1, s1) \<Longrightarrow>
     attempt now start md rq r1 s1 = Some (Sleeping, r2, s2) \<Longrightarrow>
     step S (S\<lparr>cache := s2, sleepers := (md, rq, r2) # remove1 (md, rq, r) (sleepers S)\<rparr>)"
| sync_failed:
    "a \<in> set (leases S) \<Longrightarrow> step S (S\<lparr>cache := noteSyncFailure (cache S)\<rparr>)"
| complete:
    "a \<in> set (leases S) \<Longrightarrow> completeAccess a ok retention (cache S) = Some (b, a', s1) \<Longrightarrow>
     step S (S\<lparr>cache := s1, leases := remove1 a (leases S)\<rparr>)"
| abort:
    "a \<in> set (leases S) \<Longrightarrow> abortAccess a (cache S) = Some (a', s1) \<Longrightarrow>
     step S (S\<lparr>cache := s1, leases := remove1 a (leases S)\<rparr>)"
| reset:
    "resetCache (cache S) = Some (out, s1) \<Longrightarrow> step S (S\<lparr>cache := s1\<rparr>)"

text \<open>A system starts with an initialised cache, no lease and no waiter.\<close>

inductive reachable :: "GpuDataCache \<Rightarrow> system \<Rightarrow> bool" for s0 :: GpuDataCache where
  start: "reachable s0 \<lparr>cache = s0, leases = [], sleepers = []\<rparr>"
| more: "reachable s0 S \<Longrightarrow> step S T \<Longrightarrow> reachable s0 T"

section \<open>The books\<close>

definition hits :: "nat \<Rightarrow> GpuDataAccess list \<Rightarrow> nat" where
  "hits i L = length (filter (\<lambda>a. accessStatus a = CacheHit \<and> entryIndex a = i) L)"

definition fills :: "nat \<Rightarrow> GpuDataAccess list \<Rightarrow> nat" where
  "fills i L = length (filter (\<lambda>a. accessStatus a = CacheFill \<and> entryIndex a = i) L)"

definition fallbacks :: "GpuDataAccess list \<Rightarrow> nat" where
  "fallbacks L = length (filter (\<lambda>a. accessStatus a = TaskFallback) L)"

definition lease_basic :: "GpuDataCache \<Rightarrow> GpuDataAccess \<Rightarrow> bool" where
  "lease_basic s a \<longleftrightarrow> owner a = Some (self s) \<and> deviceId a = gpu s \<and> accessBytes a = cacheBytes s
     \<and> accessStream a \<noteq> nullptr
     \<and> (if accessStatus a = TaskFallback then entryIndex a = NO_ENTRY \<and> accessData a \<noteq> nullptr
        else (accessStatus a = CacheHit \<or> accessStatus a = CacheFill) \<and> entryIndex a < size_of s
          \<and> accessData a = dataForGpu (gpu s) (ent s (entryIndex a)))"

fun supports :: "cell \<Rightarrow> GpuDataAccess \<Rightarrow> bool" where
  "supports Free a = False"
| "supports (Filling m) a = (accessStatus a = CacheFill \<and> key m = dataKey a)"
| "supports (Ready m n d) a = (accessStatus a = CacheHit \<and> key m = dataKey a)"

fun is_Filling :: "cell \<Rightarrow> bool" where
  "is_Filling (Filling m) = True"
| "is_Filling _ = False"

definition cell_books :: "cell \<Rightarrow> nat \<Rightarrow> GpuDataAccess list \<Rightarrow> bool" where
  "cell_books c i L \<longleftrightarrow> readers c = hits i L \<and> fills i L = (if is_Filling c then 1 else 0)
     \<and> (\<forall>a\<in>set L. accessStatus a \<noteq> TaskFallback \<and> entryIndex a = i \<longrightarrow> supports c a)"

definition sleeper_ok :: "GpuDataCache \<Rightarrow> sleeper \<Rightarrow> bool" where
  "sleeper_ok s p \<longleftrightarrow> (case p of (md, rq, r) \<Rightarrow>
     req_gpuId rq = gpu s \<and> req_stream rq \<noteq> nullptr \<and> d_fallback rq \<noteq> nullptr)"

definition books :: "system \<Rightarrow> abstract_cache \<Rightarrow> bool" where
  "books S A \<longleftrightarrow> implements (cache S) A \<and> \<not> releasing (cache S)
     \<and> (\<forall>a\<in>set (leases S). lease_basic (cache S) a)
     \<and> (\<forall>i<length (cells A). cell_books (cells A ! i) i (leases S))
     \<and> unat (activeFallbackAccesses (cache S)) = fallbacks (leases S)
     \<and> unat (waitingAccesses (cache S)) = length (sleepers S)
     \<and> (\<forall>p\<in>set (sleepers S). sleeper_ok (cache S) p)
     \<and> length (leases S) + length (sleepers S) < 2 ^ 64 - 1"

lemma booksD:
  assumes "books S A"
  shows "implements (cache S) A" "\<not> releasing (cache S)" "a \<in> set (leases S) \<Longrightarrow> lease_basic (cache S) a"
    "i < length (cells A) \<Longrightarrow> cell_books (cells A ! i) i (leases S)"
    "unat (activeFallbackAccesses (cache S)) = fallbacks (leases S)"
    "unat (waitingAccesses (cache S)) = length (sleepers S)"
    "p \<in> set (sleepers S) \<Longrightarrow> sleeper_ok (cache S) p"
    "length (leases S) + length (sleepers S) < 2 ^ 64 - 1"
  using assms unfolding books_def by blast+

lemma length_filter_remove1:
  "x \<in> set xs \<Longrightarrow> length (filter P (remove1 x xs)) = length (filter P xs) - (if P x then 1 else 0)"
  by (simp add: filter_remove1 length_remove1)

lemma counts_Cons [simp]:
  "hits i (a # L) = (if accessStatus a = CacheHit \<and> entryIndex a = i then 1 else 0) + hits i L"
  "fills i (a # L) = (if accessStatus a = CacheFill \<and> entryIndex a = i then 1 else 0) + fills i L"
  "fallbacks (a # L) = (if accessStatus a = TaskFallback then 1 else 0) + fallbacks L"
  by (simp_all add: hits_def fills_def fallbacks_def)

lemma counts_Nil [simp]: "hits i [] = 0" "fills i [] = 0" "fallbacks [] = 0"
  by (simp_all add: hits_def fills_def fallbacks_def)

lemma counts_remove1:
  assumes "a \<in> set L"
  shows "hits i (remove1 a L) = hits i L - (if accessStatus a = CacheHit \<and> entryIndex a = i then 1 else 0)"
    "fills i (remove1 a L) = fills i L - (if accessStatus a = CacheFill \<and> entryIndex a = i then 1 else 0)"
    "fallbacks (remove1 a L) = fallbacks L - (if accessStatus a = TaskFallback then 1 else 0)"
  using assms by (simp_all add: hits_def fills_def fallbacks_def length_filter_remove1)

lemma counts_pos:
  assumes "a \<in> set L"
  shows "accessStatus a = CacheHit \<Longrightarrow> 0 < hits (entryIndex a) L"
    "accessStatus a = CacheFill \<Longrightarrow> 0 < fills (entryIndex a) L"
    "accessStatus a = TaskFallback \<Longrightarrow> 0 < fallbacks L"
  using assms by (auto simp: hits_def fills_def fallbacks_def length_greater_0_conv filter_empty_conv simp del: length_greater_0_conv intro!: length_pos_if_in_set)

lemma counts_bound: "hits i L \<le> length L" "fills i L \<le> length L" "fallbacks L \<le> length L"
  by (simp_all add: hits_def fills_def fallbacks_def)


lemma lease_basic_config: "same_config s' s \<Longrightarrow> lease_basic s' a = lease_basic s a"
  by (simp add: lease_basic_def same_config_def)

lemma sleeper_ok_config: "same_config s' s \<Longrightarrow> sleeper_ok s' p = sleeper_ok s p"
  by (simp add: sleeper_ok_def same_config_def)

lemma books_live:
  assumes B: "books S A" and a: "a \<in> set (leases S)"
  shows "live (cache S) A a"
proof -
  note b = booksD [OF B] and D = implementsD [OF booksD(1) [OF B]]
  have basic: "lease_basic (cache S) a" using b(3) a .
  show ?thesis
  proof (cases "accessStatus a = TaskFallback")
    case True
    then have "0 < unat (activeFallbackAccesses (cache S))" using counts_pos(3) [OF a] b(5) by simp
    then show ?thesis using True basic by (simp add: live_def lease_basic_def word_less_nat_alt)
  next
    case False
    let ?i = "entryIndex a"
    have i: "?i < size_of (cache S)" using False basic by (simp add: lease_basic_def)
    have c: "cell_books (cells A ! ?i) ?i (leases S)" using b(4) i D(7) by simp
    then have sup: "supports (cells A ! ?i) a" using False a by (simp add: cell_books_def)
    then show ?thesis
      using basic False c counts_pos(1) [OF a]
      by (cases "cells A ! ?i") (auto simp: live_def lease_basic_def cell_books_def)
  qed
qed

text \<open>
  One cell changes and one lease at that cell comes or goes; the books of the other cells are
  untouched.
\<close>

lemma books_change:
  assumes B: "books S A" and i: "i < length (cells A)"
    and S': "implements s' A'" "same_config s' (cache S)" "cells A' = (cells A)[i := c]"
    and L: "\<And>j. j \<noteq> i \<Longrightarrow> hits j L = hits j (leases S) \<and> fills j L = fills j (leases S)"
      "\<And>a. a \<in> set L \<Longrightarrow> a \<in> set (leases S) \<or> lease_basic (cache S) a \<and> accessStatus a \<noteq> TaskFallback \<and> entryIndex a = i"
      "cell_books c i L" "fallbacks L = fallbacks (leases S)" "activeFallbackAccesses s' = activeFallbackAccesses (cache S)"
    and W: "unat (waitingAccesses s') = length W" "\<And>p. p \<in> set W \<Longrightarrow> p \<in> set (sleepers S)"
      "length L + length W < 2 ^ 64 - 1"
  shows "books \<lparr>cache = s', leases = L, sleepers = W\<rparr> A'"
proof -
  note b = booksD [OF B]
  have "lease_basic s' a" if "a \<in> set L" for a
    using L(2) [OF that] b(3) lease_basic_config [OF S'(2)] by blast
  moreover have "cell_books (cells A' ! j) j L" if j: "j < length (cells A')" for j
  proof (cases "j = i")
    case False
    have "a \<in> set (leases S)" if "a \<in> set L" "accessStatus a \<noteq> TaskFallback" "entryIndex a = j" for a
      using L(2) [OF that(1)] that False by blast
    then show ?thesis
      using b(4) [of j] False j S'(3) L(1) by (auto simp: cell_books_def)
  qed (use L(3) i S'(3) in simp)
  moreover have "\<not> releasing s'" using b(2) S'(2) by (simp add: same_config_def)
  moreover have "sleeper_ok s' p" if "p \<in> set W" for p
    using b(7) W(2) [OF that] sleeper_ok_config [OF S'(2)] by blast
  ultimately show ?thesis
    unfolding books_def using S'(1) L(4,5) b(5) W by auto
qed

lemma books_frame:
  assumes B: "books S A" and S': "implements s' A" "same_config s' (cache S)"
    "activeFallbackAccesses s' = activeFallbackAccesses (cache S)"
    and W: "unat (waitingAccesses s') = length W" "\<And>p. p \<in> set W \<Longrightarrow> sleeper_ok (cache S) p"
      "length (leases S) + length W < 2 ^ 64 - 1"
  shows "books \<lparr>cache = s', leases = leases S, sleepers = W\<rparr> A"
proof -
  note b = booksD [OF B]
  have "\<not> releasing s'" using b(2) S'(2) by (simp add: same_config_def)
  then show ?thesis
    unfolding books_def using S' b W lease_basic_config [OF S'(2)] sleeper_ok_config [OF S'(2)] by auto
qed

section \<open>Leases end\<close>

lemma no_lease_at:
  assumes "hits i L = 0" "fills i L = 0" "a \<in> set L" "lease_basic s a" "accessStatus a \<noteq> TaskFallback"
  shows "entryIndex a \<noteq> i"
  using counts_pos [OF assms(3)] assms by (auto simp: lease_basic_def)

lemma vacant_cell_books:
  assumes "hits i L = 0" "fills i L = 0" "\<And>a. a \<in> set L \<Longrightarrow> lease_basic s a" "readers c = 0" "\<not> is_Filling c"
  shows "cell_books c i L"
  using assms(1,2,4,5) no_lease_at [OF assms(1,2) _ assms(3)] by (auto simp: cell_books_def)

lemma books_finish_fallback:
  assumes B: "books S A" and a: "a \<in> set (leases S)" "accessStatus a = TaskFallback"
    and S': "implements s' A" "finished a s' (cache S)"
  shows "books \<lparr>cache = s', leases = remove1 a (leases S), sleepers = sleepers S\<rparr> A"
proof -
  note b = booksD [OF B] and f = S'(2) [unfolded finished_def]
  have sub: "set (remove1 a (leases S)) \<subseteq> set (leases S)" by (rule set_remove1_subset)
  have "0 < fallbacks (leases S)" using counts_pos(3) [OF a(1)] a(2) by simp
  then have "unat (activeFallbackAccesses s') = fallbacks (remove1 a (leases S))"
    using f a b(5) counts_remove1(3) [OF a(1)] unat_dec [of "activeFallbackAccesses (cache S)"] by simp
  moreover have "cell_books (cells A ! i) i (remove1 a (leases S))" if "i < length (cells A)" for i
    using b(4) [OF that] counts_remove1(1,2) [OF a(1)] a(2) sub by (auto simp: cell_books_def)
  moreover have "length (remove1 a (leases S)) \<le> length (leases S)" by (simp add: length_remove1)
  ultimately show ?thesis
    unfolding books_def using S'(1) f b sub lease_basic_config [of s' "cache S"] sleeper_ok_config [of s' "cache S"]
    by (auto simp: same_config_def)
qed

lemma books_finish:
  assumes B: "books S A" and a: "a \<in> set (leases S)"
    and S': "implements s' (finish (accessStatus a) (entryIndex a) ok disc A)" "finished a s' (cache S)"
  shows "\<exists>A'. books \<lparr>cache = s', leases = remove1 a (leases S), sleepers = sleepers S\<rparr> A'"
proof (cases "accessStatus a = TaskFallback")
  case True
  then show ?thesis using books_finish_fallback [OF B a True] S' by auto
next
  case False
  note b = booksD [OF B] and f = S'(2) [unfolded finished_def]
  let ?i = "entryIndex a" and ?L = "remove1 a (leases S)"
  have basic: "lease_basic (cache S) a" using b(3) a .
  have i: "?i < length (cells A)" using basic False implementsD(7) [OF b(1)] by (simp add: lease_basic_def)
  have cb: "cell_books (cells A ! ?i) ?i (leases S)" using b(4) [OF i] .
  have sup: "supports (cells A ! ?i) a" using cb a False by (simp add: cell_books_def)
  have sub: "x \<in> set (leases S)" if "x \<in> set ?L" for x using that set_remove1_subset by fast
  have rm: "hits j ?L = hits j (leases S) - (if accessStatus a = CacheHit \<and> ?i = j then 1 else 0)"
    "fills j ?L = fills j (leases S) - (if accessStatus a = CacheFill \<and> ?i = j then 1 else 0)"
    "fallbacks ?L = fallbacks (leases S)" for j
    using counts_remove1 [OF a] False by simp_all
  have go: ?thesis if c: "cells (finish (accessStatus a) ?i ok disc A) = (cells A)[?i := c]" "cell_books c ?i ?L" for c
  proof -
    have "books \<lparr>cache = s', leases = ?L, sleepers = sleepers S\<rparr> (finish (accessStatus a) ?i ok disc A)"
      using f False b(6,8) rm sub length_remove1 [of a "leases S"]
      by (intro books_change [OF B i S'(1) _ c(1)] c(2)) auto
    then show ?thesis by blast
  qed
  show ?thesis
  proof (cases "cells A ! ?i")
    case (Ready m n d)
    then have st: "accessStatus a = CacheHit" using sup by simp
    let ?c = "if n > 1 then Ready m (n - 1) (d \<or> disc) else if d \<or> disc then Free else Ready m 0 False"
    have n: "n = hits ?i (leases S)" "fills ?i (leases S) = 0" "0 < n"
      using cb Ready counts_pos(1) [OF a st] by (simp_all add: cell_books_def)
    have "cells (finish (accessStatus a) ?i ok disc A) = (cells A)[?i := ?c]"
      using Ready st by (simp add: leave_cell_def drop_cell_def)
    moreover have "cell_books ?c ?i ?L"
    proof (cases "n > 1")
      case True
      then show ?thesis using cb Ready n rm st sub by (auto simp: cell_books_def)
    next
      case False
      then show ?thesis
        using n rm st b(3) sub by (intro vacant_cell_books [where s = "cache S"]) auto
    qed
    ultimately show ?thesis by (rule go)
  next
    case (Filling m)
    then have st: "accessStatus a = CacheFill" using sup by simp
    let ?c = "if ok \<and> \<not> disc then Ready m 0 False else Free"
    have "hits ?i (leases S) = 0" "fills ?i (leases S) = 1" using cb Filling by (simp_all add: cell_books_def)
    then have "cell_books ?c ?i ?L"
      using rm st b(3) sub by (intro vacant_cell_books [where s = "cache S"]) auto
    moreover have "cells (finish (accessStatus a) ?i ok disc A) = (cells A)[?i := ?c]"
      using Filling st by (simp add: publish_cell_def drop_cell_def)
    ultimately show ?thesis by (intro go)
  qed (use sup in simp)
qed


section \<open>Leases begin\<close>

definition fallback_lease :: "GpuDataCache \<Rightarrow> GpuCacheRequest \<Rightarrow> FrameMetadata \<Rightarrow> GpuDataAccess" where
  "fallback_lease s rq md = \<lparr>owner = Some (self s), accessData = d_fallback rq, accessBytes = cacheBytes s,
     entryIndex = NO_ENTRY, dataKey = key md, accessStream = req_stream rq, deviceId = req_gpuId rq,
     accessStatus = TaskFallback\<rparr>"

lemma makeFallbackAccess_lease:
  assumes "implements s A"
  shows "fst (makeFallbackAccess md rq reason s) = fallback_lease s rq md"
    "implements (snd (makeFallbackAccess md rq reason s)) A" "same_config (snd (makeFallbackAccess md rq reason s)) s"
    "waitingAccesses (snd (makeFallbackAccess md rq reason s)) = waitingAccesses s"
    "activeFallbackAccesses (snd (makeFallbackAccess md rq reason s)) = activeFallbackAccesses s + 1"
    "failed (snd (makeFallbackAccess md rq reason s)) = failed s"
  using assms by (simp_all add: makeFallbackAccess_def fallback_lease_def count_stat_def same_config_def)

text \<open>A blocked request either joins the sleepers or takes its fallback buffer.\<close>

lemma block_or_fall_back_cases:
  assumes impl: "implements s A" and run: "block_or_fall_back now start md rq nw to fb r s = (res, r', s')"
  obtains (sleeps) "res = Sleeping" "implements s' A" "same_config s' s" "waitingAccesses s' = waitingAccesses s + 1"
      "activeFallbackAccesses s' = activeFallbackAccesses s" "failed s' = failed s" "now < deadline r" "deadline r' = deadline r"
      "waitTimeout s \<noteq> 0"
  | (falls_back) "res = Returned (fallback_lease s rq md)" "implements s' A" "same_config s' s"
      "waitingAccesses s' = waitingAccesses s" "activeFallbackAccesses s' = activeFallbackAccesses s + 1" "failed s' = failed s"
proof (cases "entries s = [] \<or> waitTimeout s = 0 \<or> now \<ge> deadline r")
  case True
  let ?s1 = "if blocked r then s else count_stat fb s"
  have "implements ?s1 A" "same_config ?s1 s" using impl by (auto simp: count_stat_def same_config_def)
  note F = makeFallbackAccess_lease [OF this(1), of md rq]
  have w: "wait_enter now start (r\<lparr>blocked := True\<rparr>) ?s1 = (False, r\<lparr>blocked := True\<rparr>, ?s1)"
    using True by (auto simp: wait_enter_def count_stat_def)
  then have "(res, r', s') = (Returned (fst (makeFallbackAccess md rq (if waitTimeout ?s1 = 0 then nw else to) ?s1)), r\<lparr>blocked := True\<rparr>,
      snd (makeFallbackAccess md rq (if waitTimeout ?s1 = 0 then nw else to) ?s1))"
    using run by (simp add: block_or_fall_back_def Let_def case_prod_beta)
  then show thesis
    using F same_config_trans [OF F(3) \<open>same_config ?s1 s\<close>]
    by (intro falls_back) (auto simp: fallback_lease_def count_stat_def)
next
  case False
  let ?s1 = "if blocked r then s else count_stat fb s"
  let ?s2 = "if waited r then ?s1 else count_stat (\<lambda>t. t\<lparr>waitedRequests := waitedRequests t + 1\<rparr>) ?s1"
  have "wait_enter now start (r\<lparr>blocked := True\<rparr>) ?s1 = (True, r\<lparr>blocked := True, waited := True, waitStarted := start\<rparr>,
      ?s2\<lparr>waitingAccesses := waitingAccesses ?s2 + 1\<rparr>)"
    using False by (cases "blocked r") (simp_all add: wait_enter_def count_stat_def)
  then have eq: "res = Sleeping" "r' = r\<lparr>blocked := True, waited := True, waitStarted := start\<rparr>"
      "s' = ?s2\<lparr>waitingAccesses := waitingAccesses ?s2 + 1\<rparr>"
    using run by (simp_all add: block_or_fall_back_def Let_def)
  show thesis
    using eq False impl
    by (intro sleeps; cases "blocked r"; cases "waited r") (auto simp: count_stat_def same_config_def)
qed

lemma books_add_fallback:
  assumes B: "books S A" and a: "a = fallback_lease (cache S) rq md" "sleeper_ok (cache S) (md, rq, r)"
    and S': "implements s' A" "same_config s' (cache S)" "waitingAccesses s' = waitingAccesses (cache S)"
      "activeFallbackAccesses s' = activeFallbackAccesses (cache S) + 1"
    and room: "length (leases S) + length (sleepers S) + 1 < 2 ^ 64 - 1"
  shows "books \<lparr>cache = s', leases = a # leases S, sleepers = sleepers S\<rparr> A"
proof -
  note b = booksD [OF B]
  have "lease_basic (cache S) a"
    using a by (simp add: fallback_lease_def lease_basic_def sleeper_ok_def)
  moreover have "fallbacks (leases S) < 2 ^ 64 - 1" using counts_bound(3) [of "leases S"] room by linarith
  then have "unat (activeFallbackAccesses s') = fallbacks (a # leases S)"
    using S'(4) b(5) a(1) by (simp add: unat_Suc_no_wrap fallback_lease_def)
  moreover have "cell_books (cells A ! i) i (a # leases S)" if "i < length (cells A)" for i
    using b(4) [OF that] a(1) by (auto simp: cell_books_def fallback_lease_def)
  ultimately show ?thesis
    unfolding books_def using S'(1-3) b room lease_basic_config [OF S'(2)] sleeper_ok_config [OF S'(2)]
    by (auto simp: same_config_def)
qed

lemma books_add_lease:
  assumes B: "books S A" and i: "i < length (cells A)" and rq: "sleeper_ok (cache S) (md, rq, r)"
    and st: "st = CacheHit \<or> st = CacheFill" and S': "implements s' A'" "quiet s' (cache S)" "cells A' = (cells A)[i := c]"
    and c: "cell_books c i (lease (cache S) rq md i st # leases S)"
    and room: "length (leases S) + length (sleepers S) + 1 < 2 ^ 64 - 1"
  shows "books \<lparr>cache = s', leases = lease (cache S) rq md i st # leases S, sleepers = sleepers S\<rparr> A'"
proof -
  note q = S'(2) [unfolded quiet_def]
  have "lease_basic (cache S) (lease (cache S) rq md i st)"
    using rq st i implementsD(7) [OF booksD(1) [OF B]] by (auto simp: lease_def lease_basic_def sleeper_ok_def)
  moreover have "entryIndex (lease (cache S) rq md i st) = i" "accessStatus (lease (cache S) rq md i st) = st"
    by (simp_all add: lease_def)
  ultimately show ?thesis
    using q st booksD(6) [OF B] room
    by (intro books_change [OF B i S'(1) _ S'(3)] c) auto
qed


lemma books_room: "books S A \<Longrightarrow> i < length (cells A) \<Longrightarrow> readers (cells A ! i) < 2 ^ 64 - 1"
  using booksD(4,8) [of S A] counts_bound(1) [of i "leases S"] by (simp add: cell_books_def)

text \<open>
  One pass of the request loop in a system whose books are in order: it returns (the code does not
  run into an access out of bounds or into a loop that does not end), and afterwards the books are
  in order again, with the new lease or the new sleeper entered.
\<close>

lemma books_attempt:
  assumes B: "books S A" and rq: "sleeper_ok (cache S) (md, rq, r)"
    and room: "length (leases S) + length (sleepers S) + 1 < 2 ^ 64 - 1"
  shows "\<exists>res r' s'. attempt now start md rq r (cache S) = Some (res, r', s') \<and> (case res of
      Returned a \<Rightarrow> \<exists>A'. books \<lparr>cache = s', leases = add_lease a (leases S), sleepers = sleepers S\<rparr> A'
    | Sleeping \<Rightarrow> \<exists>A'. books \<lparr>cache = s', leases = leases S, sleepers = (md, rq, r') # sleepers S\<rparr> A')"
proof (cases "failed (cache S)")
  case True
  have "books \<lparr>cache = count_stat inc_invalid (cache S), leases = leases S, sleepers = sleepers S\<rparr> A"
    using booksD [OF B] by (intro books_frame [OF B]) (auto simp: count_stat_def same_config_def)
  then show ?thesis using True by (auto simp: attempt_def add_lease_def default_access_def)
next
  case False
  note b = booksD [OF B] and D = implementsD [OF booksD(1) [OF B]]
  have g: "req_gpuId rq = gpu (cache S)" using rq by (simp add: sleeper_ok_def)
  note dec = attempt_decides [OF b(1) False g books_room [OF B], where md = md and now = now and start = start and r = r]
  have block: ?thesis if "attempt now start md rq r (cache S) = Some (block_or_fall_back now start md rq nw to fb r (cache S))" for nw to fb
  proof -
    obtain res r' s' where run: "block_or_fall_back now start md rq nw to fb r (cache S) = (res, r', s')" by (metis prod_cases3)
    from b(1) run show ?thesis
    proof (cases rule: block_or_fall_back_cases)
      case sleeps
      have "unat (waitingAccesses s') = length ((md, rq, r') # sleepers S)"
        using sleeps(4) b(6) room by (simp add: unat_Suc_no_wrap)
      moreover have "sleeper_ok (cache S) (md, rq, r')" using rq by (simp add: sleeper_ok_def)
      ultimately have "books \<lparr>cache = s', leases = leases S, sleepers = (md, rq, r') # sleepers S\<rparr> A"
        using sleeps b(7) room by (intro books_frame [OF B]) auto
      then show ?thesis using that run sleeps(1) by auto
    next
      case falls_back
      then show ?thesis
        using books_add_fallback [OF B _ rq falls_back(2-5) room] that run
        by (auto simp: add_lease_def fallback_lease_def)
    qed
  qed
  from D(13) show ?thesis
  proof (cases rule: decide_cases [where md = md])
    case (Hit i n d)
    then obtain s' where s': "attempt now start md rq r (cache S) = Some (Returned (lease (cache S) rq md i CacheHit), r, s')"
        "implements s' (read_cell i A)" "quiet s' (cache S)"
      using dec by auto
    have "cell_books (Ready md n d) i (leases S)" using b(4) [OF Hit(3)] Hit(4) by simp
    then have "cell_books (Ready md (n + 1) d) i (lease (cache S) rq md i CacheHit # leases S)"
      by (auto simp: cell_books_def lease_def)
    then have "books \<lparr>cache = s', leases = lease (cache S) rq md i CacheHit # leases S, sleepers = sleepers S\<rparr> (read_cell i A)"
      using Hit s' room by (intro books_add_lease [OF B Hit(3) rq]) (auto simp: read_cell_def)
    then show ?thesis using s'(1) by (auto simp: add_lease_def lease_def)
  next
    case (Fill i)
    then obtain s' where s': "attempt now start md rq r (cache S) = Some (Returned (lease (cache S) rq md i CacheFill), r, s')"
        "implements s' (take_cell i md A)" "quiet s' (cache S)"
      using dec by auto
    note ch = choose_cell_SomeD [OF D(13) Fill(3)]
    have v: "hits i (leases S) = 0" "fills i (leases S) = 0" using b(4) [OF ch(1)] ch(2) by (auto simp: cell_books_def)
    have "cell_books (Filling md) i (lease (cache S) rq md i CacheFill # leases S)"
      using v no_lease_at [OF v _ b(3)] by (auto simp: cell_books_def lease_def)
    then have "books \<lparr>cache = s', leases = lease (cache S) rq md i CacheFill # leases S, sleepers = sleepers S\<rparr> (take_cell i md A)"
      using s' room by (intro books_add_lease [OF B ch(1) rq]) (auto simp: take_cell_def)
    then show ?thesis using s'(1) by (auto simp: add_lease_def lease_def)
  next
    case BusyLoading
    then show ?thesis using dec by (intro block) simp
  next
    case BusyFull
    then show ?thesis using dec by (intro block) simp
  next
    case NoCapacity
    then show ?thesis
      using dec makeFallbackAccess_lease [OF b(1), of md rq CapacityZero]
        books_add_fallback [OF B refl rq _ _ _ _ room, of "snd (makeFallbackAccess md rq CapacityZero (cache S))"]
      by (auto simp: add_lease_def fallback_lease_def)
  next
    case Mismatch
    have "books \<lparr>cache = count_stat inc_invalid (cache S), leases = leases S, sleepers = sleepers S\<rparr> A"
      using b by (intro books_frame [OF B]) (auto simp: count_stat_def same_config_def)
    then show ?thesis using Mismatch dec by (auto simp: add_lease_def default_access_def)
  qed
qed


section \<open>Every step keeps the books\<close>

lemma begin_request:
  assumes "implements s A" "getCacheData_begin md rq started s = (Some r, s1)"
  shows "s1 = s" "sleeper_ok s (md, rq, r)" "\<not> failed s"
proof -
  have v: "\<not> request_invalid md rq s" "s1 = s"
    using assms(2) by (auto simp: getCacheData_begin_def split: if_splits)
  then show "s1 = s" "\<not> failed s" by (simp_all add: request_invalid_def)
  have "req_gpuId rq \<in> set (eligibleGpuIds s)" using v(1) by (simp add: request_invalid_def)
  then have "req_gpuId rq = gpu s" using implementsD(17) [OF assms(1)] by (metis empty_iff list.set(1) set_ConsD)
  then show "sleeper_ok s (md, rq, r)" using v(1) by (simp add: request_invalid_def sleeper_ok_def)
qed

lemma books_wake:
  assumes B: "books S A" and p: "(md, rq, r) \<in> set (sleepers S)" and w: "wait_leave woken r (cache S) = (r1, s1)"
  shows "books \<lparr>cache = s1, leases = leases S, sleepers = remove1 (md, rq, r) (sleepers S)\<rparr> A"
    "sleeper_ok s1 (md, rq, r1)" "deadline r1 = deadline r"
    "length (leases S) + length (remove1 (md, rq, r) (sleepers S)) + 1 < 2 ^ 64 - 1"
proof -
  note b = booksD [OF B]
  have s1: "implements s1 A" "same_config s1 (cache S)" "activeFallbackAccesses s1 = activeFallbackAccesses (cache S)"
      "waitingAccesses s1 = waitingAccesses (cache S) - 1"
    using w b(1) by (auto simp: wait_leave_def Let_def count_stat_def same_config_def)
  have len: "length (remove1 (md, rq, r) (sleepers S)) = length (sleepers S) - 1" "0 < length (sleepers S)"
    using p by (auto simp: length_remove1 length_pos_if_in_set)
  then have "unat (waitingAccesses s1) = length (remove1 (md, rq, r) (sleepers S))"
    using s1(4) b(6) unat_dec [of "waitingAccesses (cache S)"] by simp
  moreover have "sleeper_ok (cache S) q" if "q \<in> set (remove1 (md, rq, r) (sleepers S))" for q
    using that b(7) notin_set_remove1 by fastforce
  ultimately show "books \<lparr>cache = s1, leases = leases S, sleepers = remove1 (md, rq, r) (sleepers S)\<rparr> A"
    using s1(1-3) b(8) len by (intro books_frame [OF B]) auto
  show "length (leases S) + length (remove1 (md, rq, r) (sleepers S)) + 1 < 2 ^ 64 - 1" using b(8) len by linarith
  show "deadline r1 = deadline r" using w by (auto simp: wait_leave_def Let_def)
  have "sleeper_ok (cache S) (md, rq, r1)" using b(7) [OF p] by (simp add: sleeper_ok_def)
  then show "sleeper_ok s1 (md, rq, r1)" using sleeper_ok_config [OF s1(2)] by blast
qed

lemma books_idle_empty:
  assumes B: "books S A" and "canResetLocked (cache S)"
  shows "leases S = []" "sleepers S = []"
proof -
  note b = booksD [OF B]
  note C = assms(2) [unfolded canResetLocked_iff [OF b(1)]]
  show "sleepers S = []" using C b(6) by auto
  have none: "a \<notin> set (leases S)" for a
  proof
    assume a: "a \<in> set (leases S)"
    show False
    proof (cases "accessStatus a = TaskFallback")
      case True
      then show False using counts_pos(3) [OF a] b(5) C by simp
    next
      case False
      have i: "entryIndex a < length (cells A)"
        using b(3) [OF a] False implementsD(7) [OF b(1)] by (simp add: lease_basic_def)
      then have "hits (entryIndex a) (leases S) = 0" "fills (entryIndex a) (leases S) = 0"
        using b(4) [OF i] C by (auto simp: cell_books_def elim: is_Filling.elims)
      then show False using no_lease_at [OF _ _ a b(3) [OF a] False] by blast
    qed
  qed
  then show "leases S = []" by (metis list.set_intros(1) neq_Nil_conv)
qed

lemma books_reset:
  assumes B: "books S A" and r: "resetCache (cache S) = Some (out, s1)"
  shows "\<exists>A'. books (S\<lparr>cache := s1\<rparr>) A'"
proof (cases "\<not> cacheInitialized (cache S) \<or> releasing (cache S) \<or> failed (cache S) \<or> \<not> canResetLocked (cache S)")
  case True
  then have "s1 = cache S" using r by (simp add: resetCache_def)
  then show ?thesis using B by (auto intro: exI [of _ A])
next
  case False
  note b = booksD [OF B]
  have E: "leases S = []" "sleepers S = []" using books_idle_empty [OF B] False by auto
  let ?s0 = "(cache S)\<lparr>statistics := zero_statistics\<rparr>"
  have "implements ?s0 A" using b(1) by simp
  then obtain s2 where s2: "resetEntriesLocked ?s0 = Some s2"
      "implements s2 (empty_cache (size_of (cache S)) (evictionPolicy (cache S) = FIFO))" "quiet s2 ?s0"
    using resetEntriesLocked_empties [of ?s0 A] by auto
  then have "s1 = s2" using r False by (simp add: resetCache_def)
  moreover have "cell_books (cells (empty_cache n f) ! i) i []" if "i < n" for i n f
    using that by (simp add: cell_books_def empty_cache_def)
  ultimately show ?thesis
    using s2(2,3) E b(2,5,6)
    by (intro exI [of _ "empty_cache (size_of (cache S)) (evictionPolicy (cache S) = FIFO)"])
      (auto simp: books_def quiet_def same_config_def)
qed

lemma books_step:
  assumes B: "books S A" and st: "step S T"
  shows "\<exists>A'. books T A'"
  using st
proof (cases rule: step.cases)
  case (request_rejected md rq started s1)
  have "s1 = count_stat inc_invalid (cache S)"
    using request_rejected by (auto simp: getCacheData_begin_def split: if_splits)
  then have "books \<lparr>cache = s1, leases = leases S, sleepers = sleepers S\<rparr> A"
    using booksD [OF B] by (intro books_frame [OF B]) (auto simp: count_stat_def same_config_def)
  then show ?thesis using request_rejected by (cases S) auto
next
  case (request_returns md rq started r s1 now start a r' s2)
  note q = begin_request [OF booksD(1) [OF B] request_returns(3)]
  show ?thesis
    using books_attempt [OF B q(2), of now start] request_returns q(1) by (cases S) (auto simp: crowded_def)
next
  case (request_sleeps md rq started r s1 now start r' s2)
  note q = begin_request [OF booksD(1) [OF B] request_sleeps(3)]
  show ?thesis
    using books_attempt [OF B q(2), of now start] request_sleeps q(1) by (cases S) (auto simp: crowded_def)
next
  case (wake_returns md rq r woken r1 s1 now start a r2 s2)
  note W = books_wake [OF B wake_returns(2,3)]
  show ?thesis
    using books_attempt [OF W(1), of md rq r1 now start] W(2,4) wake_returns by (cases S) auto
next
  case (wake_sleeps md rq r woken r1 s1 now start r2 s2)
  note W = books_wake [OF B wake_sleeps(2,3)]
  show ?thesis
    using books_attempt [OF W(1), of md rq r1 now start] W(2,4) wake_sleeps by (cases S) auto
next
  case (sync_failed a)
  have "books \<lparr>cache = noteSyncFailure (cache S), leases = leases S, sleepers = sleepers S\<rparr> A"
    using booksD [OF B] noteSyncFailure_frame by (intro books_frame [OF B]) auto
  then show ?thesis using sync_failed by (cases S) auto
next
  case (complete a ok retention b a' s1)
  obtain s' where "completeAccess a ok retention (cache S) = Some (ok, default_access, s')"
      "implements s' (finish (accessStatus a) (entryIndex a) ok (retention = Discard) A)" "finished a s' (cache S)"
    using completeAccess_finishes [OF booksD(1) [OF B] books_live [OF B complete(2)] booksD(2) [OF B]] by blast
  then show ?thesis using books_finish [OF B complete(2)] complete by (cases S) auto
next
  case (abort a a' s1)
  obtain s' where "abortAccess a (cache S) = Some (default_access, s')"
      "implements s' (finish (accessStatus a) (entryIndex a) False False A)" "finished a s' (cache S)"
    using abortAccess_finishes [OF booksD(1) [OF B] books_live [OF B abort(2)]] by blast
  then show ?thesis using books_finish [OF B abort(2)] abort by (cases S) auto
next
  case (reset out s1)
  then show ?thesis using books_reset [OF B] by blast
qed

lemma books_start:
  assumes "implements s0 (empty_cache n f)" "\<not> releasing s0" "waitingAccesses s0 = 0" "activeFallbackAccesses s0 = 0"
  shows "books \<lparr>cache = s0, leases = [], sleepers = []\<rparr> (empty_cache n f)"
  using assms by (auto simp: books_def cell_books_def empty_cache_def)

lemma books_reachable:
  assumes "implements s0 (empty_cache n f)" "\<not> releasing s0" "waitingAccesses s0 = 0" "activeFallbackAccesses s0 = 0"
    and "reachable s0 S"
  shows "\<exists>A. books S A"
  using assms(5)
proof (induction rule: reachable.induct)
  case start
  then show ?case using books_start [OF assms(1-4)] by blast
next
  case (more S T)
  then show ?case using books_step by blast
qed

end
