(* ===== verification/Cache_Properties.thy ===== *)
theory Cache_Properties
  imports Cache_System
begin

text \<open>
  The properties of the cache: what one pass of a request does, how long a request may wait, what is
  counted, how a lease ends, and what holds between the cache and all its leases and sleeping
  requests in every reachable state.
\<close>

section \<open>Passes of the request loop\<close>

lemma attempt_failed: "failed s \<Longrightarrow> attempt now start md rq r s = invalid_return r s"
  by (simp add: attempt_def)

text \<open>
  C2.  One pass of \<open>getCacheData\<close> takes exactly the decision of the abstract cache, and returns:
  a hit leases the resident entry; a miss reserves a free entry or evicts, and turns it to loading;
  a request for a payload that is being filled, or in a cache with nothing to evict, blocks or falls
  back; no capacity falls back; metadata that contradicts the resident payload is rejected with no
  other effect than the count.  The state afterwards implements the abstract cache afterwards.
\<close>

theorem attempt_takes_abstract_decision:
  assumes "implements s A" "\<not> failed s" "req_gpuId rq = gpu s"
    "\<forall>i<length (cells A). readers (cells A ! i) < 2 ^ 64 - 1"
  shows "case decide md A of
      Hit i \<Rightarrow> \<exists>s'. attempt now start md rq r s = Some (Returned (lease s rq md i CacheHit), r, s')
        \<and> implements s' (perform md (Hit i) A) \<and> quiet s' s
    | Fill i \<Rightarrow> \<exists>s'. attempt now start md rq r s = Some (Returned (lease s rq md i CacheFill), r, s')
        \<and> implements s' (perform md (Fill i) A) \<and> quiet s' s
    | BusyLoading \<Rightarrow> attempt now start md rq r s = Some (block_or_fall_back now start md rq LoadingNoWait LoadingTimeout
        (\<lambda>t. t\<lparr>firstBlockedLoading := firstBlockedLoading t + 1\<rparr>) r s)
    | BusyFull \<Rightarrow> attempt now start md rq r s = Some (block_or_fall_back now start md rq FullNoWait FullTimeout
        (\<lambda>t. t\<lparr>firstBlockedFull := firstBlockedFull t + 1\<rparr>) r s)
    | NoCapacity \<Rightarrow> attempt now start md rq r s =
        Some (Returned (fst (makeFallbackAccess md rq CapacityZero s)), r, snd (makeFallbackAccess md rq CapacityZero s))
    | Mismatch \<Rightarrow> attempt now start md rq r s = invalid_return r s"
  using attempt_decides [OF assms(1-3), where md = md and now = now and start = start and r = r] assms(4) by (auto split: decision.splits)

definition sample_md :: FrameMetadata where
  "sample_md = \<lparr>key = sample_key 3, bytes = 64, width = 8, height = 8, dtype = 0\<rparr>"

definition sample_rq :: GpuCacheRequest where
  "sample_rq = \<lparr>req_gpuId = 0, req_stream = Some 11, d_fallback = Some 12, fallbackBytes = 64\<rparr>"

definition sample_state :: RequestState where
  "sample_state = \<lparr>deadline = 1000, blocked = False, waited = False, requestWait = 0, waitStarted = 0\<rparr>"

lemma sample_decides: "decide sample_md (empty_cache 2 f) = Fill 0"
  by (simp add: decide_def find_cell_def empty_cache_def choose_cell_def upt_rec numeral_2_eq_2)

lemma sample_fields:
  "gpu (sample_cache FIFO) = 0" "req_gpuId sample_rq = 0" "length (cells (empty_cache 2 f)) = 2"
  "i < 2 \<Longrightarrow> cells (empty_cache 2 f) ! i = Free"
  using sample_cache_implements(5) [of FIFO] by (simp_all add: sample_rq_def empty_cache_def)

lemma sample_attempt:
  "\<exists>s'. attempt 0 0 sample_md sample_rq sample_state (sample_cache FIFO)
      = Some (Returned (lease (sample_cache FIFO) sample_rq sample_md 0 CacheFill), sample_state, s')
    \<and> implements s' (take_cell 0 sample_md (empty_cache 2 True)) \<and> quiet s' (sample_cache FIFO)"
  using attempt_decides [of "sample_cache FIFO" "empty_cache 2 True" sample_rq,
      where md = sample_md and now = 0 and start = 0 and r = sample_state]
    sample_cache_implements [of FIFO] sample_decides [of True] sample_fields by auto

theorem attempt_takes_abstract_decision_witness:
  "\<exists>s'. attempt 0 0 sample_md sample_rq sample_state (sample_cache FIFO)
      = Some (Returned (lease (sample_cache FIFO) sample_rq sample_md 0 CacheFill), sample_state, s')
    \<and> implements s' (take_cell 0 sample_md (empty_cache 2 True))"
  using attempt_takes_abstract_decision [of "sample_cache FIFO" "empty_cache 2 True" sample_rq,
      where md = sample_md and now = 0 and start = 0 and r = sample_state]
    sample_cache_implements [of FIFO] sample_decides [of True] sample_fields by auto

lemma attempt_fill_inv:
  assumes "implements s A" "req_gpuId rq = gpu s" "\<forall>i<length (cells A). readers (cells A ! i) < 2 ^ 64 - 1"
    "attempt now start md rq r s = Some (Returned a, r', s')" "accessStatus a = CacheFill"
  shows "find_cell (key md) A = None" "choose_cell A = Some (entryIndex a)"
proof -
  have ok: "\<not> failed s"
  proof
    assume "failed s"
    then show False using assms(4,5) attempt_failed [of s now start md rq r] by (auto simp: default_access_def)
  qed
  note dec = attempt_decides [OF assms(1) ok assms(2), where md = md and now = now and start = start and r = r]
  have block: False if "attempt now start md rq r s = Some (block_or_fall_back now start md rq nw to fb r s)" for nw to fb
  proof -
    have "block_or_fall_back now start md rq nw to fb r s = (Returned a, r', s')" using that assms(4) by simp
    with assms(1) show False using assms(5) by (cases rule: block_or_fall_back_cases) (auto simp: fallback_lease_def)
  qed
  from implementsD(13) [OF assms(1)] have "find_cell (key md) A = None \<and> choose_cell A = Some (entryIndex a)"
  proof (cases rule: decide_cases [where md = md])
    case Hit
    then show ?thesis using dec assms(3-5) by (auto simp: lease_def)
  next
    case Fill
    then show ?thesis using dec assms(3,4) by (auto simp: lease_def)
  next
    case BusyLoading
    then show ?thesis using dec assms(3) block by auto
  next
    case BusyFull
    then show ?thesis using dec assms(3) block by auto
  next
    case NoCapacity
    then show ?thesis using dec assms(3-5) makeFallbackAccess_lease(1) [OF assms(1), of md rq CapacityZero]
      by (auto simp: fallback_lease_def)
  next
    case Mismatch
    then show ?thesis using dec assms(3-5) by (auto simp: default_access_def)
  qed
  then show "find_cell (key md) A = None" "choose_cell A = Some (entryIndex a)" by auto
qed

text \<open>
  What a fill may take.  When a pass returns a fill lease, its entry was empty, or no entry was
  empty and the entry held a complete payload without a reader; in that case it was the head of the
  LRU list, or under FIFO the oldest payload in fill order that nobody reads.  A payload that is
  being read or filled is never evicted.
\<close>

theorem fill_evicts_only_idle:
  assumes "implements s A" "req_gpuId rq = gpu s" "\<forall>i<length (cells A). readers (cells A ! i) < 2 ^ 64 - 1"
    "attempt now start md rq r s = Some (Returned a, r', s')" "accessStatus a = CacheFill"
  shows "entryIndex a < size_of s \<and> (cacheState (ent s (entryIndex a)) = Empty
    \<or> (\<forall>j < size_of s. cacheState (ent s j) \<noteq> Empty)
      \<and> cacheState (ent s (entryIndex a)) = Valid \<and> activeAccesses (ent s (entryIndex a)) = 0
      \<and> (evictionPolicy s = LRU \<and> leastRecentlyUsed s = entryIndex a
         \<or> evictionPolicy s = FIFO \<and> (\<exists>older newer. represents (fl s) (older @ entryIndex a # newer)
             \<and> (\<forall>j\<in>set older. activeAccesses (ent s j) \<noteq> 0))))"
proof -
  let ?i = "entryIndex a"
  note D = implementsD [OF assms(1)]
  note inv = attempt_fill_inv [OF assms]
  note C = choose_cell_SomeD [OF D(13) inv(2)]
  have i: "?i < size_of s" using C(1) D(7) by simp
  show ?thesis
  proof (cases "cells A ! ?i = Free")
    case True
    then show ?thesis using i D(8) by (simp add: cell_of_iff)
  next
    case False
    then obtain m where m: "cells A ! ?i = Ready m 0 False" "free A = []" using C(2) by auto
    have no_empty: "cacheState (ent s j) \<noteq> Empty" if "j < size_of s" for j
      using m(2) wf_cacheD(4) [OF D(13), of j] that D(7,8) by (auto simp: cell_of_iff)
    have st: "cacheState (ent s ?i) = Valid" "activeAccesses (ent s ?i) = 0"
      using m(1) i D(8) by (auto simp: cell_of_iff unat_eq_zero)
    have "leastRecentlyUsed s = ?i" if "evictionPolicy s = LRU"
      using inv(2) m(2) that D(12) representsD(3) [OF D(10)] by (cases "idle A") (simp_all add: choose_cell_def)
    moreover have "\<exists>older newer. represents (fl s) (older @ ?i # newer) \<and> (\<forall>j\<in>set older. activeAccesses (ent s j) \<noteq> 0)"
      if "evictionPolicy s = FIFO"
    proof -
      have "find (\<lambda>i. readers (cells A ! i) = 0) (ages A) = Some ?i"
        using inv(2) m(2) that D(12) by (simp add: choose_cell_def)
      then obtain older newer where on: "ages A = older @ ?i # newer" "\<forall>j\<in>set older. readers (cells A ! j) \<noteq> 0"
        by (auto simp: find_Some_iff2 find_Some_iff) (metis id_take_nth_drop in_set_conv_nth length_take less_imp_le min.absorb2 nth_take)
      have "activeAccesses (ent s j) \<noteq> 0" if "j \<in> set older" for j
        using on that wf_cacheD(6) [OF D(13), of j] D(7,8) by (auto simp: cell_of_def split: GpuCacheState.splits)
      then show ?thesis using D(11) on(1) by auto
    qed
    ultimately show ?thesis using i st no_empty D(15) by auto
  qed
qed


theorem fill_evicts_only_idle_witness:
  "cacheState (ent (sample_cache FIFO) 0) = Empty \<or> cacheState (ent (sample_cache FIFO) 0) = Valid"
proof -
  obtain s' where "attempt 0 0 sample_md sample_rq sample_state (sample_cache FIFO)
      = Some (Returned (lease (sample_cache FIFO) sample_rq sample_md 0 CacheFill), sample_state, s')"
    using sample_attempt by blast
  then show ?thesis
    using fill_evicts_only_idle [of "sample_cache FIFO" "empty_cache 2 True" sample_rq 0 0 sample_md sample_state
        "lease (sample_cache FIFO) sample_rq sample_md 0 CacheFill" sample_state s']
      sample_cache_implements [of FIFO] sample_fields by (auto simp: lease_def)
qed

section \<open>Waiting\<close>

text \<open>
  The deadline of a request is computed without overflow of the clock, for any configured
  timeout: it lies between the start of the request and the last representable instant, never later
  than the timeout allows, and it is exactly the timeout whenever that instant is representable up to
  the millisecond the code rounds to.
\<close>

theorem request_deadline_bounds:
  assumes "0 \<le> started" "started \<le> STEADY_MAX" "0 \<le> waitTimeout s"
  shows "started \<le> request_deadline started s \<and> request_deadline started s \<le> STEADY_MAX
    \<and> request_deadline started s \<le> started + waitTimeout s * 1000000
    \<and> (started + waitTimeout s * 1000000 \<le> STEADY_MAX \<longrightarrow>
        request_deadline started s = started + waitTimeout s * 1000000)"
proof -
  let ?m = "(STEADY_MAX - started) div 1000000"
  have m: "0 \<le> ?m" "?m * 1000000 \<le> STEADY_MAX - started" using assms by auto
  have "min (waitTimeout s) ?m * 1000000 \<le> ?m * 1000000" "min (waitTimeout s) ?m * 1000000 \<le> waitTimeout s * 1000000"
    by simp_all
  moreover have "0 \<le> min (waitTimeout s) ?m" using assms(3) m(1) by simp
  moreover have "waitTimeout s \<le> ?m" if "started + waitTimeout s * 1000000 \<le> STEADY_MAX"
    using that by (intro zdiv_mono1 [of "waitTimeout s * 1000000" "STEADY_MAX - started" 1000000, simplified]) simp
  ultimately show ?thesis using m unfolding request_deadline_def Let_def by auto
qed

text \<open>
  A request cannot sleep past its deadline: a pass that starts at or after the deadline, or
  under a zero timeout, returns a lease (a fallback if nothing better) instead of sleeping.  A pass
  that goes to sleep leaves the deadline as it is, so a wakeup never extends it.
\<close>

theorem attempt_respects_deadline:
  assumes "implements s A" "req_gpuId rq = gpu s" "\<forall>i<length (cells A). readers (cells A ! i) < 2 ^ 64 - 1"
  shows "\<exists>res r' s'. attempt now start md rq r s = Some (res, r', s') \<and> deadline r' = deadline r
    \<and> (deadline r \<le> now \<or> waitTimeout s = 0 \<longrightarrow> (\<exists>a. res = Returned a))"
proof (cases "failed s")
  case True
  then show ?thesis using attempt_failed [of s now start md rq r] by auto
next
  case False
  note dec = attempt_decides [OF assms(1) False assms(2), where md = md and now = now and start = start and r = r]
  have block: ?thesis if "attempt now start md rq r s = Some (block_or_fall_back now start md rq nw to fb r s)" for nw to fb
  proof -
    obtain res r' s' where run: "block_or_fall_back now start md rq nw to fb r s = (res, r', s')" by (metis prod_cases3)
    then have "deadline r' = deadline r"
      by (auto simp: block_or_fall_back_def wait_enter_def Let_def split: if_splits prod.splits)
    moreover from assms(1) run have "deadline r \<le> now \<or> waitTimeout s = 0 \<longrightarrow> (\<exists>a. res = Returned a)"
      by (cases rule: block_or_fall_back_cases) auto
    ultimately show ?thesis unfolding that run by blast
  qed
  show ?thesis
    using dec assms(3) block by (cases "decide md A") auto
qed

theorem attempt_respects_deadline_witness:
  "\<exists>a r' s'. attempt 2000 2000 sample_md sample_rq sample_state (sample_cache FIFO) = Some (Returned a, r', s')"
  using attempt_respects_deadline [of "sample_cache FIFO" "empty_cache 2 True" sample_rq 2000 2000 sample_md sample_state]
    sample_cache_implements [of FIFO] sample_fields by (auto simp: sample_state_def)


section \<open>Statistics\<close>

lemma block_statistics:
  assumes "block_or_fall_back now start md rq nw to fb r s = (res, r', s')"
    and fb: "\<And>t. hit (fb t) = hit t \<and> fill (fb t) = fill t \<and> fallback (fb t) = fallback t \<and> invalid (fb t) = invalid t
      \<and> fallbackReasons (fb t) = fallbackReasons t"
  shows "if res = Sleeping
    then hit (statistics s') = hit (statistics s) \<and> fill (statistics s') = fill (statistics s)
      \<and> fallback (statistics s') = fallback (statistics s) \<and> invalid (statistics s') = invalid (statistics s)
      \<and> reason_total (fallbackReasons (statistics s')) = reason_total (fallbackReasons (statistics s))
    else hit (statistics s') = hit (statistics s) \<and> fill (statistics s') = fill (statistics s)
      \<and> fallback (statistics s') = fallback (statistics s) + 1 \<and> invalid (statistics s') = invalid (statistics s)
      \<and> reason_total (fallbackReasons (statistics s')) = reason_total (fallbackReasons (statistics s)) + 1"
  using assms(1) fb
  by (auto simp: block_or_fall_back_def wait_enter_def makeFallbackAccess_def Let_def count_stat_def split: if_splits)

text \<open>
  The statistics count every request once, under its final outcome.  A pass that returns
  increases exactly one of hit, fill, fallback and invalid, the one of the lease it returns, and a
  fallback also exactly one of the six fallback reasons; a pass that goes to sleep increases none of
  them.  So the reasons always add up to the fallbacks.
\<close>

theorem attempt_counts_one_outcome:
  assumes "implements s A" "req_gpuId rq = gpu s" "\<forall>i<length (cells A). readers (cells A ! i) < 2 ^ 64 - 1"
    "attempt now start md rq r s = Some (res, r', s')"
  shows "let c = \<lambda>st. case res of Returned a \<Rightarrow> of_bool (accessStatus a = st) | Sleeping \<Rightarrow> 0
    in hit (statistics s') = hit (statistics s) + c CacheHit
      \<and> fill (statistics s') = fill (statistics s) + c CacheFill
      \<and> fallback (statistics s') = fallback (statistics s) + c TaskFallback
      \<and> invalid (statistics s') = invalid (statistics s) + c Invalid
      \<and> reason_total (fallbackReasons (statistics s')) = reason_total (fallbackReasons (statistics s)) + c TaskFallback"
proof (cases "failed s")
  case True
  then show ?thesis
    using assms(4) attempt_failed [of s now start md rq r] by (auto simp: default_access_def count_stat_def)
next
  case False
  note dec = attempt_decides [OF assms(1) False assms(2), where md = md and now = now and start = start and r = r]
  have block: ?thesis
    if "attempt now start md rq r s = Some (block_or_fall_back now start md rq nw to fb r s)"
      "\<And>t. hit (fb t) = hit t \<and> fill (fb t) = fill t \<and> fallback (fb t) = fallback t \<and> invalid (fb t) = invalid t
        \<and> fallbackReasons (fb t) = fallbackReasons t" for nw to fb
  proof -
    have run: "block_or_fall_back now start md rq nw to fb r s = (res, r', s')" using that(1) assms(4) by simp
    from assms(1) run show ?thesis
      using block_statistics [OF run that(2)]
      by (cases rule: block_or_fall_back_cases) (auto simp: fallback_lease_def)
  qed
  from implementsD(13) [OF assms(1)] show ?thesis
  proof (cases rule: decide_cases [where md = md])
    case Hit
    then show ?thesis using dec assms(3,4) by (auto simp: lease_def)
  next
    case Fill
    then show ?thesis using dec assms(3,4) by (auto simp: lease_def)
  next
    case BusyLoading
    then show ?thesis
      using dec assms(3) by (intro block [where fb = "\<lambda>t. t\<lparr>firstBlockedLoading := firstBlockedLoading t + 1\<rparr>"]) auto
  next
    case BusyFull
    then show ?thesis
      using dec assms(3) by (intro block [where fb = "\<lambda>t. t\<lparr>firstBlockedFull := firstBlockedFull t + 1\<rparr>"]) auto
  next
    case NoCapacity
    then show ?thesis using dec assms(3,4) by (auto simp: makeFallbackAccess_def count_stat_def reason_total_def)
  next
    case Mismatch
    then show ?thesis using dec assms(3,4) by (auto simp: default_access_def count_stat_def)
  qed
qed

section \<open>The end of a lease\<close>

text \<open>
  C3.  \<open>freeCacheData\<close> on an unfinished lease always ends it: it returns, the lease object is
  invalid afterwards, and it reports true exactly when the work was submitted, the stream
  synchronised and the retention was a known one.  A reader's entry loses that reader and is kept,
  or dropped with its last reader when a discard was asked for, now or earlier; a fill is published
  if and only if the reported result is true (and not discarded), and rolled back to an empty entry
  otherwise; a fallback gives back its count.  A failed synchronisation marks the cache failed.
\<close>

theorem freeCacheData_outcome:
  assumes "implements s A" "live s A a" "accessStream a \<noteq> nullptr" "\<not> releasing s"
    "cudaStreamSynchronize api (accessStream a) w = (synchronized, w1)"
  shows "\<exists>s'. freeCacheData api a submitted retention s w =
      Some (submitted \<and> synchronized \<and> (retention = Keep \<or> retention = Discard), default_access, s', w1)
    \<and> implements s' (case accessStatus a of
        CacheHit \<Rightarrow> leave_cell (entryIndex a) (retention = Discard) A
      | CacheFill \<Rightarrow> if submitted \<and> synchronized \<and> (retention = Keep \<or> retention = Discard)
          then publish_cell (entryIndex a) (retention = Discard) A else drop_cell (entryIndex a) A
      | _ \<Rightarrow> A)
    \<and> failed s' = (failed s \<or> \<not> synchronized)
    \<and> activeFallbackAccesses s' =
        (if accessStatus a = TaskFallback then activeFallbackAccesses s - 1 else activeFallbackAccesses s)"
  using freeCacheData_ends [OF assms, of submitted retention]
  by (cases "accessStatus a") (auto simp: ended_def)

lemma sample_live:
  "\<exists>s. implements s (take_cell 0 sample_md (empty_cache 2 True)) \<and> \<not> releasing s \<and> \<not> failed s
    \<and> live s (take_cell 0 sample_md (empty_cache 2 True)) (lease (sample_cache FIFO) sample_rq sample_md 0 CacheFill)"
proof -
  obtain s' where s': "implements s' (take_cell 0 sample_md (empty_cache 2 True))" "quiet s' (sample_cache FIFO)"
    using sample_attempt by blast
  moreover have "size_of (sample_cache FIFO) = 2"
    using implementsD(7) [OF sample_cache_implements(1) [of FIFO]] by simp
  ultimately have "live s' (take_cell 0 sample_md (empty_cache 2 True)) (lease (sample_cache FIFO) sample_rq sample_md 0 CacheFill)"
    using sample_fields by (auto simp: live_def lease_def take_cell_def empty_cache_def quiet_def same_config_def)
  then show ?thesis
    using s' sample_cache_implements(2,3) [of FIFO] by (auto simp: quiet_def same_config_def)
qed

theorem freeCacheData_outcome_witness:
  "\<exists>s s'. freeCacheData sample_api (lease (sample_cache FIFO) sample_rq sample_md 0 CacheFill) True Keep s (0, 0)
      = Some (True, default_access, s', (0, 0))
    \<and> implements s' (publish_cell 0 False (take_cell 0 sample_md (empty_cache 2 True)))"
proof -
  obtain s where s: "implements s (take_cell 0 sample_md (empty_cache 2 True))" "\<not> releasing s"
    "live s (take_cell 0 sample_md (empty_cache 2 True)) (lease (sample_cache FIFO) sample_rq sample_md 0 CacheFill)"
    using sample_live by blast
  show ?thesis
    using freeCacheData_outcome [OF s(1,3) _ s(2), of sample_api "(0, 0)" True "(0, 0)" True Keep]
    by (auto simp: sample_api_def lease_def sample_rq_def)
qed

text \<open>
  The destructor of a lease never publishes: an unfinished fill is rolled back to an empty
  entry, an unfinished reader leaves without a wish to discard, a fallback gives back its count, and
  the lease is over.  A failed synchronisation marks the cache failed here too.
\<close>

theorem destructor_never_publishes:
  assumes "implements s A" "live s A a" "cudaStreamSynchronize api (accessStream a) w = (synchronized, w1)"
  shows "\<exists>s'. abortUnfinishedAccess api a s w = Some (default_access, s', w1)
    \<and> implements s' (case accessStatus a of
        CacheHit \<Rightarrow> leave_cell (entryIndex a) False A
      | CacheFill \<Rightarrow> drop_cell (entryIndex a) A
      | _ \<Rightarrow> A)
    \<and> failed s' = (failed s \<or> \<not> synchronized)
    \<and> activeFallbackAccesses s' =
        (if accessStatus a = TaskFallback then activeFallbackAccesses s - 1 else activeFallbackAccesses s)"
  using abortUnfinishedAccess_ends [OF assms] by (cases "accessStatus a") (auto simp: ended_def)

theorem destructor_never_publishes_witness:
  "\<exists>s s'. abortUnfinishedAccess sample_api (lease (sample_cache FIFO) sample_rq sample_md 0 CacheFill) s (0, 0)
      = Some (default_access, s', (0, 0))
    \<and> implements s' (drop_cell 0 (take_cell 0 sample_md (empty_cache 2 True)))"
proof -
  obtain s where s: "implements s (take_cell 0 sample_md (empty_cache 2 True))"
    "live s (take_cell 0 sample_md (empty_cache 2 True)) (lease (sample_cache FIFO) sample_rq sample_md 0 CacheFill)"
    using sample_live by blast
  show ?thesis
    using destructor_never_publishes [OF s, of sample_api "(0, 0)" True "(0, 0)"]
    by (auto simp: sample_api_def lease_def)
qed

text \<open>
  Moving a lease.  The target gets the lease as it is and the source becomes invalid; the
  cache does not change when the target was empty, and otherwise only as the abort of the target's
  own lease changes it.  Moving onto itself does nothing.
\<close>

theorem move_transfers_the_lease:
  assumes "implements s A" "owner a = None \<or> live s A a"
    "cudaStreamSynchronize api (accessStream a) w = (synchronized, w1)"
  shows "move_construct other = (other, default_access)
    \<and> move_assign api True a other s w = Some (a, other, s, w)
    \<and> (owner a = None \<longrightarrow> move_assign api False a other s w = Some (other, default_access, s, w))
    \<and> (live s A a \<longrightarrow> (\<exists>s'. move_assign api False a other s w = Some (other, default_access, s', w1)
        \<and> implements s' (finish (accessStatus a) (entryIndex a) False False A)))"
proof -
  have "\<exists>s'. move_assign api False a other s w = Some (other, default_access, s', w1)
        \<and> implements s' (finish (accessStatus a) (entryIndex a) False False A)" if "live s A a"
    using abortUnfinishedAccess_ends [OF assms(1) that assms(3)] by (auto simp: move_assign_def takeAccess_moves)
  then show ?thesis
    by (auto simp: move_construct_def takeAccess_moves move_assign_def abortUnfinishedAccess_def)
qed

text \<open>
  \<open>resetCache\<close> returns.  It is refused, without any effect, when the cache is being
  released or has failed, when a lease is unfinished or a request sleeps.  Otherwise it returns the
  statistics of the interval and leaves an empty cache with fresh statistics and the same memory.
\<close>

theorem resetCache_outcome:
  assumes "implements s A"
  shows "if releasing s \<or> failed s \<or> activeFallbackAccesses s \<noteq> 0 \<or> waitingAccesses s \<noteq> 0
            \<or> (\<exists>i<length (cells A). readers (cells A ! i) \<noteq> 0 \<or> (\<exists>m. cells A ! i = Filling m))
    then resetCache s = Some (None, s)
    else \<exists>s'. resetCache s = Some (Some (statistics s), s') \<and> statistics s' = zero_statistics
      \<and> implements s' (empty_cache (size_of s) (evictionPolicy s = FIFO)) \<and> quiet s' s"
proof (cases "releasing s \<or> failed s \<or> \<not> canResetLocked s")
  case True
  then have "resetCache s = Some (None, s)" by (auto simp: resetCache_def)
  then show ?thesis using True canResetLocked_iff [OF assms] by auto
next
  case False
  let ?s0 = "s\<lparr>statistics := zero_statistics\<rparr>"
  obtain s2 where "resetEntriesLocked ?s0 = Some s2"
      "implements s2 (empty_cache (size_of s) (evictionPolicy s = FIFO))" "quiet s2 ?s0" "statistics s2 = zero_statistics"
    using resetEntriesLocked_empties [of ?s0 A] assms by auto
  then have "\<exists>s'. resetCache s = Some (Some (statistics s), s') \<and> statistics s' = zero_statistics
      \<and> implements s' (empty_cache (size_of s) (evictionPolicy s = FIFO)) \<and> quiet s' s"
    using False implementsD(14) [OF assms] by (auto simp: resetCache_def quiet_def same_config_def)
  then show ?thesis using False canResetLocked_iff [OF assms] by auto
qed

section \<open>All users of one cache\<close>

text \<open>A cache as a successful \<open>initialize\<close> leaves it.\<close>

definition fresh_cache :: "GpuDataCache \<Rightarrow> bool" where
  "fresh_cache s \<longleftrightarrow> (\<exists>n f. implements s (empty_cache n f)) \<and> \<not> releasing s \<and> waitingAccesses s = 0
     \<and> activeFallbackAccesses s = 0"

lemma sample_fresh: "fresh_cache (sample_cache FIFO)"
  using sample_cache_implements [of FIFO] unfolding fresh_cache_def by blast

lemma reachable_books: "fresh_cache s0 \<Longrightarrow> reachable s0 S \<Longrightarrow> \<exists>A. books S A"
  unfolding fresh_cache_def using books_reachable by blast

lemma sample_reachable: "\<exists>S. reachable (sample_cache FIFO) S
    \<and> leases S = [lease (sample_cache FIFO) sample_rq sample_md 0 CacheFill] \<and> sleepers S = []
    \<and> implements (cache S) (take_cell 0 sample_md (empty_cache 2 True)) \<and> quiet (cache S) (sample_cache FIFO)"
proof -
  let ?S0 = "\<lparr>cache = sample_cache FIFO, leases = [], sleepers = []\<rparr>"
  let ?r = "\<lparr>deadline = request_deadline 0 (sample_cache FIFO), blocked = False, waited = False, requestWait = 0, waitStarted = 0\<rparr>"
  have "\<not> request_invalid sample_md sample_rq (sample_cache FIFO)"
    using sample_cache_implements [of FIFO] implementsD(14) [OF sample_cache_implements(1) [of FIFO]]
    by (simp add: request_invalid_def sample_md_def sample_rq_def)
  then have b: "getCacheData_begin sample_md sample_rq 0 (cache ?S0) = (Some ?r, sample_cache FIFO)"
    by (simp add: getCacheData_begin_def)
  obtain s' where "attempt 0 0 sample_md sample_rq ?r (sample_cache FIFO)
      = Some (Returned (lease (sample_cache FIFO) sample_rq sample_md 0 CacheFill), ?r, s')"
    and s': "implements s' (take_cell 0 sample_md (empty_cache 2 True))" "quiet s' (sample_cache FIFO)"
    using attempt_decides [of "sample_cache FIFO" "empty_cache 2 True" sample_rq,
        where md = sample_md and now = 0 and start = 0 and r = ?r]
      sample_cache_implements [of FIFO] sample_decides [of True] sample_fields by auto
  then have "step ?S0 (?S0\<lparr>cache := s', leases := add_lease (lease (sample_cache FIFO) sample_rq sample_md 0 CacheFill) (leases ?S0)\<rparr>)"
    using b by (intro step.request_returns) (auto simp: crowded_def)
  then have "reachable (sample_cache FIFO) (?S0\<lparr>cache := s', leases := [lease (sample_cache FIFO) sample_rq sample_md 0 CacheFill]\<rparr>)"
    using reachable.more [OF reachable.start] by (simp add: add_lease_def lease_def)
  then show ?thesis using s' by fastforce
qed

text \<open>
  C4.  The counters are the truth.  However the threads interleave, the reader count of every valid
  entry is the number of unfinished hit leases on it, a loading entry has exactly one fill lease, an
  empty entry has none, and the cache's counts of fallback leases and of sleeping requests are the
  numbers there are.
\<close>

theorem counters_match_leases:
  assumes "fresh_cache s0" "reachable s0 S"
  shows "(\<forall>i < size_of (cache S). case cacheState (ent (cache S) i) of
        Valid \<Rightarrow> unat (activeAccesses (ent (cache S) i)) = hits i (leases S) \<and> fills i (leases S) = 0
      | Loading \<Rightarrow> hits i (leases S) = 0 \<and> fills i (leases S) = 1 \<and> activeAccesses (ent (cache S) i) = 1
      | Empty \<Rightarrow> hits i (leases S) = 0 \<and> fills i (leases S) = 0 \<and> activeAccesses (ent (cache S) i) = 0)
    \<and> unat (activeFallbackAccesses (cache S)) = fallbacks (leases S)
    \<and> unat (waitingAccesses (cache S)) = length (sleepers S)"
proof -
  obtain A where B: "books S A" using reachable_books [OF assms] by blast
  note b = booksD [OF B] and D = implementsD [OF booksD(1) [OF B]]
  have "case cacheState (ent (cache S) i) of
        Valid \<Rightarrow> unat (activeAccesses (ent (cache S) i)) = hits i (leases S) \<and> fills i (leases S) = 0
      | Loading \<Rightarrow> hits i (leases S) = 0 \<and> fills i (leases S) = 1 \<and> activeAccesses (ent (cache S) i) = 1
      | Empty \<Rightarrow> hits i (leases S) = 0 \<and> fills i (leases S) = 0 \<and> activeAccesses (ent (cache S) i) = 0"
    if "i < size_of (cache S)" for i
    using b(4) [of i] D(3,7,8) that
    by (auto simp: cell_books_def cell_of_def entry_ok_def split: GpuCacheState.splits)
  then show ?thesis using b(5,6) by blast
qed

theorem counters_match_leases_witness:
  "\<exists>S. reachable (sample_cache FIFO) S \<and> length (leases S) = 1
    \<and> unat (activeFallbackAccesses (cache S)) = fallbacks (leases S)"
  using sample_reachable counters_match_leases [OF sample_fresh] by fastforce

text \<open>
  C5.  A lease stays good.  As long as a hit lease is unfinished, its entry holds the complete
  payload of the requested key at the leased address, counts at least one reader and is not on the
  evictable list; as long as a fill lease is unfinished, its entry is loading that key at the leased
  address.  Nothing another thread does can take the entry away.
\<close>

theorem leased_entries_are_pinned:
  assumes "fresh_cache s0" "reachable s0 S" "a \<in> set (leases S)"
  shows "owner a = Some (self (cache S)) \<and>
    (case accessStatus a of
        CacheHit \<Rightarrow> entryIndex a < size_of (cache S)
          \<and> cacheState (ent (cache S) (entryIndex a)) = Valid
          \<and> key (metadata (ent (cache S) (entryIndex a))) = dataKey a
          \<and> accessData a = dataForGpu (deviceId a) (ent (cache S) (entryIndex a)) \<and> accessData a \<noteq> nullptr
          \<and> replicaValid (deviceId a) (ent (cache S) (entryIndex a))
          \<and> 0 < activeAccesses (ent (cache S) (entryIndex a))
          \<and> \<not> inEvictableList (ent (cache S) (entryIndex a))
      | CacheFill \<Rightarrow> entryIndex a < size_of (cache S)
          \<and> cacheState (ent (cache S) (entryIndex a)) = Loading
          \<and> key (metadata (ent (cache S) (entryIndex a))) = dataKey a
          \<and> accessData a = dataForGpu (deviceId a) (ent (cache S) (entryIndex a)) \<and> accessData a \<noteq> nullptr
          \<and> \<not> inEvictableList (ent (cache S) (entryIndex a))
      | TaskFallback \<Rightarrow> accessData a \<noteq> nullptr
      | Invalid \<Rightarrow> False)"
proof -
  obtain A where B: "books S A" using reachable_books [OF assms(1,2)] by blast
  note D = implementsD [OF booksD(1) [OF B]] and L = books_live [OF B assms(3)]
  let ?i = "entryIndex a"
  show ?thesis
  proof (cases "accessStatus a")
    case CacheHit
    then obtain m n d where c: "?i < size_of (cache S)" "cells A ! ?i = Ready m n d" "0 < n" "key m = dataKey a"
        "deviceId a = gpu (cache S)" "accessData a = dataForGpu (gpu (cache S)) (ent (cache S) ?i)" "owner a = Some (self (cache S))"
      using L by (auto simp: live_def)
    moreover have "metadata (ent (cache S) ?i) = m" using c(1,2) D(8) by (simp add: cell_of_iff)
    ultimately show ?thesis
      using CacheHit hit_state [OF booksD(1) [OF B] c(1-3)] entry_okD(1) [OF D(3) [OF c(1)]] by auto
  next
    case CacheFill
    then obtain m where c: "?i < size_of (cache S)" "cells A ! ?i = Filling m" "key m = dataKey a"
        "deviceId a = gpu (cache S)" "accessData a = dataForGpu (gpu (cache S)) (ent (cache S) ?i)" "owner a = Some (self (cache S))"
      using L by (auto simp: live_def)
    moreover have "cacheState (ent (cache S) ?i) = Loading" "metadata (ent (cache S) ?i) = m"
      using c(1,2) D(8) by (simp_all add: cell_of_iff)
    moreover have "\<not> inEvictableList (ent (cache S) ?i)"
      using representsD(6) [OF D(10), of ?i] wf_cacheD(5) [OF D(13), of ?i] c(2) by simp
    ultimately show ?thesis using CacheFill entry_okD(1) [OF D(3) [OF c(1)]] by auto
  qed (use L in \<open>simp_all add: live_def\<close>)
qed

theorem leased_entries_are_pinned_witness:
  "\<exists>S. reachable (sample_cache FIFO) S \<and> cacheState (ent (cache S) 0) = Loading"
proof -
  obtain S where S: "reachable (sample_cache FIFO) S"
      "leases S = [lease (sample_cache FIFO) sample_rq sample_md 0 CacheFill]"
    using sample_reachable by blast
  then show ?thesis
    using leased_entries_are_pinned [OF sample_fresh S(1), of "lease (sample_cache FIFO) sample_rq sample_md 0 CacheFill"]
    by (auto simp: lease_def)
qed


lemma length_filter_two:
  assumes "p < length xs" "q < length xs" "p \<noteq> q" "P (xs ! p)" "P (xs ! q)"
  shows "2 \<le> length (filter P xs)"
proof -
  have "{p, q} \<subseteq> {i. i < length xs \<and> P (xs ! i)}" using assms by auto
  then have "card {p, q} \<le> card {i. i < length xs \<and> P (xs ! i)}" by (intro card_mono) auto
  then show ?thesis using assms(3) by (simp add: length_filter_conv_card)
qed

text \<open>
  One writer, and alone.  While a fill lease is unfinished no other cache-backed lease, of
  either kind, is on its entry or on its key: the same payload is never filled twice at a time, and
  nobody reads an entry that is being filled.
\<close>

theorem fill_lease_is_exclusive:
  assumes "fresh_cache s0" "reachable s0 S" "p < length (leases S)" "q < length (leases S)" "p \<noteq> q"
    "accessStatus (leases S ! p) = CacheFill" "accessStatus (leases S ! q) \<noteq> TaskFallback"
  shows "entryIndex (leases S ! p) \<noteq> entryIndex (leases S ! q) \<and> dataKey (leases S ! p) \<noteq> dataKey (leases S ! q)"
proof -
  obtain A where B: "books S A" using reachable_books [OF assms(1,2)] by blast
  note b = booksD [OF B] and D = implementsD [OF booksD(1) [OF B]]
  let ?a = "leases S ! p" and ?b = "leases S ! q"
  have mem: "?a \<in> set (leases S)" "?b \<in> set (leases S)" using assms(3,4) by auto
  have la: "live (cache S) A ?a" "live (cache S) A ?b" using books_live [OF B] mem by auto
  have st: "accessStatus ?b = CacheHit \<or> accessStatus ?b = CacheFill"
    using live_matches(4) [OF b(1) la(2) assms(7)] .
  have idx: "entryIndex ?a \<noteq> entryIndex ?b"
  proof
    assume same: "entryIndex ?a = entryIndex ?b"
    have i: "entryIndex ?a < length (cells A)" using live_matches(1) [OF b(1) la(1)] assms(6) D(7) by simp
    obtain m where "cells A ! entryIndex ?a = Filling m" using la(1) assms(6) by (auto simp: live_def)
    then have cnt: "hits (entryIndex ?a) (leases S) = 0" "fills (entryIndex ?a) (leases S) = 1"
      using b(4) [OF i] by (simp_all add: cell_books_def)
    show False
    proof (cases "accessStatus ?b = CacheHit")
      case True
      then show False using counts_pos(1) [OF mem(2)] cnt(1) same by simp
    next
      case False
      then have "2 \<le> fills (entryIndex ?a) (leases S)"
        unfolding fills_def using st same assms(3-6) by (intro length_filter_two [of p _ q]) auto
      then show False using cnt(2) by simp
    qed
  qed
  have key: "entryIndex x < length (cells A) \<and> cell_key (cells A ! entryIndex x) = Some (dataKey x)"
    if "live (cache S) A x" "accessStatus x \<noteq> TaskFallback" for x
    using that D(7) by (auto simp: live_def split: CacheStatus.splits)
  have "dataKey ?a \<noteq> dataKey ?b"
    using wf_cacheD(8) [OF D(13)] key [OF la(1)] key [OF la(2) assms(7)] assms(6) idx by auto
  then show ?thesis using idx by simp
qed

theorem fill_lease_is_exclusive_witness:
  "\<exists>S. reachable (sample_cache FIFO) S \<and> (\<forall>q < length (leases S). q \<noteq> 0 \<longrightarrow>
     accessStatus (leases S ! q) \<noteq> TaskFallback \<longrightarrow> dataKey (leases S ! q) \<noteq> sample_key 3)"
proof -
  obtain S where S: "reachable (sample_cache FIFO) S"
      "leases S = [lease (sample_cache FIFO) sample_rq sample_md 0 CacheFill]"
    using sample_reachable by blast
  have "accessStatus (leases S ! 0) = CacheFill" "dataKey (leases S ! 0) = sample_key 3" "0 < length (leases S)"
    using S(2) by (simp_all add: lease_def sample_md_def)
  then show ?thesis
    using fill_lease_is_exclusive [OF sample_fresh S(1), of 0] S(1) by metis
qed

text \<open>
  C6.  No call gets stuck.  In every reachable state every call the users can make returns: a new
  request, the next pass of a sleeping one, the completion and the abort of any unfinished lease, and
  a reset.  None of them reads outside the entry vector, dereferences a null entry or loops for ever.
\<close>

theorem no_call_gets_stuck:
  assumes "fresh_cache s0" "reachable s0 S" "\<not> crowded S"
  shows "(\<forall>md rq started r s1. getCacheData_begin md rq started (cache S) = (Some r, s1) \<longrightarrow>
        attempt now start md rq r s1 \<noteq> None)
    \<and> (\<forall>md rq r r1 s1. (md, rq, r) \<in> set (sleepers S) \<and> wait_leave woken r (cache S) = (r1, s1) \<longrightarrow>
        attempt now start md rq r1 s1 \<noteq> None)
    \<and> (\<forall>a\<in>set (leases S). completeAccess a ok retention (cache S) \<noteq> None \<and> abortAccess a (cache S) \<noteq> None)
    \<and> resetCache (cache S) \<noteq> None"
proof -
  obtain A where B: "books S A" using reachable_books [OF assms(1,2)] by blast
  note b = booksD [OF B]
  have "attempt now start md rq r s1 \<noteq> None" if "getCacheData_begin md rq started (cache S) = (Some r, s1)" for md rq started r s1
    using begin_request [OF b(1) that] books_attempt [OF B, of md rq r now start] assms(3) by (auto simp: crowded_def)
  moreover have "attempt now start md rq r1 s1 \<noteq> None"
    if "(md, rq, r) \<in> set (sleepers S)" "wait_leave woken r (cache S) = (r1, s1)" for md rq r r1 s1
    using books_wake [OF B that] books_attempt [OF books_wake(1) [OF B that], of md rq r1 now start] by auto
  moreover have "completeAccess a ok retention (cache S) \<noteq> None \<and> abortAccess a (cache S) \<noteq> None" if "a \<in> set (leases S)" for a
    using completeAccess_finishes [OF b(1) books_live [OF B that] b(2), of ok retention]
      abortAccess_finishes [OF b(1) books_live [OF B that]] by auto
  moreover have "resetCache (cache S) \<noteq> None"
    using resetEntriesLocked_empties [of "(cache S)\<lparr>statistics := zero_statistics\<rparr>" A] b(1)
    by (auto simp: resetCache_def)
  ultimately show ?thesis by blast
qed

theorem no_call_gets_stuck_witness:
  "\<exists>S. reachable (sample_cache FIFO) S \<and> (\<forall>a\<in>set (leases S). completeAccess a True Keep (cache S) \<noteq> None)
     \<and> resetCache (cache S) \<noteq> None"
proof -
  obtain S where S: "reachable (sample_cache FIFO) S" "\<not> crowded S"
    using sample_reachable by (fastforce simp: crowded_def)
  show ?thesis
    using no_call_gets_stuck [OF sample_fresh S, of 0 0 0 True Keep] S(1) by blast
qed

text \<open>
  The residency table tells the truth.  In every reachable state a lookup finds a key exactly
  when some entry is loading or holding it, and finds that entry; so a payload is in at most one
  entry, and no key survives the eviction or the discard of its payload.
\<close>

theorem residency_table_is_coherent:
  assumes "fresh_cache s0" "reachable s0 S"
  shows "table_find (residencyTable (cache S)) k = Some i \<longleftrightarrow>
    i < size_of (cache S) \<and> cacheState (ent (cache S) i) \<noteq> Empty \<and> key (metadata (ent (cache S) i)) = k"
proof -
  obtain A where B: "books S A" using reachable_books [OF assms] by blast
  note D = implementsD [OF booksD(1) [OF B]]
  have "cell_key (cell_of e) = Some k \<longleftrightarrow> cacheState e \<noteq> Empty \<and> key (metadata e) = k" for e
    by (cases "cacheState e") (auto simp: cell_of_def)
  then show ?thesis
    using rt.find_alpha [OF D(4), of k] D(6-8) find_cell_Some [OF D(13), of k i] by auto
qed

theorem residency_table_is_coherent_witness:
  "\<exists>S. reachable (sample_cache FIFO) S \<and> (\<forall>i. table_find (residencyTable (cache S)) (sample_key 3) = Some i \<longrightarrow>
     i < size_of (cache S))"
  using residency_table_is_coherent [OF sample_fresh] reachable.start by blast

end
