(* ===== verification/Cache_Liveness.thy ===== *)
theory Cache_Liveness
  imports Cache_Properties
begin

text \<open>
  What the waiting requests may rely on: every step that lets a blocked request go on notifies the
  condition variable it sleeps on, and a cache that met a failed stream synchronisation gives out no
  lease any more.  Both are stated over the interleaved steps of the theory \<open>Cache_System\<close>.
\<close>

section \<open>Requests that have to wait\<close>

text \<open>
  The condition under which a pass over the loop of \<open>getCacheData\<close> blocks: the payload is being loaded by another task, or no entry can be had for it.  A
  failed cache blocks nobody, since the pass tests \<open>failed\<close> first.
\<close>

definition obstructed :: "FrameMetadata \<Rightarrow> GpuDataCache \<Rightarrow> bool" where
  "obstructed md s = (case table_find (residencyTable s) (key md) of
      Some i \<Rightarrow> (case entry_at s i of None \<Rightarrow> False | Some e \<Rightarrow> cacheState e = Loading \<and> metadata_eq (metadata e) md)
    | None \<Rightarrow> emptyEntries s = [] \<and> leastRecentlyUsed s = NO_ENTRY \<and> entries s \<noteq> [])"

definition would_block :: "FrameMetadata \<Rightarrow> GpuDataCache \<Rightarrow> bool" where
  "would_block md s \<longleftrightarrow> \<not> failed s \<and> obstructed md s"

definition busy :: "FrameMetadata \<Rightarrow> abstract_cache \<Rightarrow> bool" where
  "busy md A \<longleftrightarrow> (\<exists>i<length (cells A). cells A ! i = Filling md)
     \<or> find_cell (key md) A = None \<and> free A = [] \<and> idle A = [] \<and> cells A \<noteq> []"

lemma obstructed_busy:
  assumes impl: "implements s A"
  shows "obstructed md s \<longleftrightarrow> busy md A"
proof -
  note D = implementsD [OF impl]
  have find: "table_find (residencyTable s) (key md) = find_cell (key md) A"
    using rt.find_alpha [OF D(4)] D(6) by simp
  show ?thesis
  proof (cases "find_cell (key md) A")
    case None
    then have "\<not> (\<exists>i<length (cells A). cells A ! i = Filling md)" by (auto simp: find_cell_None)
    moreover have "leastRecentlyUsed s = NO_ENTRY \<longleftrightarrow> idle A = []"
      using representsD(2,3) [OF D(10)] by (cases "idle A") auto
    moreover have "entries s \<noteq> [] \<longleftrightarrow> cells A \<noteq> []" using D(7) by auto
    ultimately show ?thesis using None find D(9) by (auto simp: obstructed_def busy_def)
  next
    case (Some i)
    then have i: "i < size_of s" using find_cell_Some [OF D(13)] D(7) by simp
    have "cells A ! j = Filling md \<Longrightarrow> j < length (cells A) \<Longrightarrow> j = i" for j
      using Some find_cell_Some [OF D(13)] by (metis cell_key.simps(2) option.inject)
    then have "busy md A \<longleftrightarrow> cells A ! i = Filling md" using Some i D(7) by (auto simp: busy_def)
    then show ?thesis
      using Some find i D(1,8) by (simp add: obstructed_def entry_at_ent cell_of_iff)
  qed
qed

lemma busy_recount:
  assumes "wf_cache A" "busy md A" "i < length (cells A)" "cells A ! i = Ready m n d"
    "cells A' = (cells A)[i := Ready m n' d']" "free A' = free A" "idle A = [] \<Longrightarrow> idle A' = []" "wf_cache A'"
  shows "busy md A'"
proof -
  have keys: "find_cell (key md) A' = None" if "find_cell (key md) A = None"
    using that find_cell_update [OF assms(1,8,5,3), of "key md"] assms(3,4) by (auto simp: find_cell_None)
  show ?thesis
  proof (cases "\<exists>j<length (cells A). cells A ! j = Filling md")
    case True
    then obtain j where "j < length (cells A)" "cells A ! j = Filling md" by blast
    then show ?thesis using assms(4,5) by (cases "j = i") (auto simp: busy_def)
  next
    case False
    then show ?thesis using assms(2,5-7) keys by (auto simp: busy_def)
  qed
qed

lemma busy_perform:
  assumes wf: "wf_cache A" and busy: "busy md A"
  shows "busy md (perform md' (decide md' A) A)"
  using wf
proof (cases rule: decide_cases [where md = md'])
  case (Hit i n d)
  have "wf_cache (read_cell i A)" using wf_read_cell [OF wf Hit(3)] .
  then show ?thesis
    using Hit busy by (auto simp: read_cell_def intro!: busy_recount [OF wf busy Hit(3,4)])
next
  case (Fill i)
  note C = choose_cell_SomeD [OF wf Fill(3)]
  then obtain j where j: "j < length (cells A)" "cells A ! j = Filling md"
    using busy by (auto simp: busy_def)
  then have "j \<noteq> i" using C(2) by auto
  then show ?thesis using j Fill(1) by (auto simp: busy_def take_cell_def intro!: exI [of _ j])
qed (use busy in simp_all)

lemma busy_quiet_finish:
  assumes wf: "wf_cache A" and busy: "busy md A" and a: "live s A a" "implements s A" "\<not> wakes a A"
  shows "busy md (finish (accessStatus a) (entryIndex a) ok disc A)"
proof (cases "accessStatus a = CacheHit")
  case True
  then obtain m n d where c: "entryIndex a < length (cells A)" "cells A ! entryIndex a = Ready m n d" "0 < n"
    using a(1) implementsD(7) [OF a(2)] by (auto simp: live_def)
  then have "1 < n" using a(3) True by (auto simp: wakes_def)
  moreover have "wf_cache (leave_cell (entryIndex a) disc A)" using wf_leave_cell [OF wf c] .
  ultimately show ?thesis
    using True c(2) by (auto simp: leave_cell_def intro!: busy_recount [OF wf busy c(1,2)])
next
  case False
  then show ?thesis using busy a(1,3) by (cases "accessStatus a") (auto simp: wakes_def live_def)
qed

lemma busy_attempt:
  assumes B: "books S A" and rq: "sleeper_ok (cache S) (md', rq, r)" and busy: "busy md A"
    and at: "attempt now start md' rq r (cache S) = Some (res, r', s')"
  shows "obstructed md s'" "failed s' = failed (cache S)"
proof -
  note b = booksD [OF B] and D = implementsD [OF booksD(1) [OF B]]
  have keep: "obstructed md s'" if "implements s' A'" "busy md A'" for A' using obstructed_busy [OF that(1)] that(2) by simp
  have "obstructed md s' \<and> failed s' = failed (cache S)"
  proof (cases "failed (cache S)")
    case True
    then show ?thesis using at attempt_failed [of "cache S" now start md' rq r] keep [of A] b(1) busy by (auto simp: count_stat_def)
  next
    case False
    have g: "req_gpuId rq = gpu (cache S)" using rq by (simp add: sleeper_ok_def)
    note dec = attempt_decides [OF b(1) False g books_room [OF B], where md = md' and now = now and start = start and r = r]
    have block: ?thesis if "attempt now start md' rq r (cache S) = Some (block_or_fall_back now start md' rq nw to fb r (cache S))" for nw to fb
    proof -
      have "block_or_fall_back now start md' rq nw to fb r (cache S) = (res, r', s')" using that at by simp
      with b(1) have "implements s' A" "failed s' = failed (cache S)" by (cases rule: block_or_fall_back_cases; simp)+
      then show ?thesis using keep busy by blast
    qed
    have p: "busy md (perform md' (decide md' A) A)" by (rule busy_perform [OF D(13) busy])
    show ?thesis
    proof (cases "decide md' A")
      case (Hit i)
      then show ?thesis using dec at p by (auto simp: quiet_def intro: keep)
    next
      case (Fill i)
      then show ?thesis using dec at p by (auto simp: quiet_def intro: keep)
    next
      case NoCapacity
      then show ?thesis using dec at keep [of A] makeFallbackAccess_lease [OF b(1), of md' rq CapacityZero] busy by auto
    next
      case Mismatch
      then show ?thesis using dec at keep [of A] b(1) busy by (auto simp: count_stat_def)
    qed (use dec block in auto)
  qed
  then show "obstructed md s'" "failed s' = failed (cache S)" by simp_all
qed

section \<open>No lost wakeup\<close>

text \<open>Only a failed synchronisation makes the cache fail, and it notifies.\<close>

lemma step_fails:
  assumes B: "books S A" and st: "step S T" and p: "sleepers S \<noteq> []" and w: "obstructed md (cache S)" "\<not> failed (cache S)" "failed (cache T)"
  shows "notifications (cache S) < notifications (cache T)"
proof -
  note b = booksD [OF B]
  have busy: "busy md A" using obstructed_busy [OF b(1)] w(1) by simp
  show ?thesis
    using st
  proof (cases rule: step.cases)
    case (request_rejected md' rq started s1)
    then show ?thesis using w(2,3) by (auto simp: getCacheData_begin_def count_stat_def split: if_splits)
  next
    case (request_returns md' rq started r s1 now start a r' s2)
    note q = begin_request [OF b(1) request_returns(3)]
    show ?thesis using busy_attempt(2) [OF B q(2) busy] request_returns(1,4) q(1) w(2,3) by auto
  next
    case (request_sleeps md' rq started r s1 now start r' s2)
    note q = begin_request [OF b(1) request_sleeps(3)]
    show ?thesis using busy_attempt(2) [OF B q(2) busy] request_sleeps(1,4) q(1) w(2,3) by auto
  next
    case (wake_returns md' rq r woken r1 s1 now start a r2 s2)
    note W = books_wake [OF B wake_returns(2,3)]
    have "failed s1 = failed (cache S)" using wake_returns(3) by (auto simp: wait_leave_def Let_def count_stat_def)
    then show ?thesis using busy_attempt(2) [OF W(1) _ busy] W(2) wake_returns(1,4) w(2,3) by auto
  next
    case (wake_sleeps md' rq r woken r1 s1 now start r2 s2)
    note W = books_wake [OF B wake_sleeps(2,3)]
    have "failed s1 = failed (cache S)" using wake_sleeps(3) by (auto simp: wait_leave_def Let_def count_stat_def)
    then show ?thesis using busy_attempt(2) [OF W(1) _ busy] W(2) wake_sleeps(1,4) w(2,3) by auto
  next
    case (sync_failed a)
    then show ?thesis using noteSyncFailure_frame(6) [of "cache S"] by simp
  next
    case (complete a ok retention c a' s1)
    then show ?thesis
      using completeAccess_finishes [OF b(1) books_live [OF B complete(2)] b(2), of ok retention] w(2,3) by (auto simp: finished_def)
  next
    case (abort a a' s1)
    then show ?thesis using abortAccess_finishes [OF b(1) books_live [OF B abort(2)]] w(2,3) by (auto simp: finished_def)
  next
    case (reset out s1)
    have "waitingAccesses (cache S) \<noteq> 0" using b(6) p by auto
    then have "s1 = cache S" using reset(2) by (simp add: resetCache_def canResetLocked_def)
    then show ?thesis using reset(1) w(2,3) by simp
  qed
qed

lemma step_unblocks:
  assumes B: "books S A" and st: "step S T" and p: "sleepers S \<noteq> []"
    and w: "obstructed md (cache S)" "\<not> obstructed md (cache T)"
  shows "notifications (cache S) < notifications (cache T)"
proof -
  note b = booksD [OF B] and D = implementsD [OF booksD(1) [OF B]]
  have busy: "busy md A" using obstructed_busy [OF b(1)] w(1) by simp
  have same: "obstructed md s'" if "implements s' A" for s' using obstructed_busy [OF that] busy by simp
  have over: "notifications (cache S) < notifications s'"
    if "implements s' (finish (accessStatus a) (entryIndex a) ok disc A)" "a \<in> set (leases S)" "\<not> obstructed md s'"
      "notifications s' = (if wakes a A then notifications (cache S) + 1 else notifications (cache S))" for a s' ok disc
  proof -
    have "wakes a A"
      using obstructed_busy [OF that(1)] that(3) busy_quiet_finish [OF D(13) busy books_live [OF B that(2)] b(1)] by blast
    then show ?thesis using that(4) by simp
  qed
  show ?thesis
    using st
  proof (cases rule: step.cases)
    case (request_rejected md' rq started s1)
    then have "s1 = count_stat inc_invalid (cache S)" by (auto simp: getCacheData_begin_def split: if_splits)
    then show ?thesis using same [of s1] b(1) w(2) request_rejected(1) by simp
  next
    case (request_returns md' rq started r s1 now start a r' s2)
    note q = begin_request [OF b(1) request_returns(3)]
    show ?thesis using busy_attempt(1) [OF B q(2) busy] request_returns(1,4) q(1) w(2) by auto
  next
    case (request_sleeps md' rq started r s1 now start r' s2)
    note q = begin_request [OF b(1) request_sleeps(3)]
    show ?thesis using busy_attempt(1) [OF B q(2) busy] request_sleeps(1,4) q(1) w(2) by auto
  next
    case (wake_returns md' rq r woken r1 s1 now start a r2 s2)
    note W = books_wake [OF B wake_returns(2,3)]
    show ?thesis using busy_attempt(1) [OF W(1) _ busy] W(2) wake_returns(1,4) w(2) by auto
  next
    case (wake_sleeps md' rq r woken r1 s1 now start r2 s2)
    note W = books_wake [OF B wake_sleeps(2,3)]
    show ?thesis using busy_attempt(1) [OF W(1) _ busy] W(2) wake_sleeps(1,4) w(2) by auto
  next
    case (sync_failed a)
    then show ?thesis using noteSyncFailure_frame(6) [of "cache S"] by simp
  next
    case (complete a ok retention c a' s1)
    then show ?thesis
      using completeAccess_finishes [OF b(1) books_live [OF B complete(2)] b(2), of ok retention]
        over [of s1 a ok "retention = Discard"] w(2) by auto
  next
    case (abort a a' s1)
    then show ?thesis
      using abortAccess_finishes [OF b(1) books_live [OF B abort(2)]] over [of s1 a False False] w(2) by auto
  next
    case (reset out s1)
    have "waitingAccesses (cache S) \<noteq> 0" using b(6) p by auto
    then have "s1 = cache S" using reset(2) by (simp add: resetCache_def canResetLocked_def)
    then show ?thesis using reset(1) w by simp
  qed
qed

lemma step_notifies:
  assumes "books S A" "step S T" "sleepers S \<noteq> []" "would_block md (cache S)" "\<not> would_block md (cache T)"
  shows "notifications (cache S) < notifications (cache T)"
proof (cases "failed (cache T)")
  case True
  then show ?thesis using step_fails [OF assms(1-3)] assms(4) by (auto simp: would_block_def)
next
  case False
  then show ?thesis using step_unblocks [OF assms(1-3)] assms(4,5) by (auto simp: would_block_def)
qed

text \<open>
  C7.  No wakeup is lost.  Whenever a step of any thread changes the cache so that a request that
  would have blocked no longer would, and some request sleeps, that step notifies the sleepers: its payload became readable or was dropped, an entry became
  free or evictable, or a synchronisation failed, after which nobody may wait for the cache any more.
\<close>

theorem no_lost_wakeup:
  assumes "fresh_cache s0" "reachable s0 S" "step S T" "sleepers S \<noteq> []"
    "would_block md (cache S)" "\<not> would_block md (cache T)"
  shows "notifications (cache S) < notifications (cache T)"
  using reachable_books [OF assms(1,2)] step_notifies [OF _ assms(3-6)] by blast

section \<open>A request that sleeps\<close>

lemma sample_sleeper: "\<exists>S. reachable (sample_cache FIFO) S
    \<and> leases S = [lease (sample_cache FIFO) sample_rq sample_md 0 CacheFill] \<and> sleepers S \<noteq> []
    \<and> implements (cache S) (take_cell 0 sample_md (empty_cache 2 True))
    \<and> same_config (cache S) (sample_cache FIFO) \<and> \<not> failed (cache S)"
proof -
  let ?A = "take_cell 0 sample_md (empty_cache 2 True)"
  obtain S where S: "reachable (sample_cache FIFO) S" "leases S = [lease (sample_cache FIFO) sample_rq sample_md 0 CacheFill]"
    "sleepers S = []" and impl: "implements (cache S) ?A" and q: "quiet (cache S) (sample_cache FIFO)"
    using sample_reachable by blast
  have cfg: "waitTimeout (cache S) = 50" "\<not> failed (cache S)" "gpu (cache S) = 0" "\<not> releasing (cache S)"
    "eligibleGpuIds (cache S) = [0]" "cacheBytes (cache S) = 64"
    using q sample_cache_implements [of FIFO] by (auto simp: quiet_def same_config_def)
  note D = implementsD [OF impl]
  let ?r = "\<lparr>deadline = request_deadline 0 (cache S), blocked = False, waited = False, requestWait = 0, waitStarted = 0\<rparr>"
  have "\<not> request_invalid sample_md sample_rq (cache S)"
    using cfg D(14) by (simp add: request_invalid_def sample_md_def sample_rq_def)
  then have b: "getCacheData_begin sample_md sample_rq 0 (cache S) = (Some ?r, cache S)"
    by (simp add: getCacheData_begin_def)
  have dec: "decide sample_md ?A = BusyLoading" by code_simp
  have room: "readers (cells ?A ! i) < 2 ^ 64 - 1" if "i < length (cells ?A)" for i
    using that by (cases i) (auto simp: take_cell_def empty_cache_def)
  have at: "attempt 0 0 sample_md sample_rq ?r (cache S)
      = Some (block_or_fall_back 0 0 sample_md sample_rq LoadingNoWait LoadingTimeout
        (\<lambda>t. t\<lparr>firstBlockedLoading := firstBlockedLoading t + 1\<rparr>) ?r (cache S))"
    using attempt_decides [OF impl cfg(2) _ room, where rq = sample_rq and md = sample_md and now = 0 and start = 0 and r = ?r] dec cfg(3) by (simp add: sample_rq_def)
  have ne: "entries (cache S) \<noteq> []" using D(7) by (auto simp: take_cell_def empty_cache_def)
  have dl: "0 < request_deadline 0 (cache S)" using cfg(1) by (simp add: request_deadline_def STEADY_MAX_def)
  obtain r' s' where "attempt 0 0 sample_md sample_rq ?r (cache S) = Some (Sleeping, r', s')"
    and s': "implements s' ?A" "same_config s' (cache S)" "\<not> failed s'"
    using at ne dl cfg(1,2) impl by (auto simp: block_or_fall_back_def wait_enter_def Let_def count_stat_def same_config_def)
  then have "step S (S\<lparr>cache := s', sleepers := (sample_md, sample_rq, r') # sleepers S\<rparr>)"
    using b S(2,3) by (intro step.request_sleeps) (auto simp: crowded_def)
  then have "reachable (sample_cache FIFO) (S\<lparr>cache := s', sleepers := (sample_md, sample_rq, r') # sleepers S\<rparr>)"
    using reachable.more [OF S(1)] by blast
  moreover have "same_config s' (sample_cache FIFO)" using s'(2) q by (simp add: quiet_def same_config_def)
  ultimately show ?thesis using S(2) s' by fastforce
qed

theorem no_lost_wakeup_witness:
  "\<exists>S T. reachable (sample_cache FIFO) S \<and> step S T \<and> sleepers S \<noteq> []
    \<and> notifications (cache S) < notifications (cache T)"
proof -
  let ?A = "take_cell 0 sample_md (empty_cache 2 True)"
  let ?a = "lease (sample_cache FIFO) sample_rq sample_md 0 CacheFill"
  obtain S where S: "reachable (sample_cache FIFO) S" "leases S = [?a]" "sleepers S \<noteq> []"
    and impl: "implements (cache S) ?A" and same: "same_config (cache S) (sample_cache FIFO)" and ok: "\<not> failed (cache S)"
    using sample_sleeper by blast
  have "live (cache S) ?A ?a"
    using same sample_fields implementsD(7) [OF impl] by (auto simp: live_def lease_def take_cell_def empty_cache_def same_config_def)
  moreover have "\<not> releasing (cache S)" using same sample_cache_implements(3) [of FIFO] by (simp add: same_config_def)
  moreover have st: "accessStatus ?a = CacheFill" "entryIndex ?a = 0" by (simp_all add: lease_def)
  ultimately obtain s1 where s1: "completeAccess ?a True Keep (cache S) = Some (True, default_access, s1)"
    "implements s1 (finish CacheFill 0 True False ?A)"
    using completeAccess_finishes [OF impl, of ?a True Keep] st by auto
  let ?T = "S\<lparr>cache := s1, leases := remove1 ?a (leases S)\<rparr>"
  have T: "step S ?T" using s1(1) S(2) by (intro step.complete) auto
  have "busy sample_md ?A" by (auto simp: busy_def take_cell_def empty_cache_def intro!: exI [of _ 0])
  moreover have "\<not> busy sample_md (finish CacheFill 0 True False ?A)"
    by (auto simp: busy_def publish_cell_def take_cell_def empty_cache_def nth_Cons less_Suc_eq numeral_2_eq_2 split: nat.splits)
  ultimately have "notifications (cache S) < notifications (cache ?T)"
    using no_lost_wakeup [OF sample_fresh S(1) T S(3)] obstructed_busy [OF impl] obstructed_busy [OF s1(2)] ok by (simp add: would_block_def)
  then show ?thesis using S T by blast
qed

section \<open>Failure is final\<close>

text \<open>
  After a failed stream synchronisation the cache gives out nothing any more: it stays failed
  through every step, no step adds a lease (a request is rejected at once, a sleeping one when it
  wakes), the unfinished leases can still be ended, and a reset changes nothing.
\<close>

theorem failed_cache_gives_no_lease:
  assumes "fresh_cache s0" "reachable s0 S" "step S T" "failed (cache S)"
  shows "failed (cache T) \<and> set (leases T) \<subseteq> set (leases S) \<and> (leases T = leases S \<or> length (leases T) < length (leases S))"
proof -
  obtain A where B: "books S A" using reachable_books [OF assms(1,2)] by blast
  note b = booksD [OF B]
  show ?thesis
    using assms(3)
  proof (cases rule: step.cases)
    case (request_rejected md rq started s1)
    then show ?thesis using assms(4) by (auto simp: getCacheData_begin_def count_stat_def split: if_splits)
  next
    case (request_returns md rq started r s1 now start a r' s2)
    then show ?thesis using begin_request(3) [OF b(1)] assms(4) by blast
  next
    case (request_sleeps md rq started r s1 now start r' s2)
    then show ?thesis using begin_request(3) [OF b(1)] assms(4) by blast
  next
    case (wake_returns md rq r woken r1 s1 now start a r2 s2)
    then have "failed s1" using assms(4) by (auto simp: wait_leave_def Let_def count_stat_def)
    then show ?thesis using wake_returns by (auto simp: attempt_def add_lease_def default_access_def count_stat_def)
  next
    case (wake_sleeps md rq r woken r1 s1 now start r2 s2)
    then have "failed s1" using assms(4) by (auto simp: wait_leave_def Let_def count_stat_def)
    then show ?thesis using wake_sleeps by (auto simp: attempt_def)
  next
    case (sync_failed a)
    then show ?thesis using noteSyncFailure_frame(3) by simp
  next
    case (complete a ok retention c a' s1)
    then show ?thesis
      using completeAccess_finishes [OF b(1) books_live [OF B complete(2)] b(2), of ok retention] assms(4)
        set_remove1_subset [of a "leases S"] length_pos_if_in_set [OF complete(2)]
      by (auto simp: finished_def length_remove1)
  next
    case (abort a a' s1)
    then show ?thesis
      using abortAccess_finishes [OF b(1) books_live [OF B abort(2)]] assms(4)
        set_remove1_subset [of a "leases S"] length_pos_if_in_set [OF abort(2)]
      by (auto simp: finished_def length_remove1)
  next
    case (reset out s1)
    then show ?thesis using assms(4) by (simp add: resetCache_def)
  qed
qed

theorem failed_cache_gives_no_lease_witness:
  "\<exists>S T. reachable (sample_cache FIFO) S \<and> step S T \<and> failed (cache S) \<and> failed (cache T) \<and> set (leases T) \<subseteq> set (leases S)"
proof -
  obtain S where S: "reachable (sample_cache FIFO) S" "leases S = [lease (sample_cache FIFO) sample_rq sample_md 0 CacheFill]"
    using sample_reachable by blast
  let ?S = "S\<lparr>cache := noteSyncFailure (cache S)\<rparr>"
  have r: "reachable (sample_cache FIFO) ?S" using reachable.more [OF S(1) step.sync_failed] S(2) by simp
  have t: "step ?S (?S\<lparr>cache := noteSyncFailure (cache ?S)\<rparr>)" using S(2) by (intro step.sync_failed) auto
  have f: "failed (cache ?S)" using noteSyncFailure_frame(3) [of "cache S"] by simp
  show ?thesis using failed_cache_gives_no_lease [OF sample_fresh r t f] r t f by blast
qed

end
