(* ===== verification/Topology.thy ===== *)
theory Topology
  imports GPUInfra_Prelude
begin

text \<open>
  \<open>Context/GpuTopology.h\<close> and \<open>.cpp\<close>: which NUMA node a GPU belongs to and which GPU serves the
  node of the calling thread.  The parser of the system's list of online nodes is modelled down to
  the state of its \<open>std::istringstream\<close>: the remaining characters, \<open>eofbit\<close> and \<open>failbit\<close>, in
  the classic locale.  The system call behind \<open>currentNumaNode\<close> is a parameter.
\<close>

section \<open>Text input\<close>

record istream =
  rest :: string
  eofbit :: bool
  failbit :: bool

definition istringstream :: "string \<Rightarrow> istream" where
  "istringstream s = \<lparr>rest = s, eofbit = False, failbit = False\<rparr>"

definition good :: "istream \<Rightarrow> bool" where
  "good s \<longleftrightarrow> \<not> eofbit s \<and> \<not> failbit s"

definition is_space :: "char \<Rightarrow> bool" where
  "is_space c \<longleftrightarrow> (of_char c :: nat) = 32 \<or> 9 \<le> (of_char c :: nat) \<and> (of_char c :: nat) \<le> 13"

definition is_digit :: "char \<Rightarrow> bool" where
  "is_digit c \<longleftrightarrow> 48 \<le> (of_char c :: nat) \<and> (of_char c :: nat) \<le> 57"

definition digits_value :: "string \<Rightarrow> nat" where
  "digits_value = foldl (\<lambda>v c. 10 * v + (of_char c - 48)) 0"

text \<open>\<open>input >> std::ws\<close>, \<open>input.peek()\<close> (\<open>None\<close> is end of file) and \<open>input.get()\<close>.\<close>

definition skip_ws :: "istream \<Rightarrow> istream" where
  "skip_ws s = (if \<not> good s then s\<lparr>failbit := True\<rparr>
     else let r = dropWhile is_space (rest s) in s\<lparr>rest := r, eofbit := (r = [])\<rparr>)"

definition peek :: "istream \<Rightarrow> char option \<times> istream" where
  "peek s = (if \<not> good s then (None, s\<lparr>failbit := True\<rparr>)
     else case rest s of [] \<Rightarrow> (None, s\<lparr>eofbit := True\<rparr>) | c # _ \<Rightarrow> (Some c, s))"

definition get_char :: "istream \<Rightarrow> istream" where
  "get_char s = (if \<not> good s then s\<lparr>failbit := True\<rparr>
     else case rest s of [] \<Rightarrow> s\<lparr>eofbit := True, failbit := True\<rparr> | _ # r \<Rightarrow> s\<lparr>rest := r\<rparr>)"

text \<open>
  A decimal conversion reads an optional sign and then digits; what follows them is left.  The
  result is the sign, the digits and the rest.
\<close>

definition split_decimal :: "string \<Rightarrow> bool \<times> string \<times> string" where
  "split_decimal r =
     (let neg = (r \<noteq> [] \<and> hd r = CHR ''-'');
          r1 = (if r \<noteq> [] \<and> (hd r = CHR ''-'' \<or> hd r = CHR ''+'') then tl r else r)
      in (neg, takeWhile is_digit r1, dropWhile is_digit r1))"

text \<open>
  \<open>input >> n\<close> for an \<open>int\<close>: the value stored when the extraction succeeds, \<open>None\<close> when it sets
  \<open>failbit\<close> (no digits, or a number that is no \<open>int\<close>).
\<close>

definition read_int :: "istream \<Rightarrow> int option \<times> istream" where
  "read_int s = (if \<not> good s then (None, s\<lparr>failbit := True\<rparr>)
     else let (neg, ds, r) = split_decimal (dropWhile is_space (rest s));
              v = (if neg then - int (digits_value ds) else int (digits_value ds));
              s1 = s\<lparr>rest := r, eofbit := (r = [])\<rparr>
          in if ds = [] \<or> v < - INT_MAX - 1 \<or> INT_MAX < v then (None, s1\<lparr>failbit := True\<rparr>)
             else (Some v, s1))"

section \<open>The online nodes\<close>

definition digit_ahead :: "istream \<Rightarrow> bool \<times> istream" where
  "digit_ahead s = (case peek s of (Some c, s1) \<Rightarrow> (is_digit c, s1) | (None, s1) \<Rightarrow> (False, s1))"

definition singleOnlineNode :: "string \<Rightarrow> int" where
  "singleOnlineNode onlineNodes =
     (let (digit, s1) = digit_ahead (skip_ws (istringstream onlineNodes))
      in if \<not> digit then -1
         else case read_int s1 of
             (None, _) \<Rightarrow> -1
           | (Some node1, s2) \<Rightarrow>
               let (c, s3) = peek s2
               in if c = Some CHR ''-''
                  then let (digit2, s4) = digit_ahead (get_char s3)
                       in if \<not> digit2 then -1
                          else case read_int s4 of
                              (None, _) \<Rightarrow> -1
                            | (Some node2, s5) \<Rightarrow>
                                if node2 \<noteq> node1 then -1
                                else if eofbit (skip_ws s5) then node1 else -1
                  else if eofbit (skip_ws s3) then node1 else -1)"

definition resolveGpuNumaNode :: "int \<Rightarrow> string \<Rightarrow> bool \<Rightarrow> int" where
  "resolveGpuNumaNode reportedNode onlineNodes requireNuma =
     (if reportedNode \<ge> 0 then reportedNode
      else let onlyNode = singleOnlineNode onlineNodes
           in if onlyNode \<ge> 0 then onlyNode
              else if requireNuma then -1 else 0)"

text \<open>\<open>getcpu\<close> is what the system call of that name gives: \<open>None\<close> on failure, else the node.\<close>

definition currentNumaNode :: "u32 option \<Rightarrow> int" where
  "currentNumaNode getcpu = (case getcpu of
      None \<Rightarrow> -1
    | Some node \<Rightarrow> if uint node > INT_MAX then -1 else uint node)"

section \<open>The GPU of a node\<close>

record GpuLocation =
  loc_gpuId :: int
  loc_numaNode :: int

fun count_locations :: "int \<Rightarrow> GpuLocation list \<Rightarrow> nat \<times> int \<Rightarrow> nat \<times> int" where
  "count_locations numaNode [] acc = acc"
| "count_locations numaNode (l # ls) (count, gpuId) =
     count_locations numaNode ls
       (if loc_numaNode l = numaNode then (count + 1, loc_gpuId l) else (count, gpuId))"

definition resolveGpuIds :: "int \<Rightarrow> GpuLocation list \<Rightarrow> bool \<times> int list" where
  "resolveGpuIds numaNode locations =
     (if numaNode < 0 then (False, [])
      else let (count, gpuId) = count_locations numaNode locations (0, -1)
           in if count \<noteq> 1 \<or> gpuId < 0 then (False, []) else (True, [gpuId]))"

section \<open>What the parser accepts\<close>

text \<open>
  The format of the kernel's list when it names one node: a decimal number or a range from a number
  to itself, with white space around it.
\<close>

definition decimal :: "string \<Rightarrow> int \<Rightarrow> bool" where
  "decimal ds n \<longleftrightarrow> ds \<noteq> [] \<and> list_all is_digit ds \<and> int (digits_value ds) = n \<and> n \<le> INT_MAX"

definition names_one_node :: "string \<Rightarrow> int \<Rightarrow> bool" where
  "names_one_node s n \<longleftrightarrow> (\<exists>before ds range after. s = before @ ds @ range @ after
     \<and> list_all is_space before \<and> decimal ds n \<and> list_all is_space after
     \<and> (range = [] \<or> (\<exists>es. range = CHR ''-'' # es \<and> decimal es n)))"

lemma space_not_digit: "is_space c \<Longrightarrow> \<not> is_digit c"
  by (auto simp: is_space_def is_digit_def)

lemma digit_not_sign: "is_digit c \<Longrightarrow> c \<noteq> CHR ''-'' \<and> c \<noteq> CHR ''+''"
  by (auto simp: is_digit_def)

lemma dash_class [simp]: "\<not> is_space CHR ''-''" "\<not> is_digit CHR ''-''"
  by (auto simp: is_space_def is_digit_def)

lemma split_decimal_digits:
  assumes "r \<noteq> []" "is_digit (hd r)"
  shows "split_decimal r = (False, takeWhile is_digit r, dropWhile is_digit r)"
  using assms digit_not_sign [OF assms(2)] by (simp add: split_decimal_def)

text \<open>A stream with the text \<open>r\<close> left and no failure; \<open>eofbit\<close> is set when a read met the end.\<close>

abbreviation left :: "string \<Rightarrow> bool \<Rightarrow> istream" where
  "left r e \<equiv> \<lparr>rest = r, eofbit = e, failbit = False\<rparr>"

lemma digit_ahead_left: "digit_ahead (left r (r = [])) = (takeWhile is_digit r \<noteq> [], if r = [] then \<lparr>rest = r, eofbit = True, failbit = True\<rparr> else left r False)"
  "digit_ahead (left r False) = (takeWhile is_digit r \<noteq> [], left r (r = []))"
  by (cases r; auto simp: digit_ahead_def peek_def good_def)+

lemma read_int_left:
  assumes "takeWhile is_digit r \<noteq> []" "takeWhile is_digit r = ds" "dropWhile is_digit r = q"
  shows "read_int (left r False) =
    (if INT_MAX < int (digits_value ds) then (None, \<lparr>rest = q, eofbit = (q = []), failbit = True\<rparr>)
     else (Some (int (digits_value ds)), left q (q = [])))"
proof -
  have hd: "r \<noteq> []" "is_digit (hd r)" using assms(1) by (cases r; auto split: if_splits)+
  then have "dropWhile is_space r = r" using space_not_digit by (cases r) auto
  then show ?thesis
    using assms split_decimal_digits [OF hd] by (auto simp: read_int_def Let_def good_def INT_MAX_def simp del: dropWhile_eq_Nil_conv)
qed

lemma skip_ws_end:
  assumes "f \<longrightarrow> r = []"
  shows "eofbit (skip_ws \<lparr>rest = r, eofbit = (r = []), failbit = f\<rparr>) \<longleftrightarrow> list_all is_space r"
  using assms by (cases r) (auto simp: skip_ws_def good_def Let_def list.pred_set)

text \<open>The parser as a function of the remaining text, the stream state resolved.\<close>

definition after_node :: "int \<Rightarrow> string \<Rightarrow> int" where
  "after_node n r = (if list_all is_space r then n else -1)"

definition at_range :: "int \<Rightarrow> string \<Rightarrow> int" where
  "at_range n r = (if r \<noteq> [] \<and> hd r = CHR ''-''
     then let es = takeWhile is_digit (tl r)
          in if es \<noteq> [] \<and> int (digits_value es) = n then after_node n (dropWhile is_digit (tl r)) else -1
     else after_node n r)"

lemma range_left:
  assumes "n \<le> INT_MAX"
  shows "(let (c, s3) = peek (left q (q = []))
     in if c = Some CHR ''-''
        then let (digit2, s4) = digit_ahead (get_char s3)
             in if \<not> digit2 then -1
                else case read_int s4 of
                    (None, _) \<Rightarrow> -1
                  | (Some node2, s5) \<Rightarrow> if node2 \<noteq> n then -1 else if eofbit (skip_ws s5) then n else -1
        else if eofbit (skip_ws s3) then n else -1) = at_range n q" (is "?l = _")
proof (cases "q \<noteq> [] \<and> hd q = CHR ''-''")
  case True
  then obtain t where q: "q = CHR ''-'' # t" by (cases q) auto
  have get: "peek (left q (q = [])) = (Some CHR ''-'', left q False)" "get_char (left q False) = left t False"
    using q by (simp_all add: peek_def get_char_def good_def)
  show ?thesis
  proof (cases "takeWhile is_digit t = []")
    case True
    then show ?thesis using get q by (simp add: digit_ahead_left at_range_def)
  next
    case False
    then have "t \<noteq> []" by auto
    then show ?thesis
      using get q False assms read_int_left [OF False refl refl] skip_ws_end [of False "dropWhile is_digit t"]
      by (simp add: digit_ahead_left at_range_def after_node_def Let_def del: dropWhile_eq_Nil_conv)
  qed
next
  case False
  then have "peek (left q (q = [])) = (if q = [] then None else Some (hd q), \<lparr>rest = q, eofbit = (q = []), failbit = (q = [])\<rparr>)"
    by (cases q) (auto simp: peek_def good_def)
  then show ?thesis using False skip_ws_end [of "q = []" q] by (auto simp: at_range_def after_node_def)
qed

lemma singleOnlineNode_text:
  "singleOnlineNode s = (let r = dropWhile is_space s; ds = takeWhile is_digit r
     in if ds = [] \<or> INT_MAX < int (digits_value ds) then -1
        else at_range (int (digits_value ds)) (dropWhile is_digit r))"
proof -
  define r where "r = dropWhile is_space s"
  define q where "q = dropWhile is_digit r"
  have start: "skip_ws (istringstream s) = left r (r = [])"
    by (simp add: skip_ws_def istringstream_def good_def Let_def r_def)
  have "singleOnlineNode s = (if takeWhile is_digit r = [] \<or> INT_MAX < int (digits_value (takeWhile is_digit r)) then -1
      else at_range (int (digits_value (takeWhile is_digit r))) q)"
  proof (cases "takeWhile is_digit r = []")
    case True
    then show ?thesis using start digit_ahead_left(1) [of r] by (simp add: singleOnlineNode_def)
  next
    case False
    then have "digit_ahead (skip_ws (istringstream s)) = (True, left r False)"
      using start digit_ahead_left(1) [of r] by auto
    then show ?thesis
      using False read_int_left [OF False refl q_def [symmetric]] range_left [of "int (digits_value (takeWhile is_digit r))" q]
      by (simp add: singleOnlineNode_def)
  qed
  then show ?thesis by (simp add: r_def q_def Let_def)
qed

lemma takeWhile_digits:
  assumes "list_all is_digit ds" "r = [] \<or> \<not> is_digit (hd r)"
  shows "takeWhile is_digit (ds @ r) = ds" "dropWhile is_digit (ds @ r) = r"
  using assms by (induction ds) (auto simp: takeWhile_eq_Nil_iff dropWhile_eq_self_iff)

lemma space_head: "list_all is_space r \<Longrightarrow> r = [] \<or> \<not> is_digit (hd r)"
  by (cases r) (auto dest: space_not_digit)

lemma at_range_decimal:
  "at_range n r = m \<and> 0 \<le> m \<longleftrightarrow> 0 \<le> n \<and> m = n \<and> (\<exists>range after. r = range @ after \<and> list_all is_space after
     \<and> (range = [] \<or> (\<exists>es. range = CHR ''-'' # es \<and> es \<noteq> [] \<and> list_all is_digit es \<and> int (digits_value es) = n)))"
  (is "?l = ?r")
proof
  assume l: ?l
  show ?r
  proof (cases "r \<noteq> [] \<and> hd r = CHR ''-''")
    case True
    let ?es = "takeWhile is_digit (tl r)" and ?q = "dropWhile is_digit (tl r)"
    have "?es \<noteq> []" "int (digits_value ?es) = n" "list_all is_space ?q" "m = n" "0 \<le> n"
      using l True by (auto simp: at_range_def after_node_def Let_def split: if_splits)
    moreover have "list_all is_digit ?es" by (auto simp: list.pred_set dest: set_takeWhileD)
    moreover have "r = (CHR ''-'' # ?es) @ ?q" using True by (cases r) auto
    ultimately show ?thesis by blast
  next
    case False
    then have "list_all is_space r" "m = n" "0 \<le> n" using l by (auto simp: at_range_def after_node_def split: if_splits)
    then show ?thesis by auto
  qed
next
  assume ?r
  then obtain range after where r: "r = range @ after" "list_all is_space after" "m = n" "0 \<le> n"
    and range: "range = [] \<or> (\<exists>es. range = CHR ''-'' # es \<and> es \<noteq> [] \<and> list_all is_digit es \<and> int (digits_value es) = n)"
    by blast
  from range show ?l
  proof
    assume "range = []"
    moreover have "\<not> (after \<noteq> [] \<and> hd after = CHR ''-'')" using r(2) by (cases after) auto
    ultimately show ?l using r by (auto simp: at_range_def after_node_def)
  next
    assume "\<exists>es. range = CHR ''-'' # es \<and> es \<noteq> [] \<and> list_all is_digit es \<and> int (digits_value es) = n"
    then show ?l using r takeWhile_digits [OF _ space_head [OF r(2)]] by (auto simp: at_range_def after_node_def Let_def)
  qed
qed

lemma singleOnlineNode_iff: "singleOnlineNode s = n \<and> 0 \<le> n \<longleftrightarrow> names_one_node s n" (is "?l = ?r")
proof
  let ?r = "dropWhile is_space s"
  let ?ds = "takeWhile is_digit ?r"
  assume l: ?l
  then have ds: "?ds \<noteq> []" "int (digits_value ?ds) \<le> INT_MAX"
    and "at_range (int (digits_value ?ds)) (dropWhile is_digit ?r) = n \<and> 0 \<le> n"
    by (auto simp: singleOnlineNode_text Let_def not_less split: if_splits)
  then obtain range after where q: "dropWhile is_digit ?r = range @ after" "list_all is_space after" "n = int (digits_value ?ds)"
    "range = [] \<or> (\<exists>es. range = CHR ''-'' # es \<and> es \<noteq> [] \<and> list_all is_digit es \<and> int (digits_value es) = n)"
    unfolding at_range_decimal by auto
  have "s = takeWhile is_space s @ ?ds @ range @ after"
    using q(1) takeWhile_dropWhile_id [of is_space s] takeWhile_dropWhile_id [of is_digit ?r] by metis
  moreover have "list_all is_space (takeWhile is_space s)" by (auto simp: list.pred_set dest: set_takeWhileD)
  moreover have "decimal ?ds n" using ds q(3) by (auto simp: decimal_def list.pred_set dest: set_takeWhileD)
  moreover have "range = [] \<or> (\<exists>es. range = CHR ''-'' # es \<and> decimal es n)"
    using q(3,4) ds(2) by (auto simp: decimal_def)
  ultimately show "names_one_node s n" using q(2) unfolding names_one_node_def by blast
next
  assume ?r
  then obtain before ds range after where s: "s = before @ ds @ range @ after" "list_all is_space before"
    "decimal ds n" "list_all is_space after" and range: "range = [] \<or> (\<exists>es. range = CHR ''-'' # es \<and> decimal es n)"
    unfolding names_one_node_def by blast
  have "dropWhile is_space s = dropWhile is_space (ds @ range @ after)"
    using s(1,2) by (simp add: dropWhile_append2 list.pred_set)
  also have "\<dots> = ds @ range @ after" using s(3) space_not_digit by (cases ds) (auto simp: decimal_def)
  finally have drop: "dropWhile is_space s = ds @ range @ after" .
  have "range @ after = [] \<or> \<not> is_digit (hd (range @ after))" using range space_head [OF s(4)] by auto
  then have "takeWhile is_digit (dropWhile is_space s) = ds" "dropWhile is_digit (dropWhile is_space s) = range @ after"
    using takeWhile_digits [of ds "range @ after"] s(3) by (simp_all add: drop decimal_def)
  moreover have "at_range n (range @ after) = n \<and> 0 \<le> n"
    unfolding at_range_decimal using s(3,4) range by (auto simp: decimal_def)
  ultimately show ?l using s(3) by (simp add: singleOnlineNode_text decimal_def)
qed

lemma singleOnlineNode_none: "(\<forall>n. \<not> names_one_node s n) \<longleftrightarrow> singleOnlineNode s < 0"
  using singleOnlineNode_iff [of s] by (metis not_less)

section \<open>Properties\<close>

text \<open>
  C8.  NUMA placement of a GPU.  A node the PCI bus reports is taken as it is.  Otherwise the system
  list of online nodes decides, and only when its text names exactly one node: a decimal number no
  larger than an \<open>int\<close>, or a range from such a number to the same number, with nothing but white
  space around it.  For any other text, an empty or unreadable list included, strict mode answers
  \<open>-1\<close> and non-strict mode node 0.
\<close>

theorem numa_placement:
  "resolveGpuNumaNode reported online strict = n \<longleftrightarrow>
     (if 0 \<le> reported then n = reported
      else names_one_node online n
        \<or> (\<forall>m. \<not> names_one_node online m) \<and> n = (if strict then - 1 else 0))"
  using singleOnlineNode_iff [of online n] singleOnlineNode_none [of online]
  by (auto simp: resolveGpuNumaNode_def Let_def)

lemma count_locations_filter:
  "count_locations node ls (c, g) = (c + length (filter (\<lambda>l. loc_numaNode l = node) ls),
     if filter (\<lambda>l. loc_numaNode l = node) ls = [] then g else loc_gpuId (last (filter (\<lambda>l. loc_numaNode l = node) ls)))"
  by (induction ls arbitrary: c g) auto

text \<open>
  A thread gets a GPU exactly when its NUMA node has one: the lookup succeeds if exactly one
  known GPU, with a valid id, lies on a valid node, and then returns that GPU alone.  With none or
  several GPUs on the node it fails and returns no id.
\<close>

theorem resolveGpuIds_unique:
  "resolveGpuIds node locations =
     (case filter (\<lambda>l. loc_numaNode l = node) locations of
        [l] \<Rightarrow> if 0 \<le> node \<and> 0 \<le> loc_gpuId l then (True, [loc_gpuId l]) else (False, [])
      | _ \<Rightarrow> (False, []))"
  by (simp add: resolveGpuIds_def count_locations_filter split: list.splits)

end
