(* ===== verification/State_Machine.thy ===== *)
theory State_Machine
  imports GPUInfra_Prelude
begin

text \<open>
  The interface the stateful components share: an object starts in some states and moves by the
  steps of its callers, which the lock of the component serialises.  A component that shows its
  invariant for the start states and for every single step gets it for every state that any
  sequence of calls, from any number of threads, can lead to.
\<close>

inductive steps :: "('s \<Rightarrow> 's \<Rightarrow> bool) \<Rightarrow> 's \<Rightarrow> 's \<Rightarrow> bool" for R :: "'s \<Rightarrow> 's \<Rightarrow> bool" where
  none: "steps R s s"
| more: "steps R s t \<Longrightarrow> R t u \<Longrightarrow> steps R s u"

lemma steps_one: "R s t \<Longrightarrow> steps R s t"
  by (rule steps.more [OF steps.none])

lemma steps_append: "steps R t u \<Longrightarrow> steps R s t \<Longrightarrow> steps R s u"
  by (induction rule: steps.induct) (auto intro: steps.more)

locale state_machine =
  fixes start :: "'s \<Rightarrow> bool"
    and moves :: "'s \<Rightarrow> 's \<Rightarrow> bool"
    and invar :: "'s \<Rightarrow> bool"
  assumes start_invar: "start s \<Longrightarrow> invar s"
    and moves_invar: "invar s \<Longrightarrow> moves s t \<Longrightarrow> invar t"
begin

lemma steps_invar: "steps moves s t \<Longrightarrow> invar s \<Longrightarrow> invar t"
  by (induction rule: steps.induct) (auto intro: moves_invar)

lemma reached_invar: "start s \<Longrightarrow> steps moves s t \<Longrightarrow> invar t"
  using steps_invar start_invar by blast

text \<open>A fact that holds at the start and that a step keeps, given the invariant, holds throughout.\<close>

lemma reached_keeps:
  assumes "start s" "steps moves s t" "P s" "\<And>u v. invar u \<Longrightarrow> P u \<Longrightarrow> moves u v \<Longrightarrow> P v"
  shows "P t"
  using assms(2,1,3)
proof (induction rule: steps.induct)
  case (more s t u)
  then show ?case using reached_invar assms(4) by blast
qed

end

end
