(* ===== verification/Context_Manager.thy ===== *)
theory Context_Manager
  imports Cuda_Runtime Topology State_Machine
begin

text \<open>
  \<open>Context/GpuContext.h\<close>, \<open>Context/GpuContextManager.h\<close> and \<open>.cpp\<close> and
  \<open>Types/TaskGpuResources.h\<close>: the process-wide list of GPU contexts and the task resources
  registered with them.  The code shares contexts and task resources by address, so the model keeps
  both in stores: \<open>context_heap\<close> holds the \<open>GpuContext\<close> objects that were created and not deleted,
  \<open>task_heap\<close> the \<open>TaskGpuResources\<close> objects of the callers.  A call that follows a pointer to
  an object that is gone has the result \<open>None\<close>.  The driver, the system files and \<open>new\<close> are
  parameters.
\<close>

section \<open>The driver and the system\<close>

record TaskGpuResources =
  resourceId :: int
  res_gpuId :: int
  res_stream :: stream
  h_in :: ptr
  res_inBytes :: size_t
  d_input :: ptr
  d_scratch :: ptr
  res_scratchBytes :: size_t
  ctx :: ptr

definition new_resources :: TaskGpuResources where
  "new_resources = \<lparr>resourceId = -1, res_gpuId = -1, res_stream = nullptr, h_in = nullptr, res_inBytes = 0,
     d_input = nullptr, d_scratch = nullptr, res_scratchBytes = 0, ctx = nullptr\<rparr>"

record GpuContext =
  ctx_gpuId :: int
  ctx_numaNode :: int
  device :: int
  primaryCtx :: ptr
  driverContextId :: u64
  driverContextIdKnown :: bool
  taskResources :: "ptr list"

definition new_gpu_context :: GpuContext where
  "new_gpu_context = \<lparr>ctx_gpuId = -1, ctx_numaNode = -1, device = 0, primaryCtx = nullptr,
     driverContextId = 0, driverContextIdKnown = False, taskResources = []\<rparr>"

text \<open>
  The driver calls of the manager, the content of a system file (\<open>None\<close> when it cannot be opened or
  read) and \<open>new (std::nothrow)\<close>, which picks an address for a context or fails.  \<open>has_ctx_id\<close> is
  the compile-time condition \<open>CUDA_VERSION >= 12000\<close>.
\<close>

record 'w driver_api = "'w cuda_api" +
  cuInit :: "'w \<Rightarrow> bool \<times> 'w"
  cudaGetDeviceCount :: "'w \<Rightarrow> int option \<times> 'w"
  cudaDeviceGetPCIBusId :: "int \<Rightarrow> 'w \<Rightarrow> string option \<times> 'w"
  cuDeviceGet :: "int \<Rightarrow> 'w \<Rightarrow> int option \<times> 'w"
  cuDevicePrimaryCtxRetain :: "int \<Rightarrow> 'w \<Rightarrow> ptr option \<times> 'w"
  cuDevicePrimaryCtxRelease :: "int \<Rightarrow> 'w \<Rightarrow> bool \<times> 'w"
  cuCtxGetId :: "ptr \<Rightarrow> 'w \<Rightarrow> u64 option \<times> 'w"
  cudaGetDeviceProperties :: "int \<Rightarrow> 'w \<Rightarrow> bool \<times> 'w"
  has_ctx_id :: bool
  read_file :: "string \<Rightarrow> 'w \<Rightarrow> string option \<times> 'w"
  new_context :: "(nat \<rightharpoonup> GpuContext) \<Rightarrow> 'w \<Rightarrow> ptr \<times> 'w"

text \<open>\<open>new\<close> gives an address at which no object lives.\<close>

definition new_is_fresh :: "('w, 'x) driver_api_scheme \<Rightarrow> bool" where
  "new_is_fresh api \<longleftrightarrow> (\<forall>h w a w'. new_context api h w = (Some a, w') \<longrightarrow> h a = None)"

section \<open>The manager\<close>

record GpuContextManager =
  contexts :: "ptr list"
  initialised :: bool
  context_heap :: "nat \<rightharpoonup> GpuContext"
  task_heap :: "nat \<rightharpoonup> TaskGpuResources"

text \<open>The statics at program start; the tasks are the callers'.\<close>

definition new_manager :: "(nat \<rightharpoonup> TaskGpuResources) \<Rightarrow> GpuContextManager" where
  "new_manager tasks = \<lparr>contexts = [], initialised = False, context_heap = Map.empty, task_heap = tasks\<rparr>"

fun activeTaskCount :: "ptr list \<Rightarrow> nat" where
  "activeTaskCount [] = 0"
| "activeTaskCount (p # ps) = (if p \<noteq> nullptr then 1 else 0) + activeTaskCount ps"

subsection \<open>Discovery\<close>

definition to_lower :: "char \<Rightarrow> char" where
  "to_lower c = (if 65 \<le> (of_char c :: nat) \<and> (of_char c :: nat) \<le> 90 then char_of ((of_char c :: nat) + 32) else c)"

text \<open>
  \<open>fscanf(file, "%d", &node)\<close>: white space, an optional sign, digits; the number is converted as a
  \<open>long\<close>, which saturates, and stored as an \<open>int\<close>.
\<close>

definition fscanf_int :: "string \<Rightarrow> int option" where
  "fscanf_int text = (let (neg, ds, r) = split_decimal (dropWhile is_space text);
       v = (if neg then - int (digits_value ds) else int (digits_value ds))
     in if ds = [] then None else Some (signed_take_bit 31 (max (- (2 ^ 63)) (min (2 ^ 63 - 1) v))))"

definition probeNumaNodeOfGpu :: "('w, 'x) driver_api_scheme \<Rightarrow> int \<Rightarrow> 'w \<Rightarrow> int \<times> 'w" where
  "probeNumaNodeOfGpu api gpu w = (case cudaDeviceGetPCIBusId api gpu w of
      (None, w1) \<Rightarrow> (-1, w1)
    | (Some busId, w1) \<Rightarrow>
        let path = take 255 (''/sys/bus/pci/devices/'' @ map to_lower busId @ ''/numa_node'')
        in case read_file api path w1 of
            (None, w2) \<Rightarrow> (-1, w2)
          | (Some text, w2) \<Rightarrow> (case fscanf_int text of None \<Rightarrow> (-1, w2) | Some node \<Rightarrow> (node, w2)))"

text \<open>The node of a GPU in \<open>init\<close>; negative when it cannot be resolved.\<close>

definition node_of_gpu :: "('w, 'x) driver_api_scheme \<Rightarrow> bool \<Rightarrow> int \<Rightarrow> 'w \<Rightarrow> int \<times> 'w" where
  "node_of_gpu api requireNuma gpu w =
     (let (reportedNode, w1) = probeNumaNodeOfGpu api gpu w
      in if reportedNode < 0
         then let (online, w2) = read_file api ''/sys/devices/system/node/online'' w1
              in (resolveGpuNumaNode reportedNode (case online of None \<Rightarrow> [] | Some text \<Rightarrow> text) requireNuma, w2)
         else (reportedNode, w1))"

fun findGpu :: "(nat \<rightharpoonup> GpuContext) \<Rightarrow> ptr list \<Rightarrow> int \<Rightarrow> ptr option" where
  "findGpu h [] gpu = Some nullptr"
| "findGpu h (None # ps) gpu = findGpu h ps gpu"
| "findGpu h (Some a # ps) gpu = (case h a of
      None \<Rightarrow> None
    | Some c \<Rightarrow> if ctx_gpuId c = gpu then Some (Some a) else findGpu h ps gpu)"

text \<open>A context with registered tasks is not deleted, and not listed any more either.\<close>

fun release_list :: "('w, 'x) driver_api_scheme \<Rightarrow> ptr list \<Rightarrow> (nat \<rightharpoonup> GpuContext) \<Rightarrow> 'w
    \<Rightarrow> ((nat \<rightharpoonup> GpuContext) \<times> 'w) option" where
  "release_list api [] h w = Some (h, w)"
| "release_list api (None # ps) h w = release_list api ps h w"
| "release_list api (Some a # ps) h w = (case h a of
      None \<Rightarrow> None
    | Some c \<Rightarrow>
        if activeTaskCount (taskResources c) \<noteq> 0 then release_list api ps h w
        else release_list api ps (h(a := None))
               (if primaryCtx c \<noteq> nullptr then snd (cuDevicePrimaryCtxRelease api (device c) w) else w))"

definition releaseContexts :: "('w, 'x) driver_api_scheme \<Rightarrow> GpuContextManager \<Rightarrow> 'w
    \<Rightarrow> (GpuContextManager \<times> 'w) option" where
  "releaseContexts api M w = (case release_list api (contexts M) (context_heap M) w of
      None \<Rightarrow> None
    | Some (h, w') \<Rightarrow> Some (M\<lparr>contexts := [], context_heap := h\<rparr>, w'))"

text \<open>Give up an initialisation: release what was built so far and report failure.\<close>

definition give_up :: "('w, 'x) driver_api_scheme \<Rightarrow> GpuContextManager \<Rightarrow> 'w
    \<Rightarrow> (bool \<times> GpuContextManager \<times> 'w) option" where
  "give_up api M w = (case releaseContexts api M w of None \<Rightarrow> None | Some (M', w') \<Rightarrow> Some (False, M', w'))"

text \<open>\<open>CUcontext\<close> and driver id of a new context: from \<open>cuDeviceGet\<close> to \<open>contexts.push_back\<close>.\<close>

definition retain_context :: "('w, 'x) driver_api_scheme \<Rightarrow> int \<Rightarrow> GpuContext \<Rightarrow> 'w \<Rightarrow> GpuContext option \<times> 'w" where
  "retain_context api gpu c w = (case cuDeviceGet api gpu w of
      (None, w1) \<Rightarrow> (None, w1)
    | (Some dev, w1) \<Rightarrow> (case cuDevicePrimaryCtxRetain api dev w1 of
          (None, w2) \<Rightarrow> (None, w2)
        | (Some prim, w2) \<Rightarrow>
            let c1 = c\<lparr>device := dev, primaryCtx := prim\<rparr>
            in if has_ctx_id api
               then case cuCtxGetId api prim w2 of
                   (None, w3) \<Rightarrow> (Some c1, w3)
                 | (Some i, w3) \<Rightarrow> (Some (c1\<lparr>driverContextId := i, driverContextIdKnown := True\<rparr>), w3)
               else (Some c1, w2)))"

text \<open>One pass of the loop of \<open>init\<close>.\<close>

definition init_gpu :: "('w, 'x) driver_api_scheme \<Rightarrow> bool \<Rightarrow> int \<Rightarrow> GpuContextManager \<Rightarrow> 'w
    \<Rightarrow> (bool \<times> GpuContextManager \<times> 'w) option" where
  "init_gpu api requireNuma gpu M w =
     (let (node, w1) = node_of_gpu api requireNuma gpu w
      in if node < 0 then give_up api M w1
         else case cudaSetDevice api gpu w1 of
           (False, w2) \<Rightarrow> give_up api M w2
         | (True, w2) \<Rightarrow> (case cudaFree api nullptr w2 of
             (False, w3) \<Rightarrow> give_up api M w3
           | (True, w3) \<Rightarrow> (case new_context api (context_heap M) w3 of
               (None, w4) \<Rightarrow> give_up api M w4
             | (Some a, w4) \<Rightarrow> (case retain_context api gpu (new_gpu_context\<lparr>ctx_gpuId := gpu, ctx_numaNode := node\<rparr>) w4 of
                 (None, w5) \<Rightarrow> give_up api M w5
               | (Some c, w5) \<Rightarrow>
                   let M1 = M\<lparr>contexts := contexts M @ [Some a], context_heap := (context_heap M)(a \<mapsto> c)\<rparr>
                   in case cudaGetDeviceProperties api gpu w5 of
                       (False, w6) \<Rightarrow> give_up api M1 w6
                     | (True, w6) \<Rightarrow> Some (True, M1, w6)))))"

fun init_gpus :: "('w, 'x) driver_api_scheme \<Rightarrow> bool \<Rightarrow> int list \<Rightarrow> GpuContextManager \<Rightarrow> 'w
    \<Rightarrow> (bool \<times> GpuContextManager \<times> 'w) option" where
  "init_gpus api requireNuma [] M w = Some (True, M, w)"
| "init_gpus api requireNuma (gpu # gpus) M w = (case init_gpu api requireNuma gpu M w of
      None \<Rightarrow> None
    | Some (False, M1, w1) \<Rightarrow> Some (False, M1, w1)
    | Some (True, M1, w1) \<Rightarrow> init_gpus api requireNuma gpus M1 w1)"

definition manager_init :: "('w, 'x) driver_api_scheme \<Rightarrow> bool \<Rightarrow> GpuContextManager \<Rightarrow> 'w
    \<Rightarrow> (bool \<times> GpuContextManager \<times> 'w) option" where
  "manager_init api requireNuma M w =
     (if initialised M then Some (False, M, w)
      else case cuInit api w of
        (False, w1) \<Rightarrow> Some (False, M, w1)
      | (True, w1) \<Rightarrow> (case cudaGetDeviceCount api w1 of
          (None, w2) \<Rightarrow> Some (False, M, w2)
        | (Some deviceCount, w2) \<Rightarrow>
            if deviceCount \<le> 0 then Some (False, M, w2)
            else case init_gpus api requireNuma (map int [0..<nat deviceCount]) (M\<lparr>contexts := []\<rparr>) w2 of
                None \<Rightarrow> None
              | Some (False, M1, w3) \<Rightarrow> Some (False, M1, w3)
              | Some (True, M1, w3) \<Rightarrow> Some (True, M1\<lparr>initialised := True\<rparr>, w3)))"

subsection \<open>Tasks\<close>

fun gpu_locations :: "(nat \<rightharpoonup> GpuContext) \<Rightarrow> ptr list \<Rightarrow> GpuLocation list option" where
  "gpu_locations h [] = Some []"
| "gpu_locations h (None # ps) = gpu_locations h ps"
| "gpu_locations h (Some a # ps) = (case h a of
      None \<Rightarrow> None
    | Some c \<Rightarrow> map_option (\<lambda>ls. \<lparr>loc_gpuId = ctx_gpuId c, loc_numaNode = ctx_numaNode c\<rparr> # ls) (gpu_locations h ps))"

definition gpuLocations :: "GpuContextManager \<Rightarrow> GpuLocation list option" where
  "gpuLocations M = gpu_locations (context_heap M) (contexts M)"

definition gpuIdsForCurrentNumaNode :: "u32 option \<Rightarrow> GpuContextManager \<Rightarrow> (bool \<times> int list) option" where
  "gpuIdsForCurrentNumaNode getcpu M =
     (if \<not> initialised M then Some (False, [])
      else map_option (resolveGpuIds (currentNumaNode getcpu)) (gpuLocations M))"

fun empty_slot_from :: "nat \<Rightarrow> ptr list \<Rightarrow> nat" where
  "empty_slot_from i [] = i"
| "empty_slot_from i (p # ps) = (if p = nullptr then i else empty_slot_from (i + 1) ps)"

text \<open>The part of \<open>registerTask\<close> before the lock is taken, and the part under the lock.\<close>

definition register_allowed :: "int \<Rightarrow> TaskGpuResources \<Rightarrow> GpuContextManager \<Rightarrow> bool" where
  "register_allowed gpu r M \<longleftrightarrow> initialised M \<and> ctx r = nullptr \<and> 0 \<le> gpu"

definition register_locked :: "int \<Rightarrow> nat \<Rightarrow> TaskGpuResources \<Rightarrow> GpuContextManager \<Rightarrow> (bool \<times> GpuContextManager) option" where
  "register_locked gpu t r M = (case findGpu (context_heap M) (contexts M) gpu of
      None \<Rightarrow> None
    | Some None \<Rightarrow> Some (False, M)
    | Some (Some a) \<Rightarrow> (case context_heap M a of
        None \<Rightarrow> None
      | Some c \<Rightarrow>
          let slots = taskResources c;
              i = empty_slot_from 0 slots;
              slots' = (if i = length slots then slots @ [Some t] else slots[i := Some t])
          in Some (True, M\<lparr>context_heap := (context_heap M)(a \<mapsto> c\<lparr>taskResources := slots'\<rparr>),
                 task_heap := (task_heap M)(t \<mapsto> r\<lparr>resourceId := signed_take_bit 31 (int i), res_gpuId := gpu, ctx := Some a\<rparr>)\<rparr>)))"

definition registerTask :: "int \<Rightarrow> nat \<Rightarrow> GpuContextManager \<Rightarrow> (bool \<times> GpuContextManager) option" where
  "registerTask gpu t M = (case task_heap M t of
      None \<Rightarrow> None
    | Some r \<Rightarrow> if register_allowed gpu r M then register_locked gpu t r M else Some (False, M))"

definition makeTaskCurrent :: "('w, 'x) driver_api_scheme \<Rightarrow> TaskGpuResources \<Rightarrow> GpuContextManager \<Rightarrow> 'w \<Rightarrow> (bool \<times> 'w) option" where
  "makeTaskCurrent api r M w = (case ctx r of
      None \<Rightarrow> Some (False, w)
    | Some a \<Rightarrow> (case context_heap M a of
        None \<Rightarrow> None
      | Some c \<Rightarrow> if \<not> initialised M \<or> res_gpuId r < 0 \<or> ctx_gpuId c \<noteq> res_gpuId r then Some (False, w)
                  else Some (cudaSetDevice api (res_gpuId r) w)))"

definition unregisterTask :: "nat \<Rightarrow> GpuContextManager \<Rightarrow> (bool \<times> GpuContextManager) option" where
  "unregisterTask t M = (case task_heap M t of
      None \<Rightarrow> None
    | Some r \<Rightarrow> (case ctx r of
        None \<Rightarrow> Some (True, M)
      | Some a \<Rightarrow>
          if resourceId r < 0 then Some (True, M)
          else case context_heap M a of
              None \<Rightarrow> None
            | Some c \<Rightarrow>
                let i = nat (resourceId r);
                    resourceMatches = (i < length (taskResources c) \<and> taskResources c ! i = Some t)
                in if \<not> initialised M \<or> \<not> resourceMatches then Some (False, M)
                   else Some (True, M\<lparr>context_heap := (context_heap M)(a \<mapsto> c\<lparr>taskResources := (taskResources c)[i := nullptr]\<rparr>),
                          task_heap := (task_heap M)(t \<mapsto> r\<lparr>resourceId := -1, res_gpuId := -1, ctx := nullptr\<rparr>)\<rparr>)))"

text \<open>Does some listed context have a registered task?\<close>

fun any_active :: "(nat \<rightharpoonup> GpuContext) \<Rightarrow> ptr list \<Rightarrow> bool option" where
  "any_active h [] = Some False"
| "any_active h (None # ps) = any_active h ps"
| "any_active h (Some a # ps) = (case h a of
      None \<Rightarrow> None
    | Some c \<Rightarrow> if activeTaskCount (taskResources c) \<noteq> 0 then Some True else any_active h ps)"

definition manager_shutdown :: "('w, 'x) driver_api_scheme \<Rightarrow> GpuContextManager \<Rightarrow> 'w \<Rightarrow> (GpuContextManager \<times> 'w) option" where
  "manager_shutdown api M w =
     (if \<not> initialised M then Some (M, w)
      else case any_active (context_heap M) (contexts M) of
        None \<Rightarrow> None
      | Some True \<Rightarrow> Some (M, w)
      | Some False \<Rightarrow> (case releaseContexts api M w of
            None \<Rightarrow> None
          | Some (M1, w1) \<Rightarrow> Some (M1\<lparr>initialised := False\<rparr>, w1)))"

end
