(* ===== verification/Diagnostics.thy ===== *)
theory Diagnostics
  imports Context_Manager
begin

text \<open>
  \<open>CudaCheck.h\<close> and \<open>GpuDiagnostics.cpp\<close>: the thread-local description of what a thread is doing
  on which GPU, the lexical scopes that set and restore it, and the one line that is logged for an
  error.  The standard error stream is a list of lines.  What the platform decides is a parameter:
  the process id, the text of a pointer, and the driver's names for its error codes.  The result of
  \<open>snprintf\<close> is its text cut to the buffer.
\<close>

section \<open>Decimal output\<close>

fun show_nat :: "nat \<Rightarrow> string" where
  "show_nat n = (if n < 10 then [char_of (48 + n)] else show_nat (n div 10) @ [char_of (48 + n mod 10)])"

declare show_nat.simps [simp del]

definition show_int :: "int \<Rightarrow> string" where
  "show_int i = (if i < 0 then CHR ''-'' # show_nat (nat (- i)) else show_nat (nat i))"

definition snprintf :: "nat \<Rightarrow> string \<Rightarrow> string" where
  "snprintf cap text = take (cap - 1) text"

section \<open>Scopes\<close>

record GpuDiagnosticInfo =
  diag_gpuId :: int
  diag_numaNode :: int
  diag_resourceId :: int
  diag_context :: ptr
  diag_driverContextId :: u64
  diag_driverContextIdKnown :: bool
  diag_stream :: stream
  diag_key :: GpuDataKey
  frameKnown :: bool
  stage :: "string option"

definition no_diagnostic :: GpuDiagnosticInfo where
  "no_diagnostic = \<lparr>diag_gpuId = -1, diag_numaNode = -1, diag_resourceId = -1, diag_context = nullptr, diag_driverContextId = 0,
     diag_driverContextIdKnown = False, diag_stream = nullptr, diag_key = default_key, frameKnown = False, stage = Some ''unknown''\<rparr>"

text \<open>
  The four constructors of \<open>GpuDiagnosticScope\<close>: what they make of the current description.  The
  scope itself is the description it found, which its destructor puts back.
\<close>

definition scope_info :: "GpuDiagnosticInfo \<Rightarrow> GpuDiagnosticInfo \<Rightarrow> GpuDiagnosticInfo" where
  "scope_info info current = info"

definition scope_task ::
  "TaskGpuResources \<Rightarrow> GpuContext option \<Rightarrow> string option \<Rightarrow> GpuDataKey option \<Rightarrow> GpuDiagnosticInfo \<Rightarrow> GpuDiagnosticInfo" where
  "scope_task r c stg k previous =
     (let d0 = no_diagnostic\<lparr>diag_gpuId := res_gpuId r, diag_resourceId := resourceId r, diag_stream := res_stream r, stage := stg\<rparr>;
          d1 = (case c of
             None \<Rightarrow> d0
           | Some cx \<Rightarrow> d0\<lparr>diag_numaNode := ctx_numaNode cx, diag_context := primaryCtx cx,
                diag_driverContextId := driverContextId cx, diag_driverContextIdKnown := driverContextIdKnown cx\<rparr>)
      in case k of
          Some fk \<Rightarrow> d1\<lparr>diag_key := fk, frameKnown := True\<rparr>
        | None \<Rightarrow> if diag_gpuId previous = res_gpuId r \<and> diag_resourceId previous = resourceId r
                  then d1\<lparr>diag_key := diag_key previous, frameKnown := frameKnown previous\<rparr> else d1)"

definition scope_stage :: "string option \<Rightarrow> GpuDiagnosticInfo \<Rightarrow> GpuDiagnosticInfo" where
  "scope_stage stg current = current\<lparr>stage := stg\<rparr>"

definition scope_access :: "int \<Rightarrow> stream \<Rightarrow> GpuDataKey \<Rightarrow> string option \<Rightarrow> GpuDiagnosticInfo \<Rightarrow> GpuDiagnosticInfo" where
  "scope_access gpuId st k stg current =
     (let d0 = (if diag_gpuId current \<noteq> gpuId then no_diagnostic
                else if diag_stream current \<noteq> st then current\<lparr>diag_resourceId := -1\<rparr> else current)
      in d0\<lparr>diag_gpuId := gpuId, diag_stream := st, diag_key := k, frameKnown := True, stage := stg\<rparr>)"

text \<open>A thread opens scopes and closes the last one opened; the stack holds what they found.\<close>

datatype scope_event =
    ScopeInfo GpuDiagnosticInfo
  | ScopeTask TaskGpuResources "GpuContext option" "string option" "GpuDataKey option"
  | ScopeStage "string option"
  | ScopeAccess int stream GpuDataKey "string option"
  | ScopeEnd

fun scope_step :: "scope_event \<Rightarrow> GpuDiagnosticInfo \<times> GpuDiagnosticInfo list \<Rightarrow> GpuDiagnosticInfo \<times> GpuDiagnosticInfo list" where
  "scope_step (ScopeInfo i) (d, st) = (scope_info i d, d # st)"
| "scope_step (ScopeTask r c s k) (d, st) = (scope_task r c s k d, d # st)"
| "scope_step (ScopeStage s) (d, st) = (scope_stage s d, d # st)"
| "scope_step (ScopeAccess g t k s) (d, st) = (scope_access g t k s d, d # st)"
| "scope_step ScopeEnd (d, st) = (case st of [] \<Rightarrow> (d, []) | p # ps \<Rightarrow> (p, ps))"

inductive nested :: "scope_event list \<Rightarrow> bool" where
  nested_nil: "nested []"
| nested_scope: "e \<noteq> ScopeEnd \<Longrightarrow> nested xs \<Longrightarrow> nested ys \<Longrightarrow> nested (e # xs @ ScopeEnd # ys)"

section \<open>Output\<close>

record platform =
  getpid :: int
  show_ptr :: "ptr \<Rightarrow> string"

definition or_unknown :: "string option \<Rightarrow> string" where
  "or_unknown s = (case s of None \<Rightarrow> ''unknown'' | Some t \<Rightarrow> t)"

definition formatDiagnosticInfo :: "platform \<Rightarrow> nat \<Rightarrow> GpuDiagnosticInfo \<Rightarrow> string" where
  "formatDiagnosticInfo pf capac d =
     (let driverId = (if diag_driverContextIdKnown d then snprintf 32 (show_nat (unat (diag_driverContextId d))) else ''unknown'');
          frame = (if frameKnown d then snprintf 32 (show_nat (unat (frameId (diag_key d)))) else ''unknown'');
          camera = (if frameKnown d then snprintf 32 (show_nat (unat (cameraId (diag_key d)))) else ''unknown'');
          variant = (if frameKnown d then snprintf 32 (show_nat (unat (variantId (diag_key d)))) else ''unknown'')
      in snprintf capac (''pid='' @ show_int (getpid pf) @ '' bound_gpu='' @ show_int (diag_gpuId d) @ '' numa='' @ show_int (diag_numaNode d)
           @ '' resource='' @ show_int (diag_resourceId d) @ '' context_handle='' @ show_ptr pf (diag_context d)
           @ '' driver_context_id='' @ driverId @ '' stream='' @ show_ptr pf (diag_stream d) @ '' frame='' @ frame @ '' camera='' @ camera
           @ '' variant_id='' @ variant @ '' stage='' @ or_unknown (stage d)))"

datatype GpuErrorSource = Application | CudaRuntime | CudaDriver | Cufft

record GpuErrorRecord =
  err_source :: GpuErrorSource
  err_code :: int
  err_name :: "string option"
  err_message :: "string option"
  err_operation :: "string option"
  err_file :: "string option"
  err_line :: int

definition new_error :: GpuErrorRecord where
  "new_error = \<lparr>err_source = Application, err_code = 0, err_name = Some ''Failure'', err_message = Some ''unknown'',
     err_operation = Some ''unknown'', err_file = Some ''unknown'', err_line = 0\<rparr>"

fun source_name :: "GpuErrorSource \<Rightarrow> string" where
  "source_name Application = ''GPUInfra''"
| "source_name CudaRuntime = ''CUDA Runtime''"
| "source_name CudaDriver = ''CUDA Driver''"
| "source_name Cufft = ''cuFFT''"

definition logGpuError :: "platform \<Rightarrow> GpuErrorRecord \<Rightarrow> GpuDiagnosticInfo \<Rightarrow> string list \<Rightarrow> string list" where
  "logGpuError pf e d log =
     (let details = formatDiagnosticInfo pf 512 d;
          code = (if err_source e \<noteq> Application then snprintf 32 (show_int (err_code e)) else ''none'')
      in log @ [''['' @ source_name (err_source e) @ ''] '' @ or_unknown (err_file e) @ '':'' @ show_int (err_line e)
           @ '' operation='' @ or_unknown (err_operation e) @ '' error='' @ or_unknown (err_name e) @ '' code='' @ code
           @ '' message='' @ or_unknown (err_message e) @ '' '' @ details])"

definition reportGpuFailure :: "platform \<Rightarrow> string option \<Rightarrow> GpuDiagnosticInfo \<Rightarrow> string option \<Rightarrow> int \<Rightarrow> string list \<Rightarrow> string list" where
  "reportGpuFailure pf reason d file line log =
     logGpuError pf (new_error\<lparr>err_message := reason, err_operation := stage d, err_file := file, err_line := line\<rparr>) d log"

text \<open>
  What the headers of the CUDA libraries define: the success codes, the names and messages of the
  other codes (a driver that does not know a code leaves the defaults of the record), the numbers of
  the cuFFT codes, and which of the newer cuFFT codes exist at compile time.
\<close>

datatype cufftResult =
    CUFFT_SUCCESS | CUFFT_INVALID_PLAN | CUFFT_ALLOC_FAILED | CUFFT_INVALID_TYPE | CUFFT_INVALID_VALUE
  | CUFFT_INTERNAL_ERROR | CUFFT_EXEC_FAILED | CUFFT_SETUP_FAILED | CUFFT_INVALID_SIZE | CUFFT_UNALIGNED_DATA
  | CUFFT_INVALID_DEVICE | CUFFT_NO_WORKSPACE | CUFFT_NOT_IMPLEMENTED | CUFFT_NOT_SUPPORTED
  | CUFFT_MISSING_DEPENDENCY | CUFFT_NVRTC_FAILURE | CUFFT_NVJITLINK_FAILURE | CUFFT_NVSHMEM_FAILURE
  | CUFFT_OTHER int

record error_codes =
  cudaSuccess :: int
  cudaNames :: "int \<Rightarrow> string option \<times> string option"
  CUDA_SUCCESS :: int
  cuNames :: "int \<Rightarrow> (string option \<times> string option) option"
  cufftCode :: "cufftResult \<Rightarrow> int"
  hasMissingDependency :: bool
  hasNvrtcFailure :: bool
  hasNvjitlinkFailure :: bool
  hasNvshmemFailure :: bool

definition report_runtime :: "platform \<Rightarrow> error_codes \<Rightarrow> int \<Rightarrow> string option \<Rightarrow> string option \<Rightarrow> int
    \<Rightarrow> GpuDiagnosticInfo \<Rightarrow> string list \<Rightarrow> bool \<times> string list" where
  "report_runtime pf ec status call file line d log =
     (if status = cudaSuccess ec then (True, log)
      else (False, logGpuError pf \<lparr>err_source = CudaRuntime, err_code = status, err_name = fst (cudaNames ec status),
              err_message = snd (cudaNames ec status), err_operation = call, err_file = file, err_line = line\<rparr> d log))"

definition report_driver :: "platform \<Rightarrow> error_codes \<Rightarrow> int \<Rightarrow> string option \<Rightarrow> string option \<Rightarrow> int
    \<Rightarrow> GpuDiagnosticInfo \<Rightarrow> string list \<Rightarrow> bool \<times> string list" where
  "report_driver pf ec status call file line d log =
     (if status = CUDA_SUCCESS ec then (True, log)
      else let (nam, msg) = (case cuNames ec status of None \<Rightarrow> (err_name new_error, err_message new_error) | Some p \<Rightarrow> p)
           in (False, logGpuError pf \<lparr>err_source = CudaDriver, err_code = status, err_name = nam, err_message = msg,
                 err_operation = call, err_file = file, err_line = line\<rparr> d log))"

fun cufftErrorName :: "error_codes \<Rightarrow> cufftResult \<Rightarrow> string" where
  "cufftErrorName ec CUFFT_SUCCESS = ''CUFFT_SUCCESS''"
| "cufftErrorName ec CUFFT_INVALID_PLAN = ''CUFFT_INVALID_PLAN''"
| "cufftErrorName ec CUFFT_ALLOC_FAILED = ''CUFFT_ALLOC_FAILED''"
| "cufftErrorName ec CUFFT_INVALID_TYPE = ''CUFFT_INVALID_TYPE''"
| "cufftErrorName ec CUFFT_INVALID_VALUE = ''CUFFT_INVALID_VALUE''"
| "cufftErrorName ec CUFFT_INTERNAL_ERROR = ''CUFFT_INTERNAL_ERROR''"
| "cufftErrorName ec CUFFT_EXEC_FAILED = ''CUFFT_EXEC_FAILED''"
| "cufftErrorName ec CUFFT_SETUP_FAILED = ''CUFFT_SETUP_FAILED''"
| "cufftErrorName ec CUFFT_INVALID_SIZE = ''CUFFT_INVALID_SIZE''"
| "cufftErrorName ec CUFFT_UNALIGNED_DATA = ''CUFFT_UNALIGNED_DATA''"
| "cufftErrorName ec CUFFT_INVALID_DEVICE = ''CUFFT_INVALID_DEVICE''"
| "cufftErrorName ec CUFFT_NO_WORKSPACE = ''CUFFT_NO_WORKSPACE''"
| "cufftErrorName ec CUFFT_NOT_IMPLEMENTED = ''CUFFT_NOT_IMPLEMENTED''"
| "cufftErrorName ec CUFFT_NOT_SUPPORTED = ''CUFFT_NOT_SUPPORTED''"
| "cufftErrorName ec CUFFT_MISSING_DEPENDENCY = (if hasMissingDependency ec then ''CUFFT_MISSING_DEPENDENCY'' else ''CUFFT_UNKNOWN_ERROR'')"
| "cufftErrorName ec CUFFT_NVRTC_FAILURE = (if hasNvrtcFailure ec then ''CUFFT_NVRTC_FAILURE'' else ''CUFFT_UNKNOWN_ERROR'')"
| "cufftErrorName ec CUFFT_NVJITLINK_FAILURE = (if hasNvjitlinkFailure ec then ''CUFFT_NVJITLINK_FAILURE'' else ''CUFFT_UNKNOWN_ERROR'')"
| "cufftErrorName ec CUFFT_NVSHMEM_FAILURE = (if hasNvshmemFailure ec then ''CUFFT_NVSHMEM_FAILURE'' else ''CUFFT_UNKNOWN_ERROR'')"
| "cufftErrorName ec (CUFFT_OTHER n) = ''CUFFT_UNKNOWN_ERROR''"

definition report_cufft :: "platform \<Rightarrow> error_codes \<Rightarrow> cufftResult \<Rightarrow> string option \<Rightarrow> string option \<Rightarrow> int
    \<Rightarrow> GpuDiagnosticInfo \<Rightarrow> string list \<Rightarrow> bool \<times> string list" where
  "report_cufft pf ec status call file line d log =
     (if status = CUFFT_SUCCESS then (True, log)
      else let nam = Some (cufftErrorName ec status)
           in (False, logGpuError pf \<lparr>err_source = Cufft, err_code = cufftCode ec status, err_name = nam, err_message = nam,
                 err_operation = call, err_file = file, err_line = line\<rparr> d log))"

section \<open>Behaviour\<close>

lemma digits_value_snoc: "digits_value (ds @ [c]) = 10 * digits_value ds + (of_char c - 48)"
  by (simp add: digits_value_def)

lemma show_nat_digits: "digits_value (show_nat n) = n \<and> list_all is_digit (show_nat n) \<and> show_nat n \<noteq> []"
proof (induction n rule: show_nat.induct)
  case (1 n)
  have last: "of_char (char_of (48 + k) :: char) = 48 + k" if "k < 10" for k :: nat using that by simp
  show ?case
  proof (cases "n < 10")
    case True
    then show ?thesis
      using last [of n] by (simp add: show_nat.simps [of n] digits_value_def is_digit_def)
  next
    case False
    then show ?thesis
      using 1 last [of "n mod 10"] by (simp add: show_nat.simps [of n] digits_value_snoc is_digit_def)
  qed
qed

lemma nested_restores: "nested es \<Longrightarrow> fold scope_step es s = s"
proof (induction arbitrary: s rule: nested.induct)
  case (nested_scope e xs ys)
  obtain d st where s: "s = (d, st)" by fastforce
  then obtain d' where "scope_step e s = (d', d # st)" using nested_scope.hyps(1) by (cases e) auto
  then show ?case using nested_scope.IH s by simp
qed simp


lemma show_nat_length: "n < 10 ^ k \<Longrightarrow> 0 < k \<Longrightarrow> length (show_nat n) \<le> k"
proof (induction k arbitrary: n)
  case (Suc k)
  show ?case
  proof (cases "n < 10")
    case True
    then show ?thesis by (simp add: show_nat.simps [of n])
  next
    case False
    then have "0 < k" using Suc.prems(1) by (cases k) auto
    moreover have "n div 10 < 10 ^ k" using Suc.prems(1) by (simp add: div_less_iff_less_mult mult.commute)
    ultimately show ?thesis using False Suc.IH [of "n div 10"] by (simp add: show_nat.simps [of n])
  qed
qed simp

lemma number_not_cut: "n < 2 ^ 64 \<Longrightarrow> snprintf 32 (show_nat n) = show_nat n"
  using show_nat_length [of n 20] by (simp add: snprintf_def)

section \<open>Properties\<close>

text \<open>
  Diagnostic scopes do not leak and do not mix identities.  After any properly nested use of
  scopes the thread's description is what it was before.  A scope for a cache access always names
  the accessed frame; it keeps the NUMA node and the context of the surrounding description exactly
  when that is about the same GPU, and the task resource exactly when it also is about the same
  stream.
\<close>

theorem diagnostic_scopes:
  assumes "nested es"
  shows "fold scope_step es (d, st) = (d, st)
    \<and> (let d' = scope_access g s k stg d; same = (diag_gpuId d = g) in
        diag_gpuId d' = g \<and> diag_stream d' = s \<and> diag_key d' = k \<and> frameKnown d' \<and> stage d' = stg
      \<and> diag_resourceId d' = (if same \<and> diag_stream d = s then diag_resourceId d else -1)
      \<and> (diag_numaNode d', diag_context d') = (if same then (diag_numaNode d, diag_context d) else (-1, nullptr))
      \<and> (diag_driverContextIdKnown d' \<longleftrightarrow> same \<and> diag_driverContextIdKnown d))"
  using nested_restores [OF assms] by (simp add: scope_access_def no_diagnostic_def Let_def)

theorem diagnostic_scopes_witness:
  "fold scope_step [ScopeStage (Some ''a''), ScopeAccess 1 (Some 2) default_key None, ScopeEnd, ScopeEnd] (no_diagnostic, []) = (no_diagnostic, [])"
proof -
  have "nested ([ScopeAccess 1 (Some 2) default_key None] @ [] @ ScopeEnd # [])" using nested_scope [OF _ nested_nil nested_nil] by simp
  then have "nested (ScopeStage (Some ''a'') # [ScopeAccess 1 (Some 2) default_key None, ScopeEnd] @ ScopeEnd # [])"
    by (intro nested_scope nested_nil) simp_all
  then show ?thesis using diagnostic_scopes by (simp del: fold_simps)
qed

text \<open>
  Every failed call is reported once and nothing else is.  The check of a runtime, driver or
  cuFFT status answers true and logs nothing exactly when the status is success; otherwise it
  answers false and adds one line.  The frame, camera and variant numbers in that line are never cut
  by the buffers they are formatted in: each is the decimal numeral of the value.
\<close>

theorem failures_reported_once:
  "(report_runtime pf ec status call file line d log =
      (if status = cudaSuccess ec then (True, log) else (False, log @ [last (snd (report_runtime pf ec status call file line d log))])))
   \<and> (report_driver pf ec status call file line d log =
      (if status = CUDA_SUCCESS ec then (True, log) else (False, log @ [last (snd (report_driver pf ec status call file line d log))])))
   \<and> (report_cufft pf ec result call file line d log =
      (if result = CUFFT_SUCCESS then (True, log) else (False, log @ [last (snd (report_cufft pf ec result call file line d log))])))
   \<and> digits_value (snprintf 32 (show_nat (unat (frameId k)))) = unat (frameId k)
   \<and> digits_value (snprintf 32 (show_nat (unat (cameraId k)))) = unat (cameraId k)
   \<and> digits_value (snprintf 32 (show_nat (unat (variantId k)))) = unat (variantId k)"
proof -
  have "unat (cameraId k) < 2 ^ 64" using unsigned_less [of "cameraId k"] by (rule order_less_le_trans) simp
  then show ?thesis
    using number_not_cut [OF unat_size_t_less, of "frameId k"] number_not_cut [OF unat_size_t_less, of "variantId k"]
      number_not_cut [of "unat (cameraId k)"] show_nat_digits
    by (auto simp: report_runtime_def report_driver_def report_cufft_def logGpuError_def Let_def split: prod.splits)
qed

end
