(* ===== verification/Context_Registry.thy ===== *)
theory Context_Registry
  imports Context_Manager
begin

text \<open>
  The invariant of the context manager and its preservation.  The invariant ties the slots of the
  contexts to the registrations the tasks carry, both ways, and says that exactly the listed contexts
  exist.  A second account follows the references to primary contexts through initialisation, its
  rollbacks, and shutdown.  The steps of all callers form a state machine in the sense of the theory
  \<open>State_Machine\<close>.
\<close>

section \<open>References to primary contexts\<close>

text \<open>
  What the driver documents about primary contexts: a successful retain gives a context and adds one
  reference to the device's primary context, a release takes a reference away when there is one, and
  no other call of the manager changes the number of references.
\<close>

definition counts_references :: "('w, 'x) driver_api_scheme \<Rightarrow> ('w \<Rightarrow> int \<Rightarrow> nat) \<Rightarrow> bool" where
  "counts_references api ret \<longleftrightarrow>
     (\<forall>d w. ret (snd (cuDevicePrimaryCtxRetain api d w)) =
        (if fst (cuDevicePrimaryCtxRetain api d w) = None then ret w else (ret w)(d := ret w d + 1)))
     \<and> (\<forall>d w. fst (cuDevicePrimaryCtxRetain api d w) \<noteq> Some nullptr)
     \<and> (\<forall>d w. 0 < ret w d \<longrightarrow> ret (snd (cuDevicePrimaryCtxRelease api d w)) = (ret w)(d := ret w d - 1))
     \<and> (\<forall>w. ret (snd (cuInit api w)) = ret w) \<and> (\<forall>w. ret (snd (cudaGetDeviceCount api w)) = ret w)
     \<and> (\<forall>g w. ret (snd (cudaDeviceGetPCIBusId api g w)) = ret w) \<and> (\<forall>f w. ret (snd (read_file api f w)) = ret w)
     \<and> (\<forall>g w. ret (snd (cudaSetDevice api g w)) = ret w) \<and> (\<forall>p w. ret (snd (cudaFree api p w)) = ret w)
     \<and> (\<forall>h w. ret (snd (new_context api h w)) = ret w) \<and> (\<forall>g w. ret (snd (cuDeviceGet api g w)) = ret w)
     \<and> (\<forall>c w. ret (snd (cuCtxGetId api c w)) = ret w) \<and> (\<forall>g w. ret (snd (cudaGetDeviceProperties api g w)) = ret w)"

lemma referencesD:
  assumes "counts_references api ret"
  shows "cuDevicePrimaryCtxRetain api d w = (None, w') \<Longrightarrow> ret w' = ret w"
    "cuDevicePrimaryCtxRetain api d w = (Some p, w') \<Longrightarrow> ret w' = (ret w)(d := ret w d + 1)"
    "cuDevicePrimaryCtxRetain api d w = (Some p, w') \<Longrightarrow> p \<noteq> nullptr"
    "0 < ret w d \<Longrightarrow> ret (snd (cuDevicePrimaryCtxRelease api d w)) = (ret w)(d := ret w d - 1)"
  using assms unfolding counts_references_def by (metis fst_conv snd_conv option.distinct(1))+

lemma references_kept:
  assumes "counts_references api ret"
  shows "cuInit api w = (b, w') \<Longrightarrow> ret w' = ret w" "cudaGetDeviceCount api w = (n, w') \<Longrightarrow> ret w' = ret w"
    "cudaDeviceGetPCIBusId api g w = (s, w') \<Longrightarrow> ret w' = ret w" "read_file api f w = (s, w') \<Longrightarrow> ret w' = ret w"
    "cudaSetDevice api g w = (b, w') \<Longrightarrow> ret w' = ret w" "cudaFree api p w = (b, w') \<Longrightarrow> ret w' = ret w"
    "new_context api h w = (p, w') \<Longrightarrow> ret w' = ret w" "cuDeviceGet api g w = (n, w') \<Longrightarrow> ret w' = ret w"
    "cuCtxGetId api p w = (k, w') \<Longrightarrow> ret w' = ret w" "cudaGetDeviceProperties api g w = (b, w') \<Longrightarrow> ret w' = ret w"
  using assms unfolding counts_references_def by (metis snd_conv)+

lemma node_of_gpu_references:
  assumes "counts_references api ret" "node_of_gpu api strict gpu w = (n, w')"
  shows "ret w' = ret w"
  using assms(2) references_kept(3,4) [OF assms(1)]
  by (auto simp: node_of_gpu_def probeNumaNodeOfGpu_def Let_def split: prod.splits option.splits if_splits)

text \<open>How many references a list of contexts holds, per device.\<close>

fun held :: "(nat \<rightharpoonup> GpuContext) \<Rightarrow> ptr list \<Rightarrow> int \<Rightarrow> nat" where
  "held h [] d = 0"
| "held h (None # ps) d = held h ps d"
| "held h (Some a # ps) d = (case h a of
      None \<Rightarrow> 0 | Some c \<Rightarrow> if primaryCtx c \<noteq> nullptr \<and> device c = d then 1 else 0) + held h ps d"

lemma held_upd [simp]: "Some a \<notin> set ps \<Longrightarrow> held (h(a := v)) ps d = held h ps d"
  by (induction h ps d rule: held.induct) auto

lemma held_snoc: "held h (ps @ [Some a]) d = held h ps d + held h [Some a] d"
  by (induction h ps d rule: held.induct) auto

definition owes :: "('w \<Rightarrow> int \<Rightarrow> nat) \<Rightarrow> 'w \<Rightarrow> (int \<Rightarrow> nat) \<Rightarrow> GpuContextManager \<Rightarrow> bool" where
  "owes ret w r0 M \<longleftrightarrow> (\<forall>d. ret w d = r0 d + held (context_heap M) (contexts M) d)"

section \<open>Releasing contexts\<close>

lemma release_list_all:
  assumes "None \<notin> set ps" "distinct ps"
    "\<And>a. Some a \<in> set ps \<Longrightarrow> \<exists>c. h a = Some c \<and> activeTaskCount (taskResources c) = 0"
  shows "\<exists>w'. release_list api ps h w = Some (h |` {a. Some a \<notin> set ps}, w')
    \<and> (counts_references api ret \<and> (\<forall>d. ret w d = r0 d + held h ps d) \<longrightarrow> ret w' = r0)"
  using assms
proof (induction ps arbitrary: h w)
  case Nil
  then show ?case by auto
next
  case (Cons p ps)
  then obtain a where p: "p = Some a" by (cases p) auto
  then obtain c where c: "h a = Some c" "activeTaskCount (taskResources c) = 0" using Cons.prems(3) [of a] by auto
  let ?w = "if primaryCtx c \<noteq> nullptr then snd (cuDevicePrimaryCtxRelease api (device c) w) else w"
  have a: "Some a \<notin> set ps" using Cons.prems(2) p by simp
  have "\<exists>c. (h(a := None)) b = Some c \<and> activeTaskCount (taskResources c) = 0" if "Some b \<in> set ps" for b
    using Cons.prems(3) [of b] that a by (cases "b = a") auto
  moreover have "None \<notin> set ps" "distinct ps" using Cons.prems(1,2) by simp_all
  ultimately obtain w' where w': "release_list api ps (h(a := None)) ?w = Some ((h(a := None)) |` {a. Some a \<notin> set ps}, w')"
    "counts_references api ret \<and> (\<forall>d. ret ?w d = r0 d + held (h(a := None)) ps d) \<longrightarrow> ret w' = r0"
    using Cons.IH [of "h(a := None)" ?w] by blast
  have "(h(a := None)) |` {a. Some a \<notin> set ps} = h |` {b. Some b \<notin> set (p # ps)}"
    using p by (auto simp: restrict_map_def)
  moreover have "ret ?w d = r0 d + held (h(a := None)) ps d"
    if "counts_references api ret" "\<forall>d. ret w d = r0 d + held h (p # ps) d" for d
    using that(2) referencesD(4) [OF that(1), of w "device c"] p c(1) a by auto
  ultimately show ?case using w' p c by auto
qed

lemma releaseContexts_all:
  assumes "None \<notin> set (contexts M)" "distinct (contexts M)" "dom (context_heap M) = {a. Some a \<in> set (contexts M)}"
    "\<And>a c. context_heap M a = Some c \<Longrightarrow> activeTaskCount (taskResources c) = 0"
  shows "\<exists>w'. releaseContexts api M w = Some (M\<lparr>contexts := [], context_heap := Map.empty\<rparr>, w')
    \<and> (counts_references api ret \<and> owes ret w r0 M \<longrightarrow> ret w' = r0)"
proof -
  have "\<exists>c. context_heap M a = Some c \<and> activeTaskCount (taskResources c) = 0" if "Some a \<in> set (contexts M)" for a
    using assms(3,4) that by blast
  then obtain w' where "release_list api (contexts M) (context_heap M) w = Some (context_heap M |` {a. Some a \<notin> set (contexts M)}, w')"
    "counts_references api ret \<and> (\<forall>d. ret w d = r0 d + held (context_heap M) (contexts M) d) \<longrightarrow> ret w' = r0"
    using release_list_all [OF assms(1,2), of "context_heap M" api w ret r0] by blast
  moreover have "context_heap M |` {a. Some a \<notin> set (contexts M)} = Map.empty"
    using assms(3) by (auto simp: restrict_map_def fun_eq_iff)
  ultimately show ?thesis by (simp add: releaseContexts_def owes_def)
qed

section \<open>Initialisation\<close>

text \<open>The manager in the middle of \<open>init\<close>: the contexts of the first GPUs exist and have no task.\<close>

definition building :: "GpuContextManager \<Rightarrow> bool" where
  "building M \<longleftrightarrow> None \<notin> set (contexts M) \<and> distinct (contexts M)
     \<and> dom (context_heap M) = {a. Some a \<in> set (contexts M)}
     \<and> (\<forall>a c. context_heap M a = Some c \<longrightarrow> taskResources c = [])
     \<and> map (\<lambda>p. map_option ctx_gpuId (context_heap M (the p))) (contexts M) = map (Some \<circ> int) [0..<length (contexts M)]"

lemma give_up_building:
  assumes "building M"
  shows "\<exists>w'. give_up api M w = Some (False, M\<lparr>contexts := [], context_heap := Map.empty\<rparr>, w')
    \<and> (counts_references api ret \<and> owes ret w r0 M \<longrightarrow> ret w' = r0)"
  using releaseContexts_all [of M api w ret r0] assms by (auto simp: building_def give_up_def)

lemma retain_context_cases:
  assumes "retain_context api gpu c w = (res, w')" "res = None \<or> res = Some c'"
  shows "counts_references api ret \<Longrightarrow> ret w' = (if res = None then ret w else (ret w)(device c' := ret w (device c') + 1))"
    "counts_references api ret \<Longrightarrow> res \<noteq> None \<Longrightarrow> primaryCtx c' \<noteq> nullptr"
    "res \<noteq> None \<Longrightarrow> ctx_gpuId c' = ctx_gpuId c \<and> taskResources c' = taskResources c"
  using assms by (auto simp: retain_context_def Let_def references_kept(8,9) referencesD(1,2)
      split: prod.splits option.splits if_splits dest: referencesD(3))


lemma building_add:
  assumes "building M" "context_heap M a = None" "taskResources c = []" "ctx_gpuId c = int (length (contexts M))"
  shows "building (M\<lparr>contexts := contexts M @ [Some a], context_heap := (context_heap M)(a \<mapsto> c)\<rparr>)"
proof -
  have a: "Some a \<notin> set (contexts M)" using assms(1,2) unfolding building_def by blast
  have "map (\<lambda>p. map_option ctx_gpuId (((context_heap M)(a \<mapsto> c)) (the p))) (contexts M)
      = map (\<lambda>p. map_option ctx_gpuId (context_heap M (the p))) (contexts M)"
  proof (rule map_cong [OF refl])
    fix p assume p: "p \<in> set (contexts M)"
    then have "p \<noteq> None" using assms(1) unfolding building_def by metis
    then have "the p \<noteq> a" using p a by auto
    then show "map_option ctx_gpuId (((context_heap M)(a \<mapsto> c)) (the p)) = map_option ctx_gpuId (context_heap M (the p))" by simp
  qed
  also have "\<dots> = map (Some \<circ> int) [0..<length (contexts M)]" using assms(1) unfolding building_def by blast
  finally show ?thesis using assms a by (auto simp: building_def simp del: map_eq_conv)
qed

lemma owes_add:
  assumes "owes ret w r0 M" "Some a \<notin> set (contexts M)" "primaryCtx c \<noteq> nullptr"
    "ret w' = (ret w)(device c := ret w (device c) + 1)"
  shows "owes ret w' r0 (M\<lparr>contexts := contexts M @ [Some a], context_heap := (context_heap M)(a \<mapsto> c)\<rparr>)"
  using assms by (auto simp: owes_def held_snoc)

lemma owes_world: "ret w' = ret w \<Longrightarrow> owes ret w' r0 M = owes ret w r0 M"
  by (simp add: owes_def)

text \<open>One GPU: its context is added, or everything built so far is released again.\<close>

lemma init_gpu_outcome:
  assumes B: "building M" and fresh: "new_is_fresh api" and gpu: "gpu = int (length (contexts M))"
  shows "\<exists>ok M' w'. init_gpu api strict gpu M w = Some (ok, M', w')
    \<and> task_heap M' = task_heap M \<and> initialised M' = initialised M
    \<and> (if ok then building M' \<and> length (contexts M') = Suc (length (contexts M))
       else contexts M' = [] \<and> context_heap M' = Map.empty)
    \<and> (counts_references api ret \<and> owes ret w r0 M \<longrightarrow> (if ok then owes ret w' r0 M' else ret w' = r0))"
proof -
  have quit: ?thesis if "init_gpu api strict gpu M w = give_up api N v" "building N"
    "task_heap N = task_heap M" "initialised N = initialised M"
    "counts_references api ret \<and> owes ret w r0 M \<longrightarrow> owes ret v r0 N" for N v
    using that give_up_building [OF that(2), of api v ret r0] by auto
  obtain n w1 where w1: "node_of_gpu api strict gpu w = (n, w1)" by fastforce
  obtain b2 w2 where w2: "cudaSetDevice api gpu w1 = (b2, w2)" by fastforce
  obtain b3 w3 where w3: "cudaFree api nullptr w2 = (b3, w3)" by fastforce
  obtain p w4 where w4: "new_context api (context_heap M) w3 = (p, w4)" by fastforce
  let ?c0 = "new_gpu_context\<lparr>ctx_gpuId := gpu, ctx_numaNode := n\<rparr>"
  obtain res w5 where w5: "retain_context api gpu ?c0 w4 = (res, w5)" by fastforce
  obtain b6 w6 where w6: "cudaGetDeviceProperties api gpu w5 = (b6, w6)" by fastforce
  note run = w1 w2 w3 w4 w5 w6
  have same: "ret w1 = ret w" "ret w2 = ret w" "ret w3 = ret w" "ret w4 = ret w" "ret w6 = ret w5"
    if "counts_references api ret"
    using node_of_gpu_references [OF that w1] references_kept [OF that] run by metis+
  have rollback: ?thesis if "init_gpu api strict gpu M w = give_up api M v" "counts_references api ret \<Longrightarrow> ret v = ret w" for v
    using that B owes_world [of ret v w r0 M] by (intro quit [of M v]) auto
  consider (stop) "n < 0" | (set) "\<not> n < 0" "\<not> b2" | (free) "\<not> n < 0" "b2" "\<not> b3"
    | (new) "\<not> n < 0" "b2" "b3" "p = None" | (retain) a where "\<not> n < 0" "b2" "b3" "p = Some a" "res = None"
    | (made) a c where "\<not> n < 0" "b2" "b3" "p = Some a" "res = Some c" by fastforce
  then show ?thesis
  proof cases
    case stop
    then show ?thesis using run same(1) by (intro rollback [of w1]) (simp_all add: init_gpu_def)
  next
    case set
    then show ?thesis using run same(2) by (intro rollback [of w2]) (simp_all add: init_gpu_def)
  next
    case free
    then show ?thesis using run same(3) by (intro rollback [of w3]) (simp_all add: init_gpu_def)
  next
    case new
    then show ?thesis using run same(4) by (intro rollback [of w4]) (simp_all add: init_gpu_def)
  next
    case retain
    then have "ret w5 = ret w" if "counts_references api ret"
      using retain_context_cases(1) [OF w5 _ that] same(4) [OF that] by simp
    then show ?thesis using run retain by (intro rollback [of w5]) (simp_all add: init_gpu_def)
  next
    case (made a c)
    note a = made(4) and c = made(5)
    let ?M = "M\<lparr>contexts := contexts M @ [Some a], context_heap := (context_heap M)(a \<mapsto> c)\<rparr>"
    have free: "context_heap M a = None" using fresh w4 a unfolding new_is_fresh_def by blast
    have ids: "ctx_gpuId c = gpu" "taskResources c = []"
      using retain_context_cases(3) [OF w5, of c] c by (auto simp: new_gpu_context_def)
    have B': "building ?M" using building_add [OF B free ids(2)] ids(1) gpu by simp
    have "Some a \<notin> set (contexts M)" using B free unfolding building_def by blast
    then have ow: "owes ret w6 r0 ?M" if "counts_references api ret \<and> owes ret w r0 M"
      using that owes_add [of ret w r0 M a c w6] retain_context_cases(1,2) [OF w5, of c ret] c same by auto
    show ?thesis
    proof (cases b6)
      case True
      then have "init_gpu api strict gpu M w = Some (True, ?M, w6)" using run made by (simp add: init_gpu_def)
      then show ?thesis using B' ow by (intro exI [of _ True] exI [of _ ?M] exI [of _ w6]) simp
    next
      case False
      then show ?thesis
        using run made B' ow by (intro quit [of ?M w6]) (simp_all add: init_gpu_def)
    qed
  qed
qed

lemma init_gpus_outcome:
  assumes "building M" "new_is_fresh api" "gpus = map int [length (contexts M)..<n]"
  shows "\<exists>ok M' w'. init_gpus api strict gpus M w = Some (ok, M', w')
    \<and> task_heap M' = task_heap M \<and> initialised M' = initialised M
    \<and> (if ok then building M' \<and> length (contexts M') = max n (length (contexts M))
       else contexts M' = [] \<and> context_heap M' = Map.empty)
    \<and> (counts_references api ret \<and> owes ret w r0 M \<longrightarrow> (if ok then owes ret w' r0 M' else ret w' = r0))"
  using assms
proof (induction gpus arbitrary: M w)
  case Nil
  then show ?case by (auto simp: max_def)
next
  case (Cons g gs)
  then have n: "length (contexts M) < n" by (cases "length (contexts M) < n") auto
  then have g: "g = int (length (contexts M))" and gs: "gs = map int [Suc (length (contexts M))..<n]"
    using Cons.prems(3) by (simp_all add: upt_conv_Cons)
  obtain ok M1 w1 where one: "init_gpu api strict g M w = Some (ok, M1, w1)"
    "task_heap M1 = task_heap M" "initialised M1 = initialised M"
    "if ok then building M1 \<and> length (contexts M1) = Suc (length (contexts M)) else contexts M1 = [] \<and> context_heap M1 = Map.empty"
    "counts_references api ret \<and> owes ret w r0 M \<longrightarrow> (if ok then owes ret w1 r0 M1 else ret w1 = r0)"
    using init_gpu_outcome [OF Cons.prems(1,2) g, of strict w ret r0] by blast
  show ?case
  proof (cases ok)
    case True
    then have "building M1" "gs = map int [length (contexts M1)..<n]" using one(4) gs by auto
    from Cons.IH [OF this(1) Cons.prems(2) this(2), of w1] show ?thesis
      using one True n by (auto simp: max_def split: if_splits)
  next
    case False
    then show ?thesis using one by auto
  qed
qed

section \<open>The registry invariant\<close>

text \<open>Slot \<open>i\<close> of context \<open>a\<close> holds task \<open>t\<close>; task \<open>t\<close> believes to be in slot \<open>i\<close> of context \<open>a\<close>.\<close>

definition in_slot :: "GpuContextManager \<Rightarrow> nat \<Rightarrow> nat \<Rightarrow> nat \<Rightarrow> bool" where
  "in_slot M a i t \<longleftrightarrow> (\<exists>c. context_heap M a = Some c \<and> i < length (taskResources c) \<and> taskResources c ! i = Some t)"

definition bound_to :: "GpuContextManager \<Rightarrow> nat \<Rightarrow> nat \<Rightarrow> nat \<Rightarrow> bool" where
  "bound_to M a i t \<longleftrightarrow> (\<exists>r. task_heap M t = Some r \<and> ctx r = Some a \<and> resourceId r = int i)"

definition contexts_ok :: "GpuContextManager \<Rightarrow> bool" where
  "contexts_ok M \<longleftrightarrow> None \<notin> set (contexts M) \<and> distinct (contexts M)
     \<and> dom (context_heap M) = {a. Some a \<in> set (contexts M)}
     \<and> inj_on (\<lambda>a. map_option ctx_gpuId (context_heap M a)) (dom (context_heap M))
     \<and> (\<forall>a c. context_heap M a = Some c \<longrightarrow> 0 \<le> ctx_gpuId c)
     \<and> (\<not> initialised M \<longrightarrow> contexts M = [])"

definition registry_ok :: "GpuContextManager \<Rightarrow> bool" where
  "registry_ok M \<longleftrightarrow> (\<forall>a i t. in_slot M a i t \<longleftrightarrow> bound_to M a i t)
     \<and> (\<forall>t r a. task_heap M t = Some r \<and> ctx r = Some a \<longrightarrow>
          0 \<le> resourceId r \<and> map_option ctx_gpuId (context_heap M a) = Some (res_gpuId r))"

definition manager_ok :: "GpuContextManager \<Rightarrow> bool" where
  "manager_ok M \<longleftrightarrow> contexts_ok M \<and> registry_ok M"

lemma manager_okD:
  assumes "manager_ok M"
  shows "contexts_ok M" "registry_ok M" "in_slot M a i t \<longleftrightarrow> bound_to M a i t"
    "task_heap M t = Some r \<Longrightarrow> ctx r = Some a \<Longrightarrow> 0 \<le> resourceId r \<and> map_option ctx_gpuId (context_heap M a) = Some (res_gpuId r)"
  using assms unfolding manager_ok_def registry_ok_def by blast+

lemma contexts_okD:
  assumes "contexts_ok M"
  shows "None \<notin> set (contexts M)" "distinct (contexts M)" "dom (context_heap M) = {a. Some a \<in> set (contexts M)}"
    "inj_on (\<lambda>a. map_option ctx_gpuId (context_heap M a)) (dom (context_heap M))"
    "context_heap M a = Some c \<Longrightarrow> 0 \<le> ctx_gpuId c" "\<not> initialised M \<Longrightarrow> contexts M = []"
  using assms unfolding contexts_ok_def by blast+

lemma listed_context: "contexts_ok M \<Longrightarrow> Some a \<in> set (contexts M) \<longleftrightarrow> (\<exists>c. context_heap M a = Some c)"
  using contexts_okD(3) by blast

lemma activeTaskCount_zero: "activeTaskCount ps = 0 \<longleftrightarrow> (\<forall>i<length ps. ps ! i = None)"
  by (induction ps) (auto simp: nth_Cons less_Suc_eq_0_disj split: nat.splits)

lemma no_task_no_slot:
  "(\<forall>a c. context_heap M a = Some c \<longrightarrow> activeTaskCount (taskResources c) = 0) \<longleftrightarrow> (\<forall>a i t. \<not> in_slot M a i t)"
proof -
  have "activeTaskCount (taskResources c) = 0 \<longleftrightarrow> (\<forall>i t. \<not> (i < length (taskResources c) \<and> taskResources c ! i = Some t))" for c
    unfolding activeTaskCount_zero by (metis option.distinct(1) option.exhaust)
  then show ?thesis unfolding in_slot_def by blast
qed

lemma findGpu_spec:
  assumes "\<And>a. Some a \<in> set ps \<Longrightarrow> h a \<noteq> None"
  shows "findGpu h ps gpu \<noteq> None"
    "findGpu h ps gpu = Some (Some a) \<Longrightarrow> Some a \<in> set ps \<and> (\<exists>c. h a = Some c \<and> ctx_gpuId c = gpu)"
    "findGpu h ps gpu = Some None \<Longrightarrow> \<forall>a c. Some a \<in> set ps \<and> h a = Some c \<longrightarrow> ctx_gpuId c \<noteq> gpu"
  using assms by (induction h ps gpu rule: findGpu.induct) (auto split: option.splits if_splits)

lemma empty_slot_from_spec:
  "k \<le> empty_slot_from k ps \<and> empty_slot_from k ps \<le> k + length ps
   \<and> (empty_slot_from k ps < k + length ps \<longrightarrow> ps ! (empty_slot_from k ps - k) = None)
   \<and> (\<forall>j<empty_slot_from k ps - k. ps ! j \<noteq> None)"
proof (induction ps arbitrary: k)
  case (Cons p ps)
  show ?case
  proof (cases "p = None")
    case False
    note I = Cons.IH [of "k + 1"]
    let ?e = "empty_slot_from (k + 1) ps"
    have "?e - k = Suc (?e - (k + 1))" using I by linarith
    then show ?thesis using False I by (auto simp: nth_Cons split: nat.splits)
  qed simp
qed simp

lemmas empty_slot_0 = empty_slot_from_spec [of 0, simplified]

section \<open>Registration\<close>

text \<open>
  The registration of a task under the lock: nothing when the GPU is unknown, otherwise the lowest
  empty slot of the GPU's context, or a new one, holds the task.
\<close>

lemma register_locked_outcome:
  assumes C: "contexts_ok M" and t: "task_heap M t = Some r"
  obtains (unknown) "register_locked gpu t r M = Some (False, M)"
      "\<forall>a c. context_heap M a = Some c \<longrightarrow> ctx_gpuId c \<noteq> gpu"
  | (bound) a c i slots where "context_heap M a = Some c" "ctx_gpuId c = gpu"
      "i = empty_slot_from 0 (taskResources c)"
      "slots = (if i = length (taskResources c) then taskResources c @ [Some t] else (taskResources c)[i := Some t])"
      "register_locked gpu t r M = Some (True, M\<lparr>context_heap := (context_heap M)(a \<mapsto> c\<lparr>taskResources := slots\<rparr>),
          task_heap := (task_heap M)(t \<mapsto> r\<lparr>resourceId := signed_take_bit 31 (int i), res_gpuId := gpu, ctx := Some a\<rparr>)\<rparr>)"
proof -
  have "context_heap M a \<noteq> None" if "Some a \<in> set (contexts M)" for a using that listed_context [OF C] by auto
  note F = findGpu_spec [of "contexts M" "context_heap M" gpu, OF this]
  obtain p where p: "findGpu (context_heap M) (contexts M) gpu = Some p" using F(1) by blast
  show ?thesis
  proof (cases p)
    case None
    then show ?thesis using p F(3) listed_context [OF C] by (intro unknown) (auto simp: register_locked_def)
  next
    case (Some a)
    then obtain c where "context_heap M a = Some c" "ctx_gpuId c = gpu" using p F(2) by blast
    then show ?thesis using p Some by (intro bound [OF _ _ refl refl]) (auto simp: register_locked_def Let_def)
  qed
qed

lemma small_id: "i < 2 ^ 31 \<Longrightarrow> signed_take_bit 31 (int i) = int i"
  by (simp add: signed_take_bit_int_eq_self)

definition crammed :: "GpuContextManager \<Rightarrow> bool" where
  "crammed M \<longleftrightarrow> (\<exists>a c. context_heap M a = Some c \<and> 2 ^ 31 \<le> Suc (length (taskResources c)))"

lemma nth_put_slot:
  assumes "i = empty_slot_from 0 ps" "ps' = (if i = length ps then ps @ [Some t] else ps[i := Some t])"
  shows "i < length ps'" "j < length ps' \<and> ps' ! j = Some u \<longleftrightarrow> (j = i \<and> u = t) \<or> (j < length ps \<and> ps ! j = Some u)"
  using empty_slot_0 [of ps] assms by (auto simp: nth_append nth_list_update split: if_splits)

lemma register_ok:
  assumes ok: "manager_ok M" and t: "task_heap M t = Some r" "ctx r = nullptr" and room: "\<not> crammed M"
    and run: "register_locked gpu t r M = Some (b, M')"
  shows "manager_ok M'"
proof -
  note D = manager_okD [OF ok] and C = contexts_okD [OF manager_okD(1) [OF ok]]
  show ?thesis
    using D(1) t(1)
  proof (cases rule: register_locked_outcome [where gpu = gpu])
    case unknown
    then show ?thesis using run ok by simp
  next
    case (bound a c i slots)
    let ?r = "r\<lparr>resourceId := int i, res_gpuId := gpu, ctx := Some a\<rparr>"
    have "i < 2 ^ 31" using bound(1,3) room empty_slot_0 [of "taskResources c"] by (fastforce simp: crammed_def)
    then have M': "M' = M\<lparr>context_heap := (context_heap M)(a \<mapsto> c\<lparr>taskResources := slots\<rparr>), task_heap := (task_heap M)(t \<mapsto> ?r)\<rparr>"
      using bound(5) run small_id [of i] by simp
    have slot: "in_slot M' b j u \<longleftrightarrow> (b = a \<and> j = i \<and> u = t) \<or> in_slot M b j u" for b j u
      using nth_put_slot [OF bound(3,4)] bound(1) M' by (auto simp: in_slot_def)
    have tie: "bound_to M' b j u \<longleftrightarrow> (b = a \<and> j = i \<and> u = t) \<or> bound_to M b j u" for b j u
      using t M' by (auto simp: bound_to_def)
    have ids: "map_option ctx_gpuId (context_heap M' b) = map_option ctx_gpuId (context_heap M b)" for b
      using bound(1) M' by simp
    have "0 \<le> resourceId r' \<and> map_option ctx_gpuId (context_heap M' b) = Some (res_gpuId r')"
      if "task_heap M' u = Some r'" "ctx r' = Some b" for u r' b
      unfolding ids using that D(4) [of u r' b] bound(1,2) M' by (cases "u = t") auto
    then have "registry_ok M'" using slot tie D(3) unfolding registry_ok_def by blast
    moreover have "contexts_ok M'"
    proof -
      have "dom (context_heap M') = dom (context_heap M)" using bound(1) M' by auto
      then show ?thesis using C M' bound(1) unfolding contexts_ok_def ids by auto
    qed
    ultimately show ?thesis by (simp add: manager_ok_def)
  qed
qed

lemma unregister_outcome:
  assumes ok: "manager_ok M" and t: "task_heap M t = Some r"
  obtains (free) "ctx r = nullptr" "unregisterTask t M = Some (True, M)"
  | (bound) a c i where "ctx r = Some a" "resourceId r = int i" "in_slot M a i t" "context_heap M a = Some c"
      "unregisterTask t M = Some (True, M\<lparr>context_heap := (context_heap M)(a \<mapsto> c\<lparr>taskResources := (taskResources c)[i := nullptr]\<rparr>),
          task_heap := (task_heap M)(t \<mapsto> r\<lparr>resourceId := -1, res_gpuId := -1, ctx := nullptr\<rparr>)\<rparr>)"
proof (cases "ctx r")
  case None
  then show ?thesis using t free by (simp add: unregisterTask_def)
next
  case (Some a)
  note D = manager_okD [OF ok] and C = contexts_okD [OF manager_okD(1) [OF ok]]
  obtain i where i: "resourceId r = int i" using D(4) [OF t Some] nonneg_int_cases by blast
  then have "in_slot M a i t" using D(3) t Some by (auto simp: bound_to_def)
  moreover obtain c where "context_heap M a = Some c" using D(4) [OF t Some] by blast
  moreover have "initialised M" using C(3,6) \<open>context_heap M a = Some c\<close> by fastforce
  ultimately show ?thesis
    using Some i t by (intro bound [of a i c]) (auto simp: unregisterTask_def in_slot_def)
qed

lemma unregister_ok:
  assumes ok: "manager_ok M" and run: "unregisterTask t M = Some (b, M')"
  shows "manager_ok M'"
proof -
  obtain r where t: "task_heap M t = Some r" using run by (auto simp: unregisterTask_def split: option.splits)
  note D = manager_okD [OF ok] and C = contexts_okD [OF manager_okD(1) [OF ok]]
  show ?thesis
    using ok t
  proof (cases rule: unregister_outcome)
    case free
    then show ?thesis using run ok by simp
  next
    case (bound a c i)
    let ?r = "r\<lparr>resourceId := -1, res_gpuId := -1, ctx := nullptr\<rparr>"
    have M': "M' = M\<lparr>context_heap := (context_heap M)(a \<mapsto> c\<lparr>taskResources := (taskResources c)[i := nullptr]\<rparr>), task_heap := (task_heap M)(t \<mapsto> ?r)\<rparr>"
      using bound(5) run by simp
    have slot: "in_slot M' b j u \<longleftrightarrow> \<not> (b = a \<and> j = i) \<and> in_slot M b j u" for b j u
      using bound(4) M' by (cases "j = i") (auto simp: in_slot_def)
    have tie: "bound_to M' b j u \<longleftrightarrow> u \<noteq> t \<and> bound_to M b j u" for b j u
      using t M' by (auto simp: bound_to_def)
    have ids: "map_option ctx_gpuId (context_heap M' b) = map_option ctx_gpuId (context_heap M b)" for b
      using bound(4) M' by simp
    have uniq: "u = t \<longleftrightarrow> b = a \<and> j = i" if "bound_to M b j u" for b j u
    proof
      assume "u = t"
      then show "b = a \<and> j = i" using that bound(1,2) t by (auto simp: bound_to_def)
    next
      assume "b = a \<and> j = i"
      then have "in_slot M a i u" using that D(3) by simp
      then show "u = t" using bound(3) by (auto simp: in_slot_def)
    qed
    then have "in_slot M' b j u \<longleftrightarrow> bound_to M' b j u" for b j u unfolding slot tie D(3) using uniq [of b j u] by blast
    moreover have "0 \<le> resourceId r' \<and> map_option ctx_gpuId (context_heap M' b) = Some (res_gpuId r')"
      if "task_heap M' u = Some r'" "ctx r' = Some b" for u r' b
      unfolding ids using that D(4) [of u r' b] M' by (cases "u = t") auto
    ultimately have "registry_ok M'" unfolding registry_ok_def by blast
    moreover have "contexts_ok M'"
    proof -
      have "dom (context_heap M') = dom (context_heap M)" using bound(4) M' by auto
      then show ?thesis using C M' bound(4) unfolding contexts_ok_def ids by auto
    qed
    ultimately show ?thesis by (simp add: manager_ok_def)
  qed
qed

section \<open>Initialisation and shutdown\<close>

lemma idle_manager:
  assumes "manager_ok M" "\<not> initialised M"
  shows "contexts M = []" "context_heap M = Map.empty" "\<not> in_slot M a i t" "task_heap M t = Some r \<Longrightarrow> ctx r = nullptr"
proof -
  note D = manager_okD [OF assms(1)] and C = contexts_okD [OF manager_okD(1) [OF assms(1)]]
  show c: "contexts M = []" using C(6) assms(2) .
  then show h: "context_heap M = Map.empty" using C(3) by auto
  show "\<not> in_slot M a i t" using h by (simp add: in_slot_def)
  show "ctx r = nullptr" if "task_heap M t = Some r" using D(4) [OF that] h by (cases "ctx r") auto
qed

lemma building_ids:
  assumes "building M" "i < length (contexts M)"
  shows "\<exists>a c. contexts M ! i = Some a \<and> context_heap M a = Some c \<and> ctx_gpuId c = int i"
proof -
  have "contexts M ! i \<in> set (contexts M)" using assms(2) by simp
  then obtain a where a: "contexts M ! i = Some a" using assms(1) unfolding building_def by (metis not_None_eq)
  have "map (\<lambda>p. map_option ctx_gpuId (context_heap M (the p))) (contexts M) ! i = map (Some \<circ> int) [0..<length (contexts M)] ! i"
    using assms(1) unfolding building_def by metis
  then show ?thesis using a assms(2) by auto
qed

lemma building_ok:
  assumes B: "building M" and free: "\<And>t r. task_heap M t = Some r \<Longrightarrow> ctx r = nullptr"
  shows "manager_ok (M\<lparr>initialised := True\<rparr>)"
proof -
  have "a = b" if "context_heap M a = Some c" "context_heap M b = Some d" "ctx_gpuId c = ctx_gpuId d" for a b c d
  proof -
    have "Some a \<in> set (contexts M)" "Some b \<in> set (contexts M)" using that B unfolding building_def by blast+
    then obtain i j where "i < length (contexts M)" "contexts M ! i = Some a" "j < length (contexts M)" "contexts M ! j = Some b"
      by (auto simp: in_set_conv_nth)
    then show ?thesis using building_ids [OF B, of i] building_ids [OF B, of j] that by auto
  qed
  then have "inj_on (\<lambda>a. map_option ctx_gpuId (context_heap M a)) (dom (context_heap M))" by (auto intro!: inj_onI)
  moreover have "0 \<le> ctx_gpuId c" if c: "context_heap M a = Some c" for a c
  proof -
    have "Some a \<in> set (contexts M)" using c B unfolding building_def by blast
    then obtain i where "i < length (contexts M)" "contexts M ! i = Some a" by (auto simp: in_set_conv_nth)
    then show ?thesis using building_ids [OF B, of i] c by auto
  qed
  ultimately have "contexts_ok (M\<lparr>initialised := True\<rparr>)" using B by (auto simp: contexts_ok_def building_def)
  moreover have "\<not> in_slot M a i t" for a i t using B by (fastforce simp: in_slot_def building_def)
  then have "registry_ok (M\<lparr>initialised := True\<rparr>)"
    using free by (fastforce simp: registry_ok_def in_slot_def bound_to_def)
  ultimately show ?thesis by (simp add: manager_ok_def)
qed

lemma manager_init_outcome:
  assumes ok: "manager_ok M" and fresh: "new_is_fresh api"
  shows "\<exists>b M' w'. manager_init api strict M w = Some (b, M', w') \<and> task_heap M' = task_heap M
    \<and> (if b then \<not> initialised M \<and> initialised M' \<and> contexts M' \<noteq> [] \<and> building M' \<and> manager_ok M' else M' = M)
    \<and> (counts_references api ret \<longrightarrow>
        (if b then \<forall>d. ret w' d = ret w d + held (context_heap M') (contexts M') d else ret w' = ret w))"
proof (cases "initialised M")
  case True
  then show ?thesis by (intro exI [of _ False]) (simp add: manager_init_def)
next
  case False
  note idle = idle_manager [OF ok False]
  obtain b1 w1 where w1: "cuInit api w = (b1, w1)" by fastforce
  obtain n w2 where w2: "cudaGetDeviceCount api w1 = (n, w2)" by fastforce
  have kept: "ret w1 = ret w" "ret w2 = ret w" if "counts_references api ret"
    using references_kept(1,2) [OF that] w1 w2 by metis+
  show ?thesis
  proof (cases "b1 \<and> (\<exists>k. n = Some k \<and> 0 < k)")
    case True
    then obtain k where k: "n = Some k" "0 < k" "b1" by blast
    have M: "M\<lparr>contexts := []\<rparr> = M" using idle(1) by simp
    have B: "building M" using idle(1,2) by (simp add: building_def)
    obtain b M1 w3 where run: "init_gpus api strict (map int [0..<nat k]) M w2 = Some (b, M1, w3)"
      "task_heap M1 = task_heap M" "initialised M1 = initialised M"
      and out: "if b then building M1 \<and> length (contexts M1) = max (nat k) (length (contexts M)) else contexts M1 = [] \<and> context_heap M1 = Map.empty"
      and refs: "counts_references api ret \<and> owes ret w2 (ret w) M \<longrightarrow> (if b then owes ret w3 (ret w) M1 else ret w3 = ret w)"
      using init_gpus_outcome [OF B fresh, of "map int [0..<nat k]" "nat k" strict w2 ret "ret w"] idle(1) by force
    have owes: "owes ret w2 (ret w) M" if "counts_references api ret" using kept(2) [OF that] idle(1) by (simp add: owes_def)
    show ?thesis
    proof (cases b)
      case True
      have "manager_ok (M1\<lparr>initialised := True\<rparr>)" using building_ok [of M1] out True run(2) idle(4) by auto
      moreover have "building (M1\<lparr>initialised := True\<rparr>)" using out True by (simp add: building_def)
      moreover have "contexts M1 \<noteq> []" using out True k(2) by auto
      ultimately show ?thesis
        using w1 w2 k run refs owes True False M by (auto simp: manager_init_def owes_def)
    next
      case fail: False
      have "M1 = M" using out fail run(2,3) idle(1,2) by simp
      then show ?thesis using w1 w2 k run(1) refs owes fail False M by (auto simp: manager_init_def)
    qed
  next
    case quit: False
    then have "\<exists>v. manager_init api strict M w = Some (False, M, v) \<and> (counts_references api ret \<longrightarrow> ret v = ret w)"
      using w1 w2 kept False by (cases b1; cases n) (auto simp: manager_init_def)
    then show ?thesis by auto
  qed
qed

lemma any_active_spec:
  assumes "\<And>a. Some a \<in> set ps \<Longrightarrow> h a \<noteq> None"
  shows "any_active h ps = Some (\<exists>a c. Some a \<in> set ps \<and> h a = Some c \<and> activeTaskCount (taskResources c) \<noteq> 0)"
  using assms by (induction h ps rule: any_active.induct) (auto split: option.splits)

lemma no_task_registered:
  assumes "manager_ok M"
  shows "(\<exists>a c. Some a \<in> set (contexts M) \<and> context_heap M a = Some c \<and> activeTaskCount (taskResources c) \<noteq> 0)
    \<longleftrightarrow> (\<exists>t r. task_heap M t = Some r \<and> ctx r \<noteq> nullptr)"
proof -
  note D = manager_okD [OF assms]
  have "(\<exists>a c. Some a \<in> set (contexts M) \<and> context_heap M a = Some c \<and> activeTaskCount (taskResources c) \<noteq> 0)
      \<longleftrightarrow> (\<exists>a i t. bound_to M a i t)"
    using no_task_no_slot [of M] listed_context [OF D(1)] D(3) by auto
  moreover have "(\<exists>a i t. bound_to M a i t) \<longleftrightarrow> (\<exists>t r. task_heap M t = Some r \<and> ctx r \<noteq> nullptr)"
  proof
    assume "\<exists>t r. task_heap M t = Some r \<and> ctx r \<noteq> nullptr"
    then obtain t r a where r: "task_heap M t = Some r" "ctx r = Some a" by auto
    then have "bound_to M a (nat (resourceId r)) t" using D(4) [OF r] by (simp add: bound_to_def)
    then show "\<exists>a i t. bound_to M a i t" by blast
  qed (auto simp: bound_to_def)
  ultimately show ?thesis by simp
qed

lemma manager_shutdown_outcome:
  assumes ok: "manager_ok M"
  shows "\<exists>M' w'. manager_shutdown api M w = Some (M', w')
    \<and> (if initialised M \<and> (\<forall>t r. task_heap M t = Some r \<longrightarrow> ctx r = nullptr)
       then M' = M\<lparr>contexts := [], context_heap := Map.empty, initialised := False\<rparr>
         \<and> (counts_references api ret \<and> owes ret w r0 M \<longrightarrow> ret w' = r0)
       else M' = M \<and> w' = w)"
proof (cases "initialised M")
  case True
  note D = manager_okD [OF ok] and C = contexts_okD [OF manager_okD(1) [OF ok]]
  have act: "any_active (context_heap M) (contexts M) = Some (\<exists>t r. task_heap M t = Some r \<and> ctx r \<noteq> nullptr)"
    using any_active_spec [of "contexts M" "context_heap M"] listed_context [OF D(1)] no_task_registered [OF ok] by auto
  show ?thesis
  proof (cases "\<exists>t r. task_heap M t = Some r \<and> ctx r \<noteq> nullptr")
    case busy: True
    then show ?thesis using act True by (auto simp: manager_shutdown_def)
  next
    case False
    then have "activeTaskCount (taskResources c) = 0" if "context_heap M a = Some c" for a c
      using no_task_registered [OF ok] listed_context [OF D(1)] that by blast
    then obtain w' where "releaseContexts api M w = Some (M\<lparr>contexts := [], context_heap := Map.empty\<rparr>, w')"
      "counts_references api ret \<and> owes ret w r0 M \<longrightarrow> ret w' = r0"
      using releaseContexts_all [OF C(1-3), of api w ret r0] by blast
    moreover have "any_active (context_heap M) (contexts M) = Some False" using act False by simp
    ultimately have "manager_shutdown api M w = Some (M\<lparr>contexts := [], context_heap := Map.empty, initialised := False\<rparr>, w')"
      "counts_references api ret \<and> owes ret w r0 M \<longrightarrow> ret w' = r0"
      using True by (auto simp: manager_shutdown_def)
    then show ?thesis using True False by auto
  qed
qed (simp add: manager_shutdown_def)

section \<open>All callers\<close>

text \<open>
  The calls of all threads, serialised by the lock, and what the owners of task resources do: they
  create them, use every field but the three of the registration, and delete those that are not
  registered.  \<open>registerTask\<close> tests \<open>initialised\<close> before it takes the lock, so the step that does
  its work is enabled in every state: a shutdown may have come in between.
\<close>

definition same_registration :: "TaskGpuResources \<Rightarrow> TaskGpuResources \<Rightarrow> bool" where
  "same_registration r r' \<longleftrightarrow> resourceId r' = resourceId r \<and> res_gpuId r' = res_gpuId r \<and> ctx r' = ctx r"

inductive manager_step :: "('w, 'x) driver_api_scheme \<Rightarrow> GpuContextManager \<Rightarrow> GpuContextManager \<Rightarrow> bool" for api M where
  init: "manager_init api strict M w = Some (b, M', w') \<Longrightarrow> manager_step api M M'"
| register: "task_heap M t = Some r \<Longrightarrow> ctx r = nullptr \<Longrightarrow> 0 \<le> gpu \<Longrightarrow> \<not> crammed M \<Longrightarrow>
    register_locked gpu t r M = Some (b, M') \<Longrightarrow> manager_step api M M'"
| unregister: "unregisterTask t M = Some (b, M') \<Longrightarrow> manager_step api M M'"
| shutdown: "manager_shutdown api M w = Some (M', w') \<Longrightarrow> manager_step api M M'"
| create: "task_heap M t = None \<Longrightarrow> manager_step api M (M\<lparr>task_heap := (task_heap M)(t \<mapsto> new_resources)\<rparr>)"
| use: "task_heap M t = Some r \<Longrightarrow> same_registration r r' \<Longrightarrow> manager_step api M (M\<lparr>task_heap := (task_heap M)(t \<mapsto> r')\<rparr>)"
| delete: "task_heap M t = Some r \<Longrightarrow> ctx r = nullptr \<Longrightarrow> manager_step api M (M\<lparr>task_heap := (task_heap M)(t := None)\<rparr>)"

definition manager_starts :: "('w, 'x) driver_api_scheme \<Rightarrow> GpuContextManager \<Rightarrow> bool" where
  "manager_starts api M \<longleftrightarrow> new_is_fresh api \<and> M = new_manager Map.empty"

text \<open>What the registry sees of a task: context, resource id and GPU of its registration.\<close>

definition registration :: "TaskGpuResources option \<Rightarrow> (nat \<times> int \<times> int) option" where
  "registration v = (case v of None \<Rightarrow> None | Some r \<Rightarrow> map_option (\<lambda>a. (a, resourceId r, res_gpuId r)) (ctx r))"

lemma registration_Some: "registration v = Some (a, k, g) \<longleftrightarrow> (\<exists>r. v = Some r \<and> ctx r = Some a \<and> resourceId r = k \<and> res_gpuId r = g)"
  by (auto simp: registration_def split: option.splits)

lemma registry_ok_registration:
  "registry_ok M \<longleftrightarrow> (\<forall>a i t. in_slot M a i t \<longleftrightarrow> (\<exists>g. registration (task_heap M t) = Some (a, int i, g)))
     \<and> (\<forall>t a k g. registration (task_heap M t) = Some (a, k, g) \<longrightarrow> 0 \<le> k \<and> map_option ctx_gpuId (context_heap M a) = Some g)"
  unfolding registry_ok_def registration_Some bound_to_def by blast

lemma task_change_ok:
  assumes "manager_ok M" "registration (task_heap M t) = registration v"
  shows "manager_ok (M\<lparr>task_heap := (task_heap M)(t := v)\<rparr>)"
proof -
  have "registration (task_heap (M\<lparr>task_heap := (task_heap M)(t := v)\<rparr>) u) = registration (task_heap M u)" for u
    using assms(2) by simp
  moreover have "contexts_ok (M\<lparr>task_heap := (task_heap M)(t := v)\<rparr>)"
    using contexts_okD [OF manager_okD(1) [OF assms(1)]] unfolding contexts_ok_def by simp
  ultimately show ?thesis
    using assms(1) unfolding manager_ok_def registry_ok_registration by (simp add: in_slot_def)
qed

lemma manager_step_ok:
  assumes fresh: "new_is_fresh api" and ok: "manager_ok M" and st: "manager_step api M M'"
  shows "manager_ok M'"
  using st
proof (cases rule: manager_step.cases)
  case (init strict w b w')
  then show ?thesis using manager_init_outcome [OF ok fresh, of strict w "\<lambda>_ _. 0"] ok by (cases b) auto
next
  case (register t r gpu b)
  then show ?thesis using register_ok [OF ok] by blast
next
  case (unregister t b)
  then show ?thesis using unregister_ok [OF ok] by blast
next
  case (shutdown w w')
  then consider "M' = M" | "M' = M\<lparr>contexts := [], context_heap := Map.empty, initialised := False\<rparr>"
    "\<forall>t r. task_heap M t = Some r \<longrightarrow> ctx r = nullptr"
    using manager_shutdown_outcome [OF ok, of api w "\<lambda>_ _. 0" "\<lambda>_. 0"] by (auto split: if_splits)
  then show ?thesis
    using ok by cases (auto simp: manager_ok_def contexts_ok_def registry_ok_def in_slot_def bound_to_def)
next
  case (create t)
  then show ?thesis using task_change_ok [OF ok, of t "Some new_resources"] by (simp add: registration_def new_resources_def)
next
  case (use t r r')
  then show ?thesis using task_change_ok [OF ok, of t "Some r'"] by (simp add: registration_def same_registration_def)
next
  case (delete t r)
  then show ?thesis using task_change_ok [OF ok, of t None] by (simp add: registration_def)
qed

interpretation mgr: state_machine "manager_starts api" "manager_step api" "\<lambda>M. new_is_fresh api \<and> manager_ok M" for api
proof unfold_locales
  show "new_is_fresh api \<and> manager_ok M" if "manager_starts api M" for M
    using that by (auto simp: manager_starts_def new_manager_def manager_ok_def contexts_ok_def registry_ok_def in_slot_def bound_to_def)
  show "new_is_fresh api \<and> manager_ok N" if "new_is_fresh api \<and> manager_ok M" "manager_step api M N" for M N
    using that manager_step_ok by blast
qed

end
