(* ===== verification/Context_Properties.thy ===== *)
theory Context_Properties
  imports Context_Registry
begin

text \<open>
  What the context manager promises, in every state its callers can reach, and a concrete driver
  with two GPUs on which the promises are exercised.
\<close>

lemma manager_one: "manager_step api M N \<Longrightarrow> steps (manager_step api) M N"
  by (rule steps_one)

section \<open>A concrete driver\<close>

text \<open>
  Two GPUs on two NUMA nodes; the state of the driver is the number of references to each primary
  context.
\<close>

definition sample_driver :: "(int \<Rightarrow> nat) driver_api" where
  "sample_driver = \<lparr>
     cudaGetDevice = \<lambda>w. (Some 0, w), cudaSetDevice = \<lambda>d w. (True, w), cudaMalloc = \<lambda>n w. (Some (Some 1), w),
     cudaFree = \<lambda>p w. (True, w), cudaStreamCreateWithFlags = \<lambda>w. (Some (Some 1), w),
     cudaStreamSynchronize = \<lambda>s w. (True, w), cudaStreamDestroy = \<lambda>s w. (True, w),
     cudaMemsetAsync = \<lambda>p n s w. (True, w), cudaMemcpyAsync = \<lambda>d p n s w. (True, w),
     cudaMemGetInfo = \<lambda>w. (Some (0, 0), w),
     cuInit = \<lambda>w. (True, w), cudaGetDeviceCount = \<lambda>w. (Some 2, w),
     cudaDeviceGetPCIBusId = \<lambda>g w. (Some (if g = 0 then ''0000:3B:00.0'' else ''0000:AF:00.0''), w),
     cuDeviceGet = \<lambda>g w. (Some g, w),
     cuDevicePrimaryCtxRetain = \<lambda>d w. (Some (Some 5), w(d := w d + 1)),
     cuDevicePrimaryCtxRelease = \<lambda>d w. (True, w(d := w d - 1)),
     cuCtxGetId = \<lambda>p w. (Some 9, w), cudaGetDeviceProperties = \<lambda>g w. (True, w), has_ctx_id = True,
     read_file = \<lambda>f w. (Some (if f = ''/sys/bus/pci/devices/0000:3b:00.0/numa_node'' then ''0'' else ''1''), w),
     new_context = \<lambda>h w. (if h 100 = None then Some 100 else if h 200 = None then Some 200 else None, w)\<rparr>"

lemma sample_driver_documented: "new_is_fresh sample_driver" "counts_references sample_driver (\<lambda>w. w)"
  by (auto simp: sample_driver_def new_is_fresh_def counts_references_def split: if_splits)

lemma sample_manager_starts: "manager_starts sample_driver (new_manager Map.empty)"
  using sample_driver_documented(1) by (simp add: manager_starts_def)

lemmas sample_start = mgr.start_invar [OF sample_manager_starts]

lemma sample_nodes: "fscanf_int ''0'' = Some 0" "fscanf_int ''1'' = Some 1"
  by code_simp+

lemma sample_paths: "map to_lower ''0000:3B:00.0'' = ''0000:3b:00.0''" "map to_lower ''0000:AF:00.0'' = ''0000:af:00.0''"
  by code_simp+

lemma sample_node_of_gpu: "node_of_gpu sample_driver True g w = (if g = 0 then 0 else 1, w)"
  using sample_nodes sample_paths by (simp add: node_of_gpu_def probeNumaNodeOfGpu_def sample_driver_def)

lemma sample_calls:
  "cuInit sample_driver w = (True, w)" "cudaGetDeviceCount sample_driver w = (Some 2, w)" "cudaSetDevice sample_driver d w = (True, w)"
  "cudaFree sample_driver p w = (True, w)" "cuDeviceGet sample_driver d w = (Some d, w)" "has_ctx_id sample_driver"
  "cuDevicePrimaryCtxRetain sample_driver d w = (Some (Some 5), w(d := w d + 1))" "cuCtxGetId sample_driver p w = (Some 9, w)"
  "cudaGetDeviceProperties sample_driver d w = (True, w)"
  "new_context sample_driver h w = (if h 100 = None then Some 100 else if h 200 = None then Some 200 else None, w)"
  by (simp_all add: sample_driver_def)

lemma sample_init: "\<exists>M. manager_init sample_driver True (new_manager Map.empty) (\<lambda>_. 0) = Some (True, M, (\<lambda>_. 0)(0 := 1, 1 := 1))
    \<and> gpuLocations M = Some [\<lparr>loc_gpuId = 0, loc_numaNode = 0\<rparr>, \<lparr>loc_gpuId = 1, loc_numaNode = 1\<rparr>]
    \<and> task_heap M = Map.empty \<and> initialised M"
proof -
  have two: "map int [0..<2] = [0, 1]" by (simp add: upt_rec)
  show ?thesis
    by (simp add: manager_init_def init_gpu_def two retain_context_def new_manager_def gpuLocations_def
        sample_calls sample_node_of_gpu new_gpu_context_def)
qed


lemma sample_task:
  "\<exists>M r a. steps (manager_step sample_driver) (new_manager Map.empty) M \<and> task_heap M 3 = Some r \<and> ctx r = Some a"
proof -
  obtain M where M: "manager_init sample_driver True (new_manager Map.empty) (\<lambda>_. 0) = Some (True, M, (\<lambda>_. 0)(0 := 1, 1 := 1))"
    "gpuLocations M = Some [\<lparr>loc_gpuId = 0, loc_numaNode = 0\<rparr>, \<lparr>loc_gpuId = 1, loc_numaNode = 1\<rparr>]"
    "task_heap M = Map.empty" "initialised M" using sample_init by blast
  have s1: "steps (manager_step sample_driver) (new_manager Map.empty) M"
    by (rule steps_one) (rule manager_step.init [OF M(1)])
  let ?M = "M\<lparr>task_heap := (task_heap M)(3 \<mapsto> new_resources)\<rparr>"
  have s2: "steps (manager_step sample_driver) (new_manager Map.empty) ?M"
    using steps.more [OF s1 manager_step.create] M(3) by simp
  have ok: "manager_ok M" "manager_ok ?M" using mgr.steps_invar [OF s1] mgr.steps_invar [OF s2] sample_start by auto
  have b: "building M" using manager_init_outcome [OF conjunct2 [OF sample_start] conjunct1 [OF sample_start], of True "\<lambda>_. 0" "\<lambda>_ _. 0"] M(1) by auto
  have room: "\<not> crammed ?M" using b by (fastforce simp: crammed_def building_def)
  obtain a c where ac: "contexts M ! 0 = Some a" "context_heap M a = Some c" "ctx_gpuId c = 0"
    using building_ids [OF b, of 0] M(2) by (cases "contexts M") (auto simp: gpuLocations_def)
  have "contexts_ok ?M" "task_heap ?M 3 = Some new_resources" using ok by (simp_all add: manager_ok_def)
  then obtain M' where "register_locked 0 3 new_resources ?M = Some (True, M')" "\<exists>r a. task_heap M' 3 = Some r \<and> ctx r = Some a"
    using ac(2,3) by (cases rule: register_locked_outcome [where gpu = 0]) auto
  moreover have "ctx new_resources = nullptr" by (simp add: new_resources_def)
  ultimately show ?thesis
    using steps.more [OF s2 manager_step.register [of ?M 3 new_resources 0 True M']] room by fastforce
qed

section \<open>Properties\<close>

text \<open>
  C9.  A registration is stable and exclusive.  Whatever sequence of calls was made by whatever
  threads, a task that is registered is found in the slot of its resource id, in a context that
  still exists and that belongs to its GPU, and no other task of that context has the same resource
  id.  In particular no shutdown took the context away.
\<close>

theorem registration_is_stable:
  assumes "manager_starts api M0" "steps (manager_step api) M0 M" "task_heap M t = Some r" "ctx r = Some a"
  shows "initialised M \<and> (\<exists>c. context_heap M a = Some c \<and> ctx_gpuId c = res_gpuId r \<and> 0 \<le> resourceId r
      \<and> nat (resourceId r) < length (taskResources c) \<and> taskResources c ! nat (resourceId r) = Some t)
    \<and> (\<forall>u q. u \<noteq> t \<and> task_heap M u = Some q \<and> ctx q = Some a \<longrightarrow> resourceId q \<noteq> resourceId r)"
proof -
  have ok: "manager_ok M" using mgr.reached_invar [OF assms(1,2)] by blast
  note D = manager_okD [OF ok] and C = contexts_okD [OF manager_okD(1) [OF ok]]
  obtain c where c: "context_heap M a = Some c" "ctx_gpuId c = res_gpuId r" and id: "0 \<le> resourceId r"
    using D(4) [OF assms(3,4)] by auto
  have here: "in_slot M a (nat (resourceId r)) t" using D(3) assms(3,4) id by (auto simp: bound_to_def)
  have "resourceId q \<noteq> resourceId r" if "u \<noteq> t" "task_heap M u = Some q" "ctx q = Some a" for u q
  proof
    assume "resourceId q = resourceId r"
    then have "in_slot M a (nat (resourceId r)) u" using D(3) that(2,3) id by (auto simp: bound_to_def)
    then show False using here that(1) by (auto simp: in_slot_def)
  qed
  moreover have "initialised M" using idle_manager(2) [OF ok] c(1) by fastforce
  ultimately show ?thesis using here c id by (auto simp: in_slot_def)
qed

theorem registration_is_stable_witness:
  "\<exists>M t r. steps (manager_step sample_driver) (new_manager Map.empty) M \<and> task_heap M t = Some r \<and> ctx r \<noteq> nullptr \<and> initialised M"
  using sample_task registration_is_stable [OF sample_manager_starts] by fastforce

text \<open>
  C10.  Registering and unregistering undo each other.  Registering a free task with a known GPU
  puts it into the lowest empty slot of that GPU's context and changes no other slot and no other
  task; unregistering it then succeeds and gives back the slots as they were and the task with its
  registration cleared.  With an unknown GPU nothing changes.
\<close>

theorem register_unregister_roundtrip:
  assumes "manager_starts api M0" "steps (manager_step api) M0 M" "task_heap M t = Some r" "register_allowed gpu r M" "\<not> crammed M"
  shows "(\<exists>a c i M1 M2. context_heap M a = Some c \<and> ctx_gpuId c = gpu
      \<and> (\<forall>j<i. taskResources c ! j \<noteq> nullptr) \<and> (i < length (taskResources c) \<longrightarrow> taskResources c ! i = nullptr)
      \<and> registerTask gpu t M = Some (True, M1)
      \<and> (\<forall>b j u. in_slot M1 b j u \<longleftrightarrow> (b = a \<and> j = i \<and> u = t) \<or> in_slot M b j u)
      \<and> task_heap M1 = (task_heap M)(t \<mapsto> r\<lparr>resourceId := int i, res_gpuId := gpu, ctx := Some a\<rparr>)
      \<and> unregisterTask t M1 = Some (True, M2) \<and> (\<forall>b j u. in_slot M2 b j u \<longleftrightarrow> in_slot M b j u)
      \<and> task_heap M2 = (task_heap M)(t \<mapsto> r\<lparr>resourceId := -1, res_gpuId := -1, ctx := nullptr\<rparr>))
    \<or> (\<forall>a c. context_heap M a = Some c \<longrightarrow> ctx_gpuId c \<noteq> gpu) \<and> registerTask gpu t M = Some (False, M)"
proof -
  have ok: "manager_ok M" using mgr.reached_invar [OF assms(1,2)] by blast
  note D = manager_okD [OF ok]
  have free: "ctx r = nullptr" using assms(4) by (simp add: register_allowed_def)
  have reg: "registerTask gpu t M = register_locked gpu t r M" using assms(3,4) by (simp add: registerTask_def)
  show ?thesis
    using D(1) assms(3)
  proof (cases rule: register_locked_outcome [where gpu = gpu])
    case unknown
    then show ?thesis using reg by (intro disjI2) simp
  next
    case (bound a c i slots)
    let ?r = "r\<lparr>resourceId := int i, res_gpuId := gpu, ctx := Some a\<rparr>"
    let ?M1 = "M\<lparr>context_heap := (context_heap M)(a \<mapsto> c\<lparr>taskResources := slots\<rparr>), task_heap := (task_heap M)(t \<mapsto> ?r)\<rparr>"
    have "i < 2 ^ 31" using bound(1,3) assms(5) empty_slot_0 [of "taskResources c"] by (fastforce simp: crammed_def)
    then have run: "register_locked gpu t r M = Some (True, ?M1)" using bound(5) small_id [of i] by simp
    have slot: "in_slot ?M1 b j u \<longleftrightarrow> (b = a \<and> j = i \<and> u = t) \<or> in_slot M b j u" for b j u
      using nth_put_slot [OF bound(3,4)] bound(1) by (auto simp: in_slot_def)
    have vacant: "\<not> in_slot M a i u" for u
      using empty_slot_0 [of "taskResources c"] bound(1,3) by (auto simp: in_slot_def)
    have ok1: "manager_ok ?M1" using register_ok [OF ok assms(3) free assms(5) run] .
    have t1: "task_heap ?M1 t = Some ?r" by simp
    obtain M2 where M2: "unregisterTask t ?M1 = Some (True, M2)"
      "context_heap M2 = (context_heap ?M1)(a \<mapsto> c\<lparr>taskResources := slots[i := nullptr]\<rparr>)"
      "task_heap M2 = (task_heap M)(t \<mapsto> r\<lparr>resourceId := -1, res_gpuId := -1, ctx := nullptr\<rparr>)"
      using ok1 t1 by (cases rule: unregister_outcome) auto
    have "in_slot M2 b j u \<longleftrightarrow> in_slot M b j u" for b j u
      using slot [of b j u] vacant [of u] M2(2) by (cases "b = a \<and> j = i") (auto simp: in_slot_def)
    then show ?thesis
      using bound(1-3) reg run slot M2(1,3) empty_slot_0 [of "taskResources c"]
      by (intro disjI1 exI [of _ a] exI [of _ c] exI [of _ i] exI [of _ ?M1] exI [of _ M2]) auto
  qed
qed


lemma sample_free_task:
  "\<exists>M. steps (manager_step sample_driver) (new_manager Map.empty) M \<and> task_heap M 3 = Some new_resources
     \<and> register_allowed 0 new_resources M \<and> \<not> crammed M"
proof -
  obtain M w where M: "manager_init sample_driver True (new_manager Map.empty) (\<lambda>_. 0) = Some (True, M, w)"
    "task_heap M = Map.empty" "initialised M" using sample_init by blast
  let ?M = "M\<lparr>task_heap := (task_heap M)(3 \<mapsto> new_resources)\<rparr>"
  have "steps (manager_step sample_driver) (new_manager Map.empty) ?M"
    using steps.more [OF manager_one [OF manager_step.init [OF M(1)]] manager_step.create] M(2) by simp
  moreover have "building M"
    using manager_init_outcome [OF conjunct2 [OF sample_start] conjunct1 [OF sample_start], of True "\<lambda>_. 0" "\<lambda>_ _. 0"] M(1) by auto
  then have "\<not> crammed ?M" by (fastforce simp: crammed_def building_def)
  ultimately show ?thesis using M(3) by (intro exI [of _ ?M]) (simp add: register_allowed_def new_resources_def)
qed

theorem register_unregister_roundtrip_witness:
  "\<exists>M b M'. steps (manager_step sample_driver) (new_manager Map.empty) M \<and> registerTask 0 3 M = Some (b, M')"
  using sample_free_task register_unregister_roundtrip [OF sample_manager_starts] by blast

text \<open>
  C11.  Initialisation is all or nothing.  It fails without any effect on the manager, or succeeds
  and then lists one new context per GPU, in the order of the GPU ids from 0, with no task in them.
  The references it holds to primary contexts are those of the listed contexts; after a failure, at
  whatever GPU and in whatever call it happened, every reference it had taken is given back.
\<close>

theorem init_all_or_nothing:
  assumes "manager_starts api M0" "steps (manager_step api) M0 M" "counts_references api ret"
  shows "\<exists>b M' w'. manager_init api strict M w = Some (b, M', w')
    \<and> (if b then \<not> initialised M \<and> initialised M' \<and> task_heap M' = task_heap M \<and> contexts M' \<noteq> []
         \<and> (\<forall>i<length (contexts M'). \<exists>a c. contexts M' ! i = Some a \<and> context_heap M' a = Some c
              \<and> ctx_gpuId c = int i \<and> taskResources c = [])
         \<and> (\<forall>d. ret w' d = ret w d + held (context_heap M') (contexts M') d)
       else M' = M \<and> ret w' = ret w)"
proof -
  have ok: "new_is_fresh api" "manager_ok M" using mgr.reached_invar [OF assms(1,2)] by blast+
  obtain b M' w' where run: "manager_init api strict M w = Some (b, M', w')" "task_heap M' = task_heap M"
    and out: "if b then \<not> initialised M \<and> initialised M' \<and> contexts M' \<noteq> [] \<and> building M' \<and> manager_ok M' else M' = M"
    and refs: "if b then \<forall>d. ret w' d = ret w d + held (context_heap M') (contexts M') d else ret w' = ret w"
    using manager_init_outcome [OF ok(2,1), of strict w ret] assms(3) by blast
  have "\<exists>a c. contexts M' ! i = Some a \<and> context_heap M' a = Some c \<and> ctx_gpuId c = int i \<and> taskResources c = []"
    if "b" "i < length (contexts M')" for i
    using building_ids [of M' i] that out unfolding building_def by fastforce
  then show ?thesis using run out refs by (cases b) auto
qed

theorem init_all_or_nothing_witness:
  "\<exists>M' w'. manager_init sample_driver True (new_manager Map.empty) (\<lambda>_. 0) = Some (True, M', w')
    \<and> (\<forall>d. w' d = held (context_heap M') (contexts M') d)"
  using sample_init init_all_or_nothing [OF sample_manager_starts steps.none sample_driver_documented(2), of True "\<lambda>_. 0"] by auto

text \<open>
  Shutdown waits for the tasks.  As long as some task is registered, or before initialisation,
  it changes nothing at all.  Otherwise it deletes every context, gives back exactly the references
  to primary contexts that the listed contexts held, and leaves the manager as at program start,
  ready for another initialisation.
\<close>

theorem shutdown_outcome:
  assumes "manager_starts api M0" "steps (manager_step api) M0 M" "counts_references api ret"
    "\<forall>d. ret w d = r0 d + held (context_heap M) (contexts M) d"
  shows "\<exists>M' w'. manager_shutdown api M w = Some (M', w')
    \<and> (if initialised M \<and> (\<forall>t r. task_heap M t = Some r \<longrightarrow> ctx r = nullptr)
       then M' = new_manager (task_heap M) \<and> ret w' = r0 else M' = M \<and> w' = w)"
proof -
  have ok: "manager_ok M" using mgr.reached_invar [OF assms(1,2)] by blast
  have eq: "M\<lparr>contexts := [], context_heap := Map.empty, initialised := False\<rparr> = new_manager (task_heap M)"
    by (simp add: new_manager_def)
  have "owes ret w r0 M" using assms(4) by (simp add: owes_def)
  then show ?thesis
    using manager_shutdown_outcome [OF ok, of api w ret r0] assms(3) unfolding eq by metis
qed

theorem shutdown_outcome_witness:
  "\<exists>M w. manager_init sample_driver True (new_manager Map.empty) (\<lambda>_. 0) = Some (True, M, w)
    \<and> manager_shutdown sample_driver M w = Some (new_manager Map.empty, \<lambda>_. 0)"
proof -
  obtain M w where M: "manager_init sample_driver True (new_manager Map.empty) (\<lambda>_. 0) = Some (True, M, w)"
    "task_heap M = Map.empty" "initialised M" using sample_init by blast
  have "\<forall>d. w d = 0 + held (context_heap M) (contexts M) d"
    using manager_init_outcome [OF conjunct2 [OF sample_start] sample_driver_documented(1), of True "\<lambda>_. 0" "\<lambda>w. w"]
      sample_driver_documented(2) M(1) by auto
  then show ?thesis
    using shutdown_outcome [OF sample_manager_starts manager_one [OF manager_step.init [OF M(1)]] sample_driver_documented(2), of w "\<lambda>_. 0"] M by auto
qed

lemma gpu_locations_defined: "(\<And>a. Some a \<in> set ps \<Longrightarrow> h a \<noteq> None) \<Longrightarrow> gpu_locations h ps \<noteq> None"
  by (induction h ps rule: gpu_locations.induct) (auto split: option.splits)

text \<open>
  C12.  No call follows a pointer to a context that is gone.  In every state that the callers can
  reach, all operations of the manager return for every task resource that exists; making a
  registered task current selects exactly the GPU it is registered with, and an unregistered task is
  refused.
\<close>

theorem no_dangling_context:
  assumes "manager_starts api M0" "steps (manager_step api) M0 M" "task_heap M t = Some r"
  shows "makeTaskCurrent api r M w = Some (if ctx r = nullptr then (False, w) else cudaSetDevice api (res_gpuId r) w)
    \<and> registerTask gpu t M \<noteq> None \<and> unregisterTask t M \<noteq> None \<and> gpuLocations M \<noteq> None
    \<and> manager_init api strict M w \<noteq> None \<and> manager_shutdown api M w \<noteq> None"
proof -
  have ok: "new_is_fresh api" "manager_ok M" using mgr.reached_invar [OF assms(1,2)] by blast+
  note D = manager_okD [OF ok(2)] and C = contexts_okD [OF manager_okD(1) [OF ok(2)]]
  have "makeTaskCurrent api r M w = Some (if ctx r = nullptr then (False, w) else cudaSetDevice api (res_gpuId r) w)"
  proof (cases "ctx r")
    case (Some a)
    then obtain c where c: "context_heap M a = Some c" "ctx_gpuId c = res_gpuId r" using D(4) [OF assms(3)] by auto
    moreover have "initialised M" using idle_manager(2) [OF ok(2)] c(1) by fastforce
    moreover have "0 \<le> res_gpuId r" using C(5) [OF c(1)] c(2) by simp
    ultimately show ?thesis using Some by (simp add: makeTaskCurrent_def)
  qed (simp add: makeTaskCurrent_def)
  moreover have "register_locked gpu t r M \<noteq> None"
    using D(1) assms(3) by (cases rule: register_locked_outcome [where gpu = gpu]) auto
  then have "registerTask gpu t M \<noteq> None" using assms(3) by (cases "register_allowed gpu r M") (simp_all add: registerTask_def)
  moreover have "unregisterTask t M \<noteq> None" using ok(2) assms(3) by (cases rule: unregister_outcome) auto
  moreover have "gpuLocations M \<noteq> None"
    unfolding gpuLocations_def using gpu_locations_defined [of "contexts M" "context_heap M"] listed_context [OF D(1)] by auto
  moreover have "manager_init api strict M w \<noteq> None" "manager_shutdown api M w \<noteq> None"
    using manager_init_outcome [OF ok(2,1), of strict w "\<lambda>_ _. 0"] manager_shutdown_outcome [OF ok(2), of api w "\<lambda>_ _. 0" "\<lambda>_. 0"] by auto
  ultimately show ?thesis by blast
qed

theorem no_dangling_context_witness:
  "\<exists>M r. steps (manager_step sample_driver) (new_manager Map.empty) M \<and> ctx r \<noteq> nullptr
    \<and> makeTaskCurrent sample_driver r M (\<lambda>_. 0) = Some (True, \<lambda>_. 0)"
proof -
  obtain M r a where M: "steps (manager_step sample_driver) (new_manager Map.empty) M" "task_heap M 3 = Some r" "ctx r = Some a"
    using sample_task by blast
  show ?thesis
    using no_dangling_context [OF sample_manager_starts M(1,2), of "\<lambda>_. 0" 0 True] M by (auto simp: sample_calls)
qed

end
