(* ===== verification/Static_Gpu_Data.thy ===== *)
theory Static_Gpu_Data
  imports Cuda_Runtime State_Machine
begin

text \<open>
  \<open>StaticData/StaticGpuData.h\<close> and \<open>.cpp\<close>: the buffers for detection zones and distortion
  tables that are filled once and then shared read-only.  The class is a state machine: empty,
  uploading, ready, failed.  The framework serialises its operations.
\<close>

section \<open>The class\<close>

datatype StaticGpuDataType = DetectionZones | DistortionTables | OtherDataType int

datatype StaticGpuDataState = StaticEmpty | Uploading | StaticReady | StaticFailed

record Buffer =
  buf_data :: ptr
  capacity :: size_t

definition new_buffer :: Buffer where
  "new_buffer = \<lparr>buf_data = nullptr, capacity = 0\<rparr>"

record StaticGpuData =
  buffers :: "Buffer list"
  uploadStream :: stream
  staticDevice :: int
  currentState :: StaticGpuDataState

definition new_static :: StaticGpuData where
  "new_static = \<lparr>buffers = [new_buffer, new_buffer], uploadStream = nullptr, staticDevice = -1, currentState = StaticEmpty\<rparr>"

subsection \<open>Release\<close>

definition hasResources :: "StaticGpuData \<Rightarrow> bool" where
  "hasResources d \<longleftrightarrow> uploadStream d \<noteq> nullptr \<or> list_ex (\<lambda>b. buf_data b \<noteq> nullptr) (buffers d)"

fun free_buffers :: "('w, 'x) cuda_api_scheme \<Rightarrow> Buffer list \<Rightarrow> 'w \<Rightarrow> bool \<times> Buffer list \<times> 'w" where
  "free_buffers api [] w = (True, [], w)"
| "free_buffers api (b # bs) w =
     (if buf_data b = nullptr
      then let (ok, bs', w') = free_buffers api bs w in (ok, b # bs', w')
      else let (freed, w1) = cudaFree api (buf_data b) w;
               (ok, bs', w') = free_buffers api bs w1
           in (freed \<and> ok, (if freed then b\<lparr>buf_data := nullptr\<rparr> else b) # bs', w'))"

definition destroy_stream :: "('w, 'x) cuda_api_scheme \<Rightarrow> stream \<Rightarrow> 'w \<Rightarrow> bool \<times> stream \<times> 'w" where
  "destroy_stream api st w =
     (if st = nullptr then (True, st, w)
      else let (destroyed, w1) = cudaStreamDestroy api st w in (destroyed, if destroyed then nullptr else st, w1))"

definition sync_stream :: "('w, 'x) cuda_api_scheme \<Rightarrow> stream \<Rightarrow> 'w \<Rightarrow> bool \<times> 'w" where
  "sync_stream api st w = (if st = nullptr then (True, w) else cudaStreamSynchronize api st w)"

text \<open>\<open>release\<close> once the device is selected, if one had to be.\<close>

definition release_resources :: "('w, 'x) cuda_api_scheme \<Rightarrow> StaticGpuData \<Rightarrow> 'w \<Rightarrow> bool \<times> StaticGpuData \<times> 'w" where
  "release_resources api d w =
     (let (synced, w1) = sync_stream api (uploadStream d) w;
          (freed, bs, w2) = free_buffers api (buffers d) w1;
          (destroyed, st, w3) = destroy_stream api (uploadStream d) w2;
          allReleased = (st = nullptr \<and> list_all (\<lambda>b. buf_data b = nullptr) bs)
      in (destroyed \<and> freed \<and> synced,
          if allReleased
          then d\<lparr>buffers := [new_buffer, new_buffer], uploadStream := st, staticDevice := -1, currentState := StaticEmpty\<rparr>
          else d\<lparr>buffers := bs, uploadStream := st\<rparr>,
          w3))"

definition static_release :: "('w, 'x) cuda_api_scheme \<Rightarrow> StaticGpuData \<Rightarrow> 'w \<Rightarrow> bool \<times> StaticGpuData \<times> 'w" where
  "static_release api d w =
     (if hasResources d
      then let d1 = d\<lparr>currentState := StaticFailed\<rparr>;
               (g, w1) = guard_new api (staticDevice d) w
           in if \<not> guard_ok g then (False, d1, guard_delete api g w1)
              else let (ok, d2, w2) = release_resources api d1 w1 in (ok, d2, guard_delete api g w2)
      else release_resources api d w)"

subsection \<open>Initialisation\<close>

definition failInitialization :: "('w, 'x) cuda_api_scheme \<Rightarrow> StaticGpuData \<Rightarrow> 'w \<Rightarrow> bool \<times> StaticGpuData \<times> 'w" where
  "failInitialization api d w =
     (let (_, d1, w1) = static_release api d w in (False, d1\<lparr>currentState := StaticFailed\<rparr>, w1))"

text \<open>Allocate and clear the buffers at the given positions; \<open>False\<close> at the first failure.\<close>

fun alloc_buffers :: "('w, 'x) cuda_api_scheme \<Rightarrow> nat list \<Rightarrow> StaticGpuData \<Rightarrow> 'w \<Rightarrow> bool \<times> StaticGpuData \<times> 'w" where
  "alloc_buffers api [] d w = (True, d, w)"
| "alloc_buffers api (i # is) d w =
     (if capacity (buffers d ! i) = 0 then alloc_buffers api is d w
      else case cudaMalloc api (capacity (buffers d ! i)) w of
          (None, w1) \<Rightarrow> (False, d, w1)
        | (Some p, w1) \<Rightarrow>
            let d1 = d\<lparr>buffers := (buffers d)[i := (buffers d ! i)\<lparr>buf_data := p\<rparr>]\<rparr>
            in case cudaMemsetAsync api p (capacity (buffers d ! i)) (uploadStream d) w1 of
                (False, w2) \<Rightarrow> (False, d1, w2)
              | (True, w2) \<Rightarrow> alloc_buffers api is d1 w2)"

definition static_initialize ::
  "('w, 'x) cuda_api_scheme \<Rightarrow> int \<Rightarrow> size_t \<Rightarrow> size_t \<Rightarrow> StaticGpuData \<Rightarrow> 'w \<Rightarrow> bool \<times> StaticGpuData \<times> 'w" where
  "static_initialize api gpu detectionZoneBytes distortionBytes d w =
     (if currentState d \<noteq> StaticEmpty then (False, d, w)
      else let d1 = d\<lparr>currentState := StaticFailed\<rparr>
      in if gpu < 0 then (False, d1, w)
      else let (g, w1) = guard_new api gpu w
      in if \<not> guard_ok g then (False, d1, guard_delete api g w1)
      else let d2 = d1\<lparr>staticDevice := gpu,
                       buffers := [(buffers d ! 0)\<lparr>capacity := detectionZoneBytes\<rparr>, (buffers d ! 1)\<lparr>capacity := distortionBytes\<rparr>]\<rparr>;
               (ok, d3, w3) =
                 (if detectionZoneBytes \<noteq> 0 \<or> distortionBytes \<noteq> 0
                  then case cudaStreamCreateWithFlags api w1 of
                      (None, w2) \<Rightarrow> failInitialization api d2 w2
                    | (Some st, w2) \<Rightarrow>
                        (case alloc_buffers api [0, 1] (d2\<lparr>uploadStream := st\<rparr>) w2 of
                           (False, d4, w4) \<Rightarrow> failInitialization api d4 w4
                         | (True, d4, w4) \<Rightarrow> (True, d4\<lparr>currentState := Uploading\<rparr>, w4))
                  else (True, d2\<lparr>currentState := Uploading\<rparr>, w1))
           in (ok, d3, guard_delete api g w3))"

subsection \<open>Upload and use\<close>

definition bufferFor :: "StaticGpuDataType \<Rightarrow> StaticGpuData \<Rightarrow> Buffer option" where
  "bufferFor type d = (case type of
      DetectionZones \<Rightarrow> Some (buffers d ! 0)
    | DistortionTables \<Rightarrow> Some (buffers d ! 1)
    | OtherDataType _ \<Rightarrow> nullptr)"

definition static_upload ::
  "('w, 'x) cuda_api_scheme \<Rightarrow> StaticGpuDataType \<Rightarrow> ptr \<Rightarrow> size_t \<Rightarrow> size_t \<Rightarrow> StaticGpuData \<Rightarrow> 'w \<Rightarrow> bool \<times> StaticGpuData \<times> 'w" where
  "static_upload api type source count offset d w =
     (if currentState d \<noteq> Uploading then (False, d, w)
      else case bufferFor type d of
        None \<Rightarrow> (False, d\<lparr>currentState := StaticFailed\<rparr>, w)
      | Some b \<Rightarrow>
          if capacity b = 0 \<or> source = nullptr \<or> count = 0 \<or> offset > capacity b \<or> count > capacity b - offset
          then (False, d\<lparr>currentState := StaticFailed\<rparr>, w)
          else let (g, w1) = guard_new api (staticDevice d) w
               in if \<not> guard_ok g then (False, d\<lparr>currentState := StaticFailed\<rparr>, guard_delete api g w1)
                  else let (copied, w2) = cudaMemcpyAsync api (buf_data b, offset) source count (uploadStream d) w1;
                           (synced, w3) = cudaStreamSynchronize api (uploadStream d) w2;
                           succeeded = (copied \<and> synced)
                       in (succeeded, if succeeded then d else d\<lparr>currentState := StaticFailed\<rparr>, guard_delete api g w3))"

definition static_finalize :: "('w, 'x) cuda_api_scheme \<Rightarrow> StaticGpuData \<Rightarrow> 'w \<Rightarrow> bool \<times> StaticGpuData \<times> 'w" where
  "static_finalize api d w =
     (if currentState d \<noteq> Uploading then (False, d, w)
      else let (g, w1) = guard_new api (staticDevice d) w
      in if \<not> guard_ok g then (False, d\<lparr>currentState := StaticFailed\<rparr>, guard_delete api g w1)
      else let (synced, w2) = sync_stream api (uploadStream d) w1
      in if \<not> synced then (False, d\<lparr>currentState := StaticFailed\<rparr>, guard_delete api g w2)
         else (True, d\<lparr>currentState := StaticReady\<rparr>, guard_delete api g w2))"

definition static_data :: "StaticGpuDataType \<Rightarrow> StaticGpuData \<Rightarrow> ptr" where
  "static_data type d = (case bufferFor type d of
      None \<Rightarrow> nullptr
    | Some b \<Rightarrow> if currentState d = StaticReady then buf_data b else nullptr)"

definition static_bytes :: "StaticGpuDataType \<Rightarrow> StaticGpuData \<Rightarrow> size_t" where
  "static_bytes type d = (case bufferFor type d of None \<Rightarrow> 0 | Some b \<Rightarrow> capacity b)"

section \<open>The invariant\<close>

text \<open>
  An empty object owns nothing and is as constructed.  While data is uploaded or used, a buffer has
  memory exactly when it was configured, and the upload stream exists exactly when some buffer was.
  A failed object owns at most memory and the stream, of a selectable device.
\<close>

definition buffers_full :: "StaticGpuData \<Rightarrow> bool" where
  "buffers_full d \<longleftrightarrow> list_all (\<lambda>b. buf_data b \<noteq> nullptr \<longleftrightarrow> capacity b \<noteq> 0) (buffers d)"

definition static_ok :: "StaticGpuData \<Rightarrow> bool" where
  "static_ok d \<longleftrightarrow> length (buffers d) = 2
     \<and> (currentState d = StaticEmpty \<longrightarrow> d = new_static)
     \<and> (currentState d = Uploading \<or> currentState d = StaticReady \<longrightarrow>
          0 \<le> staticDevice d \<and> buffers_full d \<and> (uploadStream d \<noteq> nullptr \<longleftrightarrow> list_ex (\<lambda>b. capacity b \<noteq> 0) (buffers d)))
     \<and> (hasResources d \<longrightarrow> 0 \<le> staticDevice d)"

lemma length_2: "length xs = 2 \<longleftrightarrow> (\<exists>a b. xs = [a, b])"
  by (auto simp: length_Suc_conv numeral_2_eq_2)

lemma free_buffers_shape:
  "free_buffers api bs w = (ok, bs', w') \<Longrightarrow>
     list_all2 (\<lambda>b b'. b' = b \<or> b' = b\<lparr>buf_data := nullptr\<rparr>) bs bs' \<and> (ok \<longleftrightarrow> list_all (\<lambda>b. buf_data b = nullptr) bs')"
  by (induction bs arbitrary: w ok bs' w') (fastforce simp: Let_def split: prod.splits if_splits)+

lemma free_buffers_none:
  "list_all (\<lambda>b. buf_data b = nullptr) bs \<Longrightarrow> free_buffers api bs w = (True, bs, w)"
  by (induction bs) auto

text \<open>What is left after a release: less than before, and nothing when it reports success.\<close>

definition shrinks :: "StaticGpuData \<Rightarrow> StaticGpuData \<Rightarrow> bool" where
  "shrinks d d' \<longleftrightarrow> (uploadStream d' = uploadStream d \<or> uploadStream d' = nullptr)
     \<and> list_all2 (\<lambda>b b'. b' = b \<or> b' = b\<lparr>buf_data := nullptr\<rparr>) (buffers d) (buffers d')"

lemma release_resources_outcome:
  assumes "release_resources api d w = (ok, d', w')"
  shows "d' = d\<lparr>buffers := [new_buffer, new_buffer], uploadStream := nullptr, staticDevice := -1, currentState := StaticEmpty\<rparr>
    \<or> \<not> ok \<and> shrinks d d' \<and> hasResources d' \<and> currentState d' = currentState d \<and> staticDevice d' = staticDevice d"
proof -
  obtain synced w1 where 1: "sync_stream api (uploadStream d) w = (synced, w1)" by fastforce
  obtain freed bs w2 where 2: "free_buffers api (buffers d) w1 = (freed, bs, w2)" by (metis prod_cases3)
  obtain destroyed st w3 where 3: "destroy_stream api (uploadStream d) w2 = (destroyed, st, w3)" by (metis prod_cases3)
  have st: "st = uploadStream d \<or> st = nullptr" "destroyed \<longleftrightarrow> st = nullptr"
    using 3 by (auto simp: destroy_stream_def Let_def split: if_splits prod.splits)
  note f = free_buffers_shape [OF 2]
  show ?thesis
    using assms 1 2 3 st f
    by (auto simp: release_resources_def shrinks_def hasResources_def list.pred_set list_ex_iff split: if_splits)
qed

lemma static_release_outcome:
  assumes "static_ok d" "static_release api d w = (ok, d', w')"
  shows "d' = new_static \<or> \<not> ok \<and> shrinks d d' \<and> hasResources d' \<and> currentState d' = StaticFailed \<and> staticDevice d' = staticDevice d"
proof -
  have fresh: "e\<lparr>buffers := [new_buffer, new_buffer], uploadStream := nullptr, staticDevice := -1, currentState := StaticEmpty\<rparr> = new_static"
    for e :: StaticGpuData by (simp add: new_static_def)
  show ?thesis
  proof (cases "hasResources d")
    case True
    obtain g w1 where g: "guard_new api (staticDevice d) w = (g, w1)" by fastforce
    show ?thesis
    proof (cases "guard_ok g")
      case ok: True
      obtain b d2 w2 where r: "release_resources api (d\<lparr>currentState := StaticFailed\<rparr>) w1 = (b, d2, w2)" by (metis prod_cases3)
      then show ?thesis
        using release_resources_outcome [OF r] assms(2) True g ok unfolding fresh
        by (auto simp: static_release_def Let_def shrinks_def fresh)
    next
      case False
      then show ?thesis
        using assms(2) True g by (auto simp: static_release_def Let_def shrinks_def hasResources_def list.rel_refl)
    qed
  next
    case False
    then have "free_buffers api (buffers d) w = (True, buffers d, w)"
      using free_buffers_none [of "buffers d"] by (auto simp: hasResources_def list.pred_set list_ex_iff)
    then show ?thesis
      using assms(2) False fresh [of d]
      by (auto simp: static_release_def release_resources_def sync_stream_def destroy_stream_def hasResources_def list.pred_set list_ex_iff)
  qed
qed


lemma list_ex_all2:
  "list_all2 R xs ys \<Longrightarrow> list_ex Q ys \<Longrightarrow> (\<And>x y. R x y \<Longrightarrow> Q y \<Longrightarrow> Q x) \<Longrightarrow> list_ex Q xs"
  by (induction rule: list_all2_induct) auto

lemma shrinks_ok:
  assumes "static_ok d" "shrinks d d'" "currentState d' = StaticFailed" "staticDevice d' = staticDevice d"
  shows "static_ok d'"
proof -
  have "list_ex (\<lambda>b. buf_data b \<noteq> nullptr) (buffers d)" if "list_ex (\<lambda>b. buf_data b \<noteq> nullptr) (buffers d')"
    using assms(2) that list_ex_all2 [of _ "buffers d" "buffers d'" "\<lambda>b. buf_data b \<noteq> nullptr"] unfolding shrinks_def by fastforce
  then have "hasResources d' \<Longrightarrow> hasResources d" using assms(2) by (auto simp: hasResources_def shrinks_def)
  moreover have "length (buffers d') = 2" using assms(1,2) by (auto simp: shrinks_def static_ok_def dest: list_all2_lengthD)
  ultimately show ?thesis using assms by (auto simp: static_ok_def)
qed

lemma new_static_ok [simp]: "static_ok new_static" "\<not> hasResources new_static"
  by (auto simp: static_ok_def new_static_def hasResources_def new_buffer_def)

lemma static_release_ok:
  assumes "static_ok d" "static_release api d w = (ok, d', w')"
  shows "static_ok d'"
  using static_release_outcome [OF assms] shrinks_ok [OF assms(1)] by auto

lemma failed_ok: "static_ok d \<Longrightarrow> static_ok (d\<lparr>currentState := StaticFailed\<rparr>)"
  by (auto simp: static_ok_def hasResources_def)

lemma failInitialization_ok:
  assumes "static_ok d" "failInitialization api d w = (ok, d', w')"
  shows "\<not> ok \<and> static_ok d' \<and> currentState d' = StaticFailed"
proof -
  obtain b d1 w1 where "static_release api d w = (b, d1, w1)" by (metis prod_cases3)
  then show ?thesis
    using assms(2) failed_ok [OF static_release_ok [OF assms(1)]] by (auto simp: failInitialization_def)
qed

text \<open>The allocation loop touches the given positions only; when it succeeds they are as configured.\<close>

lemma alloc_buffers_outcome:
  assumes "malloc_gives_memory api" "alloc_buffers api is d w = (ok, d', w')" "\<forall>i\<in>set is. i < length (buffers d)" "distinct is"
  shows "uploadStream d' = uploadStream d \<and> staticDevice d' = staticDevice d \<and> currentState d' = currentState d
    \<and> map capacity (buffers d') = map capacity (buffers d)
    \<and> (\<forall>j<length (buffers d). j \<notin> set is \<longrightarrow> buffers d' ! j = buffers d ! j)
    \<and> (ok \<longrightarrow> (\<forall>j\<in>set is. buf_data (buffers d ! j) = nullptr \<longrightarrow> (buf_data (buffers d' ! j) \<noteq> nullptr \<longleftrightarrow> capacity (buffers d ! j) \<noteq> 0)))"
  using assms(2-)
proof (induction "is" arbitrary: d w)
  case Nil
  then show ?case by simp
next
  case (Cons i "is")
  show ?case
  proof (cases "capacity (buffers d ! i) = 0")
    case True
    then have run: "alloc_buffers api is d w = (ok, d', w')" using Cons.prems(1) by simp
    note I = Cons.IH [OF run] and i = Cons.prems(2,3)
    have "buffers d' ! i = buffers d ! i" using I i by simp
    then show ?thesis using I i True by auto
  next
    case False
    let ?c = "capacity (buffers d ! i)"
    obtain p w1 where m: "cudaMalloc api ?c w = (p, w1)" by fastforce
    show ?thesis
    proof (cases p)
      case None
      then show ?thesis using Cons.prems(1) m False by auto
    next
      case (Some q)
      let ?d = "d\<lparr>buffers := (buffers d)[i := (buffers d ! i)\<lparr>buf_data := q\<rparr>]\<rparr>"
      have q: "q \<noteq> nullptr" using assms(1) m Some False unfolding malloc_gives_memory_def by blast
      have caps: "map capacity (buffers ?d) = map capacity (buffers d)" using Cons.prems(2) by (simp add: map_update list_update_same_conv)
      obtain b w2 where b: "cudaMemsetAsync api q ?c (uploadStream d) w1 = (b, w2)" by fastforce
      show ?thesis
      proof (cases b)
        case True
        then have run: "alloc_buffers api is ?d w2 = (ok, d', w')" using Cons.prems(1) m Some False b by simp
        have "\<forall>j\<in>set is. j < length (buffers ?d)" "distinct is" using Cons.prems(2,3) by auto
        note I = Cons.IH [OF run this]
        have here: "buffers d' ! i = (buffers d ! i)\<lparr>buf_data := q\<rparr>" using I Cons.prems(2,3) by auto
        have other: "buffers ?d ! j = buffers d ! j" if "j \<noteq> i" for j using that by simp
        have "ok \<longrightarrow> (\<forall>j\<in>set is. buf_data (buffers d ! j) = nullptr \<longrightarrow> (buf_data (buffers d' ! j) \<noteq> nullptr \<longleftrightarrow> capacity (buffers d ! j) \<noteq> 0))"
          using I other Cons.prems(3) by (metis distinct.simps(2))
        moreover have "\<forall>j<length (buffers d). j \<notin> set (i # is) \<longrightarrow> buffers d' ! j = buffers d ! j" using I by auto
        ultimately show ?thesis using I caps q False here by simp
      next
        case no: False
        then have "d' = ?d" "\<not> ok" using Cons.prems(1) m Some False b by auto
        then show ?thesis using caps Cons.prems(2,3) by (auto simp: nth_list_update)
      qed
    qed
  qed
qed

lemma static_initialize_outcome:
  assumes "malloc_gives_memory api" "create_gives_stream api" and ok: "static_ok d"
    and run: "static_initialize api gpu zones tables d w = (b, d', w')"
  shows "static_ok d' \<and> (if currentState d \<noteq> StaticEmpty then \<not> b \<and> d' = d \<and> w' = w
    else if b then currentState d' = Uploading \<and> 0 \<le> gpu \<and> staticDevice d' = gpu \<and> map capacity (buffers d') = [zones, tables]
    else currentState d' = StaticFailed)"
proof (cases "currentState d = StaticEmpty")
  case False
  then show ?thesis using ok run by (simp add: static_initialize_def)
next
  case True
  then have d: "d = new_static" using ok by (simp add: static_ok_def)
  obtain g w1 where g: "guard_new api gpu w = (g, w1)" by fastforce
  show ?thesis
  proof (cases "gpu < 0 \<or> \<not> guard_ok g")
    case True
    then have "\<not> b" "d' = d\<lparr>currentState := StaticFailed\<rparr>"
      using run g d by (cases "gpu < 0"; simp add: static_initialize_def new_static_def)+
    then show ?thesis using failed_ok [OF ok] \<open>currentState d = StaticEmpty\<close> by simp
  next
    case False
    let ?d2 = "\<lparr>buffers = [\<lparr>buf_data = nullptr, capacity = zones\<rparr>, \<lparr>buf_data = nullptr, capacity = tables\<rparr>], uploadStream = nullptr,
        staticDevice = gpu, currentState = StaticFailed\<rparr>"
    have ok2: "static_ok (?d2\<lparr>uploadStream := st\<rparr>)" for st using False by (simp add: static_ok_def)
    show ?thesis
    proof (cases "zones = 0 \<and> tables = 0")
      case True
      then have "b" "d' = ?d2\<lparr>currentState := Uploading\<rparr>"
        using run g d False by (auto simp: static_initialize_def Let_def new_static_def new_buffer_def)
      then show ?thesis using True False d by (auto simp: static_ok_def buffers_full_def new_static_def hasResources_def)
    next
      case some: False
      obtain st w2 where c: "cudaStreamCreateWithFlags api w1 = (st, w2)" by fastforce
      show ?thesis
      proof (cases st)
        case None
        obtain b3 d3 w3 where f: "failInitialization api ?d2 w2 = (b3, d3, w3)" by (metis prod_cases3)
        then have "b = b3" "d' = d3"
          using run g d False some c None by (auto simp: static_initialize_def Let_def new_static_def new_buffer_def)
        then show ?thesis using failInitialization_ok [OF _ f] ok2 [of nullptr] True by auto
      next
        case (Some s)
        have s: "s \<noteq> nullptr" using assms(2) c Some unfolding create_gives_stream_def by blast
        obtain b4 d4 w4 where a: "alloc_buffers api [0, 1] (?d2\<lparr>uploadStream := s\<rparr>) w2 = (b4, d4, w4)" by (metis prod_cases3)
        have A: "uploadStream d4 = s" "staticDevice d4 = gpu" "currentState d4 = StaticFailed" "map capacity (buffers d4) = [zones, tables]"
          "b4 \<Longrightarrow> buf_data (buffers d4 ! 0) \<noteq> nullptr \<longleftrightarrow> zones \<noteq> 0" "b4 \<Longrightarrow> buf_data (buffers d4 ! 1) \<noteq> nullptr \<longleftrightarrow> tables \<noteq> 0"
          using alloc_buffers_outcome [OF assms(1) a] by auto
        then obtain b0 b1 where bufs: "buffers d4 = [b0, b1]" "capacity b0 = zones" "capacity b1 = tables" by auto
        show ?thesis
        proof (cases b4)
          case True
          then have "b" "d' = d4\<lparr>currentState := Uploading\<rparr>"
            using run g d False some c Some a by (auto simp: static_initialize_def Let_def new_static_def new_buffer_def)
          then show ?thesis
            using A bufs True False s some d by (auto simp: static_ok_def buffers_full_def new_static_def hasResources_def)
        next
          case no: False
          obtain b3 d3 w3 where f: "failInitialization api d4 w4 = (b3, d3, w3)" by (metis prod_cases3)
          then have "b = b3" "d' = d3"
            using run g d False some c Some a no by (auto simp: static_initialize_def Let_def new_static_def new_buffer_def)
          moreover have "static_ok d4" using A bufs False by (auto simp: static_ok_def)
          ultimately show ?thesis using failInitialization_ok [OF _ f] \<open>currentState d = StaticEmpty\<close> by auto
        qed
      qed
    qed
  qed
qed

lemma static_upload_outcome:
  assumes "static_upload api type source count offset d w = (b, d', w')"
  shows "(d' = d \<or> d' = d\<lparr>currentState := StaticFailed\<rparr>) \<and> (b \<longrightarrow> d' = d \<and> currentState d = Uploading)"
  using assms by (auto simp: static_upload_def Let_def split: if_splits option.splits prod.splits)

lemma static_finalize_outcome:
  assumes "static_finalize api d w = (b, d', w')"
  shows "if currentState d = Uploading then d' = d\<lparr>currentState := (if b then StaticReady else StaticFailed)\<rparr> else \<not> b \<and> d' = d \<and> w' = w"
  using assms by (auto simp: static_finalize_def Let_def split: if_splits prod.splits)

section \<open>All operations\<close>

inductive static_step :: "('w, 'x) cuda_api_scheme \<Rightarrow> StaticGpuData \<Rightarrow> StaticGpuData \<Rightarrow> bool" for api d where
  initialize: "static_initialize api gpu zones tables d w = (b, d', w') \<Longrightarrow> static_step api d d'"
| upload: "static_upload api type source count offset d w = (b, d', w') \<Longrightarrow> static_step api d d'"
| finalize: "static_finalize api d w = (b, d', w') \<Longrightarrow> static_step api d d'"
| release: "static_release api d w = (b, d', w') \<Longrightarrow> static_step api d d'"

definition static_starts :: "('w, 'x) cuda_api_scheme \<Rightarrow> StaticGpuData \<Rightarrow> bool" where
  "static_starts api d \<longleftrightarrow> malloc_gives_memory api \<and> create_gives_stream api \<and> d = new_static"

interpretation sgd: state_machine "static_starts api" "static_step api"
  "\<lambda>d. malloc_gives_memory api \<and> create_gives_stream api \<and> static_ok d" for api
proof unfold_locales
  fix d e
  assume I: "malloc_gives_memory api \<and> create_gives_stream api \<and> static_ok d" and st: "static_step api d e"
  have "static_ok (d\<lparr>currentState := StaticReady\<rparr>)" if "currentState d = Uploading"
    using I that by (auto simp: static_ok_def buffers_full_def hasResources_def)
  moreover have "static_ok (d\<lparr>currentState := StaticFailed\<rparr>)" using I failed_ok by blast
  ultimately have fin: "static_ok e" if "static_finalize api d w = (b, e, w')" for w b w'
    using static_finalize_outcome [OF that] I by (auto split: if_splits)
  from st show "malloc_gives_memory api \<and> create_gives_stream api \<and> static_ok e"
    using I fin by (cases rule: static_step.cases)
      (auto dest: static_initialize_outcome [rotated 3] static_upload_outcome static_release_ok intro: failed_ok)
qed (auto simp: static_starts_def)


section \<open>Properties\<close>

text \<open>The bytes a copy of data of a type may write: the first buffer is for the detection zones, the second for the distortion tables.\<close>

definition within :: "Buffer \<Rightarrow> ptr \<times> size_t \<Rightarrow> size_t \<Rightarrow> bool" where
  "within b dst count \<longleftrightarrow> fst dst \<noteq> nullptr \<and> buf_data b = fst dst \<and> unat (snd dst) + unat count \<le> unat (capacity b)"

definition in_bounds :: "StaticGpuDataType \<Rightarrow> StaticGpuData \<Rightarrow> ptr \<times> size_t \<Rightarrow> size_t \<Rightarrow> bool" where
  "in_bounds type d dst count \<longleftrightarrow> type = DetectionZones \<and> within (buffers d ! 0) dst count \<or> type = DistortionTables \<and> within (buffers d ! 1) dst count"

lemma upload_range:
  fixes cap offset count :: size_t
  assumes "\<not> cap < offset" "\<not> cap - offset < count"
  shows "unat offset + unat count \<le> unat cap"
proof -
  have "unat (cap - offset) = unat cap - unat offset" using assms(1) by (simp add: unat_sub)
  then show ?thesis using assms by (simp add: word_less_nat_alt not_less)
qed

lemma guard_other_calls:
  "guard_new (api\<lparr>cudaMemcpyAsync := copy\<rparr>) g w = guard_new api g w"
  "guard_delete (api\<lparr>cudaMemcpyAsync := copy\<rparr>) k w = guard_delete api k w"
  by (auto simp: guard_new_def guard_delete_def split: prod.splits option.splits bool.splits)

text \<open>
  C13.  An upload never writes outside the buffer it names.  Whatever offset and count the caller
  gives, including ones whose sum wraps around, the runtime only sees a copy of the caller's bytes to the caller's offset in the buffer of that type, on the upload stream,
  that stays within this buffer: the result is the same for any two runtimes that agree on such copies.  A
  call that reports success made this copy, copied a range that lies within the configured size and left the
  object in the uploading state.  A call with bad arguments reaches no runtime function and poisons
  the attempt.
\<close>

theorem upload_stays_in_bounds:
  assumes "static_starts api d0" "steps (static_step api) d0 d"
    "\<And>p v. in_bounds type d (p, offset) count \<Longrightarrow> copy (p, offset) source count (uploadStream d) v = cudaMemcpyAsync api (p, offset) source count (uploadStream d) v"
    "static_upload api type source count offset d w = (b, d', w')"
  shows "static_upload (api\<lparr>cudaMemcpyAsync := copy\<rparr>) type source count offset d w = (b, d', w')
    \<and> (b \<longrightarrow> d' = d \<and> currentState d = Uploading \<and> source \<noteq> nullptr \<and> 0 < unat count
         \<and> unat offset + unat count \<le> unat (static_bytes type d)
         \<and> (\<exists>p v v'. in_bounds type d (p, offset) count \<and> cudaMemcpyAsync api (p, offset) source count (uploadStream d) v = (True, v')))
    \<and> (currentState d = Uploading \<and> (source = nullptr \<or> count = 0 \<or> unat (static_bytes type d) < unat offset + unat count)
         \<longrightarrow> \<not> b \<and> currentState d' = StaticFailed \<and> w' = w)"
proof -
  have ok: "static_ok d" using sgd.reached_invar [OF assms(1,2)] by blast
  show ?thesis
  proof (cases "currentState d = Uploading \<and> bufferFor type d \<noteq> nullptr")
    case True
    then obtain buf where buf: "bufferFor type d = Some buf" and up: "currentState d = Uploading" by auto
    have len: "length (buffers d) = 2" and full: "buffers_full d" using ok up by (auto simp: static_ok_def)
    then have mem: "buf \<in> set (buffers d)" using buf by (cases type) (auto simp: bufferFor_def)
    show ?thesis
    proof (cases "capacity buf = 0 \<or> source = nullptr \<or> count = 0 \<or> offset > capacity buf \<or> count > capacity buf - offset")
      case True
      then show ?thesis using assms(4) buf up by (auto simp: static_upload_def)
    next
      case False
      then have range: "unat offset + unat count \<le> unat (capacity buf)" using upload_range by blast
      moreover have "buf_data buf \<noteq> nullptr" using full mem False by (auto simp: buffers_full_def list.pred_set)
      ultimately have bounds: "in_bounds type d (buf_data buf, offset) count"
        using buf by (cases type) (auto simp: in_bounds_def within_def bufferFor_def)
      then have "copy (buf_data buf, offset) source count (uploadStream d) v = cudaMemcpyAsync api (buf_data buf, offset) source count (uploadStream d) v" for v
        using assms(3) by blast
      then have same: "static_upload (api\<lparr>cudaMemcpyAsync := copy\<rparr>) type source count offset d w = static_upload api type source count offset d w"
        using buf up False by (auto simp: static_upload_def guard_other_calls Let_def split: prod.splits)
      have "\<exists>v v'. cudaMemcpyAsync api (buf_data buf, offset) source count (uploadStream d) v = (True, v')" if b
        using assms(4) that buf up False unfolding static_upload_def Let_def by (auto split: prod.splits if_splits)
      then show ?thesis
        using same bounds assms(4) range False buf up static_upload_outcome [OF assms(4)]
        by (auto simp: static_bytes_def unat_gt_0)
    qed
  next
    case False
    then show ?thesis using assms(4) by (auto simp: static_upload_def split: if_splits option.splits)
  qed
qed

lemma sample_static_starts: "static_starts sample_api new_static"
  using sample_api_documented by (simp add: static_starts_def)

lemma sample_upload_state:
  "\<exists>d w. static_initialize sample_api 0 16 0 new_static (0, 64) = (True, d, w) \<and> currentState d = Uploading
     \<and> static_bytes DetectionZones d = 16 \<and> static_step sample_api new_static d"
proof -
  obtain b d w where run: "static_initialize sample_api 0 16 0 new_static (0, 64) = (b, d, w)" by (metis prod_cases3)
  moreover from run have "b \<and> currentState d = Uploading \<and> static_bytes DetectionZones d = 16"
    by (auto simp: static_initialize_def new_static_def new_buffer_def guard_new_def guard_ok_def sample_api_def static_bytes_def bufferFor_def)
  ultimately show ?thesis using static_step.initialize [OF run] by simp
qed

theorem upload_stays_in_bounds_witness:
  "\<exists>d. steps (static_step sample_api) new_static d \<and> currentState d = Uploading
    \<and> \<not> fst (static_upload sample_api DetectionZones (Some 1) 8 (2 ^ 64 - 4) d (0, 0))"
proof -
  obtain d where d: "currentState d = Uploading" "static_bytes DetectionZones d = 16" "static_step sample_api new_static d"
    using sample_upload_state by blast
  have s: "steps (static_step sample_api) new_static d" using d(3) by (rule steps_one)
  obtain b d' w' where "static_upload sample_api DetectionZones (Some 1) 8 (2 ^ 64 - 4) d (0, 0) = (b, d', w')" by (metis prod_cases3)
  then show ?thesis
    using upload_stays_in_bounds [OF sample_static_starts s, of DetectionZones "2 ^ 64 - 4" 8 "cudaMemcpyAsync sample_api" "Some 1" "(0, 0)" b d' w'] d s by auto
qed

text \<open>
  Data is visible exactly when it is ready.  In every state the operations can lead to, a
  static buffer is handed out if and only if the object was finalised and the buffer was configured
  with a size; an object in the empty state owns nothing and is as constructed.
\<close>

theorem static_data_only_when_ready:
  assumes "static_starts api d0" "steps (static_step api) d0 d"
  shows "(static_data type d \<noteq> nullptr \<longleftrightarrow> currentState d = StaticReady \<and> static_bytes type d \<noteq> 0)
    \<and> (currentState d = StaticEmpty \<longleftrightarrow> d = new_static)"
proof -
  have ok: "static_ok d" using sgd.reached_invar [OF assms] by blast
  then obtain b0 b1 where bufs: "buffers d = [b0, b1]" by (auto simp: static_ok_def length_2)
  show ?thesis
    using ok bufs by (cases type) (auto simp: static_ok_def static_data_def static_bytes_def bufferFor_def buffers_full_def new_static_def)
qed

text \<open>
  Failure is final until release.  A failed object refuses initialisation, upload and
  finalisation without any effect.  A release either returns the object to its constructed state,
  which is the case whenever it reports success, or leaves it failed, with the resources that could
  not be freed and no others, ready for another release.
\<close>

theorem static_failure_until_release:
  assumes "static_starts api d0" "steps (static_step api) d0 d"
    "static_release api d w = (b, d', w')"
  shows "(currentState d = StaticFailed \<longrightarrow>
        static_initialize api gpu zones tables d w = (False, d, w)
      \<and> static_upload api type source count offset d w = (False, d, w)
      \<and> static_finalize api d w = (False, d, w))
    \<and> (b \<longrightarrow> d' = new_static)
    \<and> (d' = new_static \<or> currentState d' = StaticFailed \<and> hasResources d' \<and> shrinks d d' \<and> staticDevice d' = staticDevice d)"
proof -
  have ok: "static_ok d" using sgd.reached_invar [OF assms(1,2)] by blast
  show ?thesis
    using static_release_outcome [OF ok assms(3)]
    by (auto simp: static_initialize_def static_upload_def static_finalize_def)
qed

theorem static_failure_until_release_witness:
  "\<exists>d w d' w'. steps (static_step sample_api) new_static d \<and> static_release sample_api d w = (True, d', w') \<and> d' = new_static"
proof -
  obtain d w where d: "static_initialize sample_api 0 16 0 new_static (0, 64) = (True, d, w)" "static_step sample_api new_static d"
    using sample_upload_state by blast
  have s: "steps (static_step sample_api) new_static d" using d(2) by (rule steps_one)
  obtain b d' w' where r: "static_release sample_api d w = (b, d', w')" by (metis prod_cases3)
  have "b"
    using r d(1) by (auto simp: static_release_def release_resources_def sync_stream_def destroy_stream_def hasResources_def guard_new_def guard_ok_def guard_delete_def sample_api_def
        static_initialize_def new_static_def new_buffer_def Let_def)
  then show ?thesis
    using static_failure_until_release [OF sample_static_starts s r] s r
    by (intro exI [of _ d] exI [of _ w] exI [of _ d'] exI [of _ w']) simp
qed

end
