(* ===== verification/Static_Data.thy ===== *)
theory Static_Data
  imports Cache_Lifecycle Context_Properties Static_Gpu_Data
begin

text \<open>
  \<open>StaticData/StaticData.h\<close> and \<open>.cpp\<close>: what one copy of a graph owns, a frame cache and the
  static buffers on the GPU of its NUMA node, with the frame layout it accepts.  The class composes
  the cache, the static buffers and the context manager; so does the model.
\<close>

section \<open>The class\<close>

record StaticDataConfig =
  cfg_runtime :: AlgoRuntimeInfo
  detectionZoneBytes :: size_t
  distortionBytes :: size_t
  gpuCacheEntries :: size_t
  gpuCacheWaitTimeout :: int
  gpuCacheEvictionPolicy :: CacheEvictionPolicy

record StaticData =
  gpuDataCache :: GpuDataCache
  gpuStaticData :: StaticGpuData
  frameRuntime :: AlgoRuntimeInfo
  staticInitialized :: bool

definition new_static_data :: "nat \<Rightarrow> StaticData" where
  "new_static_data addr = \<lparr>gpuDataCache = new_cache addr, gpuStaticData = new_static, frameRuntime = default_runtime,
     staticInitialized = False\<rparr>"

definition matchesRuntime :: "FrameMetadata \<Rightarrow> AlgoRuntimeInfo \<Rightarrow> bool" where
  "matchesRuntime md rt \<longleftrightarrow> bytes md \<noteq> 0 \<and> bytes md = inBytes rt \<and> width md = frameW rt \<and> height md = frameH rt
     \<and> dtype md = frameDtype rt"

text \<open>The memory the configuration needs on the GPU; \<open>None\<close> when it does not fit a \<open>size_t\<close>.\<close>

definition plan_bytes :: "StaticDataConfig \<Rightarrow> size_t option" where
  "plan_bytes cfg =
     (if gpuCacheEntries cfg \<noteq> 0 \<and> inBytes (cfg_runtime cfg) > SIZE_MAX div gpuCacheEntries cfg then None
      else let cacheGpuBytes = gpuCacheEntries cfg * inBytes (cfg_runtime cfg)
           in if detectionZoneBytes cfg > SIZE_MAX - cacheGpuBytes
                \<or> distortionBytes cfg > SIZE_MAX - cacheGpuBytes - detectionZoneBytes cfg then None
              else Some (cacheGpuBytes + detectionZoneBytes cfg + distortionBytes cfg))"

text \<open>The check of the free device memory.\<close>

definition memory_fits :: "('w, 'x) cuda_api_scheme \<Rightarrow> int \<Rightarrow> size_t \<Rightarrow> 'w \<Rightarrow> bool \<times> 'w" where
  "memory_fits api dev totalGpuBytes w =
     (if totalGpuBytes = 0 then (True, w)
      else let (g, w1) = guard_new api dev w
           in if \<not> guard_ok g then (False, guard_delete api g w1)
              else case cudaMemGetInfo api w1 of
                  (None, w2) \<Rightarrow> (False, guard_delete api g w2)
                | (Some (freeBytes, totalBytes), w2) \<Rightarrow> (\<not> totalGpuBytes > freeBytes, guard_delete api g w2))"

definition StaticData_release :: "('w, 'x) cuda_api_scheme \<Rightarrow> StaticData \<Rightarrow> 'w \<Rightarrow> bool \<times> StaticData \<times> 'w" where
  "StaticData_release api D w =
     (let (cacheOk, c, w1) = cache_release api (gpuDataCache D) w
      in if \<not> cacheOk then (False, D\<lparr>gpuDataCache := c\<rparr>, w1)
         else let (ok, s, w2) = static_release api (gpuStaticData D) w1
              in (ok, D\<lparr>gpuDataCache := c, gpuStaticData := s, staticInitialized := False,
                       frameRuntime := (if currentState s = StaticEmpty then default_runtime else frameRuntime D)\<rparr>, w2))"

text \<open>The end of \<open>init\<close>, once the cache is initialised.\<close>

definition init_static_part :: "('w, 'x) cuda_api_scheme \<Rightarrow> int \<Rightarrow> StaticDataConfig \<Rightarrow> StaticData \<Rightarrow> 'w \<Rightarrow> bool \<times> StaticData \<times> 'w" where
  "init_static_part api dev cfg D w =
     (let (ok, s, w1) = static_initialize api dev (detectionZoneBytes cfg) (distortionBytes cfg) (gpuStaticData D) w;
          (ok2, s2, w2) = (if ok \<and> detectionZoneBytes cfg = 0 \<and> distortionBytes cfg = 0 then static_finalize api s w1 else (ok, s, w1))
      in if \<not> ok2
         then let (_, D', w3) = StaticData_release api (D\<lparr>gpuStaticData := s2\<rparr>) w2 in (False, D', w3)
         else (True, D\<lparr>gpuStaticData := s2, frameRuntime := cfg_runtime cfg, staticInitialized := True\<rparr>, w2))"

definition StaticData_init ::
  "('w, 'x) cuda_api_scheme \<Rightarrow> host_memory \<Rightarrow> u32 option \<Rightarrow> GpuContextManager \<Rightarrow> StaticDataConfig \<Rightarrow> StaticData \<Rightarrow> 'w
     \<Rightarrow> (bool \<times> StaticData \<times> 'w) option" where
  "StaticData_init api mem getcpu M cfg D w =
     (if staticInitialized D \<or> currentState (gpuStaticData D) \<noteq> StaticEmpty \<or> cacheInitialized (gpuDataCache D)
         \<or> inBytes (frameRuntime D) \<noteq> 0 \<or> inBytes (cfg_runtime cfg) = 0 then Some (False, D, w)
      else case gpuIdsForCurrentNumaNode getcpu M of
          None \<Rightarrow> None
        | Some (False, _) \<Rightarrow> Some (False, D, w)
        | Some (True, gpuIds) \<Rightarrow> (case plan_bytes cfg of
            None \<Rightarrow> Some (False, D, w)
          | Some totalGpuBytes \<Rightarrow> (case memory_fits api (hd gpuIds) totalGpuBytes w of
              (False, w1) \<Rightarrow> Some (False, D, w1)
            | (True, w1) \<Rightarrow> (case cache_initialize api mem gpuIds (inBytes (cfg_runtime cfg)) (gpuCacheEntries cfg)
                    (gpuCacheWaitTimeout cfg) (gpuCacheEvictionPolicy cfg) (gpuDataCache D) w1 of
                None \<Rightarrow> None
              | Some (False, c, w2) \<Rightarrow> Some (False, D\<lparr>gpuDataCache := c\<rparr>, w2)
              | Some (True, c, w2) \<Rightarrow> Some (init_static_part api (hd gpuIds) cfg (D\<lparr>gpuDataCache := c\<rparr>) w2)))))"

definition uploadStaticData ::
  "('w, 'x) cuda_api_scheme \<Rightarrow> StaticGpuDataType \<Rightarrow> ptr \<Rightarrow> size_t \<Rightarrow> size_t \<Rightarrow> StaticData \<Rightarrow> 'w \<Rightarrow> bool \<times> StaticData \<times> 'w" where
  "uploadStaticData api type source count offset D w =
     (if \<not> staticInitialized D then (False, D, w)
      else let (ok, s, w1) = static_upload api type source count offset (gpuStaticData D) w in (ok, D\<lparr>gpuStaticData := s\<rparr>, w1))"

definition finalizeStaticData :: "('w, 'x) cuda_api_scheme \<Rightarrow> StaticData \<Rightarrow> 'w \<Rightarrow> bool \<times> StaticData \<times> 'w" where
  "finalizeStaticData api D w =
     (if \<not> staticInitialized D then (False, D, w)
      else let (ok, s, w1) = static_finalize api (gpuStaticData D) w in (ok, D\<lparr>gpuStaticData := s\<rparr>, w1))"

definition staticGpuData :: "StaticGpuDataType \<Rightarrow> StaticData \<Rightarrow> ptr" where
  "staticGpuData type D = (if staticInitialized D then static_data type (gpuStaticData D) else nullptr)"

definition staticGpuDataBytes :: "StaticGpuDataType \<Rightarrow> StaticData \<Rightarrow> size_t" where
  "staticGpuDataBytes type D = static_bytes type (gpuStaticData D)"

definition StaticData_resetCache :: "StaticData \<Rightarrow> (CacheStatistics option \<times> StaticData) option" where
  "StaticData_resetCache D =
     (if staticInitialized D \<and> inBytes (frameRuntime D) \<noteq> 0
      then map_option (\<lambda>(out, c). (out, D\<lparr>gpuDataCache := c\<rparr>)) (resetCache (gpuDataCache D))
      else Some (None, D))"

definition execute :: "StaticData \<Rightarrow> bool" where
  "execute D \<longleftrightarrow> staticInitialized D \<and> currentState (gpuStaticData D) = StaticReady"

definition validateFrame :: "FrameMetadata \<Rightarrow> StaticData \<Rightarrow> bool" where
  "validateFrame md D \<longleftrightarrow> execute D \<and> matchesRuntime md (frameRuntime D)"

text \<open>The part of \<open>getCacheData\<close> before the loop of the cache; \<open>None\<close> is an invalid access.\<close>

definition StaticData_getCacheData ::
  "FrameMetadata \<Rightarrow> GpuCacheRequest \<Rightarrow> int \<Rightarrow> StaticData \<Rightarrow> RequestState option \<times> StaticData" where
  "StaticData_getCacheData md rq started D =
     (if \<not> validateFrame md D then (None, D)
      else let (r, c) = getCacheData_begin md rq started (gpuDataCache D) in (r, D\<lparr>gpuDataCache := c\<rparr>))"

section \<open>The memory plan\<close>

lemma unat_div_size_t: "unat ((a::size_t) div b) = unat a div unat b"
  by (rule unat_div)

lemma size_t_mult_fits:
  fixes a b :: size_t
  shows "(a \<noteq> 0 \<and> SIZE_MAX div a < b) \<longleftrightarrow> 2 ^ 64 \<le> unat a * unat b"
proof (cases "a = 0")
  case False
  then have a: "0 < unat a" by (simp add: unat_gt_0)
  have "SIZE_MAX div a < b \<longleftrightarrow> (2 ^ 64 - 1) div unat a < unat b"
    by (simp add: word_less_nat_alt unat_div)
  also have "\<dots> \<longleftrightarrow> 2 ^ 64 - 1 < unat b * unat a" using a by (simp add: div_less_iff_less_mult)
  also have "\<dots> \<longleftrightarrow> 2 ^ 64 \<le> unat a * unat b" by (auto simp: mult.commute)
  finally show ?thesis using False by simp
qed simp

lemma size_t_room:
  fixes a b :: size_t
  shows "unat (SIZE_MAX - a) = 2 ^ 64 - 1 - unat a" "(SIZE_MAX - a < b) \<longleftrightarrow> 2 ^ 64 \<le> unat a + unat b"
proof -
  have "a \<le> SIZE_MAX" using unat_size_t_less [of a] by (simp add: word_le_nat_alt)
  then show e: "unat (SIZE_MAX - a) = 2 ^ 64 - 1 - unat a" by (simp add: unat_sub)
  show "(SIZE_MAX - a < b) \<longleftrightarrow> 2 ^ 64 \<le> unat a + unat b"
    using unat_size_t_less [of a] unfolding word_less_nat_alt e by auto
qed

text \<open>
  C14.  The memory plan is exact.  The three-step overflow check of the initialisation accepts a
  configuration exactly when the bytes of all cache entries, the detection zones and the distortion
  tables together fit a \<open>size_t\<close>, and then its result is that sum, without any wrap-around; this sum
  is what is compared with the free device memory.
\<close>

theorem plan_bytes_exact:
  "plan_bytes cfg =
     (let total = unat (gpuCacheEntries cfg) * unat (inBytes (cfg_runtime cfg)) + unat (detectionZoneBytes cfg) + unat (distortionBytes cfg)
      in if total < 2 ^ 64 then Some (of_nat total) else None)"
proof -
  let ?n = "gpuCacheEntries cfg" and ?b = "inBytes (cfg_runtime cfg)" and ?z = "detectionZoneBytes cfg" and ?d = "distortionBytes cfg"
  show ?thesis
  proof (cases "unat ?n * unat ?b < 2 ^ 64")
    case False
    then have "?n \<noteq> 0 \<and> SIZE_MAX div ?n < ?b" using size_t_mult_fits [of ?n ?b] by simp
    then show ?thesis using False by (simp add: plan_bytes_def Let_def)
  next
    case True
    then have ok: "\<not> (?n \<noteq> 0 \<and> SIZE_MAX div ?n < ?b)" using size_t_mult_fits [of ?n ?b] by simp
    let ?c = "?n * ?b"
    have c: "unat ?c = unat ?n * unat ?b" using True by (simp add: unat_word_ariths)
    have z: "SIZE_MAX - ?c < ?z \<longleftrightarrow> 2 ^ 64 \<le> unat ?c + unat ?z" by (rule size_t_room(2))
    have d: "SIZE_MAX - ?c - ?z < ?d \<longleftrightarrow> 2 ^ 64 \<le> unat ?c + unat ?z + unat ?d" if "unat ?c + unat ?z < 2 ^ 64"
      using size_t_room(2) [of "?c + ?z" ?d] unat_add_no_wrap [OF that] by (simp add: diff_diff_eq)
    have sum: "of_nat (unat ?c + unat ?z + unat ?d) = ?c + ?z + ?d" by simp
    show ?thesis
      unfolding plan_bytes_def Let_def if_not_P [OF ok] c [symmetric] sum using z d by auto
  qed
qed


section \<open>Initialisation and release\<close>

lemma StaticData_release_static:
  assumes "static_ok (gpuStaticData D)" "StaticData_release api D w = (ok, D', w')"
  shows "static_ok (gpuStaticData D') \<and> (staticInitialized D' \<longrightarrow> staticInitialized D)
    \<and> (frameRuntime D' = frameRuntime D \<or> frameRuntime D' = default_runtime)
    \<and> (ok \<longrightarrow> \<not> staticInitialized D' \<and> gpuStaticData D' = new_static \<and> frameRuntime D' = default_runtime)"
proof -
  obtain cok c w1 where c: "cache_release api (gpuDataCache D) w = (cok, c, w1)" by (metis prod_cases3)
  obtain b s w2 where s: "static_release api (gpuStaticData D) w1 = (b, s, w2)" by (metis prod_cases3)
  note S = static_release_ok [OF assms(1) s] static_release_outcome [OF assms(1) s]
  show ?thesis
    using assms(2) c s S assms(1) by (cases cok) (auto simp: StaticData_release_def new_static_def)
qed

lemma init_static_part_outcome:
  assumes api: "malloc_gives_memory api" "create_gives_stream api" and ok: "static_ok (gpuStaticData D)"
    and st: "currentState (gpuStaticData D) = StaticEmpty" "inBytes (frameRuntime D) = 0" "\<not> staticInitialized D"
    and run: "init_static_part api dev cfg D w = (b, D', w')"
  shows "static_ok (gpuStaticData D')
    \<and> (if b then \<exists>s. D' = D\<lparr>gpuStaticData := s, frameRuntime := cfg_runtime cfg, staticInitialized := True\<rparr>
          \<and> staticDevice s = dev \<and> map capacity (buffers s) = [detectionZoneBytes cfg, distortionBytes cfg]
          \<and> currentState s = (if detectionZoneBytes cfg = 0 \<and> distortionBytes cfg = 0 then StaticReady else Uploading)
       else \<not> staticInitialized D' \<and> inBytes (frameRuntime D') = 0)"
proof -
  let ?none = "detectionZoneBytes cfg = 0 \<and> distortionBytes cfg = 0"
  obtain b1 s w1 where i: "static_initialize api dev (detectionZoneBytes cfg) (distortionBytes cfg) (gpuStaticData D) w = (b1, s, w1)"
    by (metis prod_cases3)
  obtain bf sf wf where f: "static_finalize api s w1 = (bf, sf, wf)" by (metis prod_cases3)
  have I: "static_ok s" "b1 \<Longrightarrow> currentState s = Uploading \<and> staticDevice s = dev
      \<and> map capacity (buffers s) = [detectionZoneBytes cfg, distortionBytes cfg]"
    using static_initialize_outcome [OF api ok i] st(1) by auto
  define b2 s2 w2 where d2: "b2 = (if b1 \<and> ?none then bf else b1)" "s2 = (if b1 \<and> ?none then sf else s)" "w2 = (if b1 \<and> ?none then wf else w1)"
  have F: "sf = s\<lparr>currentState := (if bf then StaticReady else StaticFailed)\<rparr>" if b1
    using static_finalize_outcome [OF f] I(2) [OF that] by simp
  have "static_ok (s\<lparr>currentState := StaticReady\<rparr>)" if "b1"
    using I that by (auto simp: static_ok_def buffers_full_def hasResources_def)
  then have ok2: "static_ok s2" using I(1) F failed_ok [OF I(1)] d2(2) by auto
  have eq: "init_static_part api dev cfg D w = (if \<not> b2
      then let (_, D', w3) = StaticData_release api (D\<lparr>gpuStaticData := s2\<rparr>) w2 in (False, D', w3)
      else (True, D\<lparr>gpuStaticData := s2, frameRuntime := cfg_runtime cfg, staticInitialized := True\<rparr>, w2))"
    using i f d2 by (simp add: init_static_part_def)
  show ?thesis
  proof (cases b2)
    case True
    then have "b" "D' = D\<lparr>gpuStaticData := s2, frameRuntime := cfg_runtime cfg, staticInitialized := True\<rparr>" using eq run by auto
    moreover have "b1" "s2 = s\<lparr>currentState := (if ?none then StaticReady else Uploading)\<rparr>"
      using True d2 F I(2) by (auto split: if_splits)
    ultimately show ?thesis using ok2 I(2) by auto
  next
    case False
    obtain r D3 w3 where r: "StaticData_release api (D\<lparr>gpuStaticData := s2\<rparr>) w2 = (r, D3, w3)" by (metis prod_cases3)
    have "static_ok (gpuStaticData (D\<lparr>gpuStaticData := s2\<rparr>))" using ok2 by simp
    note R = StaticData_release_static [OF this r]
    have "\<not> b" "D' = D3" using False eq run r by auto
    then show ?thesis using R st(2,3) by (auto simp: default_runtime_def)
  qed
qed

section \<open>Properties of the composition\<close>

text \<open>
  Initialising the data of a graph copy returns, and either gives a complete object or none.
  On success the object serves the only GPU of the calling thread's NUMA node, with an empty cache
  of the configured number of entries of the frame size and static buffers of the configured sizes,
  ready at once when there are none and open for uploads otherwise.  On failure nothing changed, or
  what had been built was released again as far as the runtime let it; in both cases the object does
  not accept frames.
\<close>

theorem StaticData_init_outcome:
  assumes "malloc_gives_memory api" "create_gives_stream api" "static_ok (gpuStaticData D)" "gpuLocations M = Some locations"
  shows "\<exists>b D' w'. StaticData_init api mem getcpu M cfg D w = Some (b, D', w')
    \<and> (if b
       then \<exists>g total. resolveGpuIds (currentNumaNode getcpu) locations = (True, [g]) \<and> plan_bytes cfg = Some total
         \<and> staticInitialized D' \<and> frameRuntime D' = cfg_runtime cfg
         \<and> implements (gpuDataCache D') (empty_cache (unat (gpuCacheEntries cfg)) (gpuCacheEvictionPolicy cfg = FIFO))
         \<and> cacheBytes (gpuDataCache D') = inBytes (cfg_runtime cfg) \<and> eligibleGpuIds (gpuDataCache D') = [g]
         \<and> staticDevice (gpuStaticData D') = g
         \<and> staticGpuDataBytes DetectionZones D' = detectionZoneBytes cfg \<and> staticGpuDataBytes DistortionTables D' = distortionBytes cfg
         \<and> (execute D' \<longleftrightarrow> detectionZoneBytes cfg = 0 \<and> distortionBytes cfg = 0)
       else D' = D \<or> \<not> staticInitialized D' \<and> inBytes (frameRuntime D') = 0 \<and> static_ok (gpuStaticData D'))"
proof (cases "staticInitialized D \<or> currentState (gpuStaticData D) \<noteq> StaticEmpty \<or> cacheInitialized (gpuDataCache D)
    \<or> inBytes (frameRuntime D) \<noteq> 0 \<or> inBytes (cfg_runtime cfg) = 0")
  case True
  then show ?thesis by (intro exI [of _ False] exI [of _ D] exI [of _ w]) (auto simp: StaticData_init_def)
next
  case False
  let ?ids = "resolveGpuIds (currentNumaNode getcpu) locations"
  have stop: ?thesis if "StaticData_init api mem getcpu M cfg D w = Some (False, D, v)" for v
    using that by (intro exI [of _ False] exI [of _ D] exI [of _ v]) simp
  have gid: "gpuIdsForCurrentNumaNode getcpu M = (if initialised M then Some ?ids else Some (False, []))"
    using assms(4) by (simp add: gpuIdsForCurrentNumaNode_def)
  show ?thesis
  proof (cases "initialised M \<and> fst ?ids \<and> plan_bytes cfg \<noteq> None")
    case no: False
    then have "StaticData_init api mem getcpu M cfg D w = Some (False, D, w)"
      using False gid by (cases ?ids) (auto simp: StaticData_init_def split: bool.splits)
    then show ?thesis by (rule stop)
  next
    case True
    then obtain total where total: "plan_bytes cfg = Some total" by auto
    obtain g where g: "?ids = (True, [g])"
      using True by (auto simp: resolveGpuIds_def Let_def split: if_splits prod.splits)
    obtain fits w1 where fits: "memory_fits api g total w = (fits, w1)" by fastforce
    obtain cok c w2 where c: "cache_initialize api mem [g] (inBytes (cfg_runtime cfg)) (gpuCacheEntries cfg)
        (gpuCacheWaitTimeout cfg) (gpuCacheEvictionPolicy cfg) (gpuDataCache D) w1 = Some (cok, c, w2)"
      and C: "if cok then implements c (empty_cache (unat (gpuCacheEntries cfg)) (gpuCacheEvictionPolicy cfg = FIFO))
          \<and> eligibleGpuIds c = [g] \<and> cacheBytes c = inBytes (cfg_runtime cfg) else c = gpuDataCache D"
      using cache_initialize_result [OF assms(1), of mem "[g]" "inBytes (cfg_runtime cfg)" "gpuCacheEntries cfg"
          "gpuCacheWaitTimeout cfg" "gpuCacheEvictionPolicy cfg" "gpuDataCache D" w1] by (metis (full_types))
    show ?thesis
    proof (cases "fits \<and> cok")
      case no: False
      have "D\<lparr>gpuDataCache := gpuDataCache D\<rparr> = D" by simp
      then have "StaticData_init api mem getcpu M cfg D w = Some (False, D, if fits then w2 else w1)"
        using False gid True g total fits c C no by (cases fits; cases cok) (auto simp: StaticData_init_def)
      then show ?thesis by (rule stop)
    next
      case yes: True
      let ?D = "D\<lparr>gpuDataCache := c\<rparr>"
      obtain b D' w' where p: "init_static_part api g cfg ?D w2 = (b, D', w')" by (metis prod_cases3)
      have "StaticData_init api mem getcpu M cfg D w = Some (b, D', w')"
        using False gid True g total fits c C yes p by (auto simp: StaticData_init_def)
      moreover have "static_ok (gpuStaticData D') \<and> (if b then \<exists>s. D' = ?D\<lparr>gpuStaticData := s, frameRuntime := cfg_runtime cfg, staticInitialized := True\<rparr>
          \<and> staticDevice s = g \<and> map capacity (buffers s) = [detectionZoneBytes cfg, distortionBytes cfg]
          \<and> currentState s = (if detectionZoneBytes cfg = 0 \<and> distortionBytes cfg = 0 then StaticReady else Uploading)
          else \<not> staticInitialized D' \<and> inBytes (frameRuntime D') = 0)"
        using init_static_part_outcome [OF assms(1,2) _ _ _ _ p] assms(3) False by simp
      ultimately show ?thesis
        using g total C yes
        by (intro exI [of _ b] exI [of _ D'] exI [of _ w'])
          (auto simp: execute_def staticGpuDataBytes_def static_bytes_def bufferFor_def split: if_splits)
    qed
  qed
qed


definition sample_config :: StaticDataConfig where
  "sample_config = \<lparr>cfg_runtime = \<lparr>inBytes = 64, sizeFactor = 1, frameW = 8, frameH = 8, frameDtype = 0\<rparr>, detectionZoneBytes = 16,
     distortionBytes = 0, gpuCacheEntries = 2, gpuCacheWaitTimeout = 50, gpuCacheEvictionPolicy = LRU\<rparr>"

theorem StaticData_init_outcome_witness:
  "\<exists>M b D' w'. gpuLocations M = Some [\<lparr>loc_gpuId = 0, loc_numaNode = 0\<rparr>, \<lparr>loc_gpuId = 1, loc_numaNode = 1\<rparr>]
    \<and> StaticData_init sample_api \<lparr>tableMemory = \<lambda>_. True, vectorMemory = True, entryMemory = \<lambda>_. True,
        replicaMemory = \<lambda>_. True, idsMemory = True\<rparr> (Some 1) M sample_config (new_static_data 7) (0, 4096) = Some (b, D', w')
    \<and> (b \<longrightarrow> staticDevice (gpuStaticData D') = 1 \<and> \<not> execute D')"
proof -
  let ?mem = "\<lparr>tableMemory = \<lambda>_. True, vectorMemory = True, entryMemory = \<lambda>_. True, replicaMemory = \<lambda>_. True, idsMemory = True\<rparr>"
  let ?locs = "[\<lparr>loc_gpuId = 0, loc_numaNode = 0\<rparr>, \<lparr>loc_gpuId = 1, loc_numaNode = 1\<rparr>]"
  obtain M where M: "gpuLocations M = Some ?locs" using sample_init by blast
  have "static_ok (gpuStaticData (new_static_data 7))" by (simp add: new_static_data_def)
  moreover have "resolveGpuIds (currentNumaNode (Some 1)) ?locs = (True, [1])" by code_simp
  moreover have "detectionZoneBytes sample_config \<noteq> 0" by (simp add: sample_config_def)
  ultimately show ?thesis
    using StaticData_init_outcome [OF sample_api_documented(1,2) _ M, of "new_static_data 7" ?mem "Some 1" sample_config "(0, 4096)"] M
    by (auto 0 3 split: if_splits)
qed

text \<open>
  Releasing the data of a graph copy respects the readers.  As long as the cache has an
  unfinished lease or a sleeping request the call is refused and changes nothing, so the static
  buffers stay usable.  A reported success means that the static buffers, the cache and the frame
  layout are all back in their initial state and the object can be initialised again.
\<close>

theorem StaticData_release_respects_readers:
  assumes "static_ok (gpuStaticData D)" "implements (gpuDataCache D) A" "\<not> releasing (gpuDataCache D)"
    "StaticData_release api D w = (ok, D', w')"
  shows "(activeFallbackAccesses (gpuDataCache D) \<noteq> 0 \<or> waitingAccesses (gpuDataCache D) \<noteq> 0
        \<or> (\<exists>i<length (cells A). readers (cells A ! i) \<noteq> 0 \<or> (\<exists>m. cells A ! i = Filling m))
      \<longrightarrow> \<not> ok \<and> D' = D \<and> w' = w)
    \<and> (ok \<longrightarrow> \<not> staticInitialized D' \<and> gpuStaticData D' = new_static \<and> frameRuntime D' = default_runtime
        \<and> entries (gpuDataCache D') = [] \<and> \<not> init_blocked (gpuDataCache D') \<and> \<not> failed (gpuDataCache D'))"
proof -
  obtain cok c w1 where c: "cache_release api (gpuDataCache D) w = (cok, c, w1)" by (metis prod_cases3)
  note C = cache_release_result [OF assms(2,3) c] and S = StaticData_release_static [OF assms(1,4)]
  have "cok \<and> gpuDataCache D' = c" if "ok"
    using assms(4) c that by (cases cok) (auto simp: StaticData_release_def split: prod.splits)
  moreover have "\<not> ok \<and> D' = D\<lparr>gpuDataCache := c\<rparr> \<and> w' = w1" if "\<not> cok"
    using assms(4) c that by (auto simp: StaticData_release_def)
  ultimately show ?thesis using C S by (auto split: if_splits)
qed

theorem StaticData_release_respects_readers_witness:
  "let D = (new_static_data 7)\<lparr>gpuDataCache := (sample_cache FIFO)\<lparr>waitingAccesses := 1\<rparr>\<rparr>
   in StaticData_release sample_api D (0, 0) = (False, D, (0, 0))"
proof -
  let ?D = "(new_static_data 7)\<lparr>gpuDataCache := (sample_cache FIFO)\<lparr>waitingAccesses := 1\<rparr>\<rparr>"
  obtain ok D' w' where r: "StaticData_release sample_api ?D (0, 0) = (ok, D', w')" by (metis prod_cases3)
  have "static_ok (gpuStaticData ?D)" by (simp add: new_static_data_def)
  then show ?thesis
    using StaticData_release_respects_readers [OF _ _ _ r, of "empty_cache 2 True"] sample_cache_implements [of FIFO] r by simp
qed

end
