(* ===== verification/Caller_Device.thy ===== *)
theory Caller_Device
  imports Static_Data
begin

text \<open>
  The device of the calling thread.  Every operation of the cache and of the static data that works on device memory off the hot path
  selects the device it needs through a \<open>CudaDeviceGuard\<close>.  The lemmas follow the current device
  through all of them, nested guards and rollbacks included.
\<close>

section \<open>Documented behaviour\<close>

text \<open>
  The current device changes only by \<open>cudaSetDevice\<close>, which may fail at any time, for any device.  \<open>refused d\<close> counts the selections of the
  device \<open>d\<close> that failed.
\<close>

definition same_selection :: "('w \<Rightarrow> int) \<Rightarrow> (int \<Rightarrow> 'w \<Rightarrow> nat) \<Rightarrow> 'w \<Rightarrow> 'w \<Rightarrow> bool" where
  "same_selection dev refused w w' \<longleftrightarrow> dev w' = dev w \<and> (\<forall>d. refused d w' = refused d w)"

definition device_api :: "('w, 'x) cuda_api_scheme \<Rightarrow> ('w \<Rightarrow> int) \<Rightarrow> (int \<Rightarrow> 'w \<Rightarrow> nat) \<Rightarrow> bool" where
  "device_api api dev refused \<longleftrightarrow> tracks_device api dev \<and> (\<forall>w d. refused d (snd (cudaGetDevice api w)) = refused d w)
     \<and> (\<forall>d e w. refused e (snd (cudaSetDevice api d w)) = (if e = d \<and> \<not> fst (cudaSetDevice api d w) then refused e w + 1 else refused e w))
     \<and> (\<forall>n w. same_selection dev refused w (snd (cudaMalloc api n w))) \<and> (\<forall>p w. same_selection dev refused w (snd (cudaFree api p w)))
     \<and> (\<forall>w. same_selection dev refused w (snd (cudaStreamCreateWithFlags api w)))
     \<and> (\<forall>s w. same_selection dev refused w (snd (cudaStreamSynchronize api s w)))
     \<and> (\<forall>s w. same_selection dev refused w (snd (cudaStreamDestroy api s w)))
     \<and> (\<forall>p n s w. same_selection dev refused w (snd (cudaMemsetAsync api p n s w)))
     \<and> (\<forall>d p n s w. same_selection dev refused w (snd (cudaMemcpyAsync api d p n s w)))
     \<and> (\<forall>w. same_selection dev refused w (snd (cudaMemGetInfo api w)))"

text \<open>The caller keeps its device, unless a selection of this very device was refused meanwhile.\<close>

definition keeps :: "('w \<Rightarrow> int) \<Rightarrow> (int \<Rightarrow> 'w \<Rightarrow> nat) \<Rightarrow> 'w \<Rightarrow> 'w \<Rightarrow> bool" where
  "keeps dev refused w w' \<longleftrightarrow> (\<forall>d. refused d w \<le> refused d w') \<and> (dev w' = dev w \<or> refused (dev w) w < refused (dev w) w')"

lemma keeps_refl [simp]: "keeps dev refused w w"
  by (simp add: keeps_def)

lemma keeps_trans [trans]: "keeps dev refused w v \<Longrightarrow> keeps dev refused v u \<Longrightarrow> keeps dev refused w u"
  unfolding keeps_def by (metis (full_types) le_trans less_le_trans le_less_trans)

lemma same_keeps: "same_selection dev refused w w' \<Longrightarrow> keeps dev refused w w'"
  by (simp add: same_selection_def keeps_def)

lemma device_kept:
  assumes "device_api api dev refused"
  shows "cudaMalloc api n w = (p, w') \<Longrightarrow> keeps dev refused w w'" "cudaFree api q w = (b, w') \<Longrightarrow> keeps dev refused w w'"
    "cudaStreamCreateWithFlags api w = (t, w') \<Longrightarrow> keeps dev refused w w'" "cudaStreamSynchronize api s w = (b, w') \<Longrightarrow> keeps dev refused w w'"
    "cudaStreamDestroy api s w = (b, w') \<Longrightarrow> keeps dev refused w w'" "cudaMemsetAsync api q n s w = (b, w') \<Longrightarrow> keeps dev refused w w'"
    "cudaMemcpyAsync api d q n s w = (b, w') \<Longrightarrow> keeps dev refused w w'" "cudaMemGetInfo api w = (i, w') \<Longrightarrow> keeps dev refused w w'"
  using assms unfolding device_api_def by (metis snd_conv same_keeps)+

text \<open>What a guard does between its construction and its destruction leaves no trace.\<close>

lemma guard_scope:
  assumes D: "device_api api dev refused" and g: "guard_new api gp w = (g, w1)" and same: "keeps dev refused w1 w2"
  shows "keeps dev refused w (guard_delete api g w2)"
proof -
  have t: "tracks_device api dev" and get: "\<And>v d. refused d (snd (cudaGetDevice api v)) = refused d v"
    and sel: "\<And>d e v. refused e (snd (cudaSetDevice api d v)) = (if e = d \<and> \<not> fst (cudaSetDevice api d v) then refused e v + 1 else refused e v)"
    using D unfolding device_api_def by simp_all
  note T = tracks_deviceD [OF t]
  have get: "cudaGetDevice api v = (x, v') \<Longrightarrow> refused d v' = refused d v" for v x v' d using get [of d v] by simp
  have sel: "cudaSetDevice api d v = (b, v') \<Longrightarrow> refused e v' = (if e = d \<and> \<not> b then refused e v + 1 else refused e v)" for d v b v' e
    using sel [of e d v] by simp
  from g show ?thesis
  proof (cases rule: guard_new_cases)
    case (switched prev w')
    then have p: "prev = dev w" using T(2) by blast
    obtain b w3 where b: "cudaSetDevice api prev w2 = (b, w3)" by fastforce
    have "\<forall>d. refused d w = refused d w1" using get [OF switched(2)] sel [OF switched(4)] by simp
    moreover have "\<forall>d. refused d w1 \<le> refused d w2" using same by (simp add: keeps_def)
    ultimately have mono: "refused d w \<le> refused d w2" for d by simp
    have "keeps dev refused w w3"
      using mono [of "dev w"] mono sel [OF b] T(3) [OF b] p by (auto simp: keeps_def le_Suc_eq less_Suc_eq_le intro: le_SucI)
    then show ?thesis using switched b by (simp add: guard_delete_def)
  next
    case (refused prev w')
    have "keeps dev refused w w1"
      using get [OF refused(2)] sel [OF refused(4)] T(1) [OF refused(2)] T(3) [OF refused(4)] by (simp add: keeps_def)
    then show ?thesis using refused same keeps_trans by (auto simp: guard_delete_def)
  next
    case unknown
    have "keeps dev refused w w1" using get [OF unknown(2)] T(1) [OF unknown(2)] by (simp add: keeps_def)
    then show ?thesis using unknown same keeps_trans by (auto simp: guard_delete_def)
  next
    case current
    have "keeps dev refused w w1" using get [OF current(2)] T(1) [OF current(2)] by (simp add: keeps_def)
    then show ?thesis using current same keeps_trans by (auto simp: guard_delete_def)
  qed (use same in \<open>simp add: guard_delete_def\<close>)
qed

section \<open>Cache entries and the cache\<close>

lemma free_replicas_device:
  assumes D: "device_api api dev refused"
  shows "free_replicas api rs w = (ok, rs', w') \<Longrightarrow> keeps dev refused w w'"
proof (induction rs arbitrary: w ok rs' w')
  case (Cons r rs)
  obtain g w1 where g: "guard_new api (gpuId r) w = (g, w1)" by fastforce
  obtain freed w2 where f: "cudaFree api (d_data r) w1 = (freed, w2)" by fastforce
  have "keeps dev refused w (guard_delete api g w1)" "keeps dev refused w (guard_delete api g w2)"
    using guard_scope [OF D g] device_kept(2) [OF D f] by auto
  then show ?case
    using Cons.prems g f Cons.IH by (auto simp: Let_def split: if_splits prod.splits intro: keeps_trans)
qed simp

lemma entry_release_device:
  assumes "device_api api dev refused" "entry_release api e w = (ok, e', w')"
  shows "keeps dev refused w w'"
  using assms(2) free_replicas_device [OF assms(1)] by (auto simp: entry_release_def Let_def split: if_splits prod.splits)

lemma alloc_replicas_device:
  assumes D: "device_api api dev refused"
  shows "alloc_replicas api is e w = (ok, e', w') \<Longrightarrow> keeps dev refused w w'"
proof (induction "is" arbitrary: e w)
  case (Cons i "is")
  obtain g w1 where g: "guard_new api (gpuId (replicas e ! i)) w = (g, w1)" by fastforce
  obtain p w2 where p: "(if guard_ok g then cudaMalloc api (entryBytes e) w1 else (None, w1)) = (p, w2)" by fastforce
  have w2: "keeps dev refused w1 w2" using p device_kept(1) [OF D] by (auto split: if_splits)
  show ?case
  proof (cases p)
    case None
    obtain b e3 w3 where r: "entry_release api e w2 = (b, e3, w3)" by (metis prod_cases3)
    then have "w' = guard_delete api g w3" using Cons.prems g p None by simp
    then show ?thesis using guard_scope [OF D g, of w3] keeps_trans [OF w2 entry_release_device [OF D r]] by simp
  next
    case (Some q)
    then have "keeps dev refused (guard_delete api g w2) w'" using Cons.prems Cons.IH g p by fastforce
    then show ?thesis using keeps_trans [OF guard_scope [OF D g w2]] by blast
  qed
qed simp

lemma entry_initialize_device:
  assumes "device_api api dev refused" "entry_initialize api h gs n e w = (ok, e', w')"
  shows "keeps dev refused w w'"
  using assms(2) alloc_replicas_device [OF assms(1)]
  by (auto simp: entry_initialize_def Let_def simp del: alloc_replicas.simps upt_rec_numeral length_map
      split: if_splits prod.splits bool.splits)

lemma destroy_entries_device:
  assumes D: "device_api api dev refused"
  shows "keeps dev refused w (destroy_entries api es w)"
proof (induction es arbitrary: w)
  case (Cons x es)
  then show ?case by (cases x) (auto simp: Let_def split: prod.splits dest: entry_release_device [OF D] intro: keeps_trans)
qed simp

lemma build_entries_device:
  assumes D: "device_api api dev refused"
  shows "build_entries api mem gs n is acc w = (es, w') \<Longrightarrow> keeps dev refused w w'"
proof (induction "is" arbitrary: acc w)
  case (Cons i "is")
  obtain b e w1 where i: "entry_initialize api (replicaMemory mem i) gs n new_entry w = (b, e, w1)" by (metis prod_cases3)
  note E = entry_initialize_device [OF D i] and X = destroy_entries_device [OF D]
  show ?case
  proof (cases "entryMemory mem i \<and> b")
    case True
    then have "build_entries api mem gs n is (acc @ [Some e]) w1 = (es, w')" using Cons.prems i by simp
    then show ?thesis by (rule keeps_trans [OF E Cons.IH])
  next
    case False
    then have "w' = destroy_entries api acc w \<or> w' = destroy_entries api acc (destroy_entries api [Some e] w1)"
      using Cons.prems i by (auto split: if_splits bool.splits)
    moreover have "keeps dev refused w (destroy_entries api [Some e] w1)" by (rule keeps_trans [OF E X])
    ultimately show ?thesis using X by (auto simp del: destroy_entries.simps intro: keeps_trans [OF _ X])
  qed
qed simp

lemma cache_initialize_device:
  assumes D: "device_api api dev refused" and run: "cache_initialize api mem gs n count timeout policy s w = Some (ok, s', w')"
  shows "keeps dev refused w w'"
proof -
  obtain es w1 where b: "build_entries api mem gs n [0..<unat count] [] w = (es, w1)" by fastforce
  have "w' = w \<or> w' = w1 \<or> (\<exists>xs. w' = destroy_entries api xs w1)"
    using run b by (auto simp: cache_initialize_def Let_def bind_eq_Some_conv split: if_splits prod.splits option.splits)
  then show ?thesis using build_entries_device [OF D b] destroy_entries_device [OF D] keeps_trans keeps_refl by metis
qed

lemma release_entries_device:
  assumes D: "device_api api dev refused"
  shows "release_entries api es w = (ok, allReleased, es', w') \<Longrightarrow> keeps dev refused w w'"
proof (induction es arbitrary: w ok allReleased es')
  case (Cons x es)
  show ?case
  proof (cases x)
    case None
    then show ?thesis using Cons by (auto simp: Let_def split: prod.splits)
  next
    case (Some e)
    obtain b e1 w1 where r: "entry_release api e w = (b, e1, w1)" by (metis prod_cases3)
    then show ?thesis using Cons.prems Cons.IH Some r keeps_trans [OF entry_release_device [OF D r]] by (auto simp: Let_def split: prod.splits)
  qed
qed simp

lemma cache_release_device:
  assumes D: "device_api api dev refused" and run: "cache_release api s w = (ok, s', w')"
  shows "keeps dev refused w w'"
  using run release_entries_device [OF D] by (auto simp: cache_release_def Let_def split: prod.splits option.splits)

section \<open>Static data\<close>

lemma sync_stream_device: "device_api api dev refused \<Longrightarrow> sync_stream api st w = (b, w') \<Longrightarrow> keeps dev refused w w'"
  using device_kept(4) by (auto simp: sync_stream_def split: if_splits)

lemma free_buffers_device:
  assumes D: "device_api api dev refused"
  shows "free_buffers api bs w = (ok, bs', w') \<Longrightarrow> keeps dev refused w w'"
proof (induction bs arbitrary: w ok bs')
  case (Cons b bs)
  obtain freed w1 where f: "cudaFree api (buf_data b) w = (freed, w1)" by fastforce
  then show ?case
    using Cons.prems Cons.IH f keeps_trans [OF device_kept(2) [OF D f]] by (auto simp: Let_def split: if_splits prod.splits)
qed simp

lemma release_resources_device:
  assumes D: "device_api api dev refused" and run: "release_resources api d w = (ok, d', w')"
  shows "keeps dev refused w w'"
proof -
  obtain b1 w1 where 1: "sync_stream api (uploadStream d) w = (b1, w1)" by fastforce
  obtain b2 bs w2 where 2: "free_buffers api (buffers d) w1 = (b2, bs, w2)" by (metis prod_cases3)
  obtain b3 st w3 where 3: "destroy_stream api (uploadStream d) w2 = (b3, st, w3)" by (metis prod_cases3)
  have "keeps dev refused w2 w3" using 3 device_kept(5) [OF D] by (auto simp: destroy_stream_def Let_def split: if_splits prod.splits)
  moreover have "w' = w3" using run 1 2 3 by (simp add: release_resources_def Let_def)
  ultimately show ?thesis using keeps_trans [OF sync_stream_device [OF D 1] free_buffers_device [OF D 2]] keeps_trans by metis
qed

lemma static_release_device:
  assumes D: "device_api api dev refused" and run: "static_release api d w = (ok, d', w')"
  shows "keeps dev refused w w'"
proof (cases "hasResources d")
  case True
  obtain g w1 where g: "guard_new api (staticDevice d) w = (g, w1)" by fastforce
  obtain b d2 w2 where r: "release_resources api (d\<lparr>currentState := StaticFailed\<rparr>) w1 = (b, d2, w2)" by (metis prod_cases3)
  have "w' = guard_delete api g w1 \<or> w' = guard_delete api g w2"
    using run True g r by (auto simp: static_release_def Let_def split: if_splits)
  then show ?thesis using guard_scope [OF D g] release_resources_device [OF D r] by auto
next
  case False
  then show ?thesis using run release_resources_device [OF D] by (simp add: static_release_def)
qed

lemma failInitialization_device:
  assumes D: "device_api api dev refused" and run: "failInitialization api d w = (ok, d', w')"
  shows "keeps dev refused w w'"
  using run static_release_device [OF D] by (auto simp: failInitialization_def split: prod.splits)

lemma alloc_buffers_device:
  assumes D: "device_api api dev refused"
  shows "alloc_buffers api is d w = (ok, d', w') \<Longrightarrow> keeps dev refused w w'"
proof (induction "is" arbitrary: d w)
  case (Cons i "is")
  let ?c = "capacity (buffers d ! i)"
  obtain p w1 where p: "cudaMalloc api ?c w = (p, w1)" by fastforce
  obtain b w2 where b: "cudaMemsetAsync api (the p) ?c (uploadStream d) w1 = (b, w2)" by fastforce
  have same: "keeps dev refused w w1" "keeps dev refused w w2"
    using device_kept(1) [OF D p] keeps_trans [OF device_kept(1) [OF D p] device_kept(6) [OF D b]] by simp_all
  show ?case
    using Cons.prems Cons.IH p b same keeps_trans [OF same(1)] keeps_trans [OF same(2)] by (cases "?c = 0"; cases p; cases b) (auto simp: Let_def)
qed simp

lemma static_initialize_device:
  assumes D: "device_api api dev refused" and run: "static_initialize api gp zones tables d w = (ok, d', w')"
  shows "keeps dev refused w w'"
proof -
  obtain g w1 where g: "guard_new api gp w = (g, w1)" by fastforce
  obtain st w2 where c: "cudaStreamCreateWithFlags api w1 = (st, w2)" by fastforce
  have w2: "keeps dev refused w1 w2" using device_kept(3) [OF D c] .
  have inner: "keeps dev refused w1 w3"
    if "(if zones \<noteq> 0 \<or> tables \<noteq> 0
         then case cudaStreamCreateWithFlags api w1 of
             (None, w2) \<Rightarrow> failInitialization api d2 w2
           | (Some st, w2) \<Rightarrow>
               (case alloc_buffers api [0, 1] (d2\<lparr>uploadStream := st\<rparr>) w2 of
                  (False, d4, w4) \<Rightarrow> failInitialization api d4 w4
                | (True, d4, w4) \<Rightarrow> (True, d4\<lparr>currentState := Uploading\<rparr>, w4))
         else (True, d2\<lparr>currentState := Uploading\<rparr>, w1)) = (b, d3, w3)" for d2 b d3 w3
    using that c w2
    by (auto simp del: alloc_buffers.simps split: if_splits option.splits prod.splits bool.splits
        intro: keeps_trans [OF _ failInitialization_device [OF D]] keeps_trans [OF _ alloc_buffers_device [OF D]])
  have "w' = w \<or> (\<exists>v. w' = guard_delete api g v \<and> keeps dev refused w1 v)"
    using run g inner by (auto simp: static_initialize_def Let_def split: if_splits prod.splits)
  then show ?thesis using guard_scope [OF D g] by auto
qed


lemma static_upload_device:
  assumes D: "device_api api dev refused" and run: "static_upload api type source count offset d w = (ok, d', w')"
  shows "keeps dev refused w w'"
proof -
  obtain g w1 where g: "guard_new api (staticDevice d) w = (g, w1)" by fastforce
  note G = guard_scope [OF D g]
  show ?thesis
  proof (cases "bufferFor type d")
    case None
    then show ?thesis using run by (auto simp: static_upload_def split: if_splits)
  next
    case (Some b)
    obtain copied w2 where c: "cudaMemcpyAsync api (buf_data b, offset) source count (uploadStream d) w1 = (copied, w2)" by fastforce
    obtain synced w3 where s: "cudaStreamSynchronize api (uploadStream d) w2 = (synced, w3)" by fastforce
    have "keeps dev refused w (guard_delete api g w1)" "keeps dev refused w (guard_delete api g w3)"
      using G [OF keeps_refl] G [OF keeps_trans [OF device_kept(7) [OF D c] device_kept(4) [OF D s]]] .
    then show ?thesis using run g Some c s by (auto simp: static_upload_def Let_def split: if_splits)
  qed
qed

lemma static_finalize_device:
  assumes D: "device_api api dev refused" and run: "static_finalize api d w = (ok, d', w')"
  shows "keeps dev refused w w'"
proof -
  obtain g w1 where g: "guard_new api (staticDevice d) w = (g, w1)" by fastforce
  have "w' = w \<or> (\<exists>v. w' = guard_delete api g v \<and> keeps dev refused w1 v)"
    using run g sync_stream_device [OF D] by (auto simp: static_finalize_def Let_def split: if_splits prod.splits)
  then show ?thesis using guard_scope [OF D g] by auto
qed

lemma memory_fits_device:
  assumes D: "device_api api dev refused" and run: "memory_fits api gp need w = (ok, w')"
  shows "keeps dev refused w w'"
proof -
  obtain g w1 where g: "guard_new api gp w = (g, w1)" by fastforce
  have "w' = w \<or> (\<exists>v. w' = guard_delete api g v \<and> keeps dev refused w1 v)"
    using run g device_kept(8) [OF D] by (auto simp: memory_fits_def Let_def split: if_splits prod.splits option.splits)
  then show ?thesis using guard_scope [OF D g] by auto
qed

lemma StaticData_release_device:
  assumes D: "device_api api dev refused" and run: "StaticData_release api S w = (ok, S', w')"
  shows "keeps dev refused w w'"
  using run by (auto simp: StaticData_release_def Let_def split: if_splits prod.splits
      intro: cache_release_device [OF D] static_release_device [OF D] keeps_trans [OF cache_release_device [OF D] static_release_device [OF D]])

lemma init_static_part_device:
  assumes D: "device_api api dev refused" and run: "init_static_part api gp cfg S w = (ok, S', w')"
  shows "keeps dev refused w w'"
proof -
  obtain b1 s1 w1 where i: "static_initialize api gp (detectionZoneBytes cfg) (distortionBytes cfg) (gpuStaticData S) w = (b1, s1, w1)"
    by (metis prod_cases3)
  obtain b2 s2 w2 where f: "(if b1 \<and> detectionZoneBytes cfg = 0 \<and> distortionBytes cfg = 0 then static_finalize api s1 w1 else (b1, s1, w1)) = (b2, s2, w2)"
    by (metis prod_cases3)
  have w2: "keeps dev refused w w2"
    using f static_finalize_device [OF D] static_initialize_device [OF D i] keeps_trans by (metis prod.inject)
  obtain b3 S3 w3 where r: "StaticData_release api (S\<lparr>gpuStaticData := s2\<rparr>) w2 = (b3, S3, w3)" by (metis prod_cases3)
  have "w' = w2 \<or> w' = w3" using run i f r unfolding init_static_part_def Let_def by (auto split: if_splits)
  then show ?thesis using w2 keeps_trans [OF w2 StaticData_release_device [OF D r]] by auto
qed

lemma StaticData_init_device:
  assumes D: "device_api api dev refused" and run: "StaticData_init api mem getcpu M cfg S w = Some (ok, S', w')"
  shows "keeps dev refused w w'"
  using run memory_fits_device [OF D] cache_initialize_device [OF D] init_static_part_device [OF D]
  by (fastforce simp: StaticData_init_def split: if_splits option.splits prod.splits bool.splits intro: keeps_trans)

end
