(* ===== verification/Frame_Atom.thy ===== *)
theory Frame_Atom
  imports Gpu_Types
begin

text \<open>
  The plain data of the demo graph: \<open>demo/ImageSizing.h\<close> and \<open>demo/WorkloadSizing.h\<close>, the
  structures of \<open>demo/Algo/IAlgo.h\<close>, the enumerations of \<open>demo/Grape/GraphTypes.h\<close>, the frame
  objects of \<open>demo/Grape/FrameCpuAtom.h\<close> and \<open>.cpp\<close>, \<open>makeFrameMetadata\<close> of
  \<open>demo/Grape/DummyGraph.cpp\<close> and \<open>validRuntime\<close> of \<open>demo/DummyTask.cpp\<close>.  An \<open>int\<close> of the code
  is an \<open>int\<close>; that no computation on it leaves the 32-bit range is part of what is proved.
\<close>

section \<open>Sizes\<close>

definition DEFAULT_FACTOR :: int where "DEFAULT_FACTOR = 128"
definition MIN_FACTOR :: int where "MIN_FACTOR = 16"
definition MAX_FACTOR :: int where "MAX_FACTOR = 256"
definition FACTOR_ALIGNMENT :: int where "FACTOR_ALIGNMENT = 16"
definition INPUT_MULTIPLIER :: int where "INPUT_MULTIPLIER = 8"
definition CEL_MULTIPLIER :: int where "CEL_MULTIPLIER = 2"
definition SDD_MULTIPLIER :: int where "SDD_MULTIPLIER = 3"
definition MI_MULTIPLIER :: int where "MI_MULTIPLIER = 3"

lemmas sizing_defs = DEFAULT_FACTOR_def MIN_FACTOR_def MAX_FACTOR_def FACTOR_ALIGNMENT_def INPUT_MULTIPLIER_def
  CEL_MULTIPLIER_def SDD_MULTIPLIER_def MI_MULTIPLIER_def

definition isValidFactor :: "int \<Rightarrow> bool" where
  "isValidFactor factor \<longleftrightarrow> factor \<ge> MIN_FACTOR \<and> factor \<le> MAX_FACTOR \<and> factor mod FACTOR_ALIGNMENT = 0"

definition scaledDimension :: "int \<Rightarrow> int \<Rightarrow> int" where
  "scaledDimension factor multiplier = factor * multiplier"

definition squareBytes :: "int \<Rightarrow> size_t \<Rightarrow> size_t" where
  "squareBytes dimension elementBytes = of_int dimension * of_int dimension * elementBytes"

section \<open>Results and frames\<close>

datatype ExecutionModel = Batched | Interleaved | OtherModel int

datatype FramePhase = Warmup | Timed | OtherPhase int

record AlgoParams =
  param_name :: string
  param_blob :: "u8 list"

definition default_params :: AlgoParams where
  "default_params = \<lparr>param_name = [], param_blob = []\<rparr>"

record AlgoOutput =
  algoName :: string
  out_data :: "u8 list"
  out_width :: int
  out_height :: int

record JobResult =
  job_id :: u64
  job_ok :: bool
  outputs :: "AlgoOutput list"

record FrameCpuAtom =
  atom_metadata :: FrameMetadata
  atom_data :: "u8 list"
  atom_result :: JobResult

definition makeOutput :: "string \<Rightarrow> int \<Rightarrow> AlgoOutput" where
  "makeOutput name dimension = \<lparr>algoName = name, out_data = replicate (unat (squareBytes dimension 4)) 0,
     out_width = dimension, out_height = dimension\<rparr>"

definition makeFrameMetadata :: "u64 \<Rightarrow> AlgoRuntimeInfo \<Rightarrow> FrameMetadata" where
  "makeFrameMetadata i rt = \<lparr>key = default_key\<lparr>frameId := i\<rparr>, bytes = inBytes rt, width = frameW rt,
     height = frameH rt, dtype = frameDtype rt\<rparr>"

text \<open>The byte of the test pattern at a position; the sum of index and frame id wraps.\<close>

definition pattern_byte :: "u64 \<Rightarrow> nat \<Rightarrow> u8" where
  "pattern_byte i index = ucast ((of_nat index + i) mod 251)"

text \<open>The constructor \<open>FrameCpuAtom::FrameCpuAtom\<close>.\<close>

definition new_atom :: "FrameMetadata \<Rightarrow> AlgoRuntimeInfo \<Rightarrow> FrameCpuAtom" where
  "new_atom md rt = \<lparr>atom_metadata = md,
     atom_data = map (pattern_byte (frameId (key md))) [0..<unat (bytes md)],
     atom_result = \<lparr>job_id = frameId (key md), job_ok = True,
       outputs = [makeOutput ''cel'' (scaledDimension (sizeFactor rt) CEL_MULTIPLIER),
                  makeOutput ''sdd'' (scaledDimension (sizeFactor rt) SDD_MULTIPLIER),
                  makeOutput ''mi'' (scaledDimension (sizeFactor rt) MI_MULTIPLIER)]\<rparr>\<rparr>"

definition validRuntime :: "AlgoRuntimeInfo \<Rightarrow> bool" where
  "validRuntime rt \<longleftrightarrow> isValidFactor (sizeFactor rt)
     \<and> (let expectedFrameSize = scaledDimension (sizeFactor rt) INPUT_MULTIPLIER;
            expectedInputBytes = squareBytes expectedFrameSize 1
        in frameW rt = expectedFrameSize \<and> frameH rt = expectedFrameSize \<and> inBytes rt = expectedInputBytes)"

section \<open>The sizes fit\<close>

lemma isValidFactor_bounds: "isValidFactor f \<Longrightarrow> 16 \<le> f \<and> f \<le> 256"
  by (simp add: isValidFactor_def sizing_defs)

lemma unat_squareBytes:
  assumes "0 \<le> d" "d \<le> 2 ^ 15" "unat e \<le> 2 ^ 30"
  shows "unat (squareBytes d e) = nat d * nat d * unat e"
proof -
  obtain n where d: "d = int n" and n: "n \<le> 2 ^ 15" using assms(1,2) by (metis nat_0_le nat_le_iff of_nat_power of_nat_numeral)
  have "n * n * unat e \<le> 2 ^ 15 * 2 ^ 15 * 2 ^ 30" using n assms(3) by (intro mult_le_mono)
  then have small: "n * n * unat e < 2 ^ 64" by simp
  have "squareBytes d e = of_nat (n * n * unat e)" by (simp add: squareBytes_def d)
  then have "unat (squareBytes d e) = n * n * unat e mod 2 ^ 64" by (simp only: unat_of_nat) simp
  then show ?thesis using small d by simp
qed

text \<open>
  For a runtime the tasks accept, every size of a frame is exact: no product leaves the \<open>int\<close> or
  the \<open>size_t\<close> range, the frame is a full square of \<open>inBytes\<close> bytes, and each of the three outputs
  is a square of 32-bit words that fits inside the frame's dimensions.
\<close>

lemma validRuntime_sizes:
  assumes "validRuntime rt"
  defines "f \<equiv> sizeFactor rt"
  shows "16 \<le> f" "f \<le> 256" "frameW rt = 8 * f" "frameH rt = 8 * f" "frameW rt \<le> INT_MAX"
    "unat (inBytes rt) = nat (8 * f) * nat (8 * f)"
    "m \<in> {2, 3} \<Longrightarrow> scaledDimension f m \<le> frameW rt \<and> unat (squareBytes (scaledDimension f m) 4) = 4 * nat (m * f) * nat (m * f)"
proof -
  have f: "isValidFactor f" using assms by (simp add: validRuntime_def)
  then show b: "16 \<le> f" "f \<le> 256" using isValidFactor_bounds by auto
  show w: "frameW rt = 8 * f" "frameH rt = 8 * f"
    using assms by (auto simp: validRuntime_def Let_def scaledDimension_def sizing_defs)
  show "frameW rt \<le> INT_MAX" using w b by (simp add: INT_MAX_def)
  have "inBytes rt = squareBytes (8 * f) 1"
    using assms by (auto simp: validRuntime_def Let_def scaledDimension_def sizing_defs mult.commute)
  then show "unat (inBytes rt) = nat (8 * f) * nat (8 * f)" using unat_squareBytes [of "8 * f" 1] b by simp
  show "scaledDimension f m \<le> frameW rt \<and> unat (squareBytes (scaledDimension f m) 4) = 4 * nat (m * f) * nat (m * f)"
    if "m \<in> {2, 3}"
    using that unat_squareBytes [of "f * m" 4] b w by (auto simp: scaledDimension_def mult.commute)
qed

text \<open>The frames a graph prepares for such a runtime have the layout its tasks check for.\<close>

lemma new_atom_layout:
  assumes "validRuntime rt"
  shows "let a = new_atom (makeFrameMetadata i rt) rt in
      length (atom_data a) = unat (inBytes rt) \<and> bytes (atom_metadata a) = inBytes rt
      \<and> width (atom_metadata a) = frameW rt \<and> height (atom_metadata a) = frameH rt \<and> dtype (atom_metadata a) = frameDtype rt
      \<and> inBytes rt \<noteq> 0 \<and> length (outputs (atom_result a)) = 3"
proof -
  have "unat (inBytes rt) \<noteq> 0" using validRuntime_sizes(1,6) [OF assms] by simp
  then show ?thesis by (auto simp: new_atom_def makeFrameMetadata_def Let_def)
qed

end
