(* ===== verification/Graph_Scheduler.thy ===== *)
theory Graph_Scheduler
  imports Frame_Atom State_Machine "HOL-Library.Multiset"
begin

text \<open>
  The scheduler of \<open>demo/Grape/DummyGraph.h\<close> and \<open>.cpp\<close>: the worker threads, the queue of frames,
  the pool of free tasks, and the calls that drive them.  The threads run concurrently, so the model
  is a step relation.  A step is what one thread does between two points at which another thread can
  observe it: a section under \<open>schedulerLock\<close>, one access to the atomic cancellation flag, the
  delivery of a result, the passing of a gate.  Each step is an executable function on the state; the
  program counter of a worker is a value of \<open>worker\<close>.

  Frames, tasks and gates are named by their addresses.  What \<open>staticData.validateFrame\<close> answers is
  the argument \<open>accepts\<close>; the result of \<open>staticData.execute() && task->execute(...)\<close> and of the
  calls the executor runs on the NUMA node is open: every theorem holds for each outcome.
\<close>

section \<open>State\<close>

text \<open>
  Where a worker is: it has been created (\<open>WStarting\<close>), is about to test the condition it waits
  for (\<open>WLooking\<close>), sleeps on \<open>workCondition\<close>, waits for the gate with a claimed frame and task, is
  past the gate, runs the task, has the answer of the task, is about to deliver the result, is about
  to hand the task back, or has returned.
\<close>

datatype worker =
    WStarting
  | WLooking
  | WAsleep
  | WClaimed (frame: nat) (task: nat) (gate: nat)
  | WGated (frame: nat) (task: nat)
  | WRunning (frame: nat) (task: nat)
  | WRan (frame: nat) (task: nat) bool
  | WDelivering (frame: nat) (task: nat) bool
  | WFinishing (frame: nat) (task: nat) bool
  | WExited

text \<open>A thread in \<open>waitForPhase\<close>: none, about to test \<open>phaseActive\<close>, asleep, or returned.\<close>

datatype waiter = PNone | PLooking | PAsleep | PReturned bool

text \<open>Where the thread that initialises and shuts down is.\<close>

datatype control = CConstructed | CAwaitStartup | CJoinStartup | CReady | CJoinShutdown | CJoined | CUnloaded

record GraphSink =
  deliveredResults :: size_t
  failedResults :: size_t

record Graph =
  graphThreads :: size_t
  tasks :: "nat list"
  warmupAtoms :: "nat list"
  timedAtoms :: "nat list"
  readyFrames :: "nat list"
  freeTasks :: "nat list"
  phaseGate :: ptr
  readyWorkers :: size_t
  phaseTotal :: size_t
  phaseTerminal :: size_t
  inFlight :: size_t
  lastMaxInFlight :: size_t
  workerStartupFailed :: bool
  warmupSubmitted :: bool
  timedSubmitted :: bool
  phaseActive :: bool
  phaseSucceeded :: bool
  initialized :: bool
  executionCycleStarted :: bool
  executionCycleStopped :: bool
  stopping :: bool
  cancellation :: bool
  sink :: GraphSink
  atoms :: "nat \<Rightarrow> FrameCpuAtom"
  released :: "nat \<Rightarrow> bool"
  workers :: "worker list"
  phaseWaiter :: waiter
  control_at :: control
  delivered :: "(nat \<times> bool) list"

text \<open>
  \<open>released\<close> is the flag of each \<open>PhaseGate\<close>.  \<open>delivered\<close> is a history variable: the frames
  delivered so far, each with the \<open>ok\<close> of its result; no step reads it.
\<close>

section \<open>Small operations\<close>

definition PhaseGate_release :: "nat \<Rightarrow> Graph \<Rightarrow> Graph" where
  "PhaseGate_release g G = G\<lparr>released := (released G)(g := True)\<rparr>"

definition GraphSink_deliver :: "JobResult \<Rightarrow> GraphSink \<Rightarrow> GraphSink" where
  "GraphSink_deliver r s = \<lparr>deliveredResults = deliveredResults s + 1,
     failedResults = (if job_ok r then failedResults s else failedResults s + 1)\<rparr>"

definition validFramePhase :: "FramePhase \<Rightarrow> bool" where
  "validFramePhase phase \<longleftrightarrow> phase = Warmup \<or> phase = Timed"

definition atomsForPhase :: "FramePhase \<Rightarrow> Graph \<Rightarrow> nat list" where
  "atomsForPhase phase G = (if phase = Warmup then warmupAtoms G else timedAtoms G)"

definition deliverFrameResult :: "nat \<Rightarrow> Graph \<Rightarrow> Graph" where
  "deliverFrameResult a G = G\<lparr>sink := GraphSink_deliver (atom_result (atoms G a)) (sink G),
     delivered := delivered G @ [(a, job_ok (atom_result (atoms G a)))]\<rparr>"

definition set_ok :: "bool \<Rightarrow> FrameCpuAtom \<Rightarrow> FrameCpuAtom" where
  "set_ok b x = x\<lparr>atom_result := (atom_result x)\<lparr>job_ok := b\<rparr>\<rparr>"

text \<open>\<open>readyFrame.atom->result.ok = false; deliverFrameResult(*readyFrame.atom);\<close>\<close>

definition fail_frame :: "nat \<Rightarrow> Graph \<Rightarrow> Graph" where
  "fail_frame a G = deliverFrameResult a (G\<lparr>atoms := (atoms G)(a := set_ok False (atoms G a))\<rparr>)"

fun cancel_frames :: "nat list \<Rightarrow> Graph \<Rightarrow> Graph" where
  "cancel_frames [] G = G"
| "cancel_frames (a # as) G =
     (let G1 = fail_frame a (G\<lparr>readyFrames := as\<rparr>) in cancel_frames as (G1\<lparr>phaseTerminal := phaseTerminal G1 + 1\<rparr>))"

definition cancelReadyFramesLocked :: "Graph \<Rightarrow> Graph" where
  "cancelReadyFramesLocked G = (cancel_frames (readyFrames G) G)\<lparr>phaseSucceeded := False\<rparr>"

definition cancelPreparedFramesLocked :: "Graph \<Rightarrow> Graph" where
  "cancelPreparedFramesLocked G =
     (let G1 = (if warmupSubmitted G then G else fold fail_frame (warmupAtoms G) (G\<lparr>warmupSubmitted := True\<rparr>))
      in if timedSubmitted G1 then G1 else fold fail_frame (timedAtoms G1) (G1\<lparr>timedSubmitted := True\<rparr>))"

text \<open>\<open>notify_all\<close> on the two condition variables.\<close>

definition notify_work :: "Graph \<Rightarrow> Graph" where
  "notify_work G = G\<lparr>workers := map (\<lambda>w. if w = WAsleep then WLooking else w) (workers G)\<rparr>"

definition notify_phase :: "Graph \<Rightarrow> Graph" where
  "notify_phase G = G\<lparr>phaseWaiter := (if phaseWaiter G = PAsleep then PLooking else phaseWaiter G)\<rparr>"

definition finishPhaseIfCompleteLocked :: "Graph \<Rightarrow> Graph" where
  "finishPhaseIfCompleteLocked G =
     (if phaseActive G \<and> readyFrames G = [] \<and> inFlight G = 0 \<and> phaseTerminal G = phaseTotal G
      then notify_phase (G\<lparr>phaseActive := False, phaseGate := nullptr\<rparr>) else G)"

section \<open>The worker\<close>

definition set_worker :: "nat \<Rightarrow> worker \<Rightarrow> Graph \<Rightarrow> Graph" where
  "set_worker i w G = G\<lparr>workers := (workers G)[i := w]\<rparr>"

text \<open>The first section under the lock.\<close>

definition worker_report :: "nat \<Rightarrow> bool \<Rightarrow> Graph \<Rightarrow> Graph" where
  "worker_report i numaReady G =
     (let G1 = G\<lparr>readyWorkers := readyWorkers G + 1\<rparr>
      in if numaReady then set_worker i WLooking G1
         else set_worker i WExited (G1\<lparr>workerStartupFailed := True, cancellation := True\<rparr>))"

text \<open>The predicate a worker waits for.\<close>

definition work_available :: "Graph \<Rightarrow> bool" where
  "work_available G \<longleftrightarrow> stopping G \<or> phaseActive G \<and> (cancellation G \<or> readyFrames G \<noteq> [] \<and> freeTasks G \<noteq> [])"

text \<open>
  The second section under the lock: sleep, return, cancel what is left, or claim a frame, the task
  freed last, and the gate of the phase.  The code follows the pointer to the gate, which is not null while a phase is active (\<open>phase_ok\<close> in
  \<open>Graph_Invariant\<close>); the case without a gate is there to make the function total.
\<close>

definition worker_claim :: "nat \<Rightarrow> Graph \<Rightarrow> Graph" where
  "worker_claim i G = (case phaseGate G of
      None \<Rightarrow> G
    | Some g \<Rightarrow>
        let n = inFlight G + 1
        in set_worker i (WClaimed (hd (readyFrames G)) (last (freeTasks G)) g)
             (G\<lparr>readyFrames := tl (readyFrames G), freeTasks := butlast (freeTasks G), inFlight := n,
                lastMaxInFlight := max (lastMaxInFlight G) n\<rparr>))"

definition worker_look :: "nat \<Rightarrow> Graph \<Rightarrow> Graph" where
  "worker_look i G =
     (if \<not> work_available G then set_worker i WAsleep G
      else if stopping G then set_worker i WExited G
      else if cancellation G then finishPhaseIfCompleteLocked (cancelReadyFramesLocked G)
      else worker_claim i G)"

text \<open>\<open>if (!cancellation->load(...))\<close>: run the task, or count the frame as failed.\<close>

definition worker_check :: "nat \<Rightarrow> Graph \<Rightarrow> Graph" where
  "worker_check i G = (case workers G ! i of
      WGated a t \<Rightarrow> set_worker i (if cancellation G then WRan a t False else WRunning a t) G
    | _ \<Rightarrow> G)"

text \<open>The end of the task: its answer and the result it leaves in the frame.\<close>

definition worker_ran :: "nat \<Rightarrow> bool \<Rightarrow> JobResult \<Rightarrow> Graph \<Rightarrow> Graph" where
  "worker_ran i succeeded r G = (case workers G ! i of
      WRunning a t \<Rightarrow> set_worker i (WRan a t succeeded) (G\<lparr>atoms := (atoms G)(a := (atoms G a)\<lparr>atom_result := r\<rparr>)\<rparr>)
    | _ \<Rightarrow> G)"

text \<open>
  A failure cancels the run; a frame whose task failed or whose run is cancelled is marked as failed.
  Nothing ever clears the flag, so the store and the load that follows it are one step.
\<close>

definition worker_settle :: "nat \<Rightarrow> Graph \<Rightarrow> Graph" where
  "worker_settle i G = (case workers G ! i of
      WRan a t succeeded \<Rightarrow>
        let G1 = (if succeeded then G else G\<lparr>cancellation := True\<rparr>);
            G2 = (if \<not> succeeded \<or> cancellation G1 then G1\<lparr>atoms := (atoms G1)(a := set_ok False (atoms G1 a))\<rparr> else G1)
        in set_worker i (WDelivering a t succeeded) G2
    | _ \<Rightarrow> G)"

definition worker_deliver :: "nat \<Rightarrow> Graph \<Rightarrow> Graph" where
  "worker_deliver i G = (case workers G ! i of
      WDelivering a t succeeded \<Rightarrow> set_worker i (WFinishing a t succeeded) (deliverFrameResult a G)
    | _ \<Rightarrow> G)"

text \<open>The last section under the lock.\<close>

definition worker_finish :: "nat \<Rightarrow> Graph \<Rightarrow> Graph" where
  "worker_finish i G = (case workers G ! i of
      WFinishing a t succeeded \<Rightarrow>
        let G1 = set_worker i WLooking (G\<lparr>freeTasks := freeTasks G @ [t], inFlight := inFlight G - 1, phaseTerminal := phaseTerminal G + 1\<rparr>);
            G2 = (if \<not> succeeded \<or> cancellation G1 then cancelReadyFramesLocked (G1\<lparr>phaseSucceeded := False\<rparr>) else G1)
        in notify_work (finishPhaseIfCompleteLocked G2)
    | _ \<Rightarrow> G)"

section \<open>The calls\<close>

definition new_graph :: "size_t \<Rightarrow> (nat \<Rightarrow> FrameCpuAtom) \<Rightarrow> Graph" where
  "new_graph threads objects = \<lparr>graphThreads = threads, tasks = [], warmupAtoms = [], timedAtoms = [],
     readyFrames = [], freeTasks = [], phaseGate = nullptr, readyWorkers = 0, phaseTotal = 0, phaseTerminal = 0,
     inFlight = 0, lastMaxInFlight = 0, workerStartupFailed = False, warmupSubmitted = False, timedSubmitted = False,
     phaseActive = False, phaseSucceeded = True, initialized = False, executionCycleStarted = False,
     executionCycleStopped = False, stopping = False, cancellation = False,
     sink = \<lparr>deliveredResults = 0, failedResults = 0\<rparr>, atoms = objects, released = (\<lambda>_. False), workers = [],
     phaseWaiter = PNone, control_at = CConstructed, delivered = []\<rparr>"

text \<open>
  \<open>initialize()\<close> after \<open>initializeOnNumaNode()\<close> built the tasks and the frames: fill the pool and create
  the workers.  When the creation of a thread throws, the workers created so far are told to stop.
\<close>

definition initialize_spawn :: "nat list \<Rightarrow> nat list \<Rightarrow> nat list \<Rightarrow> nat \<Rightarrow> Graph \<Rightarrow> Graph" where
  "initialize_spawn ts warm timed created G =
     (let G1 = G\<lparr>tasks := ts, warmupAtoms := warm, timedAtoms := timed, freeTasks := ts, workers := replicate created WStarting\<rparr>
      in if created = unat (graphThreads G) then G1\<lparr>control_at := CAwaitStartup\<rparr>
         else notify_work (G1\<lparr>cancellation := True, stopping := True, control_at := CJoinStartup\<rparr>))"

text \<open>The wait for \<open>readyWorkers == config.graphThreads\<close> and what follows it.\<close>

definition initialize_await :: "Graph \<Rightarrow> Graph" where
  "initialize_await G =
     (if workerStartupFailed G then notify_work (G\<lparr>stopping := True, control_at := CJoinStartup\<rparr>)
      else G\<lparr>initialized := True, control_at := CReady\<rparr>)"

text \<open>\<open>unloadOnNumaNode()\<close>, as far as the scheduler's state is concerned.\<close>

definition unload_graph :: "Graph \<Rightarrow> Graph" where
  "unload_graph G =
     (let G1 = (if executionCycleStarted G then G\<lparr>executionCycleStarted := False, executionCycleStopped := True\<rparr> else G)
      in G1\<lparr>warmupAtoms := [], timedAtoms := [], warmupSubmitted := False, timedSubmitted := False, tasks := []\<rparr>)"

text \<open>
  A failed start: join, cancel, unload, return \<open>false\<close>.  The same happens, without workers, when
  \<open>initializeOnNumaNode()\<close> fails; a graph that was unloaded cannot be initialised again, because its
  parameter registry is sealed.
\<close>

definition initialize_failed :: "Graph \<Rightarrow> Graph" where
  "initialize_failed G = (unload_graph (G\<lparr>workers := [], cancellation := True\<rparr>))\<lparr>control_at := CUnloaded\<rparr>"

definition graph_start :: "bool \<Rightarrow> Graph \<Rightarrow> bool \<times> Graph" where
  "graph_start started G =
     (if \<not> initialized G \<or> executionCycleStarted G \<or> executionCycleStopped G \<or> phaseActive G \<or> stopping G \<or> cancellation G
      then (False, G)
      else if \<not> started then (False, G\<lparr>cancellation := True\<rparr>)
      else (True, G\<lparr>executionCycleStarted := True\<rparr>))"

text \<open>
  The loop of \<open>startPhase\<close> that fills the queue: it stops at the first frame the static data does not
  accept, and an allocation of the queue may fail after \<open>memory\<close> frames.
\<close>

datatype queue_result = Queued | Rejected | OutOfMemory

fun queue_frames :: "(FrameMetadata \<Rightarrow> bool) \<Rightarrow> (nat \<Rightarrow> FrameCpuAtom) \<Rightarrow> nat \<Rightarrow> nat list \<Rightarrow> queue_result" where
  "queue_frames accepts objs memory [] = Queued"
| "queue_frames accepts objs memory (a # as) =
     (if \<not> accepts (atom_metadata (objs a)) then Rejected
      else case memory of 0 \<Rightarrow> OutOfMemory | Suc m \<Rightarrow> queue_frames accepts objs m as)"

text \<open>\<open>atom->result.id = atom->metadata.key.frameId; atom->result.ok = true;\<close>\<close>

definition reset_result :: "FrameCpuAtom \<Rightarrow> FrameCpuAtom" where
  "reset_result x = x\<lparr>atom_result := (atom_result x)\<lparr>job_id := frameId (key (atom_metadata x)), job_ok := True\<rparr>\<rparr>"

text \<open>The part of \<open>startPhase\<close> after the queue is filled.\<close>

definition submit_phase :: "FramePhase \<Rightarrow> nat \<Rightarrow> Graph \<Rightarrow> Graph" where
  "submit_phase phase g G =
     (let phaseAtoms = atomsForPhase phase G;
          total = of_nat (length phaseAtoms);
          G1 = G\<lparr>atoms := (\<lambda>a. if a \<in> set phaseAtoms then reset_result (atoms G a) else atoms G a), readyFrames := phaseAtoms,
                 warmupSubmitted := (phase = Warmup \<or> warmupSubmitted G), timedSubmitted := (phase \<noteq> Warmup \<or> timedSubmitted G),
                 phaseGate := Some g, phaseTotal := total, phaseTerminal := 0, inFlight := 0, lastMaxInFlight := 0,
                 phaseSucceeded := True, phaseActive := (total \<noteq> 0)\<rparr>
      in if phaseActive G1 then notify_work G1 else notify_phase G1)"

definition startPhase :: "(FrameMetadata \<Rightarrow> bool) \<Rightarrow> nat \<Rightarrow> FramePhase \<Rightarrow> nat \<Rightarrow> Graph \<Rightarrow> bool \<times> Graph" where
  "startPhase accepts memory phase g G =
     (if \<not> initialized G \<or> \<not> executionCycleStarted G \<or> \<not> validFramePhase phase \<or> phaseActive G \<or> stopping G \<or> cancellation G
      then (False, G)
      else if (if phase = Warmup then warmupSubmitted G else timedSubmitted G) then (False, G)
      else case queue_frames accepts (atoms G) memory (atomsForPhase phase G) of
          Rejected \<Rightarrow> (False, G)
        | OutOfMemory \<Rightarrow> (False, G\<lparr>cancellation := True\<rparr>)
        | Queued \<Rightarrow> (True, submit_phase phase g G))"

text \<open>\<open>waitForPhase()\<close>: the entry, and the section after each wake-up.\<close>

definition waitForPhase_enter :: "Graph \<Rightarrow> Graph" where
  "waitForPhase_enter G = G\<lparr>phaseWaiter := (if initialized G then PLooking else PReturned False)\<rparr>"

definition waitForPhase_look :: "Graph \<Rightarrow> Graph" where
  "waitForPhase_look G = G\<lparr>phaseWaiter := (if phaseActive G then PAsleep else PReturned (phaseSucceeded G \<and> \<not> cancellation G))\<rparr>"

definition graph_stop :: "bool \<Rightarrow> Graph \<Rightarrow> bool \<times> Graph" where
  "graph_stop stopped G =
     (if \<not> initialized G \<or> \<not> executionCycleStarted G \<or> executionCycleStopped G \<or> phaseActive G \<or> inFlight G \<noteq> 0 \<or> stopping G
      then (False, G)
      else if \<not> stopped then (False, G\<lparr>cancellation := True\<rparr>)
      else (True, G\<lparr>executionCycleStarted := False, executionCycleStopped := True\<rparr>))"

text \<open>\<open>shutdown()\<close>: the section under the lock, the join, the unload and the last section.\<close>

definition shutdown_begin :: "Graph \<Rightarrow> Graph" where
  "shutdown_begin G =
     (let G1 = G\<lparr>stopping := True\<rparr>;
          G2 = (if phaseActive G1
                then let G3 = cancelReadyFramesLocked (G1\<lparr>cancellation := True\<rparr>)
                     in (case phaseGate G3 of None \<Rightarrow> G3 | Some g \<Rightarrow> PhaseGate_release g G3)
                else G1)
      in (notify_work (cancelPreparedFramesLocked G2))\<lparr>control_at := CJoinShutdown\<rparr>)"

definition shutdown_joined :: "Graph \<Rightarrow> Graph" where
  "shutdown_joined G = G\<lparr>workers := [], control_at := CJoined\<rparr>"

definition shutdown_end :: "Graph \<Rightarrow> Graph" where
  "shutdown_end G = (unload_graph G)\<lparr>initialized := False, executionCycleStarted := False, readyFrames := [], freeTasks := [],
     phaseGate := nullptr, phaseActive := False, control_at := CUnloaded\<rparr>"

section \<open>Steps\<close>

text \<open>What a worker thread can do.  A sleeping worker may also wake up on its own.\<close>

inductive worker_step :: "Graph \<Rightarrow> Graph \<Rightarrow> bool" where
  report: "i < length (workers G) \<Longrightarrow> workers G ! i = WStarting \<Longrightarrow> worker_step G (worker_report i numaReady G)"
| look: "i < length (workers G) \<Longrightarrow> workers G ! i = WLooking \<Longrightarrow> worker_step G (worker_look i G)"
| pass: "i < length (workers G) \<Longrightarrow> workers G ! i = WClaimed a t g \<Longrightarrow> released G g \<Longrightarrow>
    worker_step G (set_worker i (WGated a t) G)"
| check: "i < length (workers G) \<Longrightarrow> workers G ! i = WGated a t \<Longrightarrow> worker_step G (worker_check i G)"
| ran: "i < length (workers G) \<Longrightarrow> workers G ! i = WRunning a t \<Longrightarrow>
    (succeeded \<Longrightarrow> job_ok r) \<Longrightarrow> worker_step G (worker_ran i succeeded r G)"
| settle: "i < length (workers G) \<Longrightarrow> workers G ! i = WRan a t b \<Longrightarrow> worker_step G (worker_settle i G)"
| deliver: "i < length (workers G) \<Longrightarrow> workers G ! i = WDelivering a t b \<Longrightarrow> worker_step G (worker_deliver i G)"
| finish: "i < length (workers G) \<Longrightarrow> workers G ! i = WFinishing a t b \<Longrightarrow> worker_step G (worker_finish i G)"

text \<open>
  What the callers do: the owner of the graph, a thread in \<open>waitForPhase\<close>, the holders of the gates and
  of the shared cancellation flag, which only ever set it.  A new gate may take the address of an old
  one that no phase uses any more.  \<open>changeParameters\<close> touches the scheduler's state by the flag only.
\<close>

inductive caller_step :: "(FrameMetadata \<Rightarrow> bool) \<Rightarrow> Graph \<Rightarrow> Graph \<Rightarrow> bool" for accepts where
  spawn: "control_at G = CConstructed \<Longrightarrow> distinct (warm @ timed) \<Longrightarrow> distinct ts \<Longrightarrow> ts \<noteq> [] \<Longrightarrow> graphThreads G \<noteq> 0 \<Longrightarrow>
    length warm < 2 ^ 64 \<Longrightarrow> length timed < 2 ^ 64 \<Longrightarrow> created \<le> unat (graphThreads G) \<Longrightarrow>
    caller_step accepts G (initialize_spawn ts warm timed created G)"
| await: "control_at G = CAwaitStartup \<Longrightarrow> readyWorkers G = graphThreads G \<Longrightarrow> caller_step accepts G (initialize_await G)"
| failed: "control_at G = CJoinStartup \<Longrightarrow> set (workers G) \<subseteq> {WExited} \<Longrightarrow> caller_step accepts G (initialize_failed G)"
| setup_failed: "control_at G \<in> {CConstructed, CUnloaded} \<Longrightarrow> caller_step accepts G (initialize_failed G)"
| start: "caller_step accepts G (snd (graph_start b G))"
| phase: "caller_step accepts G (snd (startPhase accepts memory p g G))"
| wait_enter: "phaseWaiter G \<noteq> PAsleep \<Longrightarrow> phaseWaiter G \<noteq> PLooking \<Longrightarrow> caller_step accepts G (waitForPhase_enter G)"
| wait_look: "phaseWaiter G = PLooking \<Longrightarrow> caller_step accepts G (waitForPhase_look G)"
| stop: "caller_step accepts G (snd (graph_stop b G))"
| shutdown: "control_at G = CReady \<Longrightarrow> caller_step accepts G (shutdown_begin G)"
| joined: "control_at G = CJoinShutdown \<Longrightarrow> set (workers G) \<subseteq> {WExited} \<Longrightarrow> caller_step accepts G (shutdown_joined G)"
| unload: "control_at G = CJoined \<Longrightarrow> caller_step accepts G (shutdown_end G)"
| again: "control_at G = CUnloaded \<Longrightarrow> caller_step accepts G (shutdown_end (shutdown_joined (shutdown_begin G)))"
| new_gate: "phaseGate G \<noteq> Some g \<Longrightarrow> caller_step accepts G (G\<lparr>released := (released G)(g := False)\<rparr>)"
| release: "caller_step accepts G (PhaseGate_release g G)"
| cancel: "caller_step accepts G (G\<lparr>cancellation := True\<rparr>)"
| wake: "i < length (workers G) \<Longrightarrow> workers G ! i = WAsleep \<Longrightarrow> caller_step accepts G (set_worker i WLooking G)"

definition graph_step :: "(FrameMetadata \<Rightarrow> bool) \<Rightarrow> Graph \<Rightarrow> Graph \<Rightarrow> bool" where
  "graph_step accepts G G' \<longleftrightarrow> worker_step G G' \<or> caller_step accepts G G'"

end
