(* ===== verification/Graph_Invariant.thy ===== *)
theory Graph_Invariant
  imports Graph_Scheduler
begin

text \<open>
  The invariant of the graph scheduler: where every task and every frame is at each moment, what the
  counters count, which workers may sleep, and what a failed result implies.
\<close>

section \<open>What the workers hold\<close>

text \<open>The task a worker has checked out, and the frame it still has to deliver.\<close>

definition held_task :: "worker \<Rightarrow> nat multiset" where
  "held_task w = (case w of
      WClaimed a t g \<Rightarrow> {#t#} | WGated a t \<Rightarrow> {#t#} | WRunning a t \<Rightarrow> {#t#} | WRan a t b \<Rightarrow> {#t#}
    | WDelivering a t b \<Rightarrow> {#t#} | WFinishing a t b \<Rightarrow> {#t#} | _ \<Rightarrow> {#})"

definition open_frame :: "worker \<Rightarrow> nat multiset" where
  "open_frame w = (case w of
      WClaimed a t g \<Rightarrow> {#a#} | WGated a t \<Rightarrow> {#a#} | WRunning a t \<Rightarrow> {#a#} | WRan a t b \<Rightarrow> {#a#}
    | WDelivering a t b \<Rightarrow> {#a#} | _ \<Rightarrow> {#})"

lemma held_task_simps [simp]:
  "held_task WStarting = {#}" "held_task WLooking = {#}" "held_task WAsleep = {#}" "held_task WExited = {#}"
  "held_task (WClaimed a t g) = {#t#}" "held_task (WGated a t) = {#t#}" "held_task (WRunning a t) = {#t#}"
  "held_task (WRan a t b) = {#t#}" "held_task (WDelivering a t b) = {#t#}" "held_task (WFinishing a t b) = {#t#}"
  by (simp_all add: held_task_def)

lemma open_frame_simps [simp]:
  "open_frame WStarting = {#}" "open_frame WLooking = {#}" "open_frame WAsleep = {#}" "open_frame WExited = {#}"
  "open_frame (WClaimed a t g) = {#a#}" "open_frame (WGated a t) = {#a#}" "open_frame (WRunning a t) = {#a#}"
  "open_frame (WRan a t b) = {#a#}" "open_frame (WDelivering a t b) = {#a#}" "open_frame (WFinishing a t b) = {#}"
  by (simp_all add: open_frame_def)

definition total_of :: "(worker \<Rightarrow> 'b::comm_monoid_add) \<Rightarrow> worker list \<Rightarrow> 'b" where
  "total_of f ws = (\<Sum>w\<leftarrow>ws. f w)"

lemma total_of_simps [simp]:
  "total_of f [] = 0" "total_of f (w # ws) = f w + total_of f ws" "total_of f (us @ vs) = total_of f us + total_of f vs"
  by (simp_all add: total_of_def)

text \<open>A worker in the list, and the list with this worker moved on.\<close>

lemma worker_split:
  assumes "i < length ws"
  obtains us vs where "ws = us @ ws ! i # vs" "\<And>w. ws[i := w] = us @ w # vs"
  using assms by (metis id_take_nth_drop upd_conv_take_nth_drop)

definition wake_up :: "worker \<Rightarrow> worker" where
  "wake_up w = (if w = WAsleep then WLooking else w)"

lemma notify_work_alt: "notify_work G = G\<lparr>workers := map wake_up (workers G)\<rparr>"
  by (simp add: notify_work_def wake_up_def)

lemma total_of_wake [simp]:
  "total_of held_task (map wake_up ws) = total_of held_task ws"
  "total_of open_frame (map wake_up ws) = total_of open_frame ws"
  by (induction ws) (auto simp: wake_up_def)

lemma wake_up_mem: "w \<in> set (map wake_up ws) \<longleftrightarrow> w \<noteq> WAsleep \<and> (w \<in> set ws \<or> w = WLooking \<and> WAsleep \<in> set ws)"
  by (auto simp: wake_up_def image_iff split: if_splits)

section \<open>The invariant\<close>

text \<open>The frames handed to the workers so far, or cancelled while still waiting for their phase.\<close>

definition submitted :: "Graph \<Rightarrow> nat list" where
  "submitted G = (if warmupSubmitted G then warmupAtoms G else []) @ (if timedSubmitted G then timedAtoms G else [])"

text \<open>Every task is in the pool or with one worker; \<open>inFlight\<close> counts the latter.\<close>

definition pool_ok :: "Graph \<Rightarrow> bool" where
  "pool_ok G \<longleftrightarrow> mset (freeTasks G) + total_of held_task (workers G) = mset (tasks G)
     \<and> inFlight G = of_nat (size (total_of held_task (workers G)))
     \<and> unat (lastMaxInFlight G) \<le> length (tasks G)"

text \<open>Every submitted frame is delivered, queued or with one worker.\<close>

definition frames_ok :: "Graph \<Rightarrow> bool" where
  "frames_ok G \<longleftrightarrow> image_mset fst (mset (delivered G)) + mset (readyFrames G) + total_of open_frame (workers G) = mset (submitted G)"

text \<open>A phase is active as long as it has frames that are not delivered and handed back.\<close>

definition phase_ok :: "Graph \<Rightarrow> bool" where
  "phase_ok G \<longleftrightarrow>
     (if phaseActive G
      then of_nat (length (readyFrames G)) + inFlight G + phaseTerminal G = phaseTotal G
        \<and> (\<exists>g. phaseGate G = Some g \<and> (stopping G \<longrightarrow> released G g))
        \<and> (stopping G \<longrightarrow> readyFrames G = []) \<and> (\<not> stopping G \<longrightarrow> readyFrames G \<noteq> [] \<or> inFlight G \<noteq> 0)
      else readyFrames G = [] \<and> inFlight G = 0)"

text \<open>A worker that waits at a gate waits at the gate of the phase.\<close>

definition claims_ok :: "Graph \<Rightarrow> bool" where
  "claims_ok G \<longleftrightarrow> (\<forall>a t g. WClaimed a t g \<in> set (workers G) \<longrightarrow> phaseGate G = Some g)"

text \<open>No worker sleeps through work it could take, or through the order to stop.\<close>

definition sleep_ok :: "Graph \<Rightarrow> bool" where
  "sleep_ok G \<longleftrightarrow> (WAsleep \<in> set (workers G) \<longrightarrow> \<not> stopping G \<and> \<not> (phaseActive G \<and> readyFrames G \<noteq> [] \<and> freeTasks G \<noteq> []))"

text \<open>A failed result only exists in a cancelled or stopping graph.\<close>

definition results_ok :: "Graph \<Rightarrow> bool" where
  "results_ok G \<longleftrightarrow>
     (cancellation G \<or> stopping G \<or> (\<forall>a. (a, False) \<notin> set (delivered G)))
     \<and> (\<forall>a t. WRan a t True \<in> set (workers G) \<longrightarrow> job_ok (atom_result (atoms G a)))
     \<and> (\<forall>a t b. WDelivering a t b \<in> set (workers G) \<longrightarrow> cancellation G \<or> job_ok (atom_result (atoms G a)))
     \<and> (\<forall>a t b. WDelivering a t b \<in> set (workers G) \<longrightarrow> cancellation G \<or> b)
     \<and> (\<forall>a t b. WFinishing a t b \<in> set (workers G) \<longrightarrow> cancellation G \<or> b)"

definition sink_ok :: "Graph \<Rightarrow> bool" where
  "sink_ok G \<longleftrightarrow> deliveredResults (sink G) = of_nat (length (delivered G))
     \<and> failedResults (sink G) = of_nat (length (filter (\<lambda>d. \<not> snd d) (delivered G)))"

definition shape_ok :: "Graph \<Rightarrow> bool" where
  "shape_ok G \<longleftrightarrow> distinct (warmupAtoms G @ timedAtoms G) \<and> distinct (tasks G) \<and> tasks G \<noteq> [] \<and> graphThreads G \<noteq> 0
     \<and> length (warmupAtoms G) < 2 ^ 64 \<and> length (timedAtoms G) < 2 ^ 64 \<and> length (workers G) \<le> unat (graphThreads G)
     \<and> readyWorkers G = of_nat (length (filter (\<lambda>w. w \<noteq> WStarting) (workers G)))"

text \<open>How the state depends on what the owner of the graph is doing.\<close>

definition control_ok :: "Graph \<Rightarrow> bool" where
  "control_ok G \<longleftrightarrow> (case control_at G of
      CConstructed \<Rightarrow> \<exists>n objs rel c p. G = (new_graph n objs)\<lparr>released := rel, cancellation := c, phaseWaiter := p\<rparr>
    | CAwaitStartup \<Rightarrow> \<not> initialized G \<and> \<not> stopping G \<and> \<not> phaseActive G \<and> \<not> warmupSubmitted G \<and> \<not> timedSubmitted G
        \<and> length (workers G) = unat (graphThreads G) \<and> (WExited \<in> set (workers G) \<longrightarrow> workerStartupFailed G)
    | CJoinStartup \<Rightarrow> \<not> initialized G \<and> stopping G \<and> \<not> phaseActive G
    | CReady \<Rightarrow> initialized G \<and> \<not> stopping G \<and> WStarting \<notin> set (workers G) \<and> WExited \<notin> set (workers G) \<and> length (workers G) = unat (graphThreads G)
    | CJoinShutdown \<Rightarrow> stopping G \<and> warmupSubmitted G \<and> timedSubmitted G \<and> WStarting \<notin> set (workers G)
    | CJoined \<Rightarrow> stopping G \<and> warmupSubmitted G \<and> timedSubmitted G \<and> workers G = []
    | CUnloaded \<Rightarrow> \<not> initialized G \<and> \<not> phaseActive G \<and> readyFrames G = [] \<and> workers G = [] \<and> tasks G = [] \<and> warmupAtoms G = [] \<and> timedAtoms G = [])"

text \<open>A thread that sleeps in \<open>waitForPhase\<close> waits for an active phase, unless the graph was shut down meanwhile.\<close>

definition waiter_ok :: "Graph \<Rightarrow> bool" where
  "waiter_ok G \<longleftrightarrow> (phaseWaiter G = PAsleep \<longrightarrow> phaseActive G \<or> control_at G = CUnloaded)"

definition live :: "Graph \<Rightarrow> bool" where
  "live G \<longleftrightarrow> control_at G \<notin> {CConstructed, CUnloaded, CJoined}"

definition graph_inv :: "Graph \<Rightarrow> bool" where
  "graph_inv G \<longleftrightarrow> control_ok G \<and> sink_ok G \<and> waiter_ok G
     \<and> (live G \<longrightarrow> pool_ok G \<and> frames_ok G \<and> phase_ok G \<and> claims_ok G \<and> sleep_ok G \<and> results_ok G \<and> shape_ok G)
     \<and> (control_at G = CJoined \<longrightarrow> image_mset fst (mset (delivered G)) = mset (warmupAtoms G @ timedAtoms G)
          \<and> distinct (warmupAtoms G @ timedAtoms G))"

section \<open>The operations on the queue, in closed form\<close>

definition mark_failed :: "nat list \<Rightarrow> (nat \<Rightarrow> FrameCpuAtom) \<Rightarrow> nat \<Rightarrow> FrameCpuAtom" where
  "mark_failed as objs a = (if a \<in> set as then set_ok False (objs a) else objs a)"

lemma fst_failed [simp]: "image_mset fst (image_mset (\<lambda>a. (a, b)) M) = M"
  by (simp add: image_mset.compositionality comp_def)

definition count_failures :: "nat \<Rightarrow> GraphSink \<Rightarrow> GraphSink" where
  "count_failures n s = \<lparr>deliveredResults = deliveredResults s + of_nat n, failedResults = failedResults s + of_nat n\<rparr>"

lemma set_ok_False [simp]: "job_ok (atom_result (set_ok b x)) = b" "set_ok c (set_ok b x) = set_ok c x"
  by (simp_all add: set_ok_def)

lemma count_failures_simps [simp]: "count_failures 0 s = s" "count_failures n (count_failures m s) = count_failures (m + n) s"
  by (simp_all add: count_failures_def algebra_simps)

lemma mark_failed_simps [simp]: "mark_failed [] objs = objs" "mark_failed bs (mark_failed as objs) = mark_failed (as @ bs) objs"
  by (auto simp: mark_failed_def fun_eq_iff)

lemma fail_frame_eq:
  "fail_frame a G = G\<lparr>atoms := mark_failed [a] (atoms G), sink := count_failures 1 (sink G), delivered := delivered G @ [(a, False)]\<rparr>"
proof -
  have "mark_failed [a] (atoms G) = (atoms G)(a := set_ok False (atoms G a))" by (auto simp: mark_failed_def)
  then show ?thesis by (simp add: fail_frame_def deliverFrameResult_def GraphSink_deliver_def count_failures_def)
qed

lemma fold_fail_frame:
  "fold fail_frame as G = G\<lparr>atoms := mark_failed as (atoms G), sink := count_failures (length as) (sink G),
     delivered := delivered G @ map (\<lambda>a. (a, False)) as\<rparr>"
  by (induction as arbitrary: G) (simp_all add: fail_frame_eq)

lemma cancel_frames_eq:
  "readyFrames G = as \<Longrightarrow> cancel_frames as G = G\<lparr>readyFrames := [], phaseTerminal := phaseTerminal G + of_nat (length as),
     atoms := mark_failed as (atoms G), sink := count_failures (length as) (sink G),
     delivered := delivered G @ map (\<lambda>a. (a, False)) as\<rparr>"
proof (induction as arbitrary: G)
  case (Cons a as)
  let ?G = "(fail_frame a (G\<lparr>readyFrames := as\<rparr>))\<lparr>phaseTerminal := phaseTerminal (fail_frame a (G\<lparr>readyFrames := as\<rparr>)) + 1\<rparr>"
  have "cancel_frames (a # as) G = cancel_frames as ?G" by (simp add: Let_def)
  also have "\<dots> = ?G\<lparr>readyFrames := [], phaseTerminal := phaseTerminal ?G + of_nat (length as),
     atoms := mark_failed as (atoms ?G), sink := count_failures (length as) (sink ?G),
     delivered := delivered ?G @ map (\<lambda>a. (a, False)) as\<rparr>"
    by (rule Cons.IH) (simp add: fail_frame_eq)
  finally show ?case by (simp add: fail_frame_eq algebra_simps)
qed simp

lemma cancelReadyFramesLocked_eq:
  "cancelReadyFramesLocked G = G\<lparr>readyFrames := [], phaseTerminal := phaseTerminal G + of_nat (length (readyFrames G)),
     atoms := mark_failed (readyFrames G) (atoms G), sink := count_failures (length (readyFrames G)) (sink G),
     delivered := delivered G @ map (\<lambda>a. (a, False)) (readyFrames G), phaseSucceeded := False\<rparr>"
  by (simp add: cancelReadyFramesLocked_def cancel_frames_eq [OF refl])

definition unsubmitted :: "Graph \<Rightarrow> nat list" where
  "unsubmitted G = (if warmupSubmitted G then [] else warmupAtoms G) @ (if timedSubmitted G then [] else timedAtoms G)"

lemma cancelPreparedFramesLocked_eq:
  "cancelPreparedFramesLocked G = G\<lparr>warmupSubmitted := True, timedSubmitted := True,
     atoms := mark_failed (unsubmitted G) (atoms G), sink := count_failures (length (unsubmitted G)) (sink G),
     delivered := delivered G @ map (\<lambda>a. (a, False)) (unsubmitted G)\<rparr>"
  by (simp add: cancelPreparedFramesLocked_def fold_fail_frame Let_def unsubmitted_def)

lemmas queue_eqs = cancelReadyFramesLocked_eq cancelPreparedFramesLocked_eq notify_work_alt notify_phase_def
  finishPhaseIfCompleteLocked_def set_worker_def deliverFrameResult_def

lemma sink_ok_failures:
  "sink_ok G \<Longrightarrow> sink G' = count_failures (length as) (sink G) \<Longrightarrow> delivered G' = delivered G @ map (\<lambda>a. (a, False)) as \<Longrightarrow> sink_ok G'"
  by (simp add: sink_ok_def count_failures_def comp_def)

text \<open>How the pieces of the invariant follow when a step leaves what they read alone.\<close>

lemma sink_ok_same: "sink_ok G \<Longrightarrow> sink G' = sink G \<Longrightarrow> delivered G' = delivered G \<Longrightarrow> sink_ok G'"
  by (simp add: sink_ok_def)

section \<open>The worker keeps the invariant\<close>

lemma inv_live:
  assumes "graph_inv G" "workers G \<noteq> []"
  shows "live G" "pool_ok G" "frames_ok G" "phase_ok G" "claims_ok G" "sleep_ok G" "results_ok G" "shape_ok G" "sink_ok G" "control_ok G" "waiter_ok G"
proof -
  show "live G"
    using assms by (cases "control_at G") (auto simp: graph_inv_def control_ok_def live_def new_graph_def)
  with assms show "pool_ok G" "frames_ok G" "phase_ok G" "claims_ok G" "sleep_ok G" "results_ok G" "shape_ok G" "sink_ok G" "control_ok G" "waiter_ok G"
    by (auto simp: graph_inv_def)
qed

lemma inv_liveI:
  assumes "live G" "pool_ok G" "frames_ok G" "phase_ok G" "claims_ok G" "sleep_ok G" "results_ok G" "shape_ok G" "sink_ok G" "control_ok G" "waiter_ok G"
  shows "graph_inv G"
  using assms by (auto simp: graph_inv_def live_def)

lemmas inv_defs = pool_ok_def frames_ok_def phase_ok_def claims_ok_def sleep_ok_def results_ok_def shape_ok_def submitted_def

lemma submitted_same [simp]:
  "submitted (G\<lparr>workers := ws\<rparr>) = submitted G" "submitted (G\<lparr>atoms := objs\<rparr>) = submitted G"
  "submitted (G\<lparr>cancellation := c\<rparr>) = submitted G" "submitted (G\<lparr>readyFrames := r\<rparr>) = submitted G"
  "submitted (G\<lparr>sink := s\<rparr>) = submitted G" "submitted (G\<lparr>delivered := d\<rparr>) = submitted G"
  "submitted (G\<lparr>phaseTerminal := n\<rparr>) = submitted G" "submitted (G\<lparr>phaseSucceeded := c\<rparr>) = submitted G"
  "submitted (G\<lparr>freeTasks := ts\<rparr>) = submitted G" "submitted (G\<lparr>inFlight := n\<rparr>) = submitted G"
  "submitted (G\<lparr>lastMaxInFlight := n\<rparr>) = submitted G" "submitted (G\<lparr>phaseActive := c\<rparr>) = submitted G"
  "submitted (G\<lparr>phaseGate := g\<rparr>) = submitted G" "submitted (G\<lparr>phaseWaiter := p\<rparr>) = submitted G"
  "submitted (G\<lparr>readyWorkers := n\<rparr>) = submitted G" "submitted (G\<lparr>workerStartupFailed := c\<rparr>) = submitted G"
  "submitted (G\<lparr>released := r'\<rparr>) = submitted G" "submitted (G\<lparr>stopping := c\<rparr>) = submitted G"
  "submitted (G\<lparr>control_at := k\<rparr>) = submitted G" "submitted (G\<lparr>initialized := c\<rparr>) = submitted G"
  "submitted (G\<lparr>executionCycleStarted := c\<rparr>) = submitted G" "submitted (G\<lparr>executionCycleStopped := c\<rparr>) = submitted G"
  by (simp_all add: submitted_def)

lemma total_of_member: "w \<in> set ws \<Longrightarrow> x \<in># f w \<Longrightarrow> x \<in># total_of f ws"
  by (induction ws) auto

text \<open>The frame of a worker is with no other worker and not in the queue.\<close>

lemma open_frame_alone:
  assumes "frames_ok G" "shape_ok G" "workers G = us @ w # vs" "a \<in># open_frame w"
  shows "a \<notin> set (readyFrames G)" "w' \<in> set us \<union> set vs \<Longrightarrow> a \<notin># open_frame w'"
proof -
  have "distinct (submitted G)" using assms(2) by (auto simp: shape_ok_def submitted_def)
  then have "count (mset (submitted G)) a \<le> 1" by (simp add: distinct_count_atmost_1)
  moreover have "image_mset fst (mset (delivered G)) + (mset (readyFrames G) + (open_frame w + (total_of open_frame us + total_of open_frame vs)))
      = mset (submitted G)"
    using assms(1,3) by (simp add: frames_ok_def ac_simps)
  ultimately have "count (mset (readyFrames G) + (open_frame w + (total_of open_frame us + total_of open_frame vs))) a \<le> 1"
    by (metis mset_subset_eq_add_right mset_subset_eq_count order_trans)
  moreover have "1 \<le> count (open_frame w) a" using assms(4) by (simp add: Suc_le_eq)
  ultimately have z: "count (mset (readyFrames G)) a = 0" "count (total_of open_frame us + total_of open_frame vs) a = 0"
    unfolding count_union by linarith+
  then show "a \<notin> set (readyFrames G)" by (simp add: count_eq_zero_iff)
  show "a \<notin># open_frame w'" if "w' \<in> set us \<union> set vs"
    using z(2) total_of_member [of w' _ a open_frame] that by (auto simp: count_eq_zero_iff)
qed

lemma worker_report_inv:
  assumes inv: "graph_inv G" and i: "i < length (workers G)" "workers G ! i = WStarting"
  shows "graph_inv (worker_report i numaReady G)"
proof -
  have ne: "workers G \<noteq> []" using i by auto
  note I = inv_live [OF inv ne]
  obtain us vs where ws: "workers G = us @ WStarting # vs" and upd: "\<And>w. (workers G)[i := w] = us @ w # vs"
    using worker_split [OF i(1)] i(2) by metis
  let ?G = "worker_report i numaReady G"
  have eq: "worker_report i numaReady G = G\<lparr>readyWorkers := readyWorkers G + 1,
      workers := us @ (if numaReady then WLooking else WExited) # vs,
      workerStartupFailed := (\<not> numaReady \<or> workerStartupFailed G), cancellation := (\<not> numaReady \<or> cancellation G)\<rparr>"
    by (simp add: worker_report_def set_worker_def upd Let_def)
  show ?thesis
  proof (rule inv_liveI)
    show "live ?G" using I(1) by (simp add: live_def eq)
    show "pool_ok ?G" using I(2) ws by (simp add: pool_ok_def eq)
    show "frames_ok ?G" using I(3) ws by (simp add: frames_ok_def eq)
    show "phase_ok ?G" using I(4) by (auto simp: phase_ok_def eq split: if_splits)
    show "claims_ok ?G" using I(5) ws by (auto simp: claims_ok_def eq split: if_splits)
    show "sleep_ok ?G" using I(6) ws by (auto simp: sleep_ok_def eq)
    show "results_ok ?G" using I(7) ws by (auto simp: results_ok_def eq)
    show "shape_ok ?G" using I(8) ws by (auto simp: shape_ok_def eq)
    show "sink_ok ?G" using I(9) by (simp add: sink_ok_def eq)
    show "control_ok ?G" using I(10) ws by (cases "control_at G") (auto simp: control_ok_def eq new_graph_def)
    show "waiter_ok ?G" using I(11) by (simp add: waiter_ok_def eq)
  qed
qed

text \<open>The steps between the locks move one worker from one holding state to the next.\<close>

lemma move_inv:
  assumes inv: "graph_inv G" and i: "i < length (workers G)" "workers G ! i = w"
    and same: "held_task w' = held_task w" "open_frame w' = open_frame w"
    and w: "w \<notin> {WStarting, WAsleep}" "w' \<notin> {WStarting, WAsleep, WExited}" "\<And>a t g. w' \<noteq> WClaimed a t g"
    and res: "cancellation G \<Longrightarrow> c" "results_ok (G\<lparr>workers := (workers G)[i := w'], atoms := objs, cancellation := c\<rparr>)"
  shows "graph_inv (G\<lparr>workers := (workers G)[i := w'], atoms := objs, cancellation := c\<rparr>)"
proof -
  have ne: "workers G \<noteq> []" using i by auto
  note I = inv_live [OF inv ne]
  obtain us vs where ws: "workers G = us @ w # vs" and upd: "\<And>w. (workers G)[i := w] = us @ w # vs"
    using worker_split [OF i(1)] i(2) by metis
  let ?G = "G\<lparr>workers := us @ w' # vs, atoms := objs, cancellation := c\<rparr>"
  show ?thesis unfolding upd
  proof (rule inv_liveI)
    show "live ?G" using I(1) by (simp add: live_def)
    show "pool_ok ?G" using I(2) ws same by (simp add: pool_ok_def)
    show "frames_ok ?G" using I(3) ws same by (simp add: frames_ok_def)
    show "phase_ok ?G" using I(4) by (auto simp: phase_ok_def split: if_splits)
    show "claims_ok ?G" using I(5) ws w(3) unfolding claims_ok_def by simp metis
    show "sleep_ok ?G" using I(6) ws w by (auto simp: sleep_ok_def)
    show "results_ok ?G" using res(2) by (simp add: upd)
    show "shape_ok ?G" using I(8) ws w by (auto simp: shape_ok_def)
    show "sink_ok ?G" using I(9) by (simp add: sink_ok_def)
    show "control_ok ?G" using I(10) ws w by (cases "control_at G") (auto simp: control_ok_def new_graph_def)
    show "waiter_ok ?G" using I(11) by (simp add: waiter_ok_def)
  qed
qed

text \<open>The state of the workers as far as results are concerned.\<close>

lemma worker_at:
  assumes "graph_inv G" "i < length (workers G)"
  obtains us vs where "workers G = us @ workers G ! i # vs" "\<And>w. (workers G)[i := w] = us @ w # vs"
    "results_ok G" "frames_ok G" "shape_ok G"
proof -
  have "workers G \<noteq> []" using assms(2) by auto
  from inv_live [OF assms(1) this] worker_split [OF assms(2)] that show ?thesis by blast
qed

lemma worker_pass_inv:
  assumes inv: "graph_inv G" and i: "i < length (workers G)" "workers G ! i = WClaimed a t g"
  shows "graph_inv (set_worker i (WGated a t) G)"
proof -
  obtain us vs where ws: "workers G = us @ WClaimed a t g # vs" "\<And>w. (workers G)[i := w] = us @ w # vs" and R: "results_ok G"
    using worker_at [OF inv i(1)] i(2) by metis
  have "results_ok (G\<lparr>workers := us @ WGated a t # vs, atoms := atoms G, cancellation := cancellation G\<rparr>)"
    using R ws(1) by (auto simp: results_ok_def)
  with move_inv [OF inv i, where w' = "WGated a t" and objs = "atoms G" and c = "cancellation G"] show ?thesis
    by (simp add: set_worker_def ws(2))
qed

lemma worker_check_inv:
  assumes inv: "graph_inv G" and i: "i < length (workers G)" "workers G ! i = WGated a t"
  shows "graph_inv (worker_check i G)"
proof -
  obtain us vs where ws: "workers G = us @ WGated a t # vs" "\<And>w. (workers G)[i := w] = us @ w # vs" and R: "results_ok G"
    using worker_at [OF inv i(1)] i(2) by metis
  let ?w = "if cancellation G then WRan a t False else WRunning a t"
  have "results_ok (G\<lparr>workers := us @ ?w # vs, atoms := atoms G, cancellation := cancellation G\<rparr>)"
    using R ws(1) by (auto simp: results_ok_def)
  with move_inv [OF inv i, where w' = ?w and objs = "atoms G" and c = "cancellation G"] i show ?thesis
    by (simp add: worker_check_def set_worker_def ws(2) split: if_splits)
qed

lemma worker_ran_inv:
  assumes inv: "graph_inv G" and i: "i < length (workers G)" "workers G ! i = WRunning a t" and r: "succeeded \<Longrightarrow> job_ok r"
  shows "graph_inv (worker_ran i succeeded r G)"
proof -
  obtain us vs where ws: "workers G = us @ WRunning a t # vs" "\<And>w. (workers G)[i := w] = us @ w # vs"
    and R: "results_ok G" "frames_ok G" "shape_ok G"
    using worker_at [OF inv i(1)] i(2) by metis
  let ?objs = "(atoms G)(a := (atoms G a)\<lparr>atom_result := r\<rparr>)"
  have "a \<notin># open_frame w'" if "w' \<in> set us \<union> set vs" for w' using open_frame_alone(2) [OF R(2,3) ws(1)] that by simp
  then have "WRan a t' b \<notin> set us \<union> set vs" "WDelivering a t' b \<notin> set us \<union> set vs" for t' b by fastforce+
  then have "results_ok (G\<lparr>workers := us @ WRan a t succeeded # vs, atoms := ?objs, cancellation := cancellation G\<rparr>)"
    using R(1) ws(1) r by (auto simp: results_ok_def)
  with move_inv [OF inv i, where w' = "WRan a t succeeded" and objs = ?objs and c = "cancellation G"]
  have "graph_inv (G\<lparr>workers := us @ WRan a t succeeded # vs, atoms := ?objs\<rparr>)" by (simp add: ws(2))
  moreover have "worker_ran i succeeded r G = G\<lparr>workers := us @ WRan a t succeeded # vs, atoms := ?objs\<rparr>"
    using i by (simp add: worker_ran_def set_worker_def ws(2))
  ultimately show ?thesis by simp
qed

lemma worker_settle_inv:
  assumes inv: "graph_inv G" and i: "i < length (workers G)" "workers G ! i = WRan a t succeeded"
  shows "graph_inv (worker_settle i G)"
proof -
  obtain us vs where ws: "workers G = us @ WRan a t succeeded # vs" "\<And>w. (workers G)[i := w] = us @ w # vs"
    and R: "results_ok G" "frames_ok G" "shape_ok G"
    using worker_at [OF inv i(1)] i(2) by metis
  let ?c = "cancellation G \<or> \<not> succeeded"
  let ?objs = "if ?c then (atoms G)(a := set_ok False (atoms G a)) else atoms G"
  have "a \<notin># open_frame w'" if "w' \<in> set us \<union> set vs" for w' using open_frame_alone(2) [OF R(2,3) ws(1)] that by simp
  then have "WRan a t' b \<notin> set us \<union> set vs" "WDelivering a t' b \<notin> set us \<union> set vs" for t' b by fastforce+
  then have "results_ok (G\<lparr>workers := us @ WDelivering a t succeeded # vs, atoms := ?objs, cancellation := ?c\<rparr>)"
    using R(1) ws(1) by (auto simp: results_ok_def)
  with move_inv [OF inv i, where w' = "WDelivering a t succeeded" and objs = ?objs and c = ?c]
  have "graph_inv (G\<lparr>workers := us @ WDelivering a t succeeded # vs, atoms := ?objs, cancellation := ?c\<rparr>)"
    by (simp add: ws(2) split: if_splits)
  moreover have "worker_settle i G = G\<lparr>workers := us @ WDelivering a t succeeded # vs, atoms := ?objs, cancellation := ?c\<rparr>"
    using i by (cases "cancellation G"; cases succeeded) (auto simp: worker_settle_def set_worker_def ws(2) Let_def)
  ultimately show ?thesis by simp
qed

lemma worker_deliver_inv:
  assumes inv: "graph_inv G" and i: "i < length (workers G)" "workers G ! i = WDelivering a t succeeded"
  shows "graph_inv (worker_deliver i G)"
proof -
  have ne: "workers G \<noteq> []" using i by auto
  note I = inv_live [OF inv ne]
  obtain us vs where ws: "workers G = us @ WDelivering a t succeeded # vs" and upd: "\<And>w. (workers G)[i := w] = us @ w # vs"
    using worker_split [OF i(1)] i(2) by metis
  let ?r = "atom_result (atoms G a)"
  let ?G = "G\<lparr>workers := us @ WFinishing a t succeeded # vs, sink := GraphSink_deliver ?r (sink G), delivered := delivered G @ [(a, job_ok ?r)]\<rparr>"
  have eq: "worker_deliver i G = ?G" using i by (simp add: worker_deliver_def queue_eqs upd)
  show ?thesis unfolding eq
  proof (rule inv_liveI)
    show "live ?G" using I(1) by (simp add: live_def)
    show "pool_ok ?G" using I(2) ws by (simp add: pool_ok_def)
    show "frames_ok ?G" using I(3) ws by (simp add: frames_ok_def)
    show "phase_ok ?G" using I(4) by (auto simp: phase_ok_def split: if_splits)
    show "claims_ok ?G" using I(5) ws by (auto simp: claims_ok_def)
    show "sleep_ok ?G" using I(6) ws by (auto simp: sleep_ok_def)
    show "results_ok ?G" using I(7) ws by (auto simp: results_ok_def)
    show "shape_ok ?G" using I(8) ws by (auto simp: shape_ok_def)
    show "sink_ok ?G" using I(9) by (simp add: sink_ok_def GraphSink_deliver_def)
    show "control_ok ?G" using I(10) ws by (cases "control_at G") (auto simp: control_ok_def new_graph_def)
    show "waiter_ok ?G" using I(11) by (simp add: waiter_ok_def)
  qed
qed

section \<open>The locked sections keep the invariant\<close>

text \<open>
  Inside a locked section the invariant holds except that a phase whose last frame is done may
  still be marked as active, and that a sleeper may not have been woken yet.
\<close>

definition phase_pending :: "Graph \<Rightarrow> bool" where
  "phase_pending G \<longleftrightarrow>
     (if phaseActive G
      then of_nat (length (readyFrames G)) + inFlight G + phaseTerminal G = phaseTotal G
        \<and> (\<exists>g. phaseGate G = Some g \<and> (stopping G \<longrightarrow> released G g)) \<and> (stopping G \<longrightarrow> readyFrames G = [])
      else readyFrames G = [] \<and> inFlight G = 0)"

definition locked_inv :: "Graph \<Rightarrow> bool" where
  "locked_inv G \<longleftrightarrow> live G \<and> pool_ok G \<and> frames_ok G \<and> phase_pending G \<and> claims_ok G \<and> results_ok G \<and> shape_ok G
     \<and> sink_ok G \<and> control_ok G \<and> waiter_ok G"

lemma locked_invD:
  "graph_inv G \<Longrightarrow> workers G \<noteq> [] \<Longrightarrow> locked_inv G"
  using inv_live [of G] by (auto simp: locked_inv_def phase_ok_def phase_pending_def split: if_splits)

lemma held_size: "size (total_of held_task ws) \<le> length ws"
proof (induction ws)
  case (Cons w ws)
  then show ?case by (cases w) auto
qed simp

lemma held_size_word:
  assumes "shape_ok G"
  shows "size (total_of held_task (workers G)) < 2 ^ 64"
  using assms held_size [of "workers G"] unat_size_t_less [of "graphThreads G"] by (simp add: shape_ok_def)

lemma of_nat_size_t_0: "n < 2 ^ 64 \<Longrightarrow> (of_nat n :: size_t) = 0 \<longleftrightarrow> n = 0"
  by (auto simp: word_of_nat_eq_0_iff dest: dvd_imp_le)

lemma unat_of_nat_size_t_le: "unat (of_nat n :: size_t) \<le> n"
  by (simp add: unat_of_nat)

lemma in_flight_0:
  assumes "pool_ok G" "shape_ok G" "inFlight G = 0" "w \<in> set (workers G)"
  shows "held_task w = {#}"
proof -
  have "total_of held_task (workers G) = {#}"
    using assms(1,3) held_size_word [OF assms(2)] of_nat_size_t_0 by (auto simp: pool_ok_def)
  then show ?thesis using assms(4) by (metis ex_in_conv multiset_nonemptyE total_of_member set_mset_empty)
qed

lemma cancelReady_locked:
  assumes "locked_inv G" "phaseActive G" "cancellation G"
  shows "locked_inv (cancelReadyFramesLocked G)"
proof -
  let ?G = "cancelReadyFramesLocked G"
  have I: "live G" "pool_ok G" "frames_ok G" "phase_pending G" "claims_ok G" "results_ok G" "shape_ok G" "sink_ok G" "control_ok G" "waiter_ok G"
    using assms(1) by (auto simp: locked_inv_def)
  have ready: "a \<notin># open_frame w" if "a \<in> set (readyFrames G)" "w \<in> set (workers G)" for a w
    using open_frame_alone(1) [OF I(3,7)] that by (metis split_list)
  have "live ?G" using I(1) by (simp add: queue_eqs live_def)
  moreover have "pool_ok ?G" using I(2) by (simp add: queue_eqs pool_ok_def)
  moreover have "frames_ok ?G" using I(3) by (simp add: queue_eqs frames_ok_def ac_simps)
  moreover have "phase_pending ?G" using I(4) assms(2) by (auto simp: queue_eqs phase_pending_def ac_simps split: if_splits)
  moreover have "claims_ok ?G" using I(5) by (simp add: queue_eqs claims_ok_def)
  moreover have "results_ok ?G"
    using I(6) ready assms(3) by (fastforce simp: queue_eqs results_ok_def mark_failed_def)
  moreover have "shape_ok ?G" using I(7) by (simp add: queue_eqs shape_ok_def)
  moreover have "sink_ok ?G" using I(8) by (rule sink_ok_failures) (simp_all add: queue_eqs)
  moreover have "control_ok ?G" using I(9) I(1) by (cases "control_at G") (auto simp: queue_eqs control_ok_def live_def)
  moreover have "waiter_ok ?G" using I(10) by (simp add: queue_eqs waiter_ok_def)
  ultimately show ?thesis by (simp add: locked_inv_def)
qed

lemma finish_locked:
  assumes "locked_inv G"
  shows "locked_inv (finishPhaseIfCompleteLocked G) \<and> phase_ok (finishPhaseIfCompleteLocked G)"
proof -
  let ?G = "finishPhaseIfCompleteLocked G"
  have I: "live G" "pool_ok G" "frames_ok G" "phase_pending G" "claims_ok G" "results_ok G" "shape_ok G" "sink_ok G" "control_ok G" "waiter_ok G"
    using assms by (auto simp: locked_inv_def)
  show ?thesis
  proof (cases "phaseActive G \<and> readyFrames G = [] \<and> inFlight G = 0")
    case False
    then have "?G = G" by (auto simp: finishPhaseIfCompleteLocked_def)
    moreover have "phase_ok G" using I(4) False by (auto simp: phase_ok_def phase_pending_def split: if_splits)
    ultimately show ?thesis using assms by simp
  next
    case True
    then have "phaseTerminal G = phaseTotal G" using I(4) by (simp add: phase_pending_def)
    then have eq: "?G = notify_phase (G\<lparr>phaseActive := False, phaseGate := nullptr\<rparr>)"
      using True by (simp add: finishPhaseIfCompleteLocked_def)
    have idle: "WClaimed a t g \<notin> set (workers G)" for a t g
      using in_flight_0 [OF I(2,7)] True by fastforce
    have "live ?G" using I(1) by (simp add: eq notify_phase_def live_def)
    moreover have "pool_ok ?G" using I(2) by (simp add: eq notify_phase_def pool_ok_def)
    moreover have "frames_ok ?G" using I(3) by (simp add: eq notify_phase_def frames_ok_def)
    moreover have "phase_pending ?G" "phase_ok ?G" using True by (auto simp: eq notify_phase_def phase_pending_def phase_ok_def)
    moreover have "claims_ok ?G" using idle by (simp add: eq notify_phase_def claims_ok_def)
    moreover have "results_ok ?G" using I(6) by (simp add: eq notify_phase_def results_ok_def)
    moreover have "shape_ok ?G" using I(7) by (simp add: eq notify_phase_def shape_ok_def)
    moreover have "sink_ok ?G" using I(8) by (simp add: eq notify_phase_def sink_ok_def)
    moreover have "control_ok ?G" using I(9) I(1) by (cases "control_at G") (auto simp: eq notify_phase_def control_ok_def live_def)
    moreover have "waiter_ok ?G" by (simp add: eq notify_phase_def waiter_ok_def)
    ultimately show ?thesis by (simp add: locked_inv_def)
  qed
qed

lemma locked_sleep:
  assumes "locked_inv G" "phase_ok G" "sleep_ok G"
  shows "graph_inv G"
  using assms by (intro inv_liveI) (auto simp: locked_inv_def)

lemma notify_locked:
  assumes "locked_inv G" "phase_ok G"
  shows "graph_inv (notify_work G)"
proof (rule locked_sleep)
  have "filter (\<lambda>w. w \<noteq> WStarting) (map wake_up ws) = map wake_up (filter (\<lambda>w. w \<noteq> WStarting) ws)" for ws
    by (induction ws) (auto simp: wake_up_def)
  then show "locked_inv (notify_work G)"
    using assms(1) unfolding locked_inv_def notify_work_alt
    by (cases "control_at G")
      (auto simp: live_def pool_ok_def frames_ok_def phase_pending_def claims_ok_def results_ok_def shape_ok_def sink_ok_def
        control_ok_def waiter_ok_def wake_up_mem simp del: set_map split: if_splits)
  show "phase_ok (notify_work G)" using assms(2) by (auto simp: notify_work_alt phase_ok_def split: if_splits)
  show "sleep_ok (notify_work G)" by (auto simp: notify_work_alt sleep_ok_def wake_up_def)
qed

lemma worker_finish_inv:
  assumes inv: "graph_inv G" and i: "i < length (workers G)" "workers G ! i = WFinishing a t succeeded"
  shows "graph_inv (worker_finish i G)"
proof -
  have ne: "workers G \<noteq> []" using i by auto
  note I = inv_live [OF inv ne]
  obtain us vs where ws: "workers G = us @ WFinishing a t succeeded # vs" and upd: "\<And>w. (workers G)[i := w] = us @ w # vs"
    using worker_split [OF i(1)] i(2) by metis
  let ?G1 = "G\<lparr>freeTasks := freeTasks G @ [t], inFlight := inFlight G - 1, phaseTerminal := phaseTerminal G + 1,
      workers := us @ WLooking # vs\<rparr>"
  have "inFlight G \<noteq> 0" using in_flight_0 [OF I(2,8)] ws by fastforce
  then have act: "phaseActive G" using I(4) by (auto simp: phase_ok_def split: if_splits)
  have L1: "locked_inv (?G1\<lparr>phaseSucceeded := s\<rparr>)" for s
    unfolding locked_inv_def
  proof (intro conjI)
    let ?G = "?G1\<lparr>phaseSucceeded := s\<rparr>"
    show "live ?G" using I(1) by (simp add: live_def)
    show "pool_ok ?G" using I(2) ws by (simp add: pool_ok_def)
    show "frames_ok ?G" using I(3) ws by (simp add: frames_ok_def)
    show "phase_pending ?G" using I(4) act by (auto simp: phase_ok_def phase_pending_def algebra_simps)
    show "claims_ok ?G" using I(5) ws by (auto simp: claims_ok_def)
    show "results_ok ?G" using I(7) ws by (auto simp: results_ok_def)
    show "shape_ok ?G" using I(8) ws by (auto simp: shape_ok_def)
    show "sink_ok ?G" using I(9) by (simp add: sink_ok_def)
    show "control_ok ?G" using I(10) I(1) ws by (cases "control_at G") (auto simp: control_ok_def live_def)
    show "waiter_ok ?G" using I(11) by (simp add: waiter_ok_def)
  qed
  let ?G2 = "if \<not> succeeded \<or> cancellation G then cancelReadyFramesLocked (?G1\<lparr>phaseSucceeded := False\<rparr>) else ?G1"
  have eq: "worker_finish i G = notify_work (finishPhaseIfCompleteLocked ?G2)"
    using i by (simp add: worker_finish_def set_worker_def upd Let_def)
  have "\<not> succeeded \<Longrightarrow> cancellation G" using I(7) ws by (auto simp: results_ok_def)
  then have "locked_inv ?G2" using cancelReady_locked [OF L1 [of False]] L1 [of "phaseSucceeded G"] act by auto
  with finish_locked show ?thesis unfolding eq by (blast intro: notify_locked)
qed

lemma worker_claim_inv:
  assumes inv: "graph_inv G" and i: "i < length (workers G)" "workers G ! i = WLooking"
    and go: "phaseActive G" "\<not> stopping G" "readyFrames G \<noteq> []" "freeTasks G \<noteq> []"
  shows "graph_inv (worker_claim i G)"
proof -
  have ne: "workers G \<noteq> []" using i by auto
  note I = inv_live [OF inv ne]
  obtain us vs where ws: "workers G = us @ WLooking # vs" and upd: "\<And>w. (workers G)[i := w] = us @ w # vs"
    using worker_split [OF i(1)] i(2) by metis
  obtain g where g: "phaseGate G = Some g" using I(4) go(1) by (auto simp: phase_ok_def)
  obtain a r where r: "readyFrames G = a # r" using go(3) by (cases "readyFrames G") auto
  obtain f t where f: "freeTasks G = f @ [t]" using go(4) by (metis append_butlast_last_id)
  let ?n = "inFlight G + 1"
  let ?G = "G\<lparr>readyFrames := r, freeTasks := f, inFlight := ?n, lastMaxInFlight := max (lastMaxInFlight G) ?n,
      workers := us @ WClaimed a t g # vs\<rparr>"
  have eq: "worker_claim i G = ?G" by (simp add: worker_claim_def g r f set_worker_def upd Let_def)
  have pool: "mset f + {#t#} + (total_of held_task us + total_of held_task vs) = mset (tasks G)"
    using I(2) ws f by (simp add: pool_ok_def)
  have "unat ?n \<le> length (tasks G)"
  proof -
    have "Suc (size (total_of held_task (workers G))) \<le> length (tasks G)"
      using arg_cong [OF pool, of size] ws by simp
    moreover have "?n = of_nat (Suc (size (total_of held_task (workers G))))" using I(2) by (simp add: pool_ok_def)
    ultimately show ?thesis by (metis le_trans unat_of_nat_size_t_le)
  qed
  then have "unat (max (lastMaxInFlight G) ?n) \<le> length (tasks G)" using I(2) by (simp add: pool_ok_def max_def)
  moreover have "?n \<noteq> 0"
  proof -
    have "size (total_of held_task (us @ WClaimed a t g # vs)) \<le> length (workers G)" using held_size ws by (metis length_append length_Cons)
    then have "Suc (size (total_of held_task (workers G))) < 2 ^ 64"
      using I(8) ws unat_size_t_less [of "graphThreads G"] by (simp add: shape_ok_def)
    then show ?thesis using I(2) of_nat_size_t_0 [of "Suc (size (total_of held_task (workers G)))"]
      by (simp add: pool_ok_def add.commute)
  qed
  ultimately show ?thesis unfolding eq
  proof (intro inv_liveI)
    show "live ?G" using I(1) by (simp add: live_def)
    show "pool_ok ?G" if "unat (max (lastMaxInFlight G) ?n) \<le> length (tasks G)"
      using I(2) ws f that by (simp add: pool_ok_def ac_simps)
    show "frames_ok ?G" using I(3) ws r by (simp add: frames_ok_def)
    show "phase_ok ?G" if "?n \<noteq> 0" using I(4) go r g that by (auto simp: phase_ok_def algebra_simps)
    show "claims_ok ?G" using I(5) ws g by (auto simp: claims_ok_def)
    show "sleep_ok ?G" using I(6) ws go by (auto simp: sleep_ok_def)
    show "results_ok ?G" using I(7) ws by (auto simp: results_ok_def)
    show "shape_ok ?G" using I(8) ws by (auto simp: shape_ok_def)
    show "sink_ok ?G" using I(9) by (simp add: sink_ok_def)
    show "control_ok ?G" using I(10) I(1) ws by (cases "control_at G") (auto simp: control_ok_def live_def)
    show "waiter_ok ?G" using I(11) by (simp add: waiter_ok_def)
  qed
qed

lemma worker_sleep_inv:
  assumes inv: "graph_inv G" and i: "i < length (workers G)" "workers G ! i = WLooking" and no: "\<not> work_available G"
  shows "graph_inv (set_worker i WAsleep G)"
proof -
  have ne: "workers G \<noteq> []" using i by auto
  note I = inv_live [OF inv ne]
  obtain us vs where ws: "workers G = us @ WLooking # vs" and upd: "\<And>w. (workers G)[i := w] = us @ w # vs"
    using worker_split [OF i(1)] i(2) by metis
  let ?G = "G\<lparr>workers := us @ WAsleep # vs\<rparr>"
  have eq: "set_worker i WAsleep G = ?G" by (simp add: set_worker_def upd)
  show ?thesis unfolding eq
  proof (rule inv_liveI)
    show "live ?G" using I(1) by (simp add: live_def)
    show "pool_ok ?G" using I(2) ws by (simp add: pool_ok_def)
    show "frames_ok ?G" using I(3) ws by (simp add: frames_ok_def)
    show "phase_ok ?G" using I(4) by (auto simp: phase_ok_def split: if_splits)
    show "claims_ok ?G" using I(5) ws by (auto simp: claims_ok_def)
    show "sleep_ok ?G" using no by (auto simp: sleep_ok_def work_available_def)
    show "results_ok ?G" using I(7) ws by (auto simp: results_ok_def)
    show "shape_ok ?G" using I(8) ws by (auto simp: shape_ok_def)
    show "sink_ok ?G" using I(9) by (simp add: sink_ok_def)
    show "control_ok ?G" using I(10) I(1) ws by (cases "control_at G") (auto simp: control_ok_def live_def)
    show "waiter_ok ?G" using I(11) by (simp add: waiter_ok_def)
  qed
qed

lemma worker_idle_inv:
  assumes inv: "graph_inv G" and i: "i < length (workers G)" "workers G ! i \<in> {WLooking, WAsleep}"
    and w: "w = WLooking \<or> w = WExited \<and> stopping G"
  shows "graph_inv (set_worker i w G)"
proof -
  have ne: "workers G \<noteq> []" using i by auto
  note I = inv_live [OF inv ne]
  obtain us vs v where ws: "workers G = us @ v # vs" "v \<in> {WLooking, WAsleep}" and upd: "\<And>w. (workers G)[i := w] = us @ w # vs"
    using worker_split [OF i(1)] i(2) by metis
  let ?G = "G\<lparr>workers := us @ w # vs\<rparr>"
  have eq: "set_worker i w G = ?G" by (simp add: set_worker_def upd)
  show ?thesis unfolding eq
  proof (rule inv_liveI)
    show "live ?G" using I(1) by (simp add: live_def)
    show "pool_ok ?G" using I(2) ws w by (auto simp: pool_ok_def)
    show "frames_ok ?G" using I(3) ws w by (auto simp: frames_ok_def)
    show "phase_ok ?G" using I(4) by (auto simp: phase_ok_def split: if_splits)
    show "claims_ok ?G" using I(5) ws w by (auto simp: claims_ok_def)
    show "sleep_ok ?G" using I(6) ws w by (auto simp: sleep_ok_def)
    show "results_ok ?G" using I(7) ws w by (auto simp: results_ok_def)
    show "shape_ok ?G" using I(8) ws w by (auto simp: shape_ok_def)
    show "sink_ok ?G" using I(9) by (simp add: sink_ok_def)
    show "control_ok ?G" using I(10) I(1) ws w by (cases "control_at G") (auto simp: control_ok_def live_def)
    show "waiter_ok ?G" using I(11) by (simp add: waiter_ok_def)
  qed
qed

lemma worker_look_inv:
  assumes inv: "graph_inv G" and i: "i < length (workers G)" "workers G ! i = WLooking"
  shows "graph_inv (worker_look i G)"
proof -
  consider "\<not> work_available G" | "work_available G" "stopping G" | "work_available G" "\<not> stopping G" "cancellation G"
    | "work_available G" "\<not> stopping G" "\<not> cancellation G" by blast
  then show ?thesis
  proof cases
    case 1
    then show ?thesis using worker_sleep_inv [OF inv i] by (simp add: worker_look_def)
  next
    case 2
    then show ?thesis using worker_idle_inv [OF inv i(1)] i(2) by (simp add: worker_look_def)
  next
    case 3
    let ?G = "finishPhaseIfCompleteLocked (cancelReadyFramesLocked G)"
    have "workers G \<noteq> []" using i by auto
    with locked_invD [OF inv] have "locked_inv G" by blast
    then have "locked_inv ?G" "phase_ok ?G"
      using cancelReady_locked finish_locked 3 by (auto simp: work_available_def)
    moreover have "sleep_ok ?G" using 3 by (auto simp: sleep_ok_def queue_eqs)
    ultimately show ?thesis using 3 locked_sleep by (simp add: worker_look_def)
  next
    case 4
    then show ?thesis using worker_claim_inv [OF inv i] by (simp add: worker_look_def work_available_def)
  qed
qed

lemma worker_step_inv: "worker_step G G' \<Longrightarrow> graph_inv G \<Longrightarrow> graph_inv G'"
proof (induction rule: worker_step.induct)
qed (auto intro: worker_report_inv worker_look_inv worker_pass_inv worker_check_inv worker_ran_inv worker_settle_inv
    worker_deliver_inv worker_finish_inv)

section \<open>The callers keep the invariant\<close>

text \<open>A step that touches none of the scheduler's data.\<close>

lemma graph_inv_flags:
  assumes "graph_inv G" "cancellation G \<Longrightarrow> c" "\<And>g. phaseGate G = Some g \<Longrightarrow> released G g \<Longrightarrow> rel g" "p = PAsleep \<Longrightarrow> phaseActive G \<or> control_at G = CUnloaded"
  shows "graph_inv (G\<lparr>cancellation := c, released := rel, phaseWaiter := p\<rparr>)"
proof -
  let ?G = "G\<lparr>cancellation := c, released := rel, phaseWaiter := p\<rparr>"
  have "control_ok ?G"
  proof (cases "control_at G")
    case CConstructed
    then obtain n objs rel' c' p' where "G = (new_graph n objs)\<lparr>released := rel', cancellation := c', phaseWaiter := p'\<rparr>"
      using assms(1) by (auto simp: graph_inv_def control_ok_def)
    then show ?thesis using CConstructed unfolding control_ok_def
      by (auto simp: new_graph_def intro!: exI [of _ n] exI [of _ objs])
  qed (use assms(1) in \<open>auto simp: graph_inv_def control_ok_def\<close>)
  moreover have "pool_ok ?G = pool_ok G" "frames_ok ?G = frames_ok G" "claims_ok ?G = claims_ok G" "sleep_ok ?G = sleep_ok G"
    "shape_ok ?G = shape_ok G" "sink_ok ?G = sink_ok G" "live ?G = live G"
    by (simp_all add: inv_defs sink_ok_def live_def)
  moreover have "phase_ok G \<Longrightarrow> phase_ok ?G" using assms(3) by (auto simp: phase_ok_def split: if_splits)
  moreover have "results_ok G \<Longrightarrow> results_ok ?G" using assms(2) unfolding results_ok_def by simp metis
  moreover have "waiter_ok ?G" using assms(4) by (auto simp: waiter_ok_def)
  ultimately show ?thesis using assms(1) by (auto simp: graph_inv_def)
qed

lemma spawn_inv:
  assumes inv: "graph_inv G" and c: "control_at G = CConstructed"
    and d: "distinct (warm @ timed)" "distinct ts" "ts \<noteq> []" "graphThreads G \<noteq> 0" "length warm < 2 ^ 64" "length timed < 2 ^ 64"
      "created \<le> unat (graphThreads G)"
  shows "graph_inv (initialize_spawn ts warm timed created G)"
proof -
  obtain n objs rel cc p where G: "G = (new_graph n objs)\<lparr>released := rel, cancellation := cc, phaseWaiter := p\<rparr>"
    using inv c by (auto simp: graph_inv_def control_ok_def)
  have none: "total_of held_task (replicate k WStarting) = {#}" "total_of open_frame (replicate k WStarting) = {#}" for k
    by (induction k) auto
  have wake: "wake_up WStarting = WStarting" by (simp add: wake_up_def)
  have "sink_ok G" "waiter_ok G" using inv by (auto simp: graph_inv_def)
  then have "sink_ok (initialize_spawn ts warm timed created G)" "waiter_ok (initialize_spawn ts warm timed created G)"
    using c by (auto simp: initialize_spawn_def Let_def notify_work_alt sink_ok_def waiter_ok_def)
  moreover have "pool_ok (initialize_spawn ts warm timed created G)" "frames_ok (initialize_spawn ts warm timed created G)"
    "phase_ok (initialize_spawn ts warm timed created G)" "claims_ok (initialize_spawn ts warm timed created G)"
    "sleep_ok (initialize_spawn ts warm timed created G)" "results_ok (initialize_spawn ts warm timed created G)"
    "shape_ok (initialize_spawn ts warm timed created G)" "live (initialize_spawn ts warm timed created G)"
    "control_ok (initialize_spawn ts warm timed created G)"
    using d unfolding G
    by (auto simp: initialize_spawn_def Let_def notify_work_alt wake new_graph_def inv_defs none live_def control_ok_def)
  ultimately show ?thesis by (intro inv_liveI)
qed

lemma starting_count:
  assumes "shape_ok G" "length (workers G) = unat (graphThreads G)" "readyWorkers G = graphThreads G"
  shows "WStarting \<notin> set (workers G)"
proof -
  let ?n = "length (filter (\<lambda>w. w \<noteq> WStarting) (workers G))"
  have "unat (of_nat ?n :: size_t) = length (workers G)" using assms by (simp add: shape_ok_def)
  then have "length (workers G) \<le> ?n" using unat_of_nat_size_t_le [of ?n] by simp
  then have "?n = length (workers G)" by (simp add: le_antisym)
  then show ?thesis by (metis (mono_tags, lifting) length_filter_less nat_less_le)
qed

lemma inv_of_control:
  assumes "graph_inv G" "control_at G \<notin> {CConstructed, CUnloaded, CJoined}"
  shows "live G" "pool_ok G" "frames_ok G" "phase_ok G" "claims_ok G" "sleep_ok G" "results_ok G" "shape_ok G"
    "sink_ok G" "control_ok G" "waiter_ok G"
  using assms by (auto simp: graph_inv_def live_def)

lemma await_inv:
  assumes inv: "graph_inv G" and c: "control_at G = CAwaitStartup" "readyWorkers G = graphThreads G"
  shows "graph_inv (initialize_await G)"
proof -
  have I: "live G" "pool_ok G" "frames_ok G" "phase_ok G" "claims_ok G" "sleep_ok G" "results_ok G" "shape_ok G"
    "sink_ok G" "control_ok G" "waiter_ok G"
    using inv_of_control [OF inv] c(1) by auto
  have C: "\<not> initialized G" "\<not> stopping G" "\<not> phaseActive G" "length (workers G) = unat (graphThreads G)"
    using I(10) c(1) by (auto simp: control_ok_def)
  show ?thesis
  proof (cases "workerStartupFailed G")
    case True
    let ?G = "G\<lparr>stopping := True, control_at := CJoinStartup\<rparr>"
    have "locked_inv ?G" "phase_ok ?G" using I C c(1)
      by (auto simp: locked_inv_def inv_defs live_def phase_pending_def sink_ok_def control_ok_def waiter_ok_def)
    then show ?thesis using True notify_locked by (simp add: initialize_await_def)
  next
    case False
    let ?G = "G\<lparr>initialized := True, control_at := CReady\<rparr>"
    have "WStarting \<notin> set (workers G)" using starting_count I(8) C(4) c(2) by blast
    then have "graph_inv ?G" using I C c(1) False
      by (intro inv_liveI) (auto simp: inv_defs live_def sink_ok_def control_ok_def waiter_ok_def)
    then show ?thesis using False by (simp add: initialize_await_def)
  qed
qed

text \<open>A graph without workers has nothing left to account for.\<close>

lemma unloaded_inv:
  assumes "sink_ok G" "control_at G = CUnloaded" "\<not> initialized G" "\<not> phaseActive G" "readyFrames G = []" "workers G = []"
    "tasks G = []" "warmupAtoms G = []" "timedAtoms G = []"
  shows "graph_inv G"
  using assms by (simp add: graph_inv_def control_ok_def waiter_ok_def live_def)

lemma failed_inv:
  assumes inv: "graph_inv G" and c: "control_at G \<in> {CConstructed, CUnloaded, CJoinStartup}"
  shows "graph_inv (initialize_failed G)"
proof (rule unloaded_inv)
  have *: "\<not> initialized G \<and> \<not> phaseActive G \<and> readyFrames G = []"
  proof (cases "control_at G = CJoinStartup")
    case True
    then have "phase_ok G" "control_ok G" using inv_of_control [OF inv] by auto
    then show ?thesis using True by (auto simp: phase_ok_def control_ok_def)
  qed (use inv c in \<open>auto simp: graph_inv_def control_ok_def new_graph_def\<close>)
  then show "\<not> initialized (initialize_failed G)" "\<not> phaseActive (initialize_failed G)" "readyFrames (initialize_failed G) = []"
    by (simp_all add: initialize_failed_def unload_graph_def Let_def)
  show "sink_ok (initialize_failed G)"
    using inv by (simp add: graph_inv_def sink_ok_def initialize_failed_def unload_graph_def Let_def)
qed (simp_all add: initialize_failed_def unload_graph_def Let_def)

text \<open>A call under the lock that changes the flags of the execution cycle only.\<close>

lemma cycle_inv:
  assumes "graph_inv G" "initialized G"
  shows "graph_inv (G\<lparr>executionCycleStarted := a, executionCycleStopped := b\<rparr>)"
proof -
  let ?G = "G\<lparr>executionCycleStarted := a, executionCycleStopped := b\<rparr>"
  have "control_at G \<noteq> CConstructed" using assms by (auto simp: graph_inv_def control_ok_def new_graph_def)
  then have "control_ok ?G" using assms(1) by (cases "control_at G") (auto simp: graph_inv_def control_ok_def)
  moreover have "pool_ok ?G = pool_ok G" "frames_ok ?G = frames_ok G" "claims_ok ?G = claims_ok G" "sleep_ok ?G = sleep_ok G"
    "shape_ok ?G = shape_ok G" "sink_ok ?G = sink_ok G" "live ?G = live G" "phase_ok ?G = phase_ok G" "results_ok ?G = results_ok G"
    "waiter_ok ?G = waiter_ok G"
    by (simp_all add: inv_defs sink_ok_def live_def waiter_ok_def)
  ultimately show ?thesis using assms(1) by (auto simp: graph_inv_def)
qed

lemma waiterD: "graph_inv G \<Longrightarrow> phaseWaiter G = PAsleep \<Longrightarrow> phaseActive G \<or> control_at G = CUnloaded"
  by (simp add: graph_inv_def waiter_ok_def)

lemma cancel_inv: "graph_inv G \<Longrightarrow> graph_inv (G\<lparr>cancellation := True\<rparr>)"
  using graph_inv_flags [of G True "released G" "phaseWaiter G"] waiterD [of G] by simp

lemma release_inv: "graph_inv G \<Longrightarrow> graph_inv (PhaseGate_release g G)"
  using graph_inv_flags [of G "cancellation G" "(released G)(g := True)" "phaseWaiter G"] waiterD [of G]
  by (simp add: PhaseGate_release_def)

lemma new_gate_inv: "graph_inv G \<Longrightarrow> phaseGate G \<noteq> Some g \<Longrightarrow> graph_inv (G\<lparr>released := (released G)(g := False)\<rparr>)"
proof -
  assume inv: "graph_inv G" and g: "phaseGate G \<noteq> Some g"
  have "graph_inv (G\<lparr>cancellation := cancellation G, released := (released G)(g := False), phaseWaiter := phaseWaiter G\<rparr>)"
    by (rule graph_inv_flags [OF inv]) (use g waiterD [OF inv] in auto)
  then show ?thesis by simp
qed

lemma waiter_inv: "graph_inv G \<Longrightarrow> (p = PAsleep \<Longrightarrow> phaseActive G) \<Longrightarrow> graph_inv (G\<lparr>phaseWaiter := p\<rparr>)"
  using graph_inv_flags [of G "cancellation G" "released G" p] by simp

lemma wait_inv:
  assumes "graph_inv G"
  shows "graph_inv (waitForPhase_enter G)" "graph_inv (waitForPhase_look G)"
  unfolding waitForPhase_enter_def waitForPhase_look_def by (rule waiter_inv; use assms in \<open>simp split: if_splits\<close>)+

lemma start_stop_inv:
  assumes "graph_inv G"
  shows "graph_inv (snd (graph_start b G))" "graph_inv (snd (graph_stop b G))"
proof -
  have "initialized G \<Longrightarrow> graph_inv (G\<lparr>executionCycleStarted := True\<rparr>)"
    using cycle_inv [OF assms, where a = True and b = "executionCycleStopped G"] by simp
  then show "graph_inv (snd (graph_start b G))" "graph_inv (snd (graph_stop b G))"
    using assms cancel_inv [OF assms] cycle_inv [OF assms, where a = False and b = True] by (auto simp: graph_start_def graph_stop_def)
qed

lemma ready_control:
  assumes "graph_inv G" "initialized G" "\<not> stopping G"
  shows "control_at G = CReady"
  using assms by (cases "control_at G") (auto simp: graph_inv_def control_ok_def new_graph_def)

lemma submit_inv:
  assumes inv: "graph_inv G" and go: "initialized G" "\<not> stopping G" "\<not> phaseActive G" "validFramePhase phase"
    and new: "\<not> (if phase = Warmup then warmupSubmitted G else timedSubmitted G)"
  shows "graph_inv (submit_phase phase g G)"
proof -
  have c: "control_at G = CReady" using ready_control [OF inv go(1,2)] .
  have I: "live G" "pool_ok G" "frames_ok G" "phase_ok G" "claims_ok G" "sleep_ok G" "results_ok G" "shape_ok G"
    "sink_ok G" "control_ok G" "waiter_ok G"
    using inv_of_control [OF inv] c by auto
  have idle: "readyFrames G = []" "inFlight G = 0" using I(4) go(3) by (auto simp: phase_ok_def)
  have none: "total_of held_task (workers G) = {#}" "w \<in> set (workers G) \<Longrightarrow> held_task w = {#}" for w
    using I(2) idle held_size_word [OF I(8)] of_nat_size_t_0 in_flight_0 [OF I(2,8)] by (auto simp: pool_ok_def)
  let ?as = "atomsForPhase phase G"
  have small: "(of_nat (length ?as) :: size_t) = 0 \<longleftrightarrow> ?as = []"
    using I(8) of_nat_size_t_0 [of "length ?as"] by (auto simp: shape_ok_def atomsForPhase_def)
  let ?G1 = "G\<lparr>atoms := (\<lambda>a. if a \<in> set ?as then reset_result (atoms G a) else atoms G a), readyFrames := ?as,
      warmupSubmitted := (phase = Warmup \<or> warmupSubmitted G), timedSubmitted := (phase \<noteq> Warmup \<or> timedSubmitted G),
      phaseGate := Some g, phaseTotal := of_nat (length ?as), phaseTerminal := 0, inFlight := 0, lastMaxInFlight := 0,
      phaseSucceeded := True, phaseActive := ((of_nat (length ?as) :: size_t) \<noteq> 0)\<rparr>"
  have sub: "mset (submitted ?G1) = mset (submitted G) + mset ?as"
    using new go(4) by (auto simp: submitted_def atomsForPhase_def validFramePhase_def split: if_splits)
  have "live ?G1" using I(1) by (simp add: live_def)
  moreover have "pool_ok ?G1" using I(2) none(1) by (simp add: pool_ok_def)
  moreover have "frames_ok ?G1" using I(3) idle sub by (simp add: frames_ok_def submitted_def)
  moreover have "phase_pending ?G1" "phase_ok ?G1" using small go(2) by (auto simp: phase_pending_def phase_ok_def)
  moreover have "claims_ok ?G1" using none(2) by (fastforce simp: claims_ok_def)
  moreover have "results_ok ?G1" using I(7) none(2) by (fastforce simp: results_ok_def)
  moreover have "shape_ok ?G1" using I(8) by (simp add: shape_ok_def)
  moreover have "sink_ok ?G1" using I(9) by (simp add: sink_ok_def)
  moreover have "control_ok ?G1" using I(10) c by (simp add: control_ok_def)
  moreover have "waiter_ok ?G1" using I(11) go(3) c by (simp add: waiter_ok_def)
  ultimately have L: "locked_inv ?G1" "phase_ok ?G1" by (simp_all add: locked_inv_def)
  show ?thesis
  proof (cases "?as = []")
    case True
    have "sleep_ok ?G1" using I(6) True by (simp add: sleep_ok_def)
    then have "graph_inv ?G1" using L locked_sleep by blast
    then have "graph_inv (notify_phase ?G1)" unfolding notify_phase_def
      by (rule waiter_inv) (use I(11) go(3) c in \<open>auto simp: waiter_ok_def split: if_splits\<close>)
    then show ?thesis using True by (simp add: submit_phase_def Let_def)
  next
    case False
    then show ?thesis using notify_locked [OF L] small by (simp add: submit_phase_def Let_def)
  qed
qed

lemma startPhase_inv:
  assumes "graph_inv G"
  shows "graph_inv (snd (startPhase accepts memory phase g G))"
  using assms cancel_inv [OF assms] submit_inv [OF assms]
  by (auto simp: startPhase_def split: queue_result.splits)

section \<open>Shutdown\<close>

lemma shutdown_begin_eq:
  assumes "phaseActive G \<or> readyFrames G = []"
  shows "shutdown_begin G = G\<lparr>stopping := True, cancellation := (cancellation G \<or> phaseActive G), readyFrames := [],
      phaseTerminal := phaseTerminal G + of_nat (length (readyFrames G)), phaseSucceeded := (phaseSucceeded G \<and> \<not> phaseActive G),
      atoms := mark_failed (readyFrames G @ unsubmitted G) (atoms G), sink := count_failures (length (readyFrames G @ unsubmitted G)) (sink G), delivered := delivered G @ map (\<lambda>a. (a, False)) (readyFrames G @ unsubmitted G),
      released := (case phaseGate G of Some g \<Rightarrow> if phaseActive G then (released G)(g := True) else released G | None \<Rightarrow> released G),
      warmupSubmitted := True, timedSubmitted := True, workers := map wake_up (workers G), control_at := CJoinShutdown\<rparr>"
proof (cases "phaseActive G")
  case True
  then show ?thesis
    by (cases "phaseGate G")
      (simp_all add: shutdown_begin_def Let_def queue_eqs PhaseGate_release_def unsubmitted_def)
next
  case False
  then show ?thesis
    using assms(1) by (cases "phaseGate G") (simp_all add: shutdown_begin_def Let_def queue_eqs unsubmitted_def)
qed

lemma wake_filter: "((\<lambda>w. w \<noteq> WStarting) \<circ> wake_up) = (\<lambda>w. w \<noteq> WStarting)"
  by (auto simp: fun_eq_iff wake_up_def)

lemma shutdown_begin_inv:
  assumes inv: "graph_inv G" and c: "control_at G = CReady"
  shows "graph_inv (shutdown_begin G)"
proof -
  have I: "live G" "pool_ok G" "frames_ok G" "phase_ok G" "claims_ok G" "sleep_ok G" "results_ok G" "shape_ok G"
    "sink_ok G" "control_ok G" "waiter_ok G"
    using inv_of_control [OF inv] c by auto
  have "phaseActive G \<or> readyFrames G = []" using I(4) by (auto simp: phase_ok_def split: if_splits)
  note eq = shutdown_begin_eq [OF this]
  let ?G = "shutdown_begin G" and ?d = "readyFrames G @ unsubmitted G"
  have sub: "mset (submitted ?G) = mset (submitted G) + mset (unsubmitted G)"
    by (auto simp: eq submitted_def unsubmitted_def)
  have alone: "a \<notin># open_frame w" if "w \<in> set (workers G)" "a \<in> set ?d" for a w
  proof
    assume a: "a \<in># open_frame w"
    then have "a \<notin> set (readyFrames G)" using open_frame_alone(1) [OF I(3,8)] that(1) by (metis split_list)
    moreover have "a \<in># mset (submitted G)" using I(3) total_of_member [where f = open_frame, OF that(1) a]
      by (metis frames_ok_def union_iff)
    ultimately show False using that(2) I(8) by (auto simp: shape_ok_def submitted_def unsubmitted_def split: if_splits)
  qed
  show ?thesis
  proof (rule inv_liveI)
    show "live ?G" by (simp add: eq live_def)
    show "pool_ok ?G" using I(2) by (simp add: eq pool_ok_def)
    show "frames_ok ?G" using I(3) sub by (simp add: frames_ok_def eq ac_simps)
    show "phase_ok ?G" using I(4) by (auto simp: eq phase_ok_def algebra_simps split: if_splits option.splits)
    show "claims_ok ?G" using I(5) unfolding eq claims_ok_def by (simp add: wake_up_mem del: set_map)
    show "sleep_ok ?G" by (auto simp: eq sleep_ok_def wake_up_def)
    have same: "atoms ?G a = atoms G a" if "w \<in> set (workers G)" "a \<in># open_frame w" for a w
      using alone that by (auto simp: eq mark_failed_def)
    have "WRan a t b \<in> set (workers ?G) \<longleftrightarrow> WRan a t b \<in> set (workers G)" "WDelivering a t b \<in> set (workers ?G) \<longleftrightarrow> WDelivering a t b \<in> set (workers G)"
      "WFinishing a t b \<in> set (workers ?G) \<longleftrightarrow> WFinishing a t b \<in> set (workers G)" for a t b
      by (simp_all add: eq wake_up_mem del: set_map)
    moreover have "cancellation G \<Longrightarrow> cancellation ?G" "stopping ?G" by (simp_all add: eq)
    moreover have "atoms ?G a = atoms G a" if "WRan a t b \<in> set (workers G) \<or> WDelivering a t b \<in> set (workers G)" for a t b
      using that same by fastforce
    ultimately show "results_ok ?G" using I(7) unfolding results_ok_def by metis
    show "shape_ok ?G" using I(8) unfolding eq shape_ok_def by (simp add: wake_filter)
    show "sink_ok ?G" by (rule sink_ok_failures [OF I(9), where as = ?d]) (simp_all add: eq)
    show "control_ok ?G" using I(10) c unfolding eq control_ok_def by (simp add: wake_up_mem del: set_map)
    show "waiter_ok ?G" using I(11) c by (simp add: eq waiter_ok_def)
  qed
qed

text \<open>When the workers have returned, every prepared frame has been delivered.\<close>

lemma exited_total:
  assumes "set ws \<subseteq> {WExited}"
  shows "total_of held_task ws = {#}" "total_of open_frame ws = {#}"
  using assms by (induction ws) auto

lemma joined_delivered:
  assumes "graph_inv G" "control_at G = CJoinShutdown" "set (workers G) \<subseteq> {WExited}"
  shows "image_mset fst (mset (delivered G)) = mset (warmupAtoms G @ timedAtoms G) \<and> distinct (warmupAtoms G @ timedAtoms G)"
proof -
  have I: "frames_ok G" "phase_ok G" "control_ok G" "shape_ok G" using inv_of_control [OF assms(1)] assms(2) by auto
  have C: "stopping G" "warmupSubmitted G" "timedSubmitted G" using I(3) assms(2) by (auto simp: control_ok_def)
  have "readyFrames G = []" using I(2) C(1) by (auto simp: phase_ok_def split: if_splits)
  then show ?thesis using I(1,4) C exited_total [OF assms(3)] by (simp add: frames_ok_def submitted_def shape_ok_def)
qed

lemma shutdown_joined_inv:
  assumes "graph_inv G" "control_at G = CJoinShutdown" "set (workers G) \<subseteq> {WExited}"
  shows "graph_inv (shutdown_joined G)"
  using joined_delivered [OF assms] assms(1,2)
  by (auto simp: graph_inv_def shutdown_joined_def control_ok_def sink_ok_def waiter_ok_def live_def)

lemma shutdown_end_inv:
  assumes "graph_inv G" "workers G = []"
  shows "graph_inv (shutdown_end G)"
  by (rule unloaded_inv) (use assms in \<open>auto simp: graph_inv_def shutdown_end_def unload_graph_def Let_def sink_ok_def\<close>)

lemma shutdown_again_inv:
  assumes "graph_inv G" "control_at G = CUnloaded"
  shows "graph_inv (shutdown_end (shutdown_joined (shutdown_begin G)))"
proof -
  have C: "\<not> phaseActive G" "readyFrames G = []" "workers G = []" "warmupAtoms G = []" "timedAtoms G = []" "sink_ok G"
    using assms by (auto simp: graph_inv_def control_ok_def)
  then have eq: "shutdown_begin G = G\<lparr>stopping := True, warmupSubmitted := True, timedSubmitted := True, control_at := CJoinShutdown\<rparr>"
    by (subst shutdown_begin_eq) (auto simp: unsubmitted_def split: option.splits)
  show ?thesis
    by (rule unloaded_inv) (use C in \<open>auto simp: eq shutdown_end_def shutdown_joined_def unload_graph_def Let_def sink_ok_def\<close>)
qed

lemma caller_step_inv: "caller_step accepts G G' \<Longrightarrow> graph_inv G \<Longrightarrow> graph_inv G'"
proof (induction rule: caller_step.induct)
  case (unload G)
  then have "workers G = []" by (auto simp: graph_inv_def control_ok_def)
  with unload show ?case by (simp add: shutdown_end_inv)
qed (auto intro: spawn_inv await_inv failed_inv start_stop_inv startPhase_inv wait_inv shutdown_begin_inv shutdown_joined_inv
    shutdown_again_inv new_gate_inv release_inv cancel_inv worker_idle_inv)

lemma new_graph_inv: "graph_inv (new_graph n objs)"
proof -
  have "control_ok (new_graph n objs)" unfolding control_ok_def
    by (auto simp: new_graph_def intro!: exI [of _ n] exI [of _ objs])
  then show ?thesis by (simp add: graph_inv_def sink_ok_def waiter_ok_def live_def new_graph_def)
qed

text \<open>The graph, driven by its workers and its callers, is a state machine with this invariant.\<close>

interpretation graph: state_machine "\<lambda>G. \<exists>n objs. G = new_graph n objs" "graph_step accepts" graph_inv for accepts
  by unfold_locales (auto simp: graph_step_def new_graph_inv intro: worker_step_inv caller_step_inv)

end
