(* ===== verification/Graph_Properties.thy ===== *)
theory Graph_Properties
  imports Graph_Invariant
begin

text \<open>
  What the scheduler of the graph guarantees, over all interleavings of its workers and callers:
  every frame gets one result, no task runs for two workers at once, a successful phase has no
  failed frame, and neither a phase nor a shutdown gets stuck.
\<close>

section \<open>Frames and tasks\<close>

lemma submset_distinct:
  assumes "mset xs \<subseteq># mset ys" "distinct ys"
  shows "distinct xs"
proof -
  obtain zs where "mset ys = mset xs + mset zs" using assms(1) by (metis ex_mset mset_subset_eq_exists_conv)
  then have "mset ys = mset (xs @ zs)" by simp
  then show ?thesis using assms(2) by (metis distinct_append mset_eq_imp_distinct_iff)
qed

lemma delivered_distinct:
  assumes "graph_inv G" "control_at G \<notin> {CConstructed, CUnloaded}"
  shows "distinct (map fst (delivered G))"
proof (cases "control_at G = CJoined")
  case True
  then show ?thesis using assms(1) submset_distinct [of "map fst (delivered G)" "warmupAtoms G @ timedAtoms G"]
    by (simp add: graph_inv_def)
next
  case False
  have I: "frames_ok G" "shape_ok G" using inv_of_control [OF assms(1)] assms(2) False by auto
  then have "mset (map fst (delivered G)) \<subseteq># mset (submitted G)"
    unfolding frames_ok_def mset_map by (metis add.assoc mset_subset_eq_add_left)
  moreover have "distinct (submitted G)" using I(2) by (auto simp: shape_ok_def submitted_def)
  ultimately show ?thesis by (rule submset_distinct)
qed

text \<open>Steps that end in a graph without workers deliver nothing.\<close>

lemma unloaded_delivers_nothing:
  assumes "graph_step accepts G G'" "graph_inv G" "control_at G' \<in> {CConstructed, CUnloaded}"
  shows "delivered G' = delivered G"
proof -
  have w: "control_at G' = control_at G \<and> workers G \<noteq> []" if "worker_step G G'"
    using that by (cases rule: worker_step.cases)
      (auto simp: worker_report_def worker_look_def worker_claim_def worker_check_def worker_ran_def worker_settle_def
        worker_deliver_def worker_finish_def Let_def queue_eqs split: worker.splits option.splits if_splits)
  have "\<not> worker_step G G'"
    using w assms(3) inv_live(1) [OF assms(2)] by (auto simp: live_def)
  then have "caller_step accepts G G'" using assms(1) by (simp add: graph_step_def)
  then show ?thesis
  proof (cases rule: caller_step.cases)
    case again
    then have "\<not> phaseActive G" "readyFrames G = []" "warmupAtoms G = []" "timedAtoms G = []"
      using assms(2) by (auto simp: graph_inv_def control_ok_def)
    then show ?thesis using again by (simp add: shutdown_end_def shutdown_joined_def unload_graph_def Let_def shutdown_begin_eq unsubmitted_def)
  qed (use assms(3) in \<open>auto simp: initialize_spawn_def initialize_await_def initialize_failed_def unload_graph_def graph_start_def
      startPhase_def submit_phase_def waitForPhase_enter_def waitForPhase_look_def graph_stop_def shutdown_begin_def
      shutdown_joined_def shutdown_end_def PhaseGate_release_def notify_work_alt notify_phase_def set_worker_def Let_def
      split: queue_result.splits if_splits\<close>)
qed

lemma reached_inv: "steps (graph_step accepts) (new_graph n objs) G \<Longrightarrow> graph_inv G"
  by (rule graph.reached_invar) blast+

lemma no_held_no_open: "\<forall>w\<in>set ws. held_task w = {#} \<Longrightarrow> total_of open_frame ws = {#}"
proof (induction ws)
  case (Cons w ws)
  then show ?case by (cases w) auto
qed simp

lemma idle_delivered:
  assumes "graph_inv G" "live G" "\<not> phaseActive G"
  shows "mset (map fst (delivered G)) = mset (submitted G)"
proof -
  have I: "frames_ok G" "phase_ok G" "pool_ok G" "shape_ok G" using assms(1,2) by (auto simp: graph_inv_def)
  have z: "readyFrames G = []" "inFlight G = 0" using I(2) assms(3) by (auto simp: phase_ok_def)
  then have "total_of open_frame (workers G) = {#}" using in_flight_0 [OF I(3,4)] no_held_no_open by blast
  then show ?thesis using I(1) z by (simp add: frames_ok_def)
qed

text \<open>
  C15.  Every frame gets exactly one result.  No frame is delivered twice in the life of a graph.
  Between the phases the frames delivered are exactly the frames submitted, and when a shutdown has
  joined its workers every prepared frame has been delivered, the ones whose phase never ran
  included.  The counters of the sink are the numbers of delivered and of failed results.
\<close>

theorem frames_delivered_exactly_once:
  assumes "steps (graph_step accepts) (new_graph n objs) G"
  shows "distinct (map fst (delivered G))
    \<and> (live G \<and> \<not> phaseActive G \<longrightarrow> mset (map fst (delivered G)) = mset (submitted G))
    \<and> (control_at G = CJoined \<longrightarrow> mset (map fst (delivered G)) = mset (warmupAtoms G @ timedAtoms G))
    \<and> deliveredResults (sink G) = of_nat (length (delivered G))
    \<and> failedResults (sink G) = of_nat (length (filter (\<lambda>d. \<not> snd d) (delivered G)))"
proof -
  have inv: "graph_inv G" using reached_inv assms .
  have "distinct (map fst (delivered G))"
  proof (rule graph.reached_keeps [OF _ assms])
    show "distinct (map fst (delivered v))" if "graph_inv u" "distinct (map fst (delivered u))" "graph_step accepts u v" for u v
    proof (cases "control_at v \<in> {CConstructed, CUnloaded}")
      case True
      then show ?thesis using unloaded_delivers_nothing [OF that(3,1)] that(2) by simp
    next
      case False
      then show ?thesis using delivered_distinct graph.moves_invar that(1,3) by blast
    qed
  qed (auto simp: new_graph_def)
  moreover have "mset (map fst (delivered G)) = mset (submitted G)" if "live G" "\<not> phaseActive G"
    using idle_delivered [OF inv that] .
  ultimately show ?thesis using inv by (simp add: graph_inv_def sink_ok_def)
qed

lemma other_worker:
  assumes "ws = us @ w # vs" "j < length ws" "j \<noteq> length us"
  shows "ws ! j \<in> set us \<union> set vs"
  using assms by (auto simp: nth_append nth_Cons')

text \<open>
  C16.  A task is never shared: a task that a worker has checked out is not in the pool of free tasks
  and not with any other worker, so no two \<open>execute\<close> calls run on it at the same time.  The largest
  number of concurrent executions reported never exceeds the number of tasks.
\<close>

theorem tasks_are_exclusive:
  assumes "steps (graph_step accepts) (new_graph n objs) G" "i < length (workers G)" "t \<in># held_task (workers G ! i)"
  shows "t \<in> set (tasks G) \<and> t \<notin> set (freeTasks G) \<and> (\<forall>j<length (workers G). j \<noteq> i \<longrightarrow> t \<notin># held_task (workers G ! j))
    \<and> unat (lastMaxInFlight G) \<le> length (tasks G)"
proof -
  have "workers G \<noteq> []" using assms(2) by auto
  note I = inv_live [OF reached_inv [OF assms(1)] this]
  obtain us vs where ws: "workers G = us @ workers G ! i # vs" and len: "length us = i"
    using assms(2) id_take_nth_drop [OF assms(2)] by (metis length_take min.absorb4)
  have pool: "mset (freeTasks G) + (held_task (workers G ! i) + (total_of held_task us + total_of held_task vs)) = mset (tasks G)"
    using I(2) arg_cong [OF ws, of "total_of held_task"] by (simp add: pool_ok_def ac_simps)
  have "count (mset (tasks G)) t \<le> 1" using I(8) by (simp add: shape_ok_def distinct_count_atmost_1)
  then have "count (mset (freeTasks G)) t + (count (held_task (workers G ! i)) t + count (total_of held_task us + total_of held_task vs) t) \<le> 1"
    using arg_cong [OF pool, of "\<lambda>M. count M t"] by simp
  moreover have "1 \<le> count (held_task (workers G ! i)) t" using assms(3) by (simp add: Suc_le_eq)
  ultimately have z: "count (mset (freeTasks G)) t = 0" "count (total_of held_task us + total_of held_task vs) t = 0"
    by linarith+
  have "t \<notin># held_task (workers G ! j)" if "j < length (workers G)" "j \<noteq> i" for j
  proof -
    have "workers G ! j \<in> set us \<union> set vs" using other_worker [OF ws] that len by blast
    then show ?thesis using z(2) total_of_member [of "workers G ! j" _ t held_task] by (auto simp: count_eq_zero_iff)
  qed
  moreover have "t \<in> set (tasks G)" using assms(3) pool by (metis set_mset_mset union_iff)
  ultimately show ?thesis using z(1) I(2) by (simp add: count_eq_zero_iff pool_ok_def)
qed

text \<open>
  C17.  A phase reported as successful has no failed frame: when \<open>waitForPhase\<close> answers \<open>true\<close> while
  the graph is running, every frame submitted so far was delivered, each with a successful result.
\<close>

theorem successful_phase_delivered_all:
  assumes "steps (graph_step accepts) (new_graph n objs) G" "initialized G" "\<not> stopping G"
    "phaseWaiter (waitForPhase_look G) = PReturned True"
  shows "mset (delivered G) = mset (map (\<lambda>a. (a, True)) (submitted G))"
proof -
  have inv: "graph_inv G" using reached_inv assms(1) .
  have c: "control_at G = CReady" using ready_control [OF inv assms(2,3)] .
  have w: "\<not> phaseActive G" "\<not> cancellation G" using assms(4) by (auto simp: waitForPhase_look_def split: if_splits)
  have "results_ok G" using inv_of_control [OF inv] c by auto
  then have ok: "snd d" if "d \<in> set (delivered G)" for d
    using that w(2) assms(3) unfolding results_ok_def by (metis (full_types) prod.collapse)
  then have "map (\<lambda>a. (a, True)) (map fst (delivered G)) = delivered G"
    unfolding map_map by (intro map_idI) (metis comp_apply prod.collapse)
  moreover have "mset (map fst (delivered G)) = mset (submitted G)"
    using idle_delivered [OF inv _ w(1)] c by (simp add: live_def)
  ultimately show ?thesis by (metis mset_map)
qed

section \<open>Progress\<close>

text \<open>
  How much the workers still have to do: nine units for a queued frame and, for a worker, the number
  of steps until it is idle again.  The second component orders the steps that only settle a worker
  or a flag.
\<close>

definition weight :: "worker \<Rightarrow> nat" where
  "weight w = (case w of WStarting \<Rightarrow> 2 | WLooking \<Rightarrow> 1 | WAsleep \<Rightarrow> 1 | WClaimed a t g \<Rightarrow> 7 | WGated a t \<Rightarrow> 6 | WRunning a t \<Rightarrow> 5
     | WRan a t b \<Rightarrow> 4 | WDelivering a t b \<Rightarrow> 3 | WFinishing a t b \<Rightarrow> 2 | WExited \<Rightarrow> 0)"

definition work_left :: "Graph \<Rightarrow> nat" where
  "work_left G = 9 * length (readyFrames G) + total_of weight (workers G)"

definition unsettled :: "Graph \<Rightarrow> nat" where
  "unsettled G = total_of (\<lambda>w. if w = WLooking then 1 else 0) (workers G) + (if phaseSucceeded G then 1 else 0)"

lemma weight_simps [simp]:
  "weight WStarting = 2" "weight WLooking = 1" "weight WAsleep = 1" "weight (WClaimed a t g) = 7" "weight (WGated a t) = 6"
  "weight (WRunning a t) = 5" "weight (WRan a t b) = 4" "weight (WDelivering a t b) = 3" "weight (WFinishing a t b) = 2"
  "weight WExited = 0"
  by (simp_all add: weight_def)

lemma total_weight_wake [simp]: "total_of weight (map wake_up ws) = total_of weight ws"
  by (induction ws) (auto simp: wake_up_def)

lemma weight_update:
  assumes "i < length ws" "ws ! i = w"
  shows "total_of weight (ws[i := w']) + weight w = total_of weight ws + weight w'"
proof -
  obtain us vs where "ws = us @ w # vs" "ws[i := w'] = us @ w' # vs" using worker_split [OF assms(1)] assms(2) by metis
  then show ?thesis by simp
qed

lemma look_progress:
  assumes inv: "graph_inv G" and i: "i < length (workers G)" "workers G ! i = WLooking"
  shows "work_left (worker_look i G) < work_left G
    \<or> \<not> stopping G \<and> (worker_look i G = G \<or> work_left (worker_look i G) = work_left G \<and> unsettled (worker_look i G) < unsettled G)"
proof -
  have ne: "workers G \<noteq> []" using i by auto
  note I = inv_live [OF inv ne] and W = weight_update [OF i]
  consider "\<not> work_available G" | "work_available G" "stopping G" | "work_available G" "\<not> stopping G" "cancellation G"
    | "work_available G" "\<not> stopping G" "\<not> cancellation G" by blast
  then show ?thesis
  proof cases
    case 1
    obtain us vs where "workers G = us @ WLooking # vs" "(workers G)[i := WAsleep] = us @ WAsleep # vs"
      using worker_split [OF i(1)] i(2) by metis
    then have "unsettled (set_worker i WAsleep G) < unsettled G" "work_left (set_worker i WAsleep G) = work_left G"
      by (simp_all add: unsettled_def work_left_def set_worker_def)
    then show ?thesis using 1 by (simp add: worker_look_def work_available_def)
  next
    case 2
    then show ?thesis using W [of WExited] by (simp add: worker_look_def work_left_def set_worker_def)
  next
    case 3
    then have act: "phaseActive G" by (simp add: work_available_def)
    show ?thesis
    proof (cases "readyFrames G")
      case (Cons a r)
      then have "work_left (worker_look i G) < work_left G" using 3 by (simp add: worker_look_def queue_eqs work_left_def)
      then show ?thesis by simp
    next
      case Nil
      then have "inFlight G \<noteq> 0" using I(4) act 3(2) by (auto simp: phase_ok_def)
      then have "worker_look i G = G\<lparr>phaseSucceeded := False\<rparr>"
        using 3 Nil by (simp add: worker_look_def queue_eqs)
      then show ?thesis using 3(2) by (cases "phaseSucceeded G") (auto simp: work_left_def unsettled_def)
    qed
  next
    case 4
    then obtain g where "phaseGate G = Some g" using I(4) by (auto simp: phase_ok_def work_available_def)
    moreover obtain a r where "readyFrames G = a # r" using 4 by (cases "readyFrames G") (auto simp: work_available_def)
    ultimately show ?thesis
      using 4 W [of "WClaimed a (last (freeTasks G)) g"] by (simp add: worker_look_def worker_claim_def Let_def work_left_def set_worker_def)
  qed
qed

lemma weight_drop:
  assumes "i < length (workers G)" "weight w' < weight (workers G ! i)" "total_of weight (workers G') = total_of weight ((workers G)[i := w'])"
    "length (readyFrames G') \<le> length (readyFrames G)"
  shows "work_left G' < work_left G"
  using assms weight_update [OF assms(1) refl, of w'] by (simp add: work_left_def)

lemma worker_step_progress:
  assumes "worker_step G G'" "graph_inv G"
  shows "work_left G' < work_left G
    \<or> \<not> stopping G \<and> (G' = G \<or> work_left G' = work_left G \<and> unsettled G' < unsettled G)"
  using assms(1)
proof (cases rule: worker_step.cases)
  case (report i numaReady)
  have "work_left G' < work_left G"
    by (rule weight_drop [of i _ "if numaReady then WLooking else WExited"])
      (use report in \<open>auto simp: worker_report_def set_worker_def Let_def\<close>)
  then show ?thesis by simp
next
  case (look i)
  then show ?thesis using look_progress assms(2) by blast
next
  case (pass i a t g)
  have "work_left G' < work_left G"
    by (rule weight_drop [of i _ "WGated a t"]) (use pass in \<open>auto simp: set_worker_def\<close>)
  then show ?thesis by simp
next
  case (check i a t)
  have "work_left G' < work_left G"
    by (rule weight_drop [of i _ "if cancellation G then WRan a t False else WRunning a t"])
      (use check in \<open>auto simp: worker_check_def set_worker_def\<close>)
  then show ?thesis by simp
next
  case (ran i a t succeeded r)
  have "work_left G' < work_left G"
    by (rule weight_drop [of i _ "WRan a t succeeded"]) (use ran in \<open>auto simp: worker_ran_def set_worker_def\<close>)
  then show ?thesis by simp
next
  case (settle i a t b)
  have "work_left G' < work_left G"
    by (rule weight_drop [of i _ "WDelivering a t b"]) (use settle in \<open>auto simp: worker_settle_def set_worker_def Let_def\<close>)
  then show ?thesis by simp
next
  case (deliver i a t b)
  have "work_left G' < work_left G"
    by (rule weight_drop [of i _ "WFinishing a t b"])
      (use deliver in \<open>auto simp: worker_deliver_def set_worker_def deliverFrameResult_def\<close>)
  then show ?thesis by simp
next
  case (finish i a t b)
  have "work_left G' < work_left G"
    by (rule weight_drop [of i _ WLooking]) (use finish in \<open>auto simp: worker_finish_def Let_def queue_eqs\<close>)
  then show ?thesis by simp
qed

text \<open>A worker with a frame can always go on once the gate is open.\<close>

lemma holder_moves:
  assumes "i < length (workers G)" "held_task (workers G ! i) \<noteq> {#}" "\<And>a t g. workers G ! i = WClaimed a t g \<Longrightarrow> released G g"
  shows "\<exists>G'. worker_step G G' \<and> workers G' ! i \<noteq> workers G ! i"
proof -
  have go: "\<exists>G'. worker_step G G' \<and> workers G' ! i \<noteq> workers G ! i" if "worker_step G G'" "workers G' ! i \<noteq> workers G ! i" for G' using that by auto
  show ?thesis
  proof (cases "workers G ! i")
    case (WClaimed a t g)
    show ?thesis by (rule go [OF worker_step.pass]) (use WClaimed assms in \<open>auto simp: set_worker_def\<close>)
  next
    case (WGated a t)
    show ?thesis by (rule go [OF worker_step.check]) (use WGated assms in \<open>auto simp: worker_check_def set_worker_def split: if_splits\<close>)
  next
    case (WRunning a t)
    show ?thesis
      by (rule go [OF worker_step.ran [where succeeded = False]]) (use WRunning assms in \<open>auto simp: worker_ran_def set_worker_def\<close>)
  next
    case (WRan a t b)
    show ?thesis by (rule go [OF worker_step.settle]) (use WRan assms in \<open>auto simp: worker_settle_def set_worker_def Let_def\<close>)
  next
    case (WDelivering a t b)
    show ?thesis by (rule go [OF worker_step.deliver]) (use WDelivering assms in \<open>auto simp: worker_deliver_def set_worker_def deliverFrameResult_def\<close>)
  next
    case (WFinishing a t b)
    have "workers (worker_finish i G) = map wake_up ((workers G)[i := WLooking])"
      using WFinishing by (simp add: worker_finish_def Let_def queue_eqs)
    then have "workers (worker_finish i G) ! i = WLooking" using assms(1) by (simp add: wake_up_def)
    then show ?thesis by (intro go [OF worker_step.finish [OF assms(1) WFinishing]]) (use WFinishing in auto)
  qed (use assms(2) in auto)
qed







text \<open>
  A shutdown does not wait for ever.  Once the workers are told to stop, every worker that has not
  returned can take a step, even one that stood at a closed gate, and every step any of them takes
  leaves less to do, so after at most \<open>work_left\<close> steps all have returned and can be joined.
\<close>

theorem stopping_workers_return:
  assumes "steps (graph_step accepts) (new_graph n objs) G" "stopping G" "i < length (workers G)" "workers G ! i \<noteq> WExited"
  shows "(\<exists>G'. worker_step G G' \<and> workers G' ! i \<noteq> workers G ! i) \<and> (\<forall>G'. worker_step G G' \<longrightarrow> work_left G' < work_left G)"
proof -
  have inv: "graph_inv G" using reached_inv assms(1) .
  have "workers G \<noteq> []" using assms(3) by auto
  note I = inv_live [OF inv this]
  have mem: "workers G ! i \<in> set (workers G)" using assms(3) by simp
  have move: "\<exists>G'. worker_step G G' \<and> workers G' ! i \<noteq> workers G ! i" if "worker_step G G'" "workers G' ! i \<noteq> workers G ! i" for G'
    using that by blast
  have "\<exists>G'. worker_step G G' \<and> workers G' ! i \<noteq> workers G ! i"
  proof (cases "held_task (workers G ! i) = {#}")
    case True
    then consider "workers G ! i = WStarting" | "workers G ! i = WLooking"
      using assms(2,4) I(6) mem by (cases "workers G ! i") (auto simp: sleep_ok_def)
    then show ?thesis
    proof cases
      case 1
      show ?thesis by (rule move [OF worker_step.report [where numaReady = True]])
          (use 1 assms in \<open>auto simp: worker_report_def set_worker_def\<close>)
    next
      case 2
      show ?thesis by (rule move [OF worker_step.look])
          (use 2 assms in \<open>auto simp: worker_look_def work_available_def set_worker_def\<close>)
    qed
  next
    case False
    then have "inFlight G \<noteq> 0" using in_flight_0 [OF I(2,8)] mem by blast
    then obtain g where "phaseGate G = Some g" "released G g" using I(4) assms(2) by (auto simp: phase_ok_def split: if_splits)
    then have "released G g'" if "workers G ! i = WClaimed a t g'" for a t g'
      using I(5) that mem by (metis claims_ok_def option.inject)
    with assms(3) False show ?thesis by (rule holder_moves)
  qed
  then show ?thesis using worker_step_progress [OF _ inv] assms(2) by blast
qed

end
