(* ===== verification/Graph_Samples.thy ===== *)
theory Graph_Samples
  imports Graph_Properties
begin

text \<open>
  A concrete run of the graph, one worker, one task and one frame, at which the properties of the
  scheduler are applied, and the run in which a thread in \<open>waitForPhase\<close> is never woken again.
\<close>

definition sample_atom :: "nat \<Rightarrow> FrameCpuAtom" where
  "sample_atom a = \<lparr>atom_metadata = default_metadata\<lparr>key := default_key\<lparr>frameId := of_nat a\<rparr>, bytes := 4\<rparr>, atom_data = [0, 0, 0, 0],
     atom_result = \<lparr>job_id = 0, job_ok = True, outputs = []\<rparr>\<rparr>"

abbreviation accept_all :: "FrameMetadata \<Rightarrow> bool" where
  "accept_all \<equiv> \<lambda>_. True"

definition sample_ready :: Graph where
  "sample_ready = initialize_await (worker_report 0 True (initialize_spawn [3] [] [5] 1 (new_graph 1 sample_atom)))"

definition sample_phase :: Graph where
  "sample_phase = snd (startPhase accept_all 8 Timed 9 (snd (graph_start True sample_ready)))"

definition sample_claimed :: Graph where
  "sample_claimed = PhaseGate_release 9 (worker_look 0 sample_phase)"

definition sample_done :: Graph where
  "sample_done = worker_finish 0 (worker_deliver 0 (worker_settle 0 (worker_ran 0 True \<lparr>job_id = 5, job_ok = True, outputs = []\<rparr>
     (worker_check 0 (set_worker 0 (WGated 5 3) sample_claimed)))))"

lemma step_worker: "steps (graph_step accepts) G H \<Longrightarrow> worker_step H K \<Longrightarrow> steps (graph_step accepts) G K"
  by (erule steps.more) (simp add: graph_step_def)

lemma step_caller: "steps (graph_step accepts) G H \<Longrightarrow> caller_step accepts H K \<Longrightarrow> steps (graph_step accepts) G K"
  by (erule steps.more) (simp add: graph_step_def)

lemma sample_ready_reached: "steps (graph_step accept_all) (new_graph 1 sample_atom) sample_ready"
proof -
  let ?G0 = "new_graph 1 sample_atom" and ?G1 = "initialize_spawn [3] [] [5] 1 (new_graph 1 sample_atom)"
  have "steps (graph_step accept_all) ?G0 ?G1"
    by (rule step_caller [OF steps.none], rule caller_step.spawn) (simp_all add: new_graph_def)
  then have "steps (graph_step accept_all) ?G0 (worker_report 0 True ?G1)"
    by (rule step_worker) (rule worker_step.report; code_simp)
  then show ?thesis unfolding sample_ready_def
    by (rule step_caller) (rule caller_step.await; code_simp)
qed

lemma sample_phase_reached: "steps (graph_step accept_all) (new_graph 1 sample_atom) sample_phase"
  unfolding sample_phase_def
  by (rule step_caller [OF step_caller [OF sample_ready_reached caller_step.start] caller_step.phase])

lemma sample_claimed_reached: "steps (graph_step accept_all) (new_graph 1 sample_atom) sample_claimed"
  unfolding sample_claimed_def
proof (rule step_caller [OF step_worker caller_step.release])
  show "steps (graph_step accept_all) (new_graph 1 sample_atom) sample_phase" by (rule sample_phase_reached)
  show "worker_step sample_phase (worker_look 0 sample_phase)" by (rule worker_step.look; code_simp)
qed

lemma sample_done_reached: "steps (graph_step accept_all) (new_graph 1 sample_atom) sample_done"
proof -
  let ?r = "\<lparr>job_id = 5, job_ok = True, outputs = []\<rparr> :: JobResult"
  let ?G1 = "set_worker 0 (WGated 5 3) sample_claimed"
  let ?G2 = "worker_check 0 ?G1"
  let ?G3 = "worker_ran 0 True ?r ?G2"
  let ?G4 = "worker_settle 0 ?G3"
  let ?G5 = "worker_deliver 0 ?G4"
  have "worker_step sample_claimed ?G1" by (rule worker_step.pass [where g = 9]; code_simp; simp)
  moreover have "worker_step ?G1 ?G2" by (rule worker_step.check; code_simp)
  moreover have "worker_step ?G2 ?G3" by (rule worker_step.ran; code_simp)
  moreover have "worker_step ?G3 ?G4" by (rule worker_step.settle; code_simp)
  moreover have "worker_step ?G4 ?G5" by (rule worker_step.deliver; code_simp)
  moreover have "worker_step ?G5 sample_done" unfolding sample_done_def by (rule worker_step.finish; code_simp)
  ultimately show ?thesis using sample_claimed_reached by (meson step_worker)
qed

section \<open>The properties at the sample run\<close>

theorem frames_delivered_exactly_once_witness:
  "delivered sample_done = [(5, True)] \<and> mset (map fst (delivered sample_done)) = mset (submitted sample_done)
    \<and> deliveredResults (sink sample_done) = 1"
proof -
  have "delivered sample_done = [(5, True)]" "live sample_done" "\<not> phaseActive sample_done" by code_simp+
  then show ?thesis using frames_delivered_exactly_once [OF sample_done_reached] by simp
qed

theorem tasks_are_exclusive_witness:
  "3 \<in># held_task (workers sample_claimed ! 0) \<and> 3 \<notin> set (freeTasks sample_claimed)"
proof -
  have w: "workers sample_claimed = [WClaimed 5 3 9]" by code_simp
  then show ?thesis using tasks_are_exclusive [OF sample_claimed_reached, of 0 3] by simp
qed

theorem successful_phase_delivered_all_witness:
  "phaseWaiter (waitForPhase_look sample_done) = PReturned True
    \<and> mset (delivered sample_done) = mset (map (\<lambda>a. (a, True)) (submitted sample_done))"
proof -
  have "initialized sample_done" "\<not> stopping sample_done" "phaseWaiter (waitForPhase_look sample_done) = PReturned True"
    by code_simp+
  then show ?thesis using successful_phase_delivered_all [OF sample_done_reached] by blast
qed


theorem stopping_workers_return_witness:
  "workers (shutdown_begin (worker_look 0 sample_phase)) = [WClaimed 5 3 9]
    \<and> (\<exists>G'. worker_step (shutdown_begin (worker_look 0 sample_phase)) G')"
proof -
  let ?G = "shutdown_begin (worker_look 0 sample_phase)"
  have "worker_step sample_phase (worker_look 0 sample_phase)" by (rule worker_step.look; code_simp)
  moreover have "caller_step accept_all (worker_look 0 sample_phase) ?G" by (rule caller_step.shutdown) code_simp
  ultimately have "steps (graph_step accept_all) (new_graph 1 sample_atom) ?G"
    using sample_phase_reached by (meson step_worker step_caller)
  moreover have "stopping ?G" "workers ?G = [WClaimed 5 3 9]" by code_simp+
  ultimately show ?thesis using stopping_workers_return [of accept_all 1 sample_atom ?G 0] by auto
qed

section \<open>A waiter that is not woken\<close>

text \<open>
  \<open>shutdown()\<close> ends an active phase without \<open>phaseCondition.notify_all()\<close> when no worker holds a frame
  at that moment: the frames are cancelled, the workers return, and \<open>phaseActive\<close> is cleared in the
  last section.  A thread that slept in \<open>waitForPhase()\<close> is then never notified.
\<close>

definition sample_asleep :: Graph where
  "sample_asleep = waitForPhase_look (waitForPhase_enter sample_phase)"

definition sample_lost :: Graph where
  "sample_lost = shutdown_end (shutdown_joined (worker_look 0 (shutdown_begin sample_asleep)))"

lemma sample_lost_reached: "steps (graph_step accept_all) (new_graph 1 sample_atom) sample_lost"
proof -
  let ?G1 = "waitForPhase_enter sample_phase"
  let ?G2 = "shutdown_begin sample_asleep"
  let ?G3 = "worker_look 0 ?G2"
  have "caller_step accept_all sample_phase ?G1" by (rule caller_step.wait_enter; code_simp)
  moreover have "caller_step accept_all ?G1 sample_asleep" unfolding sample_asleep_def by (rule caller_step.wait_look) code_simp
  moreover have "caller_step accept_all sample_asleep ?G2" by (rule caller_step.shutdown) code_simp
  moreover have "worker_step ?G2 ?G3" by (rule worker_step.look; code_simp)
  moreover have "workers ?G3 = [WExited]" "control_at ?G3 = CJoinShutdown" by code_simp+
  then have "caller_step accept_all ?G3 (shutdown_joined ?G3)" by (intro caller_step.joined) auto
  moreover have "caller_step accept_all (shutdown_joined ?G3) sample_lost"
    unfolding sample_lost_def by (rule caller_step.unload) (simp add: shutdown_joined_def)
  ultimately show ?thesis using sample_phase_reached by (meson step_worker step_caller)
qed

lemma unloaded_stays:
  assumes "graph_step accepts G G'" "graph_inv G" "control_at G = CUnloaded" "phaseWaiter G = PAsleep"
  shows "control_at G' = CUnloaded \<and> phaseWaiter G' = PAsleep"
proof -
  have C: "\<not> initialized G" "workers G = []" "\<not> phaseActive G" "readyFrames G = []"
    using assms(2,3) by (auto simp: graph_inv_def control_ok_def)
  then have "\<not> worker_step G G'" by (auto elim: worker_step.cases)
  then have "caller_step accepts G G'" using assms(1) by (simp add: graph_step_def)
  then show ?thesis
    by (cases rule: caller_step.cases)
      (use C assms(3,4) in \<open>auto simp: initialize_failed_def unload_graph_def graph_start_def startPhase_def graph_stop_def
        shutdown_joined_def shutdown_end_def shutdown_begin_eq PhaseGate_release_def Let_def\<close>)
qed

text \<open>
  C19.  There is a run of a graph with one worker after which the waiter sleeps whatever happens next, the
  phase being over.
\<close>

theorem shutdown_can_lose_a_waiter:
  "\<exists>G. steps (graph_step accept_all) (new_graph 1 sample_atom) G
    \<and> (\<forall>G'. steps (graph_step accept_all) G G' \<longrightarrow> phaseWaiter G' = PAsleep \<and> \<not> phaseActive G')"
proof (intro exI [of _ sample_lost] conjI allI impI sample_lost_reached)
  fix G' assume run: "steps (graph_step accept_all) sample_lost G'"
  have "control_at sample_lost = CUnloaded \<and> phaseWaiter sample_lost = PAsleep" by code_simp
  then have "graph_inv sample_lost \<and> control_at sample_lost = CUnloaded \<and> phaseWaiter sample_lost = PAsleep"
    using reached_inv sample_lost_reached by blast
  with run have "graph_inv G' \<and> control_at G' = CUnloaded \<and> phaseWaiter G' = PAsleep"
    by (induction rule: steps.induct) (use unloaded_stays graph.moves_invar in blast)+
  then show "phaseWaiter G' = PAsleep" "\<not> phaseActive G'" by (auto simp: graph_inv_def control_ok_def)
qed

theorem shutdown_can_lose_a_waiter_witness:
  "\<exists>G. steps (graph_step accept_all) (new_graph 1 sample_atom) G \<and> phaseWaiter G = PAsleep \<and> \<not> phaseActive G"
proof -
  from shutdown_can_lose_a_waiter obtain G where G: "steps (graph_step accept_all) (new_graph 1 sample_atom) G"
      "\<forall>G'. steps (graph_step accept_all) G G' \<longrightarrow> phaseWaiter G' = PAsleep \<and> \<not> phaseActive G'" by (elim exE conjE)
  from G(2) [rule_format, OF steps.none] have "phaseWaiter G = PAsleep \<and> \<not> phaseActive G" .
  with G(1) show ?thesis by (intro exI [of _ G] conjI) simp_all
qed

end
