(* ===== verification/Parameter_Registry.thy ===== *)
theory Parameter_Registry
  imports State_Machine "HOL-Library.Mapping" "HOL-Library.AList_Mapping"
begin

text \<open>
  \<open>demo/ParameterRegistry.h\<close> and \<open>.cpp\<close>: the table of typed task parameters.  A schema of names
  and types is registered, every name gets a value, and \<open>seal()\<close> freezes the schema; from then on
  \<open>snapshot()\<close> hands out copies of the values, each with the number of the revision it was taken at.
  The two \<open>std::unordered_map\<close>s are mappings.
\<close>

section \<open>Data\<close>

datatype ParameterType = ParameterType_String | ParameterType_Bytes

text \<open>\<open>std::variant<std::string, std::vector<std::uint8_t>>\<close>.\<close>

datatype ParameterValue = StringValue string | BytesValue "u8 list"

record ParameterSnapshot =
  snap_values :: "(string, ParameterValue) mapping"
  snap_revision :: u64

record ParameterRegistry =
  schema :: "(string, ParameterType) mapping"
  reg_values :: "(string, ParameterValue) mapping"
  revisionNumber :: u64
  sealed :: bool

definition new_registry :: ParameterRegistry where
  "new_registry = \<lparr>schema = Mapping.empty, reg_values = Mapping.empty, revisionNumber = 0, sealed = False\<rparr>"

section \<open>Operations\<close>

text \<open>A getter that answers \<open>false\<close> leaves its output alone: \<open>None\<close>.\<close>

definition getString :: "ParameterSnapshot \<Rightarrow> string \<Rightarrow> string option" where
  "getString s name = (case Mapping.lookup (snap_values s) name of
      Some (StringValue v) \<Rightarrow> Some v
    | _ \<Rightarrow> None)"

definition getBytes :: "ParameterSnapshot \<Rightarrow> string \<Rightarrow> u8 list option" where
  "getBytes s name = (case Mapping.lookup (snap_values s) name of
      Some (BytesValue v) \<Rightarrow> Some v
    | _ \<Rightarrow> None)"

definition registerParameter :: "string \<Rightarrow> ParameterType \<Rightarrow> ParameterRegistry \<Rightarrow> bool \<times> ParameterRegistry" where
  "registerParameter name ty r =
     (if sealed r \<or> name = [] then (False, r)
      else case Mapping.lookup (schema r) name of
        Some found \<Rightarrow> (found = ty, r)
      | None \<Rightarrow> (True, r\<lparr>schema := Mapping.update name ty (schema r)\<rparr>))"

definition setValue :: "string \<Rightarrow> ParameterType \<Rightarrow> ParameterValue \<Rightarrow> ParameterRegistry \<Rightarrow> bool \<times> ParameterRegistry" where
  "setValue name ty v r =
     (if Mapping.lookup (schema r) name \<noteq> Some ty then (False, r)
      else if Mapping.lookup (reg_values r) name = Some v then (True, r)
      else if revisionNumber r = SIZE_MAX then (False, r)
      else (True, r\<lparr>reg_values := Mapping.update name v (reg_values r), revisionNumber := revisionNumber r + 1\<rparr>))"

definition setString :: "string \<Rightarrow> string \<Rightarrow> ParameterRegistry \<Rightarrow> bool \<times> ParameterRegistry" where
  "setString name v = setValue name ParameterType_String (StringValue v)"

definition setBytes :: "string \<Rightarrow> u8 list \<Rightarrow> ParameterRegistry \<Rightarrow> bool \<times> ParameterRegistry" where
  "setBytes name v = setValue name ParameterType_Bytes (BytesValue v)"

definition seal :: "ParameterRegistry \<Rightarrow> bool \<times> ParameterRegistry" where
  "seal r =
     (if sealed r \<or> Mapping.is_empty (schema r) \<or> Mapping.size (reg_values r) \<noteq> Mapping.size (schema r)
      then (False, r) else (True, r\<lparr>sealed := True\<rparr>))"

definition snapshot :: "ParameterRegistry \<Rightarrow> ParameterSnapshot option" where
  "snapshot r = (if sealed r then Some \<lparr>snap_values = reg_values r, snap_revision = revisionNumber r\<rparr> else None)"

section \<open>Typing\<close>

definition value_type :: "ParameterValue \<Rightarrow> ParameterType" where
  "value_type v = (case v of StringValue _ \<Rightarrow> ParameterType_String | BytesValue _ \<Rightarrow> ParameterType_Bytes)"

lemma value_type_simps [simp]:
  "value_type (StringValue s) = ParameterType_String" "value_type (BytesValue b) = ParameterType_Bytes"
  by (simp_all add: value_type_def)

text \<open>The calls that can change a registry.\<close>

datatype registry_call = CRegister string ParameterType | CSetString string string | CSetBytes string "u8 list" | CSeal

fun registry_run :: "registry_call \<Rightarrow> ParameterRegistry \<Rightarrow> bool \<times> ParameterRegistry" where
  "registry_run (CRegister n ty) r = registerParameter n ty r"
| "registry_run (CSetString n v) r = setString n v r"
| "registry_run (CSetBytes n v) r = setBytes n v r"
| "registry_run CSeal r = seal r"

definition registry_step :: "ParameterRegistry \<Rightarrow> ParameterRegistry \<Rightarrow> bool" where
  "registry_step r r' \<longleftrightarrow> (\<exists>call. r' = snd (registry_run call r))"

text \<open>
  Values are stored only for names of the schema and have the type registered for the name; the
  schema is finite and has no empty name; a sealed registry has a value for every name.
\<close>

definition registry_ok :: "ParameterRegistry \<Rightarrow> bool" where
  "registry_ok r \<longleftrightarrow>
     finite (Mapping.keys (schema r)) \<and> [] \<notin> Mapping.keys (schema r)
     \<and> (\<forall>n v. Mapping.lookup (reg_values r) n = Some v \<longrightarrow> Mapping.lookup (schema r) n = Some (value_type v))
     \<and> (sealed r \<longrightarrow> Mapping.keys (schema r) \<noteq> {} \<and> Mapping.keys (reg_values r) = Mapping.keys (schema r))"

lemma keys_iff_lookup: "n \<in> Mapping.keys m \<longleftrightarrow> (\<exists>v. Mapping.lookup m n = Some v)"
  by (simp add: keys_dom_lookup domIff)

lemma registry_ok_keys: "registry_ok r \<Longrightarrow> Mapping.keys (reg_values r) \<subseteq> Mapping.keys (schema r)"
  unfolding registry_ok_def keys_iff_lookup subset_iff by blast

lemma lookup_update_iff:
  "Mapping.lookup (Mapping.update k v m) n = (if n = k then Some v else Mapping.lookup m n)"
  by (simp add: lookup_update')

lemma registerParameter_ok: "registry_ok r \<Longrightarrow> registry_ok (snd (registerParameter n ty r))"
  by (auto simp: registerParameter_def registry_ok_def lookup_update_iff split: option.splits)

lemma setValue_ok:
  assumes "registry_ok r" "value_type v = ty"
  shows "registry_ok (snd (setValue n ty v r))"
proof (cases "Mapping.lookup (schema r) n = Some ty")
  case True
  then have "n \<in> Mapping.keys (schema r)" by (simp add: keys_iff_lookup)
  with True assms show ?thesis
    by (auto simp: setValue_def registry_ok_def lookup_update_iff)
qed (use assms in \<open>simp add: setValue_def\<close>)

text \<open>Equal sizes are enough for equal key sets, because no value is stored outside the schema.\<close>

lemma seal_ok:
  assumes "registry_ok r"
  shows "registry_ok (snd (seal r))"
proof (cases "fst (seal r)")
  case True
  then have s: "snd (seal r) = r\<lparr>sealed := True\<rparr>" "\<not> Mapping.is_empty (schema r)"
    "Mapping.size (reg_values r) = Mapping.size (schema r)"
    by (auto simp: seal_def split: if_splits)
  have sub: "Mapping.keys (reg_values r) \<subseteq> Mapping.keys (schema r)" and fin: "finite (Mapping.keys (schema r))"
    using assms registry_ok_keys by (auto simp: registry_ok_def)
  then have "Mapping.keys (reg_values r) = Mapping.keys (schema r)"
    using s(3) finite_subset [OF sub fin] by (simp add: size_def card_subset_eq)
  then show ?thesis using s(1,2) assms by (auto simp: registry_ok_def is_empty_def)
qed (use assms in \<open>auto simp: seal_def split: if_splits\<close>)

lemma registry_run_ok: "registry_ok r \<Longrightarrow> registry_ok (snd (registry_run call r))"
  by (cases call) (auto simp: setString_def setBytes_def registerParameter_ok setValue_ok seal_ok)

interpretation registry: state_machine "\<lambda>r. r = new_registry" registry_step registry_ok
proof unfold_locales
  show "registry_ok s" if "s = new_registry" for s
    using that by (simp add: registry_ok_def new_registry_def)
  show "registry_ok t" if "registry_ok s" "registry_step s t" for s t
    using that registry_run_ok by (auto simp: registry_step_def)
qed

section \<open>Revisions\<close>

text \<open>
  A step either keeps the values and the revision, or moves to the next revision.  It never shrinks
  the schema, and a sealed registry keeps its schema and stays sealed.
\<close>

definition revision_moves :: "ParameterRegistry \<Rightarrow> ParameterRegistry \<Rightarrow> bool" where
  "revision_moves r r' \<longleftrightarrow>
     (reg_values r' = reg_values r \<and> revisionNumber r' = revisionNumber r
      \<or> unat (revisionNumber r') = Suc (unat (revisionNumber r)))
     \<and> (sealed r \<longrightarrow> sealed r' \<and> schema r' = schema r)"

lemma setValue_moves: "revision_moves r (snd (setValue n ty v r))"
proof -
  have "unat (revisionNumber r + 1) = Suc (unat (revisionNumber r))" if "revisionNumber r \<noteq> SIZE_MAX"
  proof -
    have "unat (revisionNumber r) \<noteq> 2 ^ 64 - 1" using that by (metis unat_SIZE_MAX word_unat_eq_iff)
    then show ?thesis
      using unat_Suc_no_wrap [of "revisionNumber r"] unat_size_t_less [of "revisionNumber r"] by simp
  qed
  then show ?thesis by (auto simp: revision_moves_def setValue_def)
qed

lemma registry_run_moves: "revision_moves r (snd (registry_run call r))"
proof (cases call)
  case (CRegister n ty)
  then show ?thesis by (auto simp: registerParameter_def revision_moves_def split: option.splits)
next
  case CSeal
  then show ?thesis by (simp add: seal_def revision_moves_def)
qed (simp_all add: setString_def setBytes_def setValue_moves)

lemma steps_revision:
  assumes "steps registry_step r r'"
  shows "unat (revisionNumber r) \<le> unat (revisionNumber r')
    \<and> (revisionNumber r' = revisionNumber r \<longrightarrow> reg_values r' = reg_values r)
    \<and> (sealed r \<longrightarrow> sealed r' \<and> schema r' = schema r)"
  using assms
proof (induction rule: steps.induct)
  case (more r t u)
  then have "revision_moves t u" using registry_run_moves by (auto simp: registry_step_def)
  with more.IH show ?case unfolding revision_moves_def by (metis Suc_n_not_le_n le_SucI)
qed simp

section \<open>What a caller can rely on\<close>

text \<open>
  C27.  The snapshot of a sealed registry is complete and typed: a name can be read as a string
  exactly when it was registered as one, as bytes exactly when it was registered as bytes, it has
  never both, and the revision of the snapshot is the one of the registry.
\<close>

theorem snapshot_is_complete_and_typed:
  assumes "steps registry_step new_registry r" "snapshot r = Some s"
  shows "((\<exists>v. getString s n = Some v) \<longleftrightarrow> Mapping.lookup (schema r) n = Some ParameterType_String)
    \<and> ((\<exists>v. getBytes s n = Some v) \<longleftrightarrow> Mapping.lookup (schema r) n = Some ParameterType_Bytes)
    \<and> snap_revision s = revisionNumber r"
proof -
  have ok: "registry_ok r" using registry.reached_invar assms(1) by simp
  have s: "sealed r" "snap_values s = reg_values r" "snap_revision s = revisionNumber r"
    using assms(2) by (auto simp: snapshot_def split: if_splits)
  show ?thesis
  proof (cases "Mapping.lookup (reg_values r) n")
    case None
    then have "n \<notin> Mapping.keys (schema r)" using ok s(1) unfolding registry_ok_def by (metis keys_iff_lookup option.discI)
    then show ?thesis using None s by (simp add: getString_def getBytes_def keys_iff_lookup)
  next
    case (Some v)
    then have "Mapping.lookup (schema r) n = Some (value_type v)" using ok by (simp add: registry_ok_def)
    then show ?thesis using Some s by (cases v) (auto simp: getString_def getBytes_def)
  qed
qed

text \<open>
  The revision identifies the contents: along any sequence of calls it never decreases, two
  moments with the same revision have the same values, and after \<open>seal()\<close> the schema is frozen.  A
  task that compares revisions therefore never misses a change.
\<close>

theorem revision_identifies_contents:
  assumes "steps registry_step r r'"
  shows "unat (revisionNumber r) \<le> unat (revisionNumber r')
    \<and> (revisionNumber r' = revisionNumber r \<longrightarrow> reg_values r' = reg_values r)
    \<and> (sealed r \<longrightarrow> sealed r' \<and> schema r' = schema r)"
  using steps_revision [OF assms] .

text \<open>What a successful update of a sealed registry changes, and when an update is refused.\<close>

lemma setValue_spec:
  assumes "Mapping.lookup (schema r) n = Some (value_type v)"
  shows "(fst (setValue n (value_type v) v r) \<longleftrightarrow>
        Mapping.lookup (reg_values r) n = Some v \<or> revisionNumber r \<noteq> SIZE_MAX)
    \<and> (fst (setValue n (value_type v) v r) \<longrightarrow>
        (\<forall>m. Mapping.lookup (reg_values (snd (setValue n (value_type v) v r))) m
           = (if m = n then Some v else Mapping.lookup (reg_values r) m)))
    \<and> schema (snd (setValue n (value_type v) v r)) = schema r
    \<and> sealed (snd (setValue n (value_type v) v r)) = sealed r"
  using assms by (auto simp: setValue_def lookup_update_iff)

definition sample_registry :: ParameterRegistry where
  "sample_registry = snd (seal (snd (setBytes ''b'' [1, 2] (snd (setString ''n'' ''demo''
     (snd (registerParameter ''b'' ParameterType_Bytes (snd (registerParameter ''n'' ParameterType_String new_registry)))))))))"

lemma sample_registry_reached: "steps registry_step new_registry sample_registry"
proof -
  have run: "steps registry_step r t \<Longrightarrow> steps registry_step r (snd (registry_run c t))" for r t c
    by (rule steps.more) (auto simp: registry_step_def)
  have "sample_registry = snd (registry_run CSeal (snd (registry_run (CSetBytes ''b'' [1, 2])
      (snd (registry_run (CSetString ''n'' ''demo'') (snd (registry_run (CRegister ''b'' ParameterType_Bytes)
      (snd (registry_run (CRegister ''n'' ParameterType_String) new_registry)))))))))"
    by (simp add: sample_registry_def)
  then show ?thesis by (metis run steps.none)
qed

theorem snapshot_is_complete_and_typed_witness:
  "(\<exists>v. getString \<lparr>snap_values = reg_values sample_registry, snap_revision = 2\<rparr> ''n'' = Some v)
   \<and> Mapping.lookup (schema sample_registry) ''n'' = Some ParameterType_String"
proof -
  have e: "snapshot sample_registry = Some \<lparr>snap_values = reg_values sample_registry, snap_revision = 2\<rparr>"
    "Mapping.lookup (schema sample_registry) ''n'' = Some ParameterType_String"
    by code_simp+
  from snapshot_is_complete_and_typed [OF sample_registry_reached e(1), of "''n''"] e(2)
  show ?thesis by simp
qed

theorem revision_identifies_contents_witness:
  "unat (revisionNumber sample_registry) \<le> unat (revisionNumber (snd (setString ''n'' ''x'' sample_registry)))
   \<and> revisionNumber (snd (setString ''n'' ''x'' sample_registry)) = 3
   \<and> schema (snd (setString ''n'' ''x'' sample_registry)) = schema sample_registry"
proof -
  have "registry_step sample_registry (snd (setString ''n'' ''x'' sample_registry))"
    unfolding registry_step_def by (intro exI [of _ "CSetString ''n'' ''x''"]) simp
  moreover have "sealed sample_registry" "revisionNumber (snd (setString ''n'' ''x'' sample_registry)) = 3"
    by code_simp+
  ultimately show ?thesis
    using revision_identifies_contents [OF steps_one] by blast
qed

end
