(* ===== verification/Result_Pipeline.thy ===== *)
theory Result_Pipeline
  imports State_Machine Gpu_Types "HOL-Library.Multiset"
begin

text \<open>
  \<open>demo/ResultPipeline/ResultPipeline.h\<close> and \<open>.cpp\<close>: three threads, the producer task, the chain of
  CPU tasks and the consumer task, that pass a bounded number of slots around in three queues.  The
  model is a step relation, a step being one section under the lock of the \<open>Scheduler\<close> or the work of
  a stage between two sections; whether a task succeeds is open.  Stage 0 is the producer, 1 the CPU
  chain, 2 the consumer.
\<close>

section \<open>Configuration\<close>

record PipelineConfig =
  cfg_frames :: size_t
  cfg_entries :: size_t
  cfg_inFlight :: size_t
  cfg_bytes :: size_t
  cfg_cpuStages :: size_t
  cfg_cpuDelay :: int
  cfg_cacheWait :: int
  cfg_policy :: CacheEvictionPolicy
  cfg_retention :: CacheRetention

text \<open>The checks at the start of \<open>runPipeline\<close>.\<close>

definition config_ok :: "PipelineConfig \<Rightarrow> bool" where
  "config_ok c \<longleftrightarrow> \<not> (cfg_frames c = 0 \<or> cfg_frames c > 1000000 \<or> cfg_entries c = 0 \<or> cfg_entries c > 65536
     \<or> cfg_inFlight c = 0 \<or> cfg_inFlight c > 65536 \<or> cfg_bytes c = 0 \<or> cfg_bytes c > 16777216
     \<or> cfg_cpuStages c = 0 \<or> cfg_cpuStages c > 100 \<or> cfg_cpuDelay c < 0 \<or> cfg_cacheWait c < 0)"

definition slot_count :: "PipelineConfig \<Rightarrow> nat" where
  "slot_count c = unat (min (cfg_inFlight c) (cfg_frames c))"

section \<open>State\<close>

text \<open>
  Where a stage is: not created, loading its task, about to test or asleep in \<open>awaitStart\<close>, about to
  test or asleep in \<open>take\<close> for a frame, working on a frame in a slot, about to pass the slot on, about
  to cancel after a failure, or returned.
\<close>

datatype stage =
    SNone
  | SLoading
  | SAwait
  | SAwaitAsleep
  | STake nat
  | SAsleep nat
  | SRun nat nat
  | SPass nat nat
  | SFail nat nat
  | SReturned

text \<open>The thread of \<open>runPipeline\<close>: creating workers, waiting for them, joining them, done.\<close>

datatype main_at = MSpawn nat | MLook | MAsleep | MJoin | MDone

record Pipeline =
  frames :: nat
  slots :: nat
  freeSlots :: "nat list"
  cpuQueue :: "nat list"
  consumerQueue :: "nat list"
  ready_stages :: size_t
  active :: size_t
  peak :: size_t
  start :: bool
  failed :: bool
  slot_frame :: "nat \<Rightarrow> u64"
  completed :: u64
  stage_of :: "nat \<Rightarrow> stage"
  main_thread :: main_at

text \<open>\<open>slot_frame\<close> is \<open>atoms[slot].metadata.key.frameId\<close>.\<close>

definition new_pipeline :: "PipelineConfig \<Rightarrow> Pipeline" where
  "new_pipeline c = \<lparr>frames = unat (cfg_frames c), slots = slot_count c, freeSlots = [0..<slot_count c], cpuQueue = [],
     consumerQueue = [], ready_stages = 0, active = 0, peak = 0, start = False, failed = False, slot_frame = (\<lambda>_. 0),
     completed = 0, stage_of = (\<lambda>_. SNone), main_thread = MSpawn 0\<rparr>"

section \<open>The scheduler\<close>

definition notify_all :: "Pipeline \<Rightarrow> Pipeline" where
  "notify_all P = P\<lparr>
     stage_of := (\<lambda>s. case stage_of P s of SAwaitAsleep \<Rightarrow> SAwait | SAsleep f \<Rightarrow> STake f | x \<Rightarrow> x),
     main_thread := (if main_thread P = MAsleep then MLook else main_thread P)\<rparr>"

definition set_stage :: "nat \<Rightarrow> stage \<Rightarrow> Pipeline \<Rightarrow> Pipeline" where
  "set_stage s x P = P\<lparr>stage_of := (stage_of P)(s := x)\<rparr>"

definition Scheduler_cancel :: "Pipeline \<Rightarrow> Pipeline" where
  "Scheduler_cancel P = notify_all (P\<lparr>failed := True\<rparr>)"

text \<open>\<open>awaitStart\<close> up to the wait, and the test of its predicate.\<close>

definition awaitStart_enter :: "nat \<Rightarrow> bool \<Rightarrow> Pipeline \<Rightarrow> Pipeline" where
  "awaitStart_enter s loaded P =
     notify_all (set_stage s SAwait (P\<lparr>ready_stages := ready_stages P + 1, failed := (failed P \<or> \<not> loaded)\<rparr>))"

definition awaitStart_look :: "nat \<Rightarrow> Pipeline \<Rightarrow> Pipeline" where
  "awaitStart_look s P =
     (if \<not> (start P \<or> failed P) then set_stage s SAwaitAsleep P
      else if failed P then set_stage s SReturned P
      else set_stage s (if 0 < frames P then STake 0 else SReturned) P)"

definition queue_of :: "nat \<Rightarrow> Pipeline \<Rightarrow> nat list" where
  "queue_of s P = (if s = 0 then freeSlots P else if s = 1 then cpuQueue P else consumerQueue P)"

definition set_queue :: "nat \<Rightarrow> nat list \<Rightarrow> Pipeline \<Rightarrow> Pipeline" where
  "set_queue s q P = (if s = 0 then P\<lparr>freeSlots := q\<rparr> else if s = 1 then P\<lparr>cpuQueue := q\<rparr> else P\<lparr>consumerQueue := q\<rparr>)"

text \<open>\<open>take\<close>; the producer passes \<open>producing\<close>.\<close>

definition Scheduler_take :: "nat \<Rightarrow> nat \<Rightarrow> Pipeline \<Rightarrow> Pipeline" where
  "Scheduler_take s f P =
     (if failed P then set_stage s SReturned P
      else case queue_of s P of
          [] \<Rightarrow> set_stage s (SAsleep f) P
        | slot # rest \<Rightarrow>
            let P1 = set_stage s (SRun f slot) (set_queue s rest P)
            in if s = 0 then P1\<lparr>active := active P1 + 1, peak := max (peak P1) (active P1 + 1)\<rparr> else P1)"

text \<open>\<open>pass\<close> and the step to the next frame; the consumer counts a frame just before it passes the slot on, and
  nobody reads the count in between, so both are this step.\<close>

definition Scheduler_pass :: "nat \<Rightarrow> nat \<Rightarrow> nat \<Rightarrow> Pipeline \<Rightarrow> Pipeline" where
  "Scheduler_pass s f slot P =
     (let target = (if s = 2 then 0 else s + 1);
          P1 = set_queue target (queue_of target P @ [slot]) P;
          P2 = (if s = 2 then P1\<lparr>active := active P1 - 1, completed := completed P1 + 1\<rparr> else P1)
      in notify_all (set_stage s (if f + 1 < frames P then STake (f + 1) else SReturned) P2))"

text \<open>The work of a stage; the producer first labels the slot with the frame.\<close>

definition stage_work :: "nat \<Rightarrow> nat \<Rightarrow> nat \<Rightarrow> bool \<Rightarrow> Pipeline \<Rightarrow> Pipeline" where
  "stage_work s f slot ok P =
     set_stage s (if ok then SPass f slot else SFail f slot)
       (if s = 0 then P\<lparr>slot_frame := (slot_frame P)(slot := of_nat (f + 1))\<rparr> else P)"

definition main_start :: "Pipeline \<Rightarrow> Pipeline" where
  "main_start P =
     (if ready_stages P = 3 \<or> failed P then (notify_all (P\<lparr>start := True\<rparr>))\<lparr>main_thread := MJoin\<rparr>
      else P\<lparr>main_thread := MAsleep\<rparr>)"

section \<open>Steps\<close>

text \<open>A thread may also fail by an exception: while its task loads or runs, and when a queue cannot grow.\<close>

inductive pipeline_step :: "Pipeline \<Rightarrow> Pipeline \<Rightarrow> bool" where
  spawn: "main_thread P = MSpawn k \<Longrightarrow> k < 3 \<Longrightarrow>
    pipeline_step P ((set_stage k SLoading P)\<lparr>main_thread := (if k + 1 = 3 then MLook else MSpawn (k + 1))\<rparr>)"
| spawn_failed: "main_thread P = MSpawn k \<Longrightarrow> pipeline_step P ((Scheduler_cancel P)\<lparr>main_thread := MJoin\<rparr>)"
| start_all: "main_thread P = MLook \<Longrightarrow> pipeline_step P (main_start P)"
| join: "main_thread P = MJoin \<Longrightarrow> \<forall>s<3. stage_of P s \<in> {SNone, SReturned} \<Longrightarrow> pipeline_step P (P\<lparr>main_thread := MDone\<rparr>)"
| load: "s < 3 \<Longrightarrow> stage_of P s = SLoading \<Longrightarrow> pipeline_step P (awaitStart_enter s loaded P)"
| load_failed: "s < 3 \<Longrightarrow> stage_of P s = SLoading \<Longrightarrow> pipeline_step P (set_stage s SReturned (Scheduler_cancel P))"
| await: "s < 3 \<Longrightarrow> stage_of P s = SAwait \<Longrightarrow> pipeline_step P (awaitStart_look s P)"
| take: "s < 3 \<Longrightarrow> stage_of P s = STake f \<Longrightarrow> pipeline_step P (Scheduler_take s f P)"
| work: "s < 3 \<Longrightarrow> stage_of P s = SRun f slot \<Longrightarrow> pipeline_step P (stage_work s f slot ok P)"
| pass: "s < 3 \<Longrightarrow> stage_of P s = SPass f slot \<Longrightarrow> pipeline_step P (Scheduler_pass s f slot P)"
| pass_failed: "s < 3 \<Longrightarrow> stage_of P s = SPass f slot \<Longrightarrow> pipeline_step P (set_stage s (SFail f slot) P)"
| cancel: "s < 3 \<Longrightarrow> stage_of P s = SFail f slot \<Longrightarrow> pipeline_step P (set_stage s SReturned (Scheduler_cancel P))"

text \<open>A step of a thread, or a wake-up nobody asked for.\<close>

definition pipeline_moves :: "Pipeline \<Rightarrow> Pipeline \<Rightarrow> bool" where
  "pipeline_moves P P' \<longleftrightarrow> pipeline_step P P' \<or> P' = notify_all P"

text \<open>What \<open>runPipeline\<close> answers after the join, given whether the tasks and the cache were released.\<close>

definition pipeline_result :: "bool \<Rightarrow> Pipeline \<Rightarrow> bool" where
  "pipeline_result released P \<longleftrightarrow> \<not> (failed P \<or> completed P \<noteq> of_nat (frames P) \<or> \<not> released)"

end
