(* ===== verification/Result_Flow.thy ===== *)
theory Result_Flow
  imports Result_Pipeline
begin

text \<open>
  The invariant of the result pipeline and what follows from it: slots are conserved and never
  shared, every stage sees the frames in order, no stage sleeps through work, and the threads end.
\<close>

section \<open>The invariant\<close>

definition held_slot :: "stage \<Rightarrow> nat multiset" where
  "held_slot x = (case x of SRun f k \<Rightarrow> {#k#} | SPass f k \<Rightarrow> {#k#} | SFail f k \<Rightarrow> {#k#} | _ \<Rightarrow> {#})"

text \<open>How many frames a stage has passed on, and how many it has taken.\<close>

definition passed :: "nat \<Rightarrow> stage \<Rightarrow> nat" where
  "passed n x = (case x of STake f \<Rightarrow> f | SAsleep f \<Rightarrow> f | SRun f k \<Rightarrow> f | SPass f k \<Rightarrow> f | SFail f k \<Rightarrow> f | SReturned \<Rightarrow> n | _ \<Rightarrow> 0)"

definition taken :: "nat \<Rightarrow> stage \<Rightarrow> nat" where
  "taken n x = passed n x + size (held_slot x)"

lemma stage_simps [simp]:
  "held_slot SNone = {#}" "held_slot SLoading = {#}" "held_slot SAwait = {#}" "held_slot SAwaitAsleep = {#}" "held_slot (STake f) = {#}"
  "held_slot (SAsleep f) = {#}" "held_slot (SRun f k) = {#k#}" "held_slot (SPass f k) = {#k#}" "held_slot (SFail f k) = {#k#}"
  "held_slot SReturned = {#}"
  "passed n SNone = 0" "passed n SLoading = 0" "passed n SAwait = 0" "passed n SAwaitAsleep = 0" "passed n (STake f) = f"
  "passed n (SAsleep f) = f" "passed n (SRun f k) = f" "passed n (SPass f k) = f" "passed n (SFail f k) = f" "passed n SReturned = n"
  by (simp_all add: held_slot_def passed_def)

definition wake :: "stage \<Rightarrow> stage" where
  "wake x = (case x of SAwaitAsleep \<Rightarrow> SAwait | SAsleep f \<Rightarrow> STake f | y \<Rightarrow> y)"

lemma wake_simps [simp]:
  "held_slot (wake x) = held_slot x" "passed n (wake x) = passed n x" "taken n (wake x) = taken n x"
  by (cases x; simp add: wake_def taken_def)+

text \<open>Every slot is free, queued or with one stage; \<open>active\<close> counts the ones that are not free.\<close>

definition slots_ok :: "Pipeline \<Rightarrow> bool" where
  "slots_ok P \<longleftrightarrow>
     mset (freeSlots P) + mset (cpuQueue P) + mset (consumerQueue P)
       + (held_slot (stage_of P 0) + held_slot (stage_of P 1) + held_slot (stage_of P 2)) = mset [0..<slots P]
     \<and> active P = of_nat (length (cpuQueue P) + length (consumerQueue P)
         + (size (held_slot (stage_of P 0)) + size (held_slot (stage_of P 1)) + size (held_slot (stage_of P 2))))"

text \<open>The queues hold the frames between the stages, in order.\<close>

definition labels :: "nat \<Rightarrow> nat \<Rightarrow> u64 list" where
  "labels a b = map (\<lambda>f. of_nat (Suc f)) [a..<b]"

definition order_ok :: "Pipeline \<Rightarrow> bool" where
  "order_ok P \<longleftrightarrow>
     taken (frames P) (stage_of P 1) \<le> passed (frames P) (stage_of P 0)
     \<and> taken (frames P) (stage_of P 2) \<le> passed (frames P) (stage_of P 1)
     \<and> map (slot_frame P) (cpuQueue P) = labels (taken (frames P) (stage_of P 1)) (passed (frames P) (stage_of P 0))
     \<and> map (slot_frame P) (consumerQueue P) = labels (taken (frames P) (stage_of P 2)) (passed (frames P) (stage_of P 1))
     \<and> (\<forall>f k. stage_of P 0 = SPass f k \<longrightarrow> slot_frame P k = of_nat (Suc f))
     \<and> (\<forall>s\<in>{1, 2}. \<forall>k\<in>#held_slot (stage_of P s). slot_frame P k = of_nat (Suc (passed (frames P) (stage_of P s))))
     \<and> completed P = of_nat (passed (frames P) (stage_of P 2))"

definition in_range :: "nat \<Rightarrow> stage \<Rightarrow> bool" where
  "in_range n x \<longleftrightarrow> (case x of
      STake f \<Rightarrow> f < n | SAsleep f \<Rightarrow> f < n | SRun f k \<Rightarrow> f < n | SPass f k \<Rightarrow> f < n | SFail f k \<Rightarrow> f < n | _ \<Rightarrow> True)"

lemma in_range_simps [simp]:
  "in_range n SNone" "in_range n SLoading" "in_range n SAwait" "in_range n SAwaitAsleep" "in_range n SReturned"
  "in_range n (STake f) \<longleftrightarrow> f < n" "in_range n (SAsleep f) \<longleftrightarrow> f < n" "in_range n (SRun f k) \<longleftrightarrow> f < n"
  "in_range n (SPass f k) \<longleftrightarrow> f < n" "in_range n (SFail f k) \<longleftrightarrow> f < n" "in_range n (wake x) \<longleftrightarrow> in_range n x"
  by (simp_all add: in_range_def wake_def split: stage.splits)

definition reported :: "stage \<Rightarrow> nat" where
  "reported x = (if x \<in> {SNone, SLoading} then 0 else 1)"

text \<open>What the main thread knows about the workers.\<close>

definition main_ok :: "Pipeline \<Rightarrow> bool" where
  "main_ok P \<longleftrightarrow>
     (\<not> failed P \<longrightarrow> ready_stages P = of_nat (reported (stage_of P 0) + reported (stage_of P 1) + reported (stage_of P 2)))
     \<and> (case main_thread P of
         MSpawn k \<Rightarrow> k < 3 \<and> (\<forall>s<3. stage_of P s = SNone \<longleftrightarrow> k \<le> s)
       | MLook \<Rightarrow> \<forall>s<3. stage_of P s \<noteq> SNone
       | MAsleep \<Rightarrow> \<forall>s<3. stage_of P s \<noteq> SNone
       | MJoin \<Rightarrow> failed P \<or> start P \<and> (\<forall>s<3. stage_of P s \<noteq> SNone)
       | MDone \<Rightarrow> failed P \<or> (\<forall>s<3. stage_of P s = SReturned))"

text \<open>Nobody sleeps through what it waits for.\<close>

definition sleepers_ok :: "Pipeline \<Rightarrow> bool" where
  "sleepers_ok P \<longleftrightarrow>
     (\<forall>s<3. (\<forall>f. stage_of P s = SAsleep f \<longrightarrow> \<not> failed P \<and> queue_of s P = [])
        \<and> (stage_of P s = SAwaitAsleep \<longrightarrow> \<not> start P \<and> \<not> failed P))
     \<and> (main_thread P = MAsleep \<longrightarrow> \<not> failed P \<and> ready_stages P \<noteq> 3)"

definition pipeline_core :: "Pipeline \<Rightarrow> bool" where
  "pipeline_core P \<longleftrightarrow> 0 < frames P \<and> 0 < slots P \<and> slots P < 2 ^ 64 \<and> unat (peak P) \<le> slots P
     \<and> (\<not> failed P \<longrightarrow> slots_ok P \<and> order_ok P) \<and> (\<forall>s<3. in_range (frames P) (stage_of P s)) \<and> main_ok P"

definition pipeline_inv :: "Pipeline \<Rightarrow> bool" where
  "pipeline_inv P \<longleftrightarrow> pipeline_core P \<and> sleepers_ok P"

lemma less_3: "s < 3 \<longleftrightarrow> s = 0 \<or> s = 1 \<or> s = (2::nat)"
  by auto

lemma all_less_3: "(\<forall>s<3. Q s) \<longleftrightarrow> Q 0 \<and> Q 1 \<and> Q (2::nat)"
  by (auto simp: less_3)

lemma notify_all_alt: "notify_all P = P\<lparr>stage_of := wake \<circ> stage_of P, main_thread := (if main_thread P = MAsleep then MLook else main_thread P)\<rparr>"
  by (simp add: notify_all_def wake_def comp_def)

lemma wake_eq [simp]:
  "wake x = SNone \<longleftrightarrow> x = SNone" "wake x = SReturned \<longleftrightarrow> x = SReturned" "wake x \<noteq> SAsleep f" "wake x \<noteq> SAwaitAsleep"
  "wake x = SPass f k \<longleftrightarrow> x = SPass f k" "wake x = SLoading \<longleftrightarrow> x = SLoading" "reported (wake x) = reported x"
  by (cases x; simp add: wake_def reported_def)+

lemma core_notify: "pipeline_core P \<Longrightarrow> pipeline_inv (notify_all P)"
  unfolding pipeline_inv_def notify_all_alt
  by (cases "main_thread P")
    (auto simp: pipeline_core_def slots_ok_def order_ok_def main_ok_def sleepers_ok_def)

text \<open>A failed pipeline only has to stay in range.\<close>

lemma failed_core:
  assumes "pipeline_core P" "failed P'" "frames P' = frames P" "slots P' = slots P" "peak P' = peak P"
    "\<And>s. s < 3 \<Longrightarrow> in_range (frames P) (stage_of P' s)"
    "main_thread P' = main_thread P" "\<And>s. s < 3 \<Longrightarrow> stage_of P' s = SNone \<longleftrightarrow> stage_of P s = SNone"
  shows "pipeline_core P'"
  using assms by (cases "main_thread P") (auto simp: pipeline_core_def main_ok_def)

lemma pipeline_cancel_inv:
  assumes "pipeline_inv P" "s < 3" "stage_of P s \<noteq> SNone"
  shows "pipeline_inv (set_stage s SReturned (Scheduler_cancel P))"
proof -
  have "wake \<circ> (stage_of P)(s := SReturned) = (wake \<circ> stage_of P)(s := SReturned)" by (auto simp: wake_def)
  then have eq: "set_stage s SReturned (Scheduler_cancel P) = notify_all (set_stage s SReturned (P\<lparr>failed := True\<rparr>))"
    by (simp add: set_stage_def Scheduler_cancel_def notify_all_alt)
  have "pipeline_core (set_stage s SReturned (P\<lparr>failed := True\<rparr>))"
    by (rule failed_core [of P]) (use assms in \<open>auto simp: pipeline_inv_def pipeline_core_def set_stage_def\<close>)
  then show ?thesis unfolding eq by (rule core_notify)
qed

lemma flow_same:
  assumes "slots_ok P" "order_ok P" "frames P' = frames P" "slots P' = slots P" "freeSlots P' = freeSlots P" "cpuQueue P' = cpuQueue P"
    "consumerQueue P' = consumerQueue P" "active P' = active P" "slot_frame P' = slot_frame P" "completed P' = completed P"
    and same: "\<And>s. s < 3 \<Longrightarrow> held_slot (stage_of P' s) = held_slot (stage_of P s)"
      "\<And>s. s < 3 \<Longrightarrow> passed (frames P) (stage_of P' s) = passed (frames P) (stage_of P s)"
      "\<And>f k. stage_of P' 0 = SPass f k \<Longrightarrow> slot_frame P k = of_nat (Suc f)"
  shows "slots_ok P'" "order_ok P'"
proof -
  have h: "held_slot (stage_of P' 0) = held_slot (stage_of P 0)" "held_slot (stage_of P' 1) = held_slot (stage_of P 1)"
    "held_slot (stage_of P' 2) = held_slot (stage_of P 2)" using same(1) by auto
  have p: "passed (frames P) (stage_of P' 0) = passed (frames P) (stage_of P 0)" "passed (frames P) (stage_of P' 1) = passed (frames P) (stage_of P 1)"
    "passed (frames P) (stage_of P' 2) = passed (frames P) (stage_of P 2)" using same(2) by auto
  show "slots_ok P'" using assms(1) by (simp only: slots_ok_def assms(3-10) h)
  show "order_ok P'" using assms(2) same(3) by (simp add: order_ok_def taken_def assms(3-10) h [simplified] p [simplified])
qed

text \<open>A stage that moves without touching a slot.\<close>

lemma quiet_move:
  assumes inv: "pipeline_inv P" and s: "s < 3" "stage_of P s = x" and x: "held_slot x = {#}" "held_slot y = {#}"
    "passed (frames P) x = passed (frames P) y \<or> failed P'" "in_range (frames P) y"
    and P': "P' = P\<lparr>stage_of := (stage_of P)(s := y), main_thread := m, ready_stages := r, start := b, failed := c\<rparr>" "failed P \<Longrightarrow> c"
    and main: "main_ok P'"
  shows "pipeline_core P'"
proof -
  have core: "pipeline_core P" using inv by (simp add: pipeline_inv_def)
  have "slots_ok P' \<and> order_ok P'" if "\<not> failed P'"
  proof -
    have F: "slots_ok P" "order_ok P" using core that P' by (auto simp: pipeline_core_def)
    have "slots_ok P'" "order_ok P'"
      by (rule flow_same [OF F]; use s x P' that F in \<open>auto simp: order_ok_def split: if_splits\<close>)+
    then show ?thesis by blast
  qed
  moreover have "in_range (frames P) (stage_of P' s')" if "s' < 3" for s' using core that x P' by (auto simp: pipeline_core_def)
  ultimately show ?thesis using core main P' by (auto simp: pipeline_core_def)
qed

lemma queue_of_same [simp]:
  "queue_of s (P\<lparr>stage_of := x\<rparr>) = queue_of s P" "queue_of s (P\<lparr>main_thread := m\<rparr>) = queue_of s P"
  "queue_of s (P\<lparr>ready_stages := r\<rparr>) = queue_of s P" "queue_of s (P\<lparr>start := b\<rparr>) = queue_of s P"
  "queue_of s (P\<lparr>failed := b\<rparr>) = queue_of s P" "queue_of s (P\<lparr>slot_frame := l\<rparr>) = queue_of s P"
  "queue_of s (P\<lparr>active := n\<rparr>) = queue_of s P" "queue_of s (P\<lparr>peak := n\<rparr>) = queue_of s P" "queue_of s (P\<lparr>completed := n\<rparr>) = queue_of s P"
  by (simp_all add: queue_of_def)

lemma pipeline_spawn_inv:
  assumes "pipeline_inv P" "main_thread P = MSpawn k" "k < 3"
  shows "pipeline_inv ((set_stage k SLoading P)\<lparr>main_thread := (if k + 1 = 3 then MLook else MSpawn (k + 1))\<rparr>)"
proof -
  let ?P = "P\<lparr>stage_of := (stage_of P)(k := SLoading), main_thread := (if k + 1 = 3 then MLook else MSpawn (k + 1)),
      ready_stages := ready_stages P, start := start P, failed := failed P\<rparr>"
  have main: "main_ok P" and sl: "sleepers_ok P" using assms(1) by (auto simp: pipeline_inv_def pipeline_core_def)
  then have k: "stage_of P k = SNone" using assms(2,3) by (auto simp: main_ok_def)
  have "main_ok ?P" using main assms(2,3) k unfolding less_3 by (auto simp: main_ok_def reported_def all_less_3)
  then have "pipeline_core ?P" by (intro quiet_move [OF assms(1,3) k _ _ _ _ refl]) simp_all
  moreover have "sleepers_ok ?P" using sl assms(2) by (auto simp: sleepers_ok_def)
  ultimately show ?thesis by (simp add: pipeline_inv_def set_stage_def)
qed

lemma load_inv:
  assumes "pipeline_inv P" "s < 3" "stage_of P s = SLoading"
  shows "pipeline_inv (awaitStart_enter s loaded P)"
proof -
  let ?P = "P\<lparr>stage_of := (stage_of P)(s := SAwait), main_thread := main_thread P, ready_stages := ready_stages P + 1,
      start := start P, failed := (failed P \<or> \<not> loaded)\<rparr>"
  have "main_ok P" using assms(1) by (auto simp: pipeline_inv_def pipeline_core_def)
  then have "main_ok ?P" using assms(2,3) unfolding less_3
    by (cases "main_thread P") (auto simp: main_ok_def reported_def all_less_3)
  then have "pipeline_core ?P" by (intro quiet_move [OF assms _ _ _ _ refl]) simp_all
  then have "pipeline_inv (notify_all ?P)" by (rule core_notify)
  moreover have "set_stage s SAwait (P\<lparr>ready_stages := ready_stages P + 1, failed := (failed P \<or> \<not> loaded)\<rparr>) = ?P"
    by (simp add: set_stage_def)
  ultimately show ?thesis by (simp add: awaitStart_enter_def)
qed

lemma pipeline_await_inv:
  assumes "pipeline_inv P" "s < 3" "stage_of P s = SAwait"
  shows "pipeline_inv (awaitStart_look s P)"
proof -
  have main: "main_ok P" and sl: "sleepers_ok P" and n: "0 < frames P" using assms(1) by (auto simp: pipeline_inv_def pipeline_core_def)
  define y where "y = (if \<not> (start P \<or> failed P) then SAwaitAsleep else if failed P then SReturned else STake 0)"
  let ?P = "P\<lparr>stage_of := (stage_of P)(s := y), main_thread := main_thread P, ready_stages := ready_stages P,
      start := start P, failed := failed P\<rparr>"
  have y: "held_slot y = {#}" "in_range (frames P) y" "passed (frames P) SAwait = passed (frames P) y \<or> failed P"
    using n by (auto simp: y_def)
  have "y \<noteq> SNone" "reported y = 1" by (auto simp: y_def reported_def)
  then have "main_ok ?P" using main assms(2,3) unfolding less_3
    by (cases "main_thread P") (auto simp: main_ok_def reported_def all_less_3)
  then have "pipeline_core ?P" by (intro quiet_move [OF assms _ _ _ _ refl]) (use y in simp_all)
  moreover have "sleepers_ok ?P" using sl by (auto simp: sleepers_ok_def y_def)
  moreover have "awaitStart_look s P = ?P" using n by (simp add: awaitStart_look_def set_stage_def y_def)
  ultimately show ?thesis by (simp add: pipeline_inv_def)
qed

lemma main_start_inv:
  assumes "pipeline_inv P" "main_thread P = MLook"
  shows "pipeline_inv (main_start P)"
proof (cases "ready_stages P = 3 \<or> failed P")
  case True
  have core: "pipeline_core (P\<lparr>start := True\<rparr>)" and "main_ok P"
    using assms by (auto simp: pipeline_inv_def pipeline_core_def slots_ok_def order_ok_def main_ok_def)
  from core_notify [OF core] have "pipeline_inv (notify_all (P\<lparr>start := True\<rparr>))" .
  then have "pipeline_inv ((notify_all (P\<lparr>start := True\<rparr>))\<lparr>main_thread := MJoin\<rparr>)"
    using assms(2) by (auto simp: notify_all_alt pipeline_inv_def pipeline_core_def slots_ok_def order_ok_def main_ok_def sleepers_ok_def)
  then show ?thesis using True by (simp add: main_start_def)
next
  case False
  then show ?thesis using assms
    by (auto simp: main_start_def pipeline_inv_def pipeline_core_def slots_ok_def order_ok_def main_ok_def sleepers_ok_def)
qed

lemma spawn_failed_inv:
  assumes "pipeline_inv P" "main_thread P = MSpawn k"
  shows "pipeline_inv ((Scheduler_cancel P)\<lparr>main_thread := MJoin\<rparr>)"
  using assms by (auto simp: Scheduler_cancel_def notify_all_alt pipeline_inv_def pipeline_core_def main_ok_def sleepers_ok_def)

lemma join_inv:
  assumes "pipeline_inv P" "main_thread P = MJoin" "\<forall>s<3. stage_of P s \<in> {SNone, SReturned}"
  shows "pipeline_inv (P\<lparr>main_thread := MDone\<rparr>)"
  using assms by (auto simp: pipeline_inv_def pipeline_core_def slots_ok_def order_ok_def main_ok_def sleepers_ok_def)

section \<open>Taking, working and passing\<close>

text \<open>A stage that leaves after a failure.\<close>

lemma leave_inv:
  assumes "pipeline_inv P" "failed P" "s < 3" "stage_of P s \<noteq> SNone" "x \<noteq> SNone" "in_range (frames P) x" "x \<noteq> SAwaitAsleep" "\<And>f. x \<noteq> SAsleep f"
  shows "pipeline_inv (set_stage s x P)"
proof -
  have "pipeline_core (set_stage s x P)"
    by (rule failed_core [of P]) (use assms in \<open>auto simp: pipeline_inv_def pipeline_core_def set_stage_def\<close>)
  moreover have "sleepers_ok (set_stage s x P)"
    using assms by (auto simp: pipeline_inv_def sleepers_ok_def set_stage_def)
  ultimately show ?thesis by (simp add: pipeline_inv_def)
qed

text \<open>The slot a stage holds is nowhere else.\<close>

lemma held_alone:
  assumes "slots_ok P" "s < 3" "k \<in># held_slot (stage_of P s)"
  shows "k \<notin> set (cpuQueue P)" "k \<notin> set (consumerQueue P)" "s' < 3 \<Longrightarrow> s' \<noteq> s \<Longrightarrow> k \<notin># held_slot (stage_of P s')"
proof -
  let ?h = "\<lambda>s. count (held_slot (stage_of P s)) k"
  have e: "mset (freeSlots P) + mset (cpuQueue P) + mset (consumerQueue P)
      + (held_slot (stage_of P 0) + held_slot (stage_of P 1) + held_slot (stage_of P 2)) = mset [0..<slots P]"
    using assms(1) by (simp add: slots_ok_def)
  have "count (mset [0..<slots P]) k \<le> 1" using distinct_count_atmost_1 [of "[0..<slots P]"] by (simp split: if_splits)
  then have sum: "count (mset (cpuQueue P)) k + count (mset (consumerQueue P)) k + (?h 0 + ?h 1 + ?h 2) \<le> 1"
    unfolding e [symmetric] by simp
  have one: "1 \<le> ?h s" using assms(3) by (simp add: Suc_le_eq)
  have "?h s \<le> ?h 0 + ?h 1 + ?h 2" using assms(2) unfolding less_3 by auto
  then have "count (mset (cpuQueue P)) k = 0" "count (mset (consumerQueue P)) k = 0" using sum one by linarith+
  then show "k \<notin> set (cpuQueue P)" "k \<notin> set (consumerQueue P)" by (simp_all add: count_eq_zero_iff)
  show "k \<notin># held_slot (stage_of P s')" if "s' < 3" "s' \<noteq> s"
  proof -
    have "?h s + ?h s' \<le> ?h 0 + ?h 1 + ?h 2" using assms(2) that unfolding less_3 by auto
    then have "?h s' = 0" using sum one by linarith
    then show ?thesis by (simp add: count_eq_zero_iff)
  qed
qed

text \<open>The work of a stage keeps the slot; the producer labels a slot that nobody else can see.\<close>

lemma work_flow:
  assumes F: "slots_ok P" "order_ok P" and s: "s < 3" "stage_of P s = SRun f k"
  shows "slots_ok (stage_work s f k ok P)" "order_ok (stage_work s f k ok P)"
proof -
  let ?P = "stage_work s f k ok P"
  have h: "held_slot (stage_of ?P s') = held_slot (stage_of P s')" "passed n (stage_of ?P s') = passed n (stage_of P s')" for s' n
    using s by (auto simp: stage_work_def set_stage_def)
  show "slots_ok ?P" using F(1) unfolding slots_ok_def h by (simp add: stage_work_def set_stage_def)
  show "order_ok ?P"
  proof (cases "s = 0")
    case True
    have k: "k \<in># held_slot (stage_of P 0)" using s True by simp
    have A: "k \<notin> set (cpuQueue P)" "k \<notin> set (consumerQueue P)" "k \<notin># held_slot (stage_of P 1)" "k \<notin># held_slot (stage_of P 2)"
      using held_alone [OF F(1) _ k] by auto
    have other: "slot_frame ?P j = slot_frame P j" if "j \<noteq> k" for j using that True by (simp add: stage_work_def set_stage_def)
    have "map (slot_frame ?P) (cpuQueue P) = map (slot_frame P) (cpuQueue P)" "map (slot_frame ?P) (consumerQueue P) = map (slot_frame P) (consumerQueue P)"
      by (rule map_cong [OF refl], metis other A(1,2))+
    moreover have "slot_frame ?P j = slot_frame P j" if "s' \<in> {1, 2}" "j \<in># held_slot (stage_of P s')" for s' j
      using that other A(3,4) by (metis empty_iff insert_iff)
    moreover have "frames ?P = frames P" "cpuQueue ?P = cpuQueue P" "consumerQueue ?P = consumerQueue P" "completed ?P = completed P"
      by (simp_all add: stage_work_def set_stage_def)
    moreover have "slot_frame ?P j = of_nat (Suc g)" if "stage_of ?P 0 = SPass g j" for g j
      using that True by (auto simp: stage_work_def set_stage_def split: if_splits)
    ultimately show ?thesis using F(2) unfolding order_ok_def taken_def h by simp
  next
    case False
    then have "stage_of ?P 0 = stage_of P 0" "slot_frame ?P = slot_frame P" by (simp_all add: stage_work_def set_stage_def)
    then show ?thesis using F(2) unfolding order_ok_def taken_def h by (simp add: stage_work_def set_stage_def)
  qed
qed

lemma labels_Cons: "x # xs = labels a b \<longleftrightarrow> a < b \<and> x = of_nat (Suc a) \<and> xs = labels (Suc a) b"
  by (auto simp: labels_def upt_rec [of a])

lemma labels_snoc: "a \<le> b \<Longrightarrow> labels a (Suc b) = labels a b @ [of_nat (Suc b)]"
  by (simp add: labels_def)

lemma take_flow:
  assumes F: "slots_ok P" "order_ok P" and s: "s < 3" "stage_of P s = STake f" "queue_of s P = k # rest" "\<not> failed P"
  shows "slots_ok (Scheduler_take s f P)" "order_ok (Scheduler_take s f P)"
proof -
  let ?P = "Scheduler_take s f P"
  consider "s = 0" | "s = 1" | "s = 2" using s(1) by (auto simp: less_3)
  then have "slots_ok ?P \<and> order_ok ?P"
  proof cases
    case 1
    then have q: "freeSlots P = k # rest" and x: "stage_of P 0 = STake f" using s by (auto simp: queue_of_def)
    have eq: "?P = P\<lparr>freeSlots := rest, stage_of := (stage_of P)(0 := SRun f k), active := active P + 1, peak := max (peak P) (active P + 1)\<rparr>"
      using 1 s by (simp add: Scheduler_take_def set_stage_def set_queue_def)
    have "slots_ok ?P" using F(1) q x unfolding eq slots_ok_def by simp
    moreover have "order_ok ?P" using F(2) x unfolding eq order_ok_def taken_def by simp
    ultimately show ?thesis by blast
  next
    case 2
    then have q: "cpuQueue P = k # rest" and x: "stage_of P 1 = STake f" using s by (auto simp: queue_of_def)
    have eq: "?P = P\<lparr>cpuQueue := rest, stage_of := (stage_of P)(1 := SRun f k)\<rparr>"
      using 2 s by (simp add: Scheduler_take_def set_stage_def set_queue_def)
    have "slot_frame P k # map (slot_frame P) rest = labels f (passed (frames P) (stage_of P 0))"
      using F(2) q x by (simp add: order_ok_def taken_def)
    then have l: "f < passed (frames P) (stage_of P 0)" "slot_frame P k = of_nat (Suc f)"
      "map (slot_frame P) rest = labels (Suc f) (passed (frames P) (stage_of P 0))" by (auto simp: labels_Cons)
    have "slots_ok ?P" using F(1) q x unfolding eq slots_ok_def by simp
    moreover have "order_ok ?P" using F(2) x l unfolding eq order_ok_def taken_def by simp
    ultimately show ?thesis by blast
  next
    case 3
    then have q: "consumerQueue P = k # rest" and x: "stage_of P 2 = STake f" using s by (auto simp: queue_of_def)
    have eq: "?P = P\<lparr>consumerQueue := rest, stage_of := (stage_of P)(2 := SRun f k)\<rparr>"
      using 3 s by (simp add: Scheduler_take_def set_stage_def set_queue_def)
    have "slot_frame P k # map (slot_frame P) rest = labels f (passed (frames P) (stage_of P 1))"
      using F(2) q x by (simp add: order_ok_def taken_def)
    then have l: "f < passed (frames P) (stage_of P 1)" "slot_frame P k = of_nat (Suc f)"
      "map (slot_frame P) rest = labels (Suc f) (passed (frames P) (stage_of P 1))" by (auto simp: labels_Cons)
    have "slots_ok ?P" using F(1) q x unfolding eq slots_ok_def by simp
    moreover have "order_ok ?P" using F(2) x l unfolding eq order_ok_def taken_def by simp
    ultimately show ?thesis by blast
  qed
  then show "slots_ok ?P" "order_ok ?P" by auto
qed

text \<open>\<open>pass\<close>, before the notification.\<close>

definition pass_core :: "nat \<Rightarrow> nat \<Rightarrow> nat \<Rightarrow> Pipeline \<Rightarrow> Pipeline" where
  "pass_core s f slot P =
     (let target = (if s = 2 then 0 else s + 1);
          P1 = set_queue target (queue_of target P @ [slot]) P;
          P2 = (if s = 2 then P1\<lparr>active := active P1 - 1, completed := completed P1 + 1\<rparr> else P1)
      in set_stage s (if f + 1 < frames P then STake (f + 1) else SReturned) P2)"

lemma pass_alt: "Scheduler_pass s f slot P = notify_all (pass_core s f slot P)"
  by (simp add: Scheduler_pass_def pass_core_def Let_def)

lemma pass_flow:
  assumes F: "slots_ok P" "order_ok P" and s: "s < 3" "stage_of P s = SPass f k" "f < frames P"
  shows "slots_ok (pass_core s f k P)" "order_ok (pass_core s f k P)"
proof -
  let ?P = "pass_core s f k P" and ?x = "if f + 1 < frames P then STake (f + 1) else SReturned"
  have x: "held_slot ?x = {#}" "passed (frames P) ?x = Suc f" "\<And>g j. ?x \<noteq> SPass g j" using s(3) by auto
  consider "s = 0" | "s = 1" | "s = 2" using s(1) by (auto simp: less_3)
  then have "slots_ok ?P \<and> order_ok ?P"
  proof cases
    case 1
    then have y: "stage_of P 0 = SPass f k" using s by simp
    have eq: "?P = P\<lparr>cpuQueue := cpuQueue P @ [k], stage_of := (stage_of P)(0 := ?x)\<rparr>"
      using 1 by (simp add: pass_core_def set_stage_def set_queue_def queue_of_def)
    have "slots_ok ?P" using F(1) y x unfolding eq slots_ok_def by simp
    moreover have "order_ok ?P" using F(2) y x unfolding eq order_ok_def taken_def by (simp add: labels_snoc)
    ultimately show ?thesis by blast
  next
    case 2
    then have y: "stage_of P 1 = SPass f k" using s by simp
    have eq: "?P = P\<lparr>consumerQueue := consumerQueue P @ [k], stage_of := (stage_of P)(1 := ?x)\<rparr>"
      using 2 by (simp add: pass_core_def set_stage_def set_queue_def queue_of_def)
    have "slots_ok ?P" using F(1) y x unfolding eq slots_ok_def by simp
    moreover have "order_ok ?P" using F(2) y x unfolding eq order_ok_def taken_def by (simp add: labels_snoc)
    ultimately show ?thesis by blast
  next
    case 3
    then have y: "stage_of P 2 = SPass f k" using s by simp
    have eq: "?P = P\<lparr>freeSlots := freeSlots P @ [k], active := active P - 1, completed := completed P + 1, stage_of := (stage_of P)(2 := ?x)\<rparr>"
      using 3 by (simp add: pass_core_def set_stage_def set_queue_def queue_of_def)
    have "slots_ok ?P" using F(1) y x unfolding eq slots_ok_def by simp
    moreover have "order_ok ?P" using F(2) y x unfolding eq order_ok_def taken_def by simp
    ultimately show ?thesis by blast
  qed
  then show "slots_ok ?P" "order_ok ?P" by auto
qed

lemma main_ok_stage:
  assumes "main_ok P" "s < 3" "stage_of P s \<notin> {SNone, SLoading, SReturned}" "x \<notin> {SNone, SLoading}"
    "stage_of P' = (stage_of P)(s := x)" "main_thread P' = main_thread P" "ready_stages P' = ready_stages P" "start P' = start P" "failed P' = failed P"
  shows "main_ok P'"
  using assms unfolding less_3 by (cases "main_thread P") (auto simp: main_ok_def reported_def all_less_3)

lemma active_bound:
  assumes "slots_ok P" "slots P < 2 ^ 64" "freeSlots P = k # rest"
  shows "unat (active P + 1) \<le> slots P"
proof -
  let ?n = "length (cpuQueue P) + length (consumerQueue P)
      + (size (held_slot (stage_of P 0)) + size (held_slot (stage_of P 1)) + size (held_slot (stage_of P 2)))"
  have "size (mset (freeSlots P) + mset (cpuQueue P) + mset (consumerQueue P)
      + (held_slot (stage_of P 0) + held_slot (stage_of P 1) + held_slot (stage_of P 2))) = size (mset [0..<slots P])"
    using assms(1) by (simp only: slots_ok_def)
  then have n: "Suc ?n \<le> slots P" using assms(3) by simp
  have "active P + 1 = of_nat (Suc ?n)" using assms(1) by (simp add: slots_ok_def)
  then have "unat (active P + 1) = Suc ?n mod 2 ^ 64" by (simp only: unat_of_nat) simp
  also have "\<dots> \<le> slots P" using n by (meson le_trans mod_less_eq_dividend)
  finally show ?thesis .
qed

lemma take_inv:
  assumes inv: "pipeline_inv P" and s: "s < 3" "stage_of P s = STake f"
  shows "pipeline_inv (Scheduler_take s f P)"
proof -
  have C: "pipeline_core P" "sleepers_ok P" using inv by (auto simp: pipeline_inv_def)
  have f: "f < frames P" using C(1) s by (force simp: pipeline_core_def)
  show ?thesis
  proof (cases "failed P")
    case True
    then show ?thesis using leave_inv [OF inv True s(1)] s by (simp add: Scheduler_take_def)
  next
    case ok: False
    then have F: "slots_ok P" "order_ok P" using C(1) by (auto simp: pipeline_core_def)
    show ?thesis
    proof (cases "queue_of s P")
      case Nil
      let ?P = "P\<lparr>stage_of := (stage_of P)(s := SAsleep f), main_thread := main_thread P, ready_stages := ready_stages P, start := start P, failed := failed P\<rparr>"
      have "main_ok ?P" by (rule main_ok_stage [of P s]) (use C(1) s in \<open>auto simp: pipeline_core_def\<close>)
      then have "pipeline_core ?P" by (intro quiet_move [OF inv s _ _ _ _ refl]) (use f in simp_all)
      moreover have "sleepers_ok ?P" using C(2) Nil ok by (auto simp: sleepers_ok_def)
      moreover have "?P = set_stage s (SAsleep f) P" by (simp add: set_stage_def)
      ultimately have "pipeline_inv (set_stage s (SAsleep f) P)" by (simp add: pipeline_inv_def)
      then show ?thesis using Nil ok by (simp add: Scheduler_take_def)
    next
      case (Cons k rest)
      let ?P = "Scheduler_take s f P"
      have P: "stage_of ?P = (stage_of P)(s := SRun f k)" "main_thread ?P = main_thread P" "ready_stages ?P = ready_stages P"
        "start ?P = start P" "failed ?P = failed P" "frames ?P = frames P" "slots ?P = slots P"
        "\<And>s'. s' \<noteq> s \<Longrightarrow> s' < 3 \<Longrightarrow> queue_of s' ?P = queue_of s' P"
        "peak ?P = (if s = 0 then max (peak P) (active P + 1) else peak P)"
        using Cons ok s(1) by (auto simp: Scheduler_take_def set_stage_def set_queue_def queue_of_def less_3 Let_def)
      have "main_ok ?P" by (rule main_ok_stage [of P s]) (use C(1) s P in \<open>auto simp: pipeline_core_def\<close>)
      moreover have "unat (peak ?P) \<le> slots P"
        using C(1) P(9) active_bound [OF F(1)] Cons by (auto simp: pipeline_core_def max_def queue_of_def)
      moreover have "slots_ok ?P" "order_ok ?P" using take_flow [OF F s Cons ok] .
      ultimately have "pipeline_core ?P" using C(1) P f by (auto simp: pipeline_core_def)
      moreover have "sleepers_ok ?P" using C(2) P by (auto simp: sleepers_ok_def)
      ultimately show ?thesis by (simp add: pipeline_inv_def)
    qed
  qed
qed

lemma work_inv:
  assumes inv: "pipeline_inv P" and s: "s < 3" "stage_of P s = SRun f k"
  shows "pipeline_inv (stage_work s f k ok P)"
proof -
  let ?P = "stage_work s f k ok P" and ?x = "if ok then SPass f k else SFail f k"
  have C: "pipeline_core P" "sleepers_ok P" using inv by (auto simp: pipeline_inv_def)
  have f: "f < frames P" using C(1) s by (force simp: pipeline_core_def)
  have P: "stage_of ?P = (stage_of P)(s := ?x)" "main_thread ?P = main_thread P" "ready_stages ?P = ready_stages P"
    "start ?P = start P" "failed ?P = failed P" "frames ?P = frames P" "slots ?P = slots P" "\<And>s'. queue_of s' ?P = queue_of s' P" "peak ?P = peak P"
    by (simp_all add: stage_work_def set_stage_def)
  have "main_ok ?P" by (rule main_ok_stage [of P s]) (use C(1) s P in \<open>auto simp: pipeline_core_def\<close>)
  moreover have "slots_ok ?P" "order_ok ?P" if "\<not> failed P"
    using work_flow [OF _ _ s] C(1) that by (auto simp: pipeline_core_def)
  ultimately have "pipeline_core ?P" using C(1) P f by (auto simp: pipeline_core_def)
  moreover have "sleepers_ok ?P" using C(2) P by (auto simp: sleepers_ok_def)
  ultimately show ?thesis by (simp add: pipeline_inv_def)
qed

lemma pass_inv:
  assumes inv: "pipeline_inv P" and s: "s < 3" "stage_of P s = SPass f k"
  shows "pipeline_inv (Scheduler_pass s f k P)"
proof -
  let ?P = "pass_core s f k P" and ?x = "if f + 1 < frames P then STake (f + 1) else SReturned"
  have C: "pipeline_core P" using inv by (simp add: pipeline_inv_def)
  have f: "f < frames P" using C s by (force simp: pipeline_core_def)
  have P: "stage_of ?P = (stage_of P)(s := ?x)" "main_thread ?P = main_thread P" "ready_stages ?P = ready_stages P"
    "start ?P = start P" "failed ?P = failed P" "frames ?P = frames P" "slots ?P = slots P" "peak ?P = peak P"
    by (simp_all add: pass_core_def set_stage_def set_queue_def Let_def)
  have "main_ok ?P" by (rule main_ok_stage [of P s]) (use C s P in \<open>auto simp: pipeline_core_def\<close>)
  moreover have "slots_ok ?P" "order_ok ?P" if "\<not> failed P"
    using pass_flow [OF _ _ s f] C that by (auto simp: pipeline_core_def)
  ultimately have "pipeline_core ?P" using C P f by (auto simp: pipeline_core_def)
  then show ?thesis unfolding pass_alt by (rule core_notify)
qed

lemma pass_failed_inv:
  assumes inv: "pipeline_inv P" and s: "s < 3" "stage_of P s = SPass f k"
  shows "pipeline_inv (set_stage s (SFail f k) P)"
proof -
  let ?P = "set_stage s (SFail f k) P"
  have C: "pipeline_core P" "sleepers_ok P" using inv by (auto simp: pipeline_inv_def)
  have P: "stage_of ?P = (stage_of P)(s := SFail f k)" by (simp add: set_stage_def)
  have "main_ok ?P" by (rule main_ok_stage [of P s]) (use C(1) s in \<open>auto simp: pipeline_core_def set_stage_def\<close>)
  moreover have "slots_ok ?P \<and> order_ok ?P" if "\<not> failed P"
  proof -
    have F: "slots_ok P" "order_ok P" using C(1) that by (auto simp: pipeline_core_def)
    have "slots_ok ?P" "order_ok ?P"
      by (rule flow_same [OF F]; use s F in \<open>auto simp: set_stage_def order_ok_def split: if_splits\<close>)+
    then show ?thesis by blast
  qed
  ultimately have "pipeline_core ?P" using C(1) s by (auto simp: pipeline_core_def set_stage_def)
  moreover have "sleepers_ok ?P" using C(2) by (auto simp: sleepers_ok_def set_stage_def)
  ultimately show ?thesis by (simp add: pipeline_inv_def)
qed

lemma pipeline_step_inv: "pipeline_step P P' \<Longrightarrow> pipeline_inv P \<Longrightarrow> pipeline_inv P'"
proof (induction rule: pipeline_step.induct)
  case (spawn P k)
  from pipeline_spawn_inv [OF spawn(3,1,2)] show ?case .
qed (simp_all add: spawn_failed_inv main_start_inv join_inv load_inv pipeline_cancel_inv pipeline_await_inv take_inv work_inv pass_inv pass_failed_inv)

lemma new_pipeline_inv:
  assumes "config_ok c"
  shows "pipeline_inv (new_pipeline c)"
proof -
  have pos: "0 < unat (cfg_frames c)" "0 < slot_count c"
    using assms by (auto simp: config_ok_def slot_count_def min_def unat_gt_0)
  have "slot_count c < 2 ^ 64" unfolding slot_count_def by (rule unat_size_t_less)
  with pos show ?thesis
    by (simp add: pipeline_inv_def pipeline_core_def slots_ok_def order_ok_def main_ok_def sleepers_ok_def new_pipeline_def
        labels_def taken_def reported_def)
qed

interpretation pipeline: state_machine "\<lambda>P. \<exists>c. config_ok c \<and> P = new_pipeline c" pipeline_moves pipeline_inv
proof unfold_locales
  show "pipeline_inv P" if "\<exists>c. config_ok c \<and> P = new_pipeline c" for P using that new_pipeline_inv by blast
  show "pipeline_inv P'" if "pipeline_inv P" "pipeline_moves P P'" for P P'
    using that pipeline_step_inv core_notify by (auto simp: pipeline_moves_def pipeline_inv_def)
qed

end
