(* ===== verification/Result_Properties.thy ===== *)
theory Result_Properties
  imports Result_Flow
begin

text \<open>
  What the result pipeline guarantees: bounded, unshared slots, frames in order, an honest answer, and
  an end of every run.
\<close>

lemma reached_pipeline: "config_ok c \<Longrightarrow> steps pipeline_moves (new_pipeline c) P \<Longrightarrow> pipeline_inv P"
  using pipeline.reached_invar by blast

lemma sizes_fixed:
  assumes "steps pipeline_moves P Q"
  shows "slots Q = slots P \<and> frames Q = frames P"
  using assms
proof (induction rule: steps.induct)
  case (more s t u)
  have "slots u = slots t \<and> frames u = frames t" if "pipeline_step t u"
    using that by (cases rule: pipeline_step.cases)
      (auto simp: set_stage_def Scheduler_cancel_def main_start_def awaitStart_enter_def awaitStart_look_def Scheduler_take_def
        stage_work_def Scheduler_pass_def set_queue_def notify_all_alt Let_def split: list.splits)
  then show ?case using more by (auto simp: pipeline_moves_def notify_all_alt)
qed simp

text \<open>
  C24.  The pipeline never has more frames in flight than slots, the smaller of the configured bound
  and the number of frames.  As long as nothing failed, a slot a stage works on is in range and
  with no other stage, and the CPU chain and the consumer get the frames one by one in the order in
  which the producer numbered them.
\<close>

theorem pipeline_keeps_order:
  assumes "config_ok c" "steps pipeline_moves (new_pipeline c) P"
  shows "unat (peak P) \<le> min (unat (cfg_inFlight c)) (unat (cfg_frames c))
    \<and> (\<not> failed P \<longrightarrow> (\<forall>s<3. \<forall>k\<in>#held_slot (stage_of P s). k < slots P \<and> (\<forall>s'<3. s' \<noteq> s \<longrightarrow> k \<notin># held_slot (stage_of P s'))
        \<and> (s \<noteq> 0 \<longrightarrow> slot_frame P k = of_nat (Suc (passed (frames P) (stage_of P s))))))"
proof -
  have core: "pipeline_core P" using reached_pipeline [OF assms] by (simp add: pipeline_inv_def)
  have "slots P = slot_count c" using sizes_fixed [OF assms(2)] by (simp add: new_pipeline_def)
  then have "unat (peak P) \<le> min (unat (cfg_inFlight c)) (unat (cfg_frames c))"
    using core by (auto simp: pipeline_core_def slot_count_def min_def word_le_nat_alt split: if_splits)
  moreover have "k < slots P \<and> (\<forall>s'<3. s' \<noteq> s \<longrightarrow> k \<notin># held_slot (stage_of P s'))
      \<and> (s \<noteq> 0 \<longrightarrow> slot_frame P k = of_nat (Suc (passed (frames P) (stage_of P s))))"
    if "\<not> failed P" "s < 3" "k \<in># held_slot (stage_of P s)" for s k
  proof -
    have F: "slots_ok P" "order_ok P" using core that(1) by (auto simp: pipeline_core_def)
    have "k \<in># held_slot (stage_of P 0) + held_slot (stage_of P 1) + held_slot (stage_of P 2)" using that(2,3) by (auto simp: less_3)
    then have "k \<in># mset [0..<slots P]" using F(1) unfolding slots_ok_def by (metis union_iff)
    moreover have "slot_frame P k = of_nat (Suc (passed (frames P) (stage_of P s)))" if "s \<noteq> 0"
    proof -
      have "s \<in> {1, 2}" using \<open>s < 3\<close> that by (auto simp: less_3)
      then show ?thesis using F(2) \<open>k \<in># held_slot (stage_of P s)\<close> unfolding order_ok_def by blast
    qed
    ultimately show ?thesis using held_alone(3) [OF F(1) that(2,3)] by auto
  qed
  ultimately show ?thesis by blast
qed

text \<open>
  C25.  The answer of the pipeline is honest.  After the join, if nothing failed then every frame was
  counted as completed, all slots are free again, the queues are empty and nothing is in flight; so
  \<open>runPipeline\<close> reports success exactly when no stage failed and everything was released.
\<close>

theorem pipeline_result_is_honest:
  assumes "config_ok c" "steps pipeline_moves (new_pipeline c) P" "main_thread P = MDone"
  shows "(pipeline_result rel P \<longleftrightarrow> \<not> failed P \<and> rel)
    \<and> (\<not> failed P \<longrightarrow> completed P = cfg_frames c \<and> mset (freeSlots P) = mset [0..<slots P] \<and> cpuQueue P = [] \<and> consumerQueue P = []
        \<and> active P = 0)"
proof -
  have core: "pipeline_core P" using reached_pipeline [OF assms(1,2)] by (simp add: pipeline_inv_def)
  have n: "frames P = unat (cfg_frames c)" using sizes_fixed [OF assms(2)] by (simp add: new_pipeline_def)
  have "completed P = of_nat (frames P) \<and> mset (freeSlots P) = mset [0..<slots P] \<and> cpuQueue P = [] \<and> consumerQueue P = [] \<and> active P = 0"
    if "\<not> failed P"
  proof -
    have "main_ok P" "slots_ok P" "order_ok P" using core that by (auto simp: pipeline_core_def)
    moreover from this have st: "stage_of P 0 = SReturned" "stage_of P 1 = SReturned" "stage_of P 2 = SReturned"
      using assms(3) that by (auto simp: main_ok_def)
    ultimately show ?thesis unfolding slots_ok_def order_ok_def by (simp add: labels_def taken_def)
  qed
  then show ?thesis using n by (auto simp: pipeline_result_def)
qed

section \<open>Every run ends\<close>

definition stage_weight :: "nat \<Rightarrow> stage \<Rightarrow> nat" where
  "stage_weight n x = (case x of SNone \<Rightarrow> 5 * n + 6 | SLoading \<Rightarrow> 5 * n + 5 | SAwait \<Rightarrow> 5 * n + 4 | SAwaitAsleep \<Rightarrow> 5 * n + 4
     | STake f \<Rightarrow> 5 * (n - f) + 3 | SAsleep f \<Rightarrow> 5 * (n - f) + 3 | SRun f k \<Rightarrow> 5 * (n - f) + 2 | SPass f k \<Rightarrow> 5 * (n - f) + 1
     | SFail f k \<Rightarrow> 5 * (n - f) | SReturned \<Rightarrow> 0)"

definition main_weight :: "main_at \<Rightarrow> nat" where
  "main_weight m = (case m of MSpawn k \<Rightarrow> 8 - k | MLook \<Rightarrow> 3 | MAsleep \<Rightarrow> 3 | MJoin \<Rightarrow> 2 | MDone \<Rightarrow> 0)"

definition pipeline_work :: "Pipeline \<Rightarrow> nat" where
  "pipeline_work P = stage_weight (frames P) (stage_of P 0) + stage_weight (frames P) (stage_of P 1)
     + stage_weight (frames P) (stage_of P 2) + main_weight (main_thread P)"

definition looking :: "stage \<Rightarrow> nat" where
  "looking x = (case x of SAwait \<Rightarrow> 1 | STake f \<Rightarrow> 1 | _ \<Rightarrow> 0)"

definition pipeline_awake :: "Pipeline \<Rightarrow> nat" where
  "pipeline_awake P = looking (stage_of P 0) + looking (stage_of P 1) + looking (stage_of P 2) + (if main_thread P = MLook then 1 else 0)"

lemma stage_weight_simps [simp]:
  "stage_weight n SNone = 5 * n + 6" "stage_weight n SLoading = 5 * n + 5" "stage_weight n SAwait = 5 * n + 4" "stage_weight n SAwaitAsleep = 5 * n + 4"
  "stage_weight n (STake f) = 5 * (n - f) + 3" "stage_weight n (SAsleep f) = 5 * (n - f) + 3" "stage_weight n (SRun f k) = 5 * (n - f) + 2"
  "stage_weight n (SPass f k) = 5 * (n - f) + 1" "stage_weight n (SFail f k) = 5 * (n - f)" "stage_weight n SReturned = 0"
  "stage_weight n (wake x) = stage_weight n x"
  by (simp_all add: stage_weight_def wake_def split: stage.splits)

lemma main_weight_simps [simp]:
  "main_weight (MSpawn k) = 8 - k" "main_weight MLook = 3" "main_weight MAsleep = 3" "main_weight MJoin = 2" "main_weight MDone = 0"
  by (simp_all add: main_weight_def)

lemma work_notify [simp]: "pipeline_work (notify_all P) = pipeline_work P"
  by (simp add: pipeline_work_def notify_all_alt)

text \<open>Moving one stage moves the total by the difference of the weights.\<close>

lemma work_stage:
  assumes "s < 3" "stage_of P' = (stage_of P)(s := x)" "main_thread P' = main_thread P" "frames P' = frames P"
  shows "pipeline_work P' + stage_weight (frames P) (stage_of P s) = pipeline_work P + stage_weight (frames P) x"
  using assms by (auto simp: pipeline_work_def less_3)

lemma awake_stage:
  assumes "s < 3" "stage_of P' = (stage_of P)(s := x)" "main_thread P' = main_thread P"
  shows "pipeline_awake P' + looking (stage_of P s) = pipeline_awake P + looking x"
  using assms by (auto simp: pipeline_awake_def less_3)

lemma cancel_alt: "set_stage s SReturned (Scheduler_cancel P) = notify_all (set_stage s SReturned (P\<lparr>failed := True\<rparr>))"
proof -
  have "wake \<circ> (stage_of P)(s := SReturned) = (wake \<circ> stage_of P)(s := SReturned)" by (auto simp: wake_def)
  then show ?thesis by (simp add: set_stage_def Scheduler_cancel_def notify_all_alt)
qed

lemma labels_length [simp]: "length (labels a b) = b - a"
  by (simp add: labels_def)

lemma pipeline_step_decreases:
  assumes "pipeline_step P P'" "pipeline_inv P"
  shows "pipeline_work P' < pipeline_work P \<or> pipeline_work P' = pipeline_work P \<and> pipeline_awake P' < pipeline_awake P"
proof -
  have range: "in_range (frames P) (stage_of P s)" if "s < 3" for s using assms(2) that by (auto simp: pipeline_inv_def pipeline_core_def)
  have n: "0 < frames P" using assms(2) by (simp add: pipeline_inv_def pipeline_core_def)
  show ?thesis using assms(1)
  proof (cases rule: pipeline_step.cases)
    case (spawn k)
    have "main_ok P" using assms(2) by (simp add: pipeline_inv_def pipeline_core_def)
    then have "stage_of P k = SNone" using spawn by (auto simp: main_ok_def)
    then have "pipeline_work P' < pipeline_work P"
      using spawn work_stage [of k "set_stage k SLoading P" P SLoading] by (auto simp: set_stage_def pipeline_work_def)
    then show ?thesis ..
  next
    case (spawn_failed k)
    then have "k < 3" using assms(2) by (auto simp: pipeline_inv_def pipeline_core_def main_ok_def)
    then have "pipeline_work P' < pipeline_work P" using spawn_failed by (auto simp: less_3 Scheduler_cancel_def pipeline_work_def notify_all_alt)
    then show ?thesis ..
  next
    case start_all
    then show ?thesis by (simp add: main_start_def pipeline_work_def pipeline_awake_def notify_all_alt)
  next
    case join
    then show ?thesis by (simp add: pipeline_work_def)
  next
    case (load s loaded)
    let ?Q = "set_stage s SAwait (P\<lparr>ready_stages := ready_stages P + 1, failed := (failed P \<or> \<not> loaded)\<rparr>)"
    have "pipeline_work ?Q < pipeline_work P" using work_stage [OF load(2), of ?Q P SAwait] load by (simp add: set_stage_def)
    then show ?thesis using load by (simp add: awaitStart_enter_def)
  next
    case (load_failed s)
    let ?Q = "set_stage s SReturned (P\<lparr>failed := True\<rparr>)"
    have "pipeline_work ?Q < pipeline_work P" using work_stage [OF load_failed(2), of ?Q P SReturned] load_failed by (simp add: set_stage_def)
    then show ?thesis using load_failed(1) by (simp add: cancel_alt)
  next
    case (await s)
    define x where "x = stage_of P' s"
    have "stage_of P' = (stage_of P)(s := x)" "main_thread P' = main_thread P" "frames P' = frames P"
      "x = SAwaitAsleep \<or> x = STake 0 \<or> x = SReturned"
      using await(1) n by (auto simp: x_def awaitStart_look_def set_stage_def)
    then show ?thesis using work_stage [OF await(2), of P' P x] awake_stage [OF await(2), of P' P x] await(3) by (auto simp: looking_def)
  next
    case (take s f)
    define x where "x = stage_of P' s"
    have "stage_of P' = (stage_of P)(s := x)" "main_thread P' = main_thread P" "frames P' = frames P"
      "x = SAsleep f \<or> (\<exists>k. x = SRun f k) \<or> x = SReturned"
      using take(1) by (auto simp: x_def Scheduler_take_def set_stage_def set_queue_def Let_def split: list.splits)
    then show ?thesis using work_stage [OF take(2), of P' P x] awake_stage [OF take(2), of P' P x] take(3) by (auto simp: looking_def)
  next
    case (work s f k ok)
    then show ?thesis using work_stage [OF work(2), of P' P "if ok then SPass f k else SFail f k"]
      by (auto simp: stage_work_def set_stage_def)
  next
    case (pass s f k)
    let ?Q = "pass_core s f k P"
    have "pipeline_work ?Q < pipeline_work P"
      using work_stage [OF pass(2), of ?Q P "if f + 1 < frames P then STake (f + 1) else SReturned"] range [OF pass(2)] pass(3)
      by (auto simp: pass_core_def set_stage_def set_queue_def Let_def split: if_splits)
    then show ?thesis using pass(1) by (simp add: pass_alt)
  next
    case (pass_failed s f k)
    then show ?thesis using work_stage [OF pass_failed(2), of P' P "SFail f k"] by (auto simp: set_stage_def)
  next
    case (cancel s f k)
    let ?Q = "set_stage s SReturned (P\<lparr>failed := True\<rparr>)"
    have "pipeline_work ?Q < pipeline_work P"
      using work_stage [OF cancel(2), of ?Q P SReturned] range [OF cancel(2)] cancel(3) by (simp add: set_stage_def)
    then show ?thesis using cancel(1) by (simp add: cancel_alt)
  qed
qed

text \<open>Without a failure, the producer can only sleep when a slot is at another stage.\<close>

lemma pipeline_can_move:
  assumes inv: "pipeline_inv P" and main: "main_thread P \<noteq> MDone"
  shows "\<exists>P'. pipeline_step P P'"
proof (rule ccontr)
  assume stuck: "\<not> ?thesis"
  have C: "pipeline_core P" "main_ok P" "sleepers_ok P" using inv by (auto simp: pipeline_inv_def pipeline_core_def)
  have no: "\<not> pipeline_step P Q" for Q using stuck by blast
  have st: "stage_of P s \<in> {SNone, SAwaitAsleep, SReturned} \<or> (\<exists>f. stage_of P s = SAsleep f)" if "s < 3" for s
  proof -
    have "stage_of P s \<noteq> SLoading" "stage_of P s \<noteq> SAwait" using no pipeline_step.load [OF that] pipeline_step.await [OF that] by blast+
    moreover have "stage_of P s \<noteq> STake f" "stage_of P s \<noteq> SRun f k" "stage_of P s \<noteq> SPass f k" "stage_of P s \<noteq> SFail f k" for f k
      using no pipeline_step.take [OF that] pipeline_step.work [OF that] pipeline_step.pass [OF that] pipeline_step.cancel [OF that] by blast+
    ultimately show ?thesis by (cases "stage_of P s") auto
  qed
  have "main_thread P \<noteq> MLook" "main_thread P \<noteq> MSpawn k" for k using no pipeline_step.start_all pipeline_step.spawn_failed by blast+
  then have m: "main_thread P = MAsleep \<or> main_thread P = MJoin" using main by (cases "main_thread P") auto
  show False
  proof (cases "main_thread P = MAsleep")
    case True
    then have "\<not> failed P" "ready_stages P \<noteq> 3" "\<forall>s<3. stage_of P s \<noteq> SNone" using C by (auto simp: sleepers_ok_def main_ok_def)
    moreover from this have "reported (stage_of P s) = 1" if "s < 3" for s using st [OF that] that by (auto simp: reported_def)
    ultimately show False using C(2) by (simp add: main_ok_def)
  next
    case False
    with m have join: "main_thread P = MJoin" by simp
    then obtain s where s: "s < 3" "stage_of P s \<notin> {SNone, SReturned}" using stuck pipeline_step.join by blast
    then have ok: "\<not> failed P" using C(3) st [OF s(1)] by (auto simp: sleepers_ok_def)
    then have "start P" "\<forall>s<3. stage_of P s \<noteq> SNone" using C(2) join by (auto simp: main_ok_def)
    then have ends: "stage_of P s = SReturned \<or> (\<exists>f. stage_of P s = SAsleep f \<and> f < frames P \<and> queue_of s P = [])" if "s < 3" for s
      using st [OF that] C(1,3) that by (force simp: sleepers_ok_def pipeline_core_def)
    have F: "slots_ok P" "order_ok P" "0 < slots P" using C(1) ok by (auto simp: pipeline_core_def)
    have held: "held_slot (stage_of P s) = {#}" if "s < 3" for s using ends [OF that] by auto
    have le: "passed (frames P) (stage_of P 2) \<le> passed (frames P) (stage_of P 1)"
      "passed (frames P) (stage_of P 1) \<le> passed (frames P) (stage_of P 0)"
      using F(2) held by (auto simp: order_ok_def taken_def)
    have lens: "length (cpuQueue P) = passed (frames P) (stage_of P 0) - passed (frames P) (stage_of P 1)"
      "length (consumerQueue P) = passed (frames P) (stage_of P 1) - passed (frames P) (stage_of P 2)"
      using F(2) held unfolding order_ok_def taken_def
      by (metis One_nat_def add_0_right labels_length length_map less_3 size_empty)+
    let ?p = "\<lambda>s. passed (frames P) (stage_of P s)"
    have full: "stage_of P s = SReturned" if "s < 3" "frames P \<le> ?p s" for s using ends [OF that(1)] that(2) by auto
    have empty: "queue_of s P = []" if "s < 3" "?p s < frames P" for s using ends [OF that(1)] that(2) by auto
    show False
    proof (cases "?p 2 < frames P")
      case True
      then have "consumerQueue P = []" using empty [of 2] by (simp add: queue_of_def)
      with True lens(2) le have p1: "?p 1 < frames P" by simp
      then have "cpuQueue P = []" using empty [of 1] by (simp add: queue_of_def)
      with p1 lens(1) le have "?p 0 < frames P" by simp
      then have "freeSlots P = []" using empty [of 0] by (simp add: queue_of_def)
      with \<open>cpuQueue P = []\<close> \<open>consumerQueue P = []\<close> have "mset [0..<slots P] = {#}" using F(1) held by (simp add: slots_ok_def)
      then show False using F(3) by (metis mset_zero_iff upt_eq_Nil_conv le_zero_eq less_irrefl)
    next
      case False
      then have "stage_of P t = SReturned" if "t < 3" for t using full [OF that] le that by (auto simp: less_3)
      with s show False by simp
    qed
  qed
qed

text \<open>
  C26.  Every run of the pipeline ends: until the main thread is past the join some thread can always
  take a step, whatever failed before, and every step brings the run closer to its end.
\<close>

theorem pipeline_always_ends:
  assumes "config_ok c" "steps pipeline_moves (new_pipeline c) P" "main_thread P \<noteq> MDone"
  shows "(\<exists>P'. pipeline_step P P')
    \<and> (\<forall>P'. pipeline_step P P' \<longrightarrow> ((pipeline_work P', pipeline_awake P'), (pipeline_work P, pipeline_awake P)) \<in> less_than <*lex*> less_than)"
  using pipeline_can_move [OF reached_pipeline [OF assms(1,2)] assms(3)] pipeline_step_decreases [OF _ reached_pipeline [OF assms(1,2)]]
  by auto

section \<open>A sample run\<close>

text \<open>One successful move of a stage (0, 1, 2) or of the main thread.\<close>

definition advance :: "nat \<Rightarrow> Pipeline \<Rightarrow> Pipeline" where
  "advance s P =
     (if s < 3 then
        (case stage_of P s of
            SLoading \<Rightarrow> awaitStart_enter s True P
          | SAwait \<Rightarrow> awaitStart_look s P
          | STake f \<Rightarrow> Scheduler_take s f P
          | SRun f k \<Rightarrow> stage_work s f k True P
          | SPass f k \<Rightarrow> Scheduler_pass s f k P
          | _ \<Rightarrow> P)
      else
        (case main_thread P of
            MSpawn k \<Rightarrow> (if k < 3 then (set_stage k SLoading P)\<lparr>main_thread := (if k + 1 = 3 then MLook else MSpawn (k + 1))\<rparr> else P)
          | MLook \<Rightarrow> main_start P
          | MJoin \<Rightarrow> (if \<forall>s<3. stage_of P s \<in> {SNone, SReturned} then P\<lparr>main_thread := MDone\<rparr> else P)
          | _ \<Rightarrow> P))"

lemma advance_step: "pipeline_step P (advance s P) \<or> advance s P = P"
proof (cases "s < 3")
  case True
  then show ?thesis
    by (cases "stage_of P s")
      (simp_all add: advance_def pipeline_step.load pipeline_step.await pipeline_step.take pipeline_step.work pipeline_step.pass)
next
  case False
  then show ?thesis
    by (cases "main_thread P") (simp_all add: advance_def pipeline_step.spawn pipeline_step.spawn [simplified] pipeline_step.start_all pipeline_step.join)
qed

lemma advance_steps: "steps pipeline_moves Q P \<Longrightarrow> steps pipeline_moves Q (fold advance ms P)"
proof (induction ms arbitrary: P)
  case (Cons m ms)
  have "steps pipeline_moves Q (advance m P)"
    using advance_step [of P m] steps.more [OF Cons.prems, of "advance m P"] Cons.prems by (auto simp: pipeline_moves_def [of P])
  then show ?case using Cons.IH by simp
qed simp

text \<open>One frame; all threads are created and started, then the frame goes through.\<close>

definition sample_config :: PipelineConfig where
  "sample_config = \<lparr>cfg_frames = 1, cfg_entries = 1, cfg_inFlight = 1, cfg_bytes = 1, cfg_cpuStages = 1, cfg_cpuDelay = 0, cfg_cacheWait = 0,
     cfg_policy = LRU, cfg_retention = Keep\<rparr>"

definition sample_start :: "nat list" where
  "sample_start = [3, 3, 3, 0, 1, 2, 3, 0, 1, 2]"

definition sample_frame :: "nat list" where
  "sample_frame = [0, 0, 0, 1, 1, 1, 2, 2, 2]"

definition sample_at :: "nat list \<Rightarrow> Pipeline" where
  "sample_at ms = fold advance ms (new_pipeline sample_config)"

lemma sample_config_ok: "config_ok sample_config"
  by (simp add: config_ok_def sample_config_def)

lemma sample_reached: "steps pipeline_moves (new_pipeline sample_config) (sample_at ms)"
  unfolding sample_at_def by (rule advance_steps [OF steps.none])

lemma wake_values:
  "wake \<circ> f(s := x) = (wake \<circ> f)(s := wake x)" "wake \<circ> (\<lambda>_. SNone) = (\<lambda>_. SNone)"
  "wake SNone = SNone" "wake SLoading = SLoading" "wake SAwait = SAwait" "wake (STake g) = STake g" "wake (SRun g k) = SRun g k"
  "wake (SPass g k) = SPass g k" "wake SReturned = SReturned"
  by (auto simp: wake_def)

lemmas sample_eval = advance_def notify_all_alt wake_values set_stage_def awaitStart_enter_def awaitStart_look_def Scheduler_take_def
  Scheduler_pass_def stage_work_def main_start_def queue_of_def set_queue_def Let_def all_less_3

lemma sample_started:
  "sample_at sample_start = (new_pipeline sample_config)\<lparr>ready_stages := 3, start := True,
     stage_of := (\<lambda>_. SNone)(0 := STake 0, 1 := STake 0, 2 := STake 0), main_thread := MJoin\<rparr>"
  by (simp add: sample_at_def sample_start_def new_pipeline_def sample_config_def slot_count_def sample_eval numeral_2_eq_2)

lemma sample_more: "sample_at (ms @ ns) = fold advance ns (sample_at ms)"
  by (simp add: sample_at_def)

lemma sample_running:
  "\<not> failed (sample_at (sample_start @ [0, 0, 0, 1])) \<and> stage_of (sample_at (sample_start @ [0, 0, 0, 1])) 1 = SRun 0 0"
  by (simp add: sample_more sample_started new_pipeline_def sample_config_def slot_count_def sample_eval)

lemma sample_done: "main_thread (sample_at (sample_start @ sample_frame @ [3])) = MDone"
  by (simp add: sample_more sample_frame_def sample_started new_pipeline_def sample_config_def slot_count_def sample_eval)

lemma sample_done_ok: "\<not> failed (sample_at (sample_start @ sample_frame @ [3]))"
  by (simp add: sample_more sample_frame_def sample_started new_pipeline_def sample_config_def slot_count_def sample_eval)

theorem pipeline_keeps_order_witness:
  "unat (peak (sample_at (sample_start @ [0, 0, 0, 1]))) \<le> 1 \<and> slot_frame (sample_at (sample_start @ [0, 0, 0, 1])) 0 = 1"
proof -
  let ?P = "sample_at (sample_start @ [0, 0, 0, 1])"
  have "0 \<in># held_slot (stage_of ?P 1)" "passed (frames ?P) (stage_of ?P 1) = 0" using sample_running by simp_all
  moreover note all = pipeline_keeps_order [OF sample_config_ok sample_reached [of "sample_start @ [0, 0, 0, 1]"]]
  ultimately have "slot_frame ?P 0 = of_nat (Suc 0)" using sample_running by (metis numeral_3_eq_3 one_neq_zero lessI less_SucI One_nat_def)
  then show ?thesis using all by (simp add: sample_config_def)
qed

theorem pipeline_result_is_honest_witness:
  "pipeline_result True (sample_at (sample_start @ sample_frame @ [3]))
    \<and> completed (sample_at (sample_start @ sample_frame @ [3])) = 1"
  using pipeline_result_is_honest [OF sample_config_ok sample_reached sample_done, of True] sample_done_ok by (simp add: sample_config_def)

theorem pipeline_always_ends_witness: "\<exists>P'. pipeline_step (sample_at (sample_start @ [0, 0, 0, 1])) P'"
proof -
  have "main_thread (sample_at (sample_start @ [0, 0, 0, 1])) \<noteq> MDone"
    by (simp add: sample_more sample_started new_pipeline_def sample_config_def slot_count_def sample_eval)
  from pipeline_always_ends [OF sample_config_ok sample_reached this] show ?thesis by blast
qed

end
