(* ===== verification/Matrix_Kernel.thy ===== *)
theory Matrix_Kernel
  imports Frame_Atom
begin

text \<open>
  The CUDA kernel of the demo algorithms (\<open>demo/Algo/Cel.cu\<close>, \<open>Sdd.cu\<close>, \<open>Mi.cu\<close>, which have the
  same text up to names) and the multipliers of \<open>demo/WorkloadSizing.h\<close> at their default values.
  A thread of the kernel reads the frame and writes one cell of the output matrix; the buffers are
  lists, and an access outside of them has the result \<open>None\<close>.  A launch runs all threads of a grid
  in some order.
\<close>

section \<open>The kernel\<close>

definition GPUINFRA_H2D_SIZE_MULTIPLIER :: nat where "GPUINFRA_H2D_SIZE_MULTIPLIER = 1"
definition GPUINFRA_D2H_SIZE_MULTIPLIER :: nat where "GPUINFRA_D2H_SIZE_MULTIPLIER = 1"
definition GPUINFRA_COMPUTE_SIZE_MULTIPLIER :: nat where "GPUINFRA_COMPUTE_SIZE_MULTIPLIER = 3"

definition load_byte :: "u8 list \<Rightarrow> size_t \<Rightarrow> u8 option" where
  "load_byte xs i = (if unat i < length xs then Some (xs ! unat i) else None)"

definition store_word :: "u32 list \<Rightarrow> size_t \<Rightarrow> u32 \<Rightarrow> u32 list option" where
  "store_word ys i v = (if unat i < length ys then Some (ys[unat i := v]) else None)"

text \<open>The loop over \<open>k\<close>: one product of row and column each.\<close>

fun kernel_sum :: "u8 list \<Rightarrow> size_t \<Rightarrow> int \<Rightarrow> int \<Rightarrow> int list \<Rightarrow> u32 \<Rightarrow> u32 option" where
  "kernel_sum input rowOffset x inputStride [] acc = Some acc"
| "kernel_sum input rowOffset x inputStride (k # ks) acc = do {
     a \<leftarrow> load_byte input (rowOffset + of_int k);
     b \<leftarrow> load_byte input (of_int k * of_int inputStride + of_int x);
     kernel_sum input rowOffset x inputStride ks (acc + ucast a * ucast b)
   }"

text \<open>The loop over \<open>repeat\<close>, which computes and stores the same sum again.\<close>

fun kernel_repeat :: "nat \<Rightarrow> u8 list \<Rightarrow> int \<Rightarrow> int \<Rightarrow> int \<Rightarrow> int \<Rightarrow> u32 list \<Rightarrow> u32 list option" where
  "kernel_repeat 0 input nx inputStride x y out = Some out"
| "kernel_repeat (Suc n) input nx inputStride x y out = do {
     s \<leftarrow> kernel_sum input (of_int y * of_int inputStride) x inputStride (map int [0..<nat nx]) 0;
     out1 \<leftarrow> store_word out (of_int y * of_int nx + of_int x) s;
     kernel_repeat n input nx inputStride x y out1
   }"

type_synonym dim = "u32 \<times> u32"

definition matrix_kernel :: "u8 list \<Rightarrow> int \<Rightarrow> int \<Rightarrow> dim \<Rightarrow> dim \<Rightarrow> dim \<Rightarrow> u32 list \<Rightarrow> u32 list option" where
  "matrix_kernel input nx inputStride blockDim blockIdx threadIdx out =
     (let x = sint (fst blockIdx * fst blockDim + fst threadIdx);
          y = sint (snd blockIdx * snd blockDim + snd threadIdx)
      in if x \<ge> nx \<or> y \<ge> nx then Some out
         else kernel_repeat GPUINFRA_COMPUTE_SIZE_MULTIPLIER input nx inputStride x y out)"

text \<open>The three kernels and their block sizes.\<close>

definition CEL_BLOCK_DIM :: u32 where "CEL_BLOCK_DIM = 16"
definition SDD_BLOCK_DIM :: u32 where "SDD_BLOCK_DIM = 16"
definition MI_BLOCK_DIM :: u32 where "MI_BLOCK_DIM = 16"

definition celMatrixMultiplicationKernel :: "u8 list \<Rightarrow> int \<Rightarrow> int \<Rightarrow> dim \<Rightarrow> dim \<Rightarrow> dim \<Rightarrow> u32 list \<Rightarrow> u32 list option" where
  "celMatrixMultiplicationKernel = matrix_kernel"

definition sddMatrixMultiplicationKernel :: "u8 list \<Rightarrow> int \<Rightarrow> int \<Rightarrow> dim \<Rightarrow> dim \<Rightarrow> dim \<Rightarrow> u32 list \<Rightarrow> u32 list option" where
  "sddMatrixMultiplicationKernel = matrix_kernel"

definition miMatrixMultiplicationKernel :: "u8 list \<Rightarrow> int \<Rightarrow> int \<Rightarrow> dim \<Rightarrow> dim \<Rightarrow> dim \<Rightarrow> u32 list \<Rightarrow> u32 list option" where
  "miMatrixMultiplicationKernel = matrix_kernel"

section \<open>Launches\<close>

text \<open>\<open>(matrixSize + block.x - 1U) / block.x\<close>, in unsigned arithmetic.\<close>

definition blocks_for :: "int \<Rightarrow> u32 \<Rightarrow> u32" where
  "blocks_for matrixSize block = (of_int matrixSize + block - 1) div block"

definition launch_threads :: "dim \<Rightarrow> dim \<Rightarrow> (dim \<times> dim) set" where
  "launch_threads grid block = {((bx, by), (tx, ty)). bx < fst grid \<and> by < snd grid \<and> tx < fst block \<and> ty < snd block}"

text \<open>The threads of a launch, one after the other.\<close>

fun run_threads :: "(dim \<Rightarrow> dim \<Rightarrow> u32 list \<Rightarrow> u32 list option) \<Rightarrow> (dim \<times> dim) list \<Rightarrow> u32 list \<Rightarrow> u32 list option" where
  "run_threads body [] out = Some out"
| "run_threads body ((b, t) # ts) out = do { out1 \<leftarrow> body b t out; run_threads body ts out1 }"

section \<open>Correctness\<close>

text \<open>The cell of the square of the top-left \<open>n\<close> by \<open>n\<close> region of the frame, a natural number.\<close>

definition square_cell :: "u8 list \<Rightarrow> nat \<Rightarrow> nat \<Rightarrow> nat \<Rightarrow> nat \<Rightarrow> nat" where
  "square_cell input n stride y x = (\<Sum>k<n. unat (input ! (y * stride + k)) * unat (input ! (k * stride + x)))"

lemma unat_of_int_nat: "unat (of_int (int n) :: size_t) = n mod 2 ^ 64"
  by (simp add: unat_of_nat)

lemma kernel_index:
  assumes "a * b + c < 2 ^ 64"
  shows "unat (of_int (int a) * of_int (int b) + of_int (int c) :: size_t) = a * b + c"
proof -
  have "(of_int (int a) * of_int (int b) + of_int (int c) :: size_t) = of_nat (a * b + c)" by simp
  then show ?thesis using assms by (simp only: unat_of_nat) simp
qed

lemma kernel_sum_spec:
  assumes fits: "n * stride \<le> length input" "n \<le> stride" "length input < 2 ^ 64" and y: "y < n" and x: "x < n" and ks: "set ks \<subseteq> {..<n}"
  shows "kernel_sum input (of_int (int y) * of_int (int stride)) (int x) (int stride) (map int ks) acc
    = Some (acc + of_nat (\<Sum>k\<leftarrow>ks. unat (input ! (y * stride + k)) * unat (input ! (k * stride + x))))"
  using ks
proof (induction ks arbitrary: acc)
  case (Cons k ks)
  have inside: "a * stride + b < length input" if "a < n" "b < n" for a b
  proof -
    have "a * stride + b < Suc a * stride" using that fits(2) by simp
    also have "\<dots> \<le> n * stride" using that(1) by (intro mult_le_mono1) simp
    finally show ?thesis using fits(1) by simp
  qed
  have k: "k < n" using Cons.prems by simp
  have "unat (of_int (int y) * of_int (int stride) + of_int (int k) :: size_t) = y * stride + k"
    using inside [OF y k] fits(3) by (intro kernel_index) simp
  moreover have "unat (of_int (int k) * of_int (int stride) + of_int (int x) :: size_t) = k * stride + x"
    using inside [OF k x] fits(3) by (intro kernel_index) simp
  moreover have "(ucast (a :: u8) :: u32) = of_nat (unat a)" for a by (simp add: unsigned_ucast_eq)
  ultimately show ?case using Cons inside [OF y k] inside [OF k x] by (simp add: load_byte_def algebra_simps)
qed simp


lemma square_cell_list: "square_cell input n stride y x = (\<Sum>k\<leftarrow>[0..<n]. unat (input ! (y * stride + k)) * unat (input ! (k * stride + x)))"
  by (simp add: square_cell_def interv_sum_list_conv_sum_set_nat atLeast0LessThan)

lemma cell_less: "y < n \<Longrightarrow> x < n \<Longrightarrow> y * n + x < n * n" for x y n :: nat
  by (metis (no_types, lifting) add.commute add_less_cancel_right less_le_trans mult_Suc mult_le_mono1 Suc_leI)

lemma kernel_repeat_spec:
  assumes fits: "n * stride \<le> length input" "n \<le> stride" "length input < 2 ^ 64" and y: "y < n" and x: "x < n" and out: "length out = n * n"
  shows "kernel_repeat r input (int n) (int stride) (int x) (int y) out
    = Some (if r = 0 then out else out[y * n + x := of_nat (square_cell input n stride y x)])"
  using out
proof (induction r arbitrary: out)
  case (Suc r)
  have "n * n \<le> length input" using fits(1,2) by (meson le_trans mult_le_mono2)
  then have "y * n + x < 2 ^ 64" using cell_less [OF y x] fits(3) by linarith
  then have i: "unat (of_int (int y) * of_int (int n) + of_int (int x) :: size_t) = y * n + x" by (rule kernel_index)
  have s: "kernel_sum input (of_int (int y) * of_int (int stride)) (int x) (int stride) (map int [0..<n]) 0
      = Some (of_nat (square_cell input n stride y x))"
    using kernel_sum_spec [OF fits y x, of "[0..<n]" 0] by (simp add: square_cell_list atLeast0LessThan)
  have "store_word out (of_int (int y) * of_int (int n) + of_int (int x)) v = Some (out[y * n + x := v])" for v
    unfolding store_word_def i using Suc.prems cell_less [OF y x] by simp
  then show ?case using s Suc by simp
qed simp

text \<open>The coordinates of a thread of a launch with square blocks of 16 by 16.\<close>

definition thread_coord :: "u32 \<Rightarrow> u32 \<Rightarrow> nat" where
  "thread_coord b t = unat b * 16 + unat t"

lemma unat_blocks_for:
  assumes "n \<le> 2 ^ 15"
  shows "unat (blocks_for (int n) 16) = (n + 15) div 16"
proof -
  have "(of_int (int n) + 16 - 1 :: u32) = of_nat (n + 15)" by simp
  then have "unat (of_int (int n) + 16 - 1 :: u32) = (n + 15) mod 2 ^ 32" by (simp only: unat_of_nat) simp
  then show ?thesis using assms by (simp add: blocks_for_def unat_div)
qed

lemma thread_coord_sint:
  assumes "n \<le> 2 ^ 15" "b < blocks_for (int n) 16" "t < 16"
  shows "sint (b * 16 + t :: u32) = int (thread_coord b t)"
proof -
  have "unat b < (n + 15) div 16" using assms(1,2) unat_blocks_for by (simp add: word_less_nat_alt)
  then have small: "thread_coord b t < 2 ^ 31" using assms by (simp add: thread_coord_def word_less_nat_alt)
  have "b * 16 + t = of_nat (thread_coord b t)" by (simp add: thread_coord_def)
  then have "unat (b * 16 + t) = thread_coord b t mod 2 ^ 32" by (simp only: unat_of_nat) simp
  then have u: "unat (b * 16 + t) = thread_coord b t" using small by simp
  have "sint (b * 16 + t) = signed_take_bit 31 (uint (b * 16 + t))" by (simp add: sint_uint)
  also have "\<dots> = int (thread_coord b t)" using u small by (simp add: uint_nat signed_take_bit_int_eq_self)
  finally show ?thesis .
qed

text \<open>What one thread of the launch does to the output.\<close>

definition covers :: "nat \<Rightarrow> dim \<Rightarrow> dim \<Rightarrow> nat \<Rightarrow> bool" where
  "covers n b t i \<longleftrightarrow> thread_coord (fst b) (fst t) < n \<and> thread_coord (snd b) (snd t) < n
     \<and> i = thread_coord (snd b) (snd t) * n + thread_coord (fst b) (fst t)"

lemma kernel_thread:
  assumes n: "n \<le> 2 ^ 15" and fits: "n * stride \<le> length input" "n \<le> stride" "length input < 2 ^ 64" and out: "length out = n * n"
    and t: "(b, t) \<in> launch_threads (blocks_for (int n) 16, blocks_for (int n) 16) (16, 16)"
  shows "\<exists>out'. matrix_kernel input (int n) (int stride) (16, 16) b t out = Some out' \<and> length out' = n * n
    \<and> (\<forall>i<n * n. out' ! i = (if covers n b t i then of_nat (square_cell input n stride (i div n) (i mod n)) else out ! i))"
proof -
  let ?x = "thread_coord (fst b) (fst t)" and ?y = "thread_coord (snd b) (snd t)"
  have c: "sint (fst b * 16 + fst t) = int ?x" "sint (snd b * 16 + snd t) = int ?y"
    using t by (auto simp: launch_threads_def intro!: thread_coord_sint [OF n])
  show ?thesis
  proof (cases "?x < n \<and> ?y < n")
    case True
    then have "matrix_kernel input (int n) (int stride) (16, 16) b t out = Some (out[?y * n + ?x := of_nat (square_cell input n stride ?y ?x)])"
      using kernel_repeat_spec [OF fits _ _ out] by (simp add: matrix_kernel_def c Let_def GPUINFRA_COMPUTE_SIZE_MULTIPLIER_def)
    then show ?thesis using True out cell_less [of ?y n ?x] by (auto simp: covers_def nth_list_update)
  next
    case False
    then show ?thesis using out by (auto simp: matrix_kernel_def c Let_def covers_def)
  qed
qed

lemma run_threads_spec:
  assumes n: "n \<le> 2 ^ 15" and fits: "n * stride \<le> length input" "n \<le> stride" "length input < 2 ^ 64" and out: "length out = n * n"
    and ts: "set ts \<subseteq> launch_threads (blocks_for (int n) 16, blocks_for (int n) 16) (16, 16)"
  shows "\<exists>out'. run_threads (matrix_kernel input (int n) (int stride) (16, 16)) ts out = Some out' \<and> length out' = n * n
    \<and> (\<forall>i<n * n. out' ! i = (if \<exists>(b, t)\<in>set ts. covers n b t i then of_nat (square_cell input n stride (i div n) (i mod n)) else out ! i))"
  using out ts
proof (induction ts arbitrary: out)
  case (Cons bt ts)
  obtain b t where bt: "bt = (b, t)" by (cases bt)
  have mem: "(b, t) \<in> launch_threads (blocks_for (int n) 16, blocks_for (int n) 16) (16, 16)" using Cons.prems(2) bt by simp
  from kernel_thread [OF n fits Cons.prems(1) mem] obtain out1 where o1: "matrix_kernel input (int n) (int stride) (16, 16) b t out = Some out1" "length out1 = n * n"
      "\<forall>i<n * n. out1 ! i = (if covers n b t i then of_nat (square_cell input n stride (i div n) (i mod n)) else out ! i)"
    by (elim exE conjE)
  have "set ts \<subseteq> launch_threads (blocks_for (int n) 16, blocks_for (int n) 16) (16, 16)" using Cons.prems(2) by simp
  from Cons.IH [OF o1(2) this] obtain out' where "run_threads (matrix_kernel input (int n) (int stride) (16, 16)) ts out1 = Some out'" "length out' = n * n"
      "\<forall>i<n * n. out' ! i = (if \<exists>(b, t)\<in>set ts. covers n b t i then of_nat (square_cell input n stride (i div n) (i mod n)) else out1 ! i)"
    by (elim exE conjE)
  then show ?case using o1 bt by auto
qed auto

text \<open>Every cell has its thread.\<close>

lemma cell_covered:
  assumes n: "n \<le> 2 ^ 15" and i: "i < n * n"
  shows "\<exists>(b, t)\<in>launch_threads (blocks_for (int n) 16, blocks_for (int n) 16) (16, 16). covers n b t i"
proof -
  have "0 < n" using i by (cases n) auto
  then have xy: "i mod n < n" "i div n < n" using i by (auto simp: less_mult_imp_div_less)
  have c: "of_nat (c div 16) < blocks_for (int n) 16" "(of_nat (c mod 16) :: u32) < 16"
      "thread_coord (of_nat (c div 16)) (of_nat (c mod 16)) = c" if "c < n" for c
  proof -
    have u: "unat (of_nat (c div 16) :: u32) = c div 16" "unat (of_nat (c mod 16) :: u32) = c mod 16"
      using that n by (simp_all add: unat_of_nat)
    show "thread_coord (of_nat (c div 16)) (of_nat (c mod 16)) = c" by (simp add: thread_coord_def u)
    show "(of_nat (c mod 16) :: u32) < 16" by (simp add: word_less_nat_alt u)
    have "c div 16 < (n + 15) div 16" using that by linarith
    then show "of_nat (c div 16) < blocks_for (int n) 16" by (simp add: word_less_nat_alt u unat_blocks_for [OF n])
  qed
  let ?b = "(of_nat (i mod n div 16), of_nat (i div n div 16)) :: dim" and ?t = "(of_nat (i mod n mod 16), of_nat (i div n mod 16)) :: dim"
  have "(?b, ?t) \<in> launch_threads (blocks_for (int n) 16, blocks_for (int n) 16) (16, 16)"
    using c(1,2) xy by (simp add: launch_threads_def)
  moreover have "covers n ?b ?t i" using c(3) xy by (simp add: covers_def)
  ultimately show ?thesis by blast
qed


text \<open>A cell of a matrix of bytes of this size does not overflow.\<close>

lemma square_cell_bound: "square_cell input n stride y x \<le> n * 65025"
proof -
  have byte: "unat (a :: u8) \<le> 255" for a using unsigned_less [of a, where 'a = nat] by simp
  have "square_cell input n stride y x \<le> (\<Sum>k<n. 65025)"
    unfolding square_cell_def by (rule sum_mono) (use mult_le_mono [OF byte byte] in simp)
  then show ?thesis by simp
qed

text \<open>
  C23.  The kernels square matrices.  For every runtime the tasks accept, each of the three kernels,
  launched on a frame of that runtime with the grid and the block size of \<open>launchKernels\<close>, never
  reads outside the frame or writes outside the output; whatever the order of its threads, it leaves in every cell
  of the output the cell of the square of the top-left region of the frame, and the 32-bit sum does
  not overflow.
\<close>

theorem kernels_square_the_frame:
  assumes rt: "validRuntime rt" and frame: "length frame = unat (inBytes rt)"
    and kernel: "(body, m, block) \<in> {(celMatrixMultiplicationKernel, CEL_MULTIPLIER, CEL_BLOCK_DIM),
      (sddMatrixMultiplicationKernel, SDD_MULTIPLIER, SDD_BLOCK_DIM), (miMatrixMultiplicationKernel, MI_MULTIPLIER, MI_BLOCK_DIM)}"
    and size: "nx = scaledDimension (sizeFactor rt) m" and out: "length out * 4 = unat (squareBytes nx 4)"
    and threads: "set ts = launch_threads (blocks_for nx block, blocks_for nx block) (block, block)"
  shows "\<exists>out'. run_threads (body frame nx (frameW rt) (block, block)) ts out = Some out' \<and> length out' = length out
    \<and> (\<forall>y<nat nx. \<forall>x<nat nx. unat (out' ! (y * nat nx + x)) = square_cell frame (nat nx) (nat (frameW rt)) y x)"
proof -
  define f n where "f = sizeFactor rt" and "n = nat nx"
  have m: "m \<in> {2, 3}" "block = 16" "body = matrix_kernel"
    using kernel by (auto simp: sizing_defs CEL_BLOCK_DIM_def SDD_BLOCK_DIM_def MI_BLOCK_DIM_def celMatrixMultiplicationKernel_def
        sddMatrixMultiplicationKernel_def miMatrixMultiplicationKernel_def)
  note R = validRuntime_sizes [OF rt, folded f_def]
  have nx: "nx = int n" and n: "n \<le> 768" "n \<le> nat (8 * f)" using m(1) size R(1,2) by (auto simp: scaledDimension_def n_def f_def)
  have w: "frameW rt = int (nat (8 * f))" using R(1,3) by simp
  have len: "length frame = nat (8 * f) * nat (8 * f)" using frame R(6) by simp
  have "nat (8 * f) \<le> 2048" using R(2) by simp
  then have "nat (8 * f) * nat (8 * f) \<le> 2048 * 2048" by (intro mult_le_mono)
  then have fits: "n * nat (8 * f) \<le> length frame" "length frame < 2 ^ 64" using n(2) len by simp_all
  have "unat (squareBytes nx 4) = 4 * n * n" using R(7) [OF m(1)] size by (simp add: n_def scaledDimension_def f_def mult.commute)
  then have "length out = n * n" using out by simp
  from run_threads_spec [OF _ fits(1) n(2) fits(2) this, of ts] threads n(1)
  obtain out' where o: "run_threads (matrix_kernel frame (int n) (int (nat (8 * f))) (16, 16)) ts out = Some out'" "length out' = n * n"
      "\<forall>i<n * n. out' ! i = (if \<exists>(b, t)\<in>set ts. covers n b t i then of_nat (square_cell frame n (nat (8 * f)) (i div n) (i mod n)) else out ! i)"
    unfolding m(2) nx by auto
  have "unat (out' ! (y * n + x)) = square_cell frame n (nat (8 * f)) y x" if "y < n" "x < n" for y x
  proof -
    have i: "y * n + x < n * n" using cell_less that by blast
    then have "\<exists>(b, t)\<in>set ts. covers n b t (y * n + x)" using cell_covered [OF _ i] threads n(1) unfolding m(2) nx by simp
    then have "out' ! (y * n + x) = of_nat (square_cell frame n (nat (8 * f)) y x)" using o(3) i that by simp
    moreover have "square_cell frame n (nat (8 * f)) y x \<le> 768 * 65025"
      using square_cell_bound [of frame n "nat (8 * f)" y x] n(1) by linarith
    ultimately show ?thesis by (simp add: unat_of_nat)
  qed
  then show ?thesis using o \<open>length out = n * n\<close> w nx unfolding m(2,3) by auto
qed


theorem kernels_square_the_frame_witness:
  "\<exists>ts out'. run_threads (celMatrixMultiplicationKernel (replicate 16384 2) 32 128 (16, 16)) ts (replicate 1024 0) = Some out'
    \<and> unat (out' ! 33) = 128"
proof -
  let ?rt = "\<lparr>inBytes = 16384, sizeFactor = 16, frameW = 128, frameH = 128, frameDtype = 0\<rparr>"
  have "validRuntime ?rt" by (simp add: validRuntime_def isValidFactor_def scaledDimension_def squareBytes_def sizing_defs)
  have fin: "finite (launch_threads (blocks_for 32 16, blocks_for 32 16) (16, 16))" by (rule finite)
  then obtain ts where ts: "set ts = launch_threads (blocks_for 32 16, blocks_for 32 16) (16, 16)" using finite_list by blast
  have "\<exists>out'. run_threads (celMatrixMultiplicationKernel (replicate 16384 2) 32 (frameW ?rt) (16, 16)) ts (replicate 1024 0) = Some out'
      \<and> length out' = length (replicate 1024 (0 :: u32))
      \<and> (\<forall>y<nat 32. \<forall>x<nat 32. unat (out' ! (y * nat 32 + x)) = square_cell (replicate 16384 2) (nat 32) (nat (frameW ?rt)) y x)"
    by (rule kernels_square_the_frame [OF \<open>validRuntime ?rt\<close>, where m = CEL_MULTIPLIER and block = 16])
      (use ts in \<open>simp_all add: CEL_BLOCK_DIM_def scaledDimension_def squareBytes_def sizing_defs\<close>)
  then obtain out' where o: "run_threads (celMatrixMultiplicationKernel (replicate 16384 2) 32 128 (16, 16)) ts (replicate 1024 0) = Some out'"
      "\<forall>y<nat 32. \<forall>x<nat 32. unat (out' ! (y * nat 32 + x)) = square_cell (replicate 16384 2) (nat 32) (nat 128) y x"
    by (simp only: AlgoRuntimeInfo.simps) (elim exE conjE)
  have "square_cell (replicate 16384 2) 32 128 1 1 = (\<Sum>k<32::nat. 4)"
    unfolding square_cell_def by (rule sum.cong) (auto simp: nth_replicate)
  then have "unat (out' ! 33) = 128" using o(2) [rule_format, of 1 1] by simp
  then show ?thesis using o(1) by blast
qed

end
