(* ===== verification/Demo_Algo.thy ===== *)
theory Demo_Algo
  imports Matrix_Kernel Context_Manager "HOL-Library.Multiset"
begin

text \<open>
  The algorithms of the demo, \<open>demo/Algo/Cel.h\<close>, \<open>Sdd.h\<close>, \<open>Mi.h\<close> and their \<open>.cu\<close> files: three
  classes that implement \<open>IAlgo\<close> with the same code up to a size multiplier, the name of the output
  and the kernel.  The common code is modelled once, with these as parameters; the operations of each
  class are its instances, and the \<open>IAlgo_\<close> operations are the virtual calls.
\<close>

section \<open>The runtime calls of the tasks\<close>

datatype algo_kind = CelAlgo | SddAlgo | MiAlgo

text \<open>
  The calls the tasks make beyond those of the library: pinned host memory, kernel launches, the last
  error, and \<open>memset\<close> and \<open>memcpy\<close> on pinned memory, whose content is part of the runtime's state.
\<close>

record 'w task_api = "'w driver_api" +
  cudaHostAlloc :: "size_t \<Rightarrow> 'w \<Rightarrow> ptr option \<times> 'w"
  cudaFreeHost :: "ptr \<Rightarrow> 'w \<Rightarrow> bool \<times> 'w"
  cudaGetLastError :: "'w \<Rightarrow> bool \<times> 'w"
  launch_kernel :: "algo_kind \<Rightarrow> dim \<Rightarrow> dim \<Rightarrow> stream \<Rightarrow> ptr \<Rightarrow> ptr \<Rightarrow> int \<Rightarrow> int \<Rightarrow> 'w \<Rightarrow> 'w"
  memset_host :: "ptr \<Rightarrow> size_t \<Rightarrow> 'w \<Rightarrow> 'w"
  memcpy_to_host :: "ptr \<Rightarrow> u8 list \<Rightarrow> 'w \<Rightarrow> 'w"
  memcpy_from_host :: "ptr \<Rightarrow> size_t \<Rightarrow> 'w \<Rightarrow> u8 list"

section \<open>The classes\<close>

record Algo =
  algo_class :: algo_kind
  algo_gpuId :: int
  algo_resourceId :: int
  algo_frameW :: int
  algo_frameH :: int
  matrixSize :: int
  algo_inBytes :: size_t
  matrixBytes :: size_t
  d_outputMatrix :: ptr
  h_outputMatrix :: ptr
  algo_initialized :: bool
  algoParams :: AlgoParams

definition new_algo :: "algo_kind \<Rightarrow> Algo" where
  "new_algo k = \<lparr>algo_class = k, algo_gpuId = -1, algo_resourceId = -1, algo_frameW = 0, algo_frameH = 0, matrixSize = 0,
     algo_inBytes = 0, matrixBytes = 0, d_outputMatrix = nullptr, h_outputMatrix = nullptr, algo_initialized = False,
     algoParams = default_params\<rparr>"

text \<open>A loop of copies that stops at the first failure.\<close>

fun repeat_call :: "nat \<Rightarrow> ('w \<Rightarrow> bool \<times> 'w) \<Rightarrow> 'w \<Rightarrow> bool \<times> 'w" where
  "repeat_call 0 call w = (True, w)"
| "repeat_call (Suc n) call w = (case call w of (False, w1) \<Rightarrow> (False, w1) | (True, w1) \<Rightarrow> repeat_call n call w1)"

definition algo_close :: "('w, 'x) task_api_scheme \<Rightarrow> Algo \<Rightarrow> 'w \<Rightarrow> bool \<times> Algo \<times> 'w" where
  "algo_close api a w =
     (let (current, w1) = (if d_outputMatrix a \<noteq> nullptr \<or> h_outputMatrix a \<noteq> nullptr then cudaSetDevice api (algo_gpuId a) w else (True, w))
      in if \<not> current then (False, a, w1)
         else let (ok1, w2) = (if d_outputMatrix a \<noteq> nullptr then cudaFree api (d_outputMatrix a) w1 else (True, w1));
                  (ok2, w3) = (if h_outputMatrix a \<noteq> nullptr then cudaFreeHost api (h_outputMatrix a) w2 else (True, w2))
              in (ok1 \<and> ok2, new_algo (algo_class a), w3))"

text \<open>The allocations of \<open>init\<close>; a failure closes the object and ignores what that returns.\<close>

definition algo_allocate :: "('w, 'x) task_api_scheme \<Rightarrow> stream \<Rightarrow> Algo \<Rightarrow> 'w \<Rightarrow> bool \<times> Algo \<times> 'w" where
  "algo_allocate api stream a w =
     (case cudaMalloc api (matrixBytes a) w of
        (None, w1) \<Rightarrow> (let (_, a', w') = algo_close api a w1 in (False, a', w'))
      | (Some d, w1) \<Rightarrow>
          let a1 = a\<lparr>d_outputMatrix := d\<rparr>
          in (case cudaHostAlloc api (matrixBytes a) w1 of
                (None, w2) \<Rightarrow> (let (_, a', w') = algo_close api a1 w2 in (False, a', w'))
              | (Some h, w2) \<Rightarrow>
                  let a2 = a1\<lparr>h_outputMatrix := h\<rparr>;
                      w3 = memset_host api h (matrixBytes a) w2
                  in (case cudaMemsetAsync api d (matrixBytes a) stream w3 of
                        (False, w4) \<Rightarrow> (let (_, a', w') = algo_close api a2 w4 in (False, a', w'))
                      | (True, w4) \<Rightarrow> (True, a2\<lparr>algo_initialized := True\<rparr>, w4))))"

text \<open>\<open>init\<close>; the third component of the result is \<open>scratchBytes\<close>.\<close>

definition algo_init :: "int \<Rightarrow> ('w, 'x) task_api_scheme \<Rightarrow> AlgoRuntimeInfo \<Rightarrow> TaskGpuResources \<Rightarrow> Algo \<Rightarrow> 'w
    \<Rightarrow> bool \<times> Algo \<times> size_t \<times> 'w" where
  "algo_init multiplier api info r a w =
     (if resourceId r < 0 \<or> res_gpuId r < 0 \<or> res_stream r = nullptr \<or> \<not> isValidFactor (sizeFactor info) then (False, a, 0, w)
      else let outputSize = scaledDimension (sizeFactor info) multiplier
           in if frameW info < outputSize \<or> frameH info < outputSize then (False, a, 0, w)
              else if inBytes info < of_int (frameW info) * of_int (frameH info) then (False, a, 0, w)
              else case algo_close api a w of
                  (False, a1, w1) \<Rightarrow> (False, a1, 0, w1)
                | (True, a1, w1) \<Rightarrow>
                    let a2 = a1\<lparr>algo_gpuId := res_gpuId r, algo_resourceId := resourceId r, algo_frameW := frameW info,
                                algo_frameH := frameH info, matrixSize := outputSize, algo_inBytes := inBytes info,
                                matrixBytes := squareBytes outputSize 4\<rparr>
                    in (case cudaSetDevice api (algo_gpuId a2) w1 of
                          (False, w2) \<Rightarrow> (False, a2, 0, w2)
                        | (True, w2) \<Rightarrow> (let (ok, a3, w3) = algo_allocate api (res_stream r) a2 w2 in (ok, a3, 0, w3))))"

definition algo_notifyParameter :: "AlgoParams \<Rightarrow> Algo \<Rightarrow> bool \<times> Algo" where
  "algo_notifyParameter params a = (if \<not> algo_initialized a then (False, a) else (True, a\<lparr>algoParams := params\<rparr>))"

definition algo_launchKernels :: "u32 \<Rightarrow> algo_kind \<Rightarrow> ('w, 'x) task_api_scheme \<Rightarrow> TaskGpuResources \<Rightarrow> ptr \<Rightarrow> stream \<Rightarrow> Algo \<Rightarrow> 'w
    \<Rightarrow> bool \<times> 'w" where
  "algo_launchKernels blockDim kind api r d_frameData stream a w =
     (if \<not> algo_initialized a \<or> resourceId r \<noteq> algo_resourceId a \<or> res_gpuId r \<noteq> algo_gpuId a \<or> d_frameData = nullptr \<or> stream = nullptr
         \<or> stream \<noteq> res_stream r then (False, w)
      else cudaGetLastError api
             (launch_kernel api kind (blocks_for (matrixSize a) blockDim, blocks_for (matrixSize a) blockDim) (blockDim, blockDim) stream
                d_frameData (d_outputMatrix a) (matrixSize a) (algo_frameW a) w))"

definition algo_launchD2H :: "('w, 'x) task_api_scheme \<Rightarrow> TaskGpuResources \<Rightarrow> stream \<Rightarrow> Algo \<Rightarrow> 'w \<Rightarrow> bool \<times> 'w" where
  "algo_launchD2H api r stream a w =
     (if \<not> algo_initialized a \<or> resourceId r \<noteq> algo_resourceId a \<or> res_gpuId r \<noteq> algo_gpuId a \<or> stream = nullptr
         \<or> stream \<noteq> res_stream r then (False, w)
      else repeat_call GPUINFRA_D2H_SIZE_MULTIPLIER (cudaMemcpyAsync api (h_outputMatrix a, 0) (d_outputMatrix a) (matrixBytes a) stream) w)"

definition algo_collectResult :: "string \<Rightarrow> ('w, 'x) task_api_scheme \<Rightarrow> TaskGpuResources \<Rightarrow> Algo \<Rightarrow> AlgoOutput \<Rightarrow> 'w \<Rightarrow> bool \<times> AlgoOutput" where
  "algo_collectResult name api r a output w =
     (if \<not> algo_initialized a \<or> resourceId r \<noteq> algo_resourceId a \<or> res_gpuId r \<noteq> algo_gpuId a then (False, output)
      else if algoName output \<noteq> name \<or> out_width output \<noteq> matrixSize a \<or> out_height output \<noteq> matrixSize a
         \<or> length (out_data output) \<noteq> unat (matrixBytes a) then (False, output)
      else (True, output\<lparr>out_data := memcpy_from_host api (h_outputMatrix a) (matrixBytes a) w\<rparr>))"

subsection \<open>Instances\<close>

definition Cel_init where "Cel_init = algo_init CEL_MULTIPLIER"
definition Sdd_init where "Sdd_init = algo_init SDD_MULTIPLIER"
definition Mi_init where "Mi_init = algo_init MI_MULTIPLIER"

definition Cel_notifyParameter where "Cel_notifyParameter = algo_notifyParameter"
definition Sdd_notifyParameter where "Sdd_notifyParameter = algo_notifyParameter"
definition Mi_notifyParameter where "Mi_notifyParameter = algo_notifyParameter"

definition Cel_launchKernels where "Cel_launchKernels = algo_launchKernels CEL_BLOCK_DIM CelAlgo"
definition Sdd_launchKernels where "Sdd_launchKernels = algo_launchKernels SDD_BLOCK_DIM SddAlgo"
definition Mi_launchKernels where "Mi_launchKernels = algo_launchKernels MI_BLOCK_DIM MiAlgo"

definition Cel_launchD2H where "Cel_launchD2H = algo_launchD2H"
definition Sdd_launchD2H where "Sdd_launchD2H = algo_launchD2H"
definition Mi_launchD2H where "Mi_launchD2H = algo_launchD2H"

definition Cel_collectResult where "Cel_collectResult = algo_collectResult ''cel''"
definition Sdd_collectResult where "Sdd_collectResult = algo_collectResult ''sdd''"
definition Mi_collectResult where "Mi_collectResult = algo_collectResult ''mi''"

definition Cel_close where "Cel_close = algo_close"
definition Sdd_close where "Sdd_close = algo_close"
definition Mi_close where "Mi_close = algo_close"

text \<open>The virtual calls.\<close>

definition IAlgo_init :: "('w, 'x) task_api_scheme \<Rightarrow> AlgoRuntimeInfo \<Rightarrow> TaskGpuResources \<Rightarrow> Algo \<Rightarrow> 'w \<Rightarrow> bool \<times> Algo \<times> size_t \<times> 'w" where
  "IAlgo_init api info r a w = (case algo_class a of CelAlgo \<Rightarrow> Cel_init api info r a w | SddAlgo \<Rightarrow> Sdd_init api info r a w | MiAlgo \<Rightarrow> Mi_init api info r a w)"

definition IAlgo_notifyParameter :: "AlgoParams \<Rightarrow> Algo \<Rightarrow> bool \<times> Algo" where
  "IAlgo_notifyParameter v a = (case algo_class a of CelAlgo \<Rightarrow> Cel_notifyParameter v a | SddAlgo \<Rightarrow> Sdd_notifyParameter v a | MiAlgo \<Rightarrow> Mi_notifyParameter v a)"

definition IAlgo_launchKernels :: "('w, 'x) task_api_scheme \<Rightarrow> TaskGpuResources \<Rightarrow> ptr \<Rightarrow> stream \<Rightarrow> Algo \<Rightarrow> 'w \<Rightarrow> bool \<times> 'w" where
  "IAlgo_launchKernels api r d s a w = (case algo_class a of CelAlgo \<Rightarrow> Cel_launchKernels api r d s a w | SddAlgo \<Rightarrow> Sdd_launchKernels api r d s a w
     | MiAlgo \<Rightarrow> Mi_launchKernels api r d s a w)"

definition IAlgo_launchD2H :: "('w, 'x) task_api_scheme \<Rightarrow> TaskGpuResources \<Rightarrow> stream \<Rightarrow> Algo \<Rightarrow> 'w \<Rightarrow> bool \<times> 'w" where
  "IAlgo_launchD2H api r s a w = (case algo_class a of CelAlgo \<Rightarrow> Cel_launchD2H api r s a w | SddAlgo \<Rightarrow> Sdd_launchD2H api r s a w
     | MiAlgo \<Rightarrow> Mi_launchD2H api r s a w)"

definition IAlgo_collectResult :: "('w, 'x) task_api_scheme \<Rightarrow> TaskGpuResources \<Rightarrow> Algo \<Rightarrow> AlgoOutput \<Rightarrow> 'w \<Rightarrow> bool \<times> AlgoOutput" where
  "IAlgo_collectResult api r a out w = (case algo_class a of CelAlgo \<Rightarrow> Cel_collectResult api r a out w | SddAlgo \<Rightarrow> Sdd_collectResult api r a out w
     | MiAlgo \<Rightarrow> Mi_collectResult api r a out w)"

definition IAlgo_close :: "('w, 'x) task_api_scheme \<Rightarrow> Algo \<Rightarrow> 'w \<Rightarrow> bool \<times> Algo \<times> 'w" where
  "IAlgo_close api a w = (case algo_class a of CelAlgo \<Rightarrow> Cel_close api a w | SddAlgo \<Rightarrow> Sdd_close api a w | MiAlgo \<Rightarrow> Mi_close api a w)"

section \<open>Ownership\<close>

text \<open>What the runtime hands out and takes back: device memory, pinned host memory, streams.\<close>

datatype handle = DeviceMemory nat | HostMemory nat | StreamHandle nat

definition owning :: "(nat \<Rightarrow> handle) \<Rightarrow> ptr \<Rightarrow> handle multiset" where
  "owning kind p = (case p of None \<Rightarrow> {#} | Some a \<Rightarrow> {#kind a#})"

lemma owning_simps [simp]: "owning kind nullptr = {#}" "owning kind (Some a) = {#kind a#}"
  by (simp_all add: owning_def)

text \<open>
  Documented behaviour of the runtime, with an account of two things: the handles that are live, and the number of
  selections of a device and of calls that free something that have failed.  An allocation that succeeds adds its handle to the live ones; freeing a
  live handle removes it or fails, and never removes another one; no other call changes the account.  Any call may fail at any time.
\<close>

definition allocated :: "(nat \<Rightarrow> handle) \<Rightarrow> ptr option \<Rightarrow> handle multiset" where
  "allocated kind r = (case r of None \<Rightarrow> {#} | Some p \<Rightarrow> owning kind p)"

definition frees :: "(ptr \<Rightarrow> 'w \<Rightarrow> bool \<times> 'w) \<Rightarrow> (nat \<Rightarrow> handle) \<Rightarrow> ('w \<Rightarrow> handle multiset) \<Rightarrow> ('w \<Rightarrow> nat) \<Rightarrow> bool" where
  "frees call kind live faults \<longleftrightarrow> (\<forall>p w. (if fst (call p w) then faults (snd (call p w)) = faults w else faults w < faults (snd (call p w)))
     \<and> (fst (call p w) \<longrightarrow> owning kind p \<subseteq># live w \<longrightarrow> live (snd (call p w)) = live w - owning kind p)
     \<and> live w - owning kind p \<subseteq># live (snd (call p w)))"

definition memory_api :: "('w, 'x) task_api_scheme \<Rightarrow> ('w \<Rightarrow> handle multiset) \<Rightarrow> ('w \<Rightarrow> nat) \<Rightarrow> bool" where
  "memory_api api live faults \<longleftrightarrow>
     (\<forall>n w. live (snd (cudaMalloc api n w)) = live w + allocated DeviceMemory (fst (cudaMalloc api n w)) \<and> faults (snd (cudaMalloc api n w)) = faults w)
     \<and> (\<forall>n w. live (snd (cudaHostAlloc api n w)) = live w + allocated HostMemory (fst (cudaHostAlloc api n w)) \<and> faults (snd (cudaHostAlloc api n w)) = faults w)
     \<and> (\<forall>w. live (snd (cudaStreamCreateWithFlags api w)) = live w + allocated StreamHandle (fst (cudaStreamCreateWithFlags api w))
          \<and> faults (snd (cudaStreamCreateWithFlags api w)) = faults w)
     \<and> frees (cudaFree api) DeviceMemory live faults \<and> frees (cudaFreeHost api) HostMemory live faults \<and> frees (cudaStreamDestroy api) StreamHandle live faults
     \<and> (\<forall>d w. live (snd (cudaSetDevice api d w)) = live w
          \<and> (if fst (cudaSetDevice api d w) then faults (snd (cudaSetDevice api d w)) = faults w else faults w < faults (snd (cudaSetDevice api d w))))
     \<and> (\<forall>p n s w. live (snd (cudaMemsetAsync api p n s w)) = live w \<and> faults (snd (cudaMemsetAsync api p n s w)) = faults w)
     \<and> (\<forall>s w. live (snd (cudaStreamSynchronize api s w)) = live w \<and> faults (snd (cudaStreamSynchronize api s w)) = faults w)
     \<and> (\<forall>p n w. live (memset_host api p n w) = live w \<and> faults (memset_host api p n w) = faults w)"

text \<open>
  The live handles are \<open>H\<close>, provided no selection and no release has failed since the account stood at \<open>f\<close>.
\<close>

definition owed :: "('w \<Rightarrow> handle multiset) \<Rightarrow> ('w \<Rightarrow> nat) \<Rightarrow> nat \<Rightarrow> 'w \<Rightarrow> handle multiset \<Rightarrow> bool" where
  "owed live faults f w H \<longleftrightarrow> f \<le> faults w \<and> (faults w = f \<longrightarrow> live w = H)"

lemma owed_start: "owed live faults (faults w) w (live w)"
  by (simp add: owed_def)

lemma owed_fault: "f < faults w \<Longrightarrow> owed live faults f w H"
  by (simp add: owed_def)

lemma owed_same: "owed live faults f w H \<Longrightarrow> live w' = live w \<Longrightarrow> faults w' = faults w \<Longrightarrow> owed live faults f w' H"
  by (simp add: owed_def)

lemma owed_more: "owed live faults f w H \<Longrightarrow> live w' = live w + K \<Longrightarrow> faults w' = faults w \<Longrightarrow> owed live faults f w' (H + K)"
  by (simp add: owed_def)

lemma frees_owed:
  assumes "frees call kind live faults" "call p w = (b, w')" "owed live faults f w (base + owning kind p)"
  shows "owed live faults f w' base" "b \<Longrightarrow> faults w' = faults w" "\<not> b \<Longrightarrow> faults w < faults w'" "live w - owning kind p \<subseteq># live w'"
proof -
  have F: "if b then faults w' = faults w else faults w < faults w'" "b \<Longrightarrow> owning kind p \<subseteq># live w \<Longrightarrow> live w' = live w - owning kind p"
    "live w - owning kind p \<subseteq># live w'"
    using assms(1,2) unfolding frees_def by (metis fst_conv snd_conv)+
  show "b \<Longrightarrow> faults w' = faults w" "\<not> b \<Longrightarrow> faults w < faults w'" using F(1) by simp_all
  show "owed live faults f w' base"
  proof (cases "b \<and> faults w = f")
    case True
    then have "live w = base + owning kind p" using assms(3) by (simp add: owed_def)
    then show ?thesis using True F(1,2) by (simp add: owed_def)
  next
    case False
    then show ?thesis using F(1) assms(3) by (cases b) (auto simp: owed_def)
  qed
  show "live w - owning kind p \<subseteq># live w'" by (rule F(3))
qed

lemma memory_apiD:
  assumes "memory_api api live faults"
  shows "cudaMalloc api n w = (Some p, w') \<Longrightarrow> live w' = live w + owning DeviceMemory p \<and> faults w' = faults w"
    "cudaMalloc api n w = (None, w') \<Longrightarrow> live w' = live w \<and> faults w' = faults w"
    "cudaHostAlloc api n w = (Some p, w') \<Longrightarrow> live w' = live w + owning HostMemory p \<and> faults w' = faults w"
    "cudaHostAlloc api n w = (None, w') \<Longrightarrow> live w' = live w \<and> faults w' = faults w"
    "cudaStreamCreateWithFlags api w = (Some p, w') \<Longrightarrow> live w' = live w + owning StreamHandle p \<and> faults w' = faults w"
    "cudaStreamCreateWithFlags api w = (None, w') \<Longrightarrow> live w' = live w \<and> faults w' = faults w"
    "frees (cudaFree api) DeviceMemory live faults" "frees (cudaFreeHost api) HostMemory live faults" "frees (cudaStreamDestroy api) StreamHandle live faults"
    "cudaSetDevice api d w = (b, w') \<Longrightarrow> live w' = live w"
    "cudaSetDevice api d w = (b, w') \<Longrightarrow> if b then faults w' = faults w else faults w < faults w'"
    "cudaMemsetAsync api p n s w = (b, w') \<Longrightarrow> live w' = live w \<and> faults w' = faults w"
    "cudaStreamSynchronize api s w = (b, w') \<Longrightarrow> live w' = live w \<and> faults w' = faults w"
    "live (memset_host api p n w) = live w \<and> faults (memset_host api p n w) = faults w"
proof -
  note M = assms [unfolded memory_api_def]
  note M1 = conjunct1 [OF M] and N1 = conjunct2 [OF M]
  note M2 = conjunct1 [OF N1] and N2 = conjunct2 [OF N1]
  note M3 = conjunct1 [OF N2] and N3 = conjunct2 [OF N2]
  note M4 = conjunct1 [OF N3] and N4 = conjunct2 [OF N3]
  note M5 = conjunct1 [OF N4] and N5 = conjunct2 [OF N4]
  note M6 = conjunct1 [OF N5] and N6 = conjunct2 [OF N5]
  note M7 = conjunct1 [OF N6] and N7 = conjunct2 [OF N6]
  note M8 = conjunct1 [OF N7] and N8 = conjunct2 [OF N7]
  note M9 = conjunct1 [OF N8] and M10 = conjunct2 [OF N8]
  show "cudaMalloc api n w = (Some p, w') \<Longrightarrow> live w' = live w + owning DeviceMemory p \<and> faults w' = faults w"
    "cudaMalloc api n w = (None, w') \<Longrightarrow> live w' = live w \<and> faults w' = faults w"
    using M1 [rule_format, of n w] by (simp_all add: allocated_def)
  show "cudaHostAlloc api n w = (Some p, w') \<Longrightarrow> live w' = live w + owning HostMemory p \<and> faults w' = faults w"
    "cudaHostAlloc api n w = (None, w') \<Longrightarrow> live w' = live w \<and> faults w' = faults w"
    using M2 [rule_format, of n w] by (simp_all add: allocated_def)
  show "cudaStreamCreateWithFlags api w = (Some p, w') \<Longrightarrow> live w' = live w + owning StreamHandle p \<and> faults w' = faults w"
    "cudaStreamCreateWithFlags api w = (None, w') \<Longrightarrow> live w' = live w \<and> faults w' = faults w"
    using M3 [rule_format, of w] by (simp_all add: allocated_def)
  show "frees (cudaFree api) DeviceMemory live faults" "frees (cudaFreeHost api) HostMemory live faults" "frees (cudaStreamDestroy api) StreamHandle live faults"
    by (rule M4 M5 M6)+
  show "cudaSetDevice api d w = (b, w') \<Longrightarrow> live w' = live w"
    "cudaSetDevice api d w = (b, w') \<Longrightarrow> if b then faults w' = faults w else faults w < faults w'"
    using M7 [rule_format, of d w] by (auto split: if_splits)
  show "cudaMemsetAsync api p n s w = (b, w') \<Longrightarrow> live w' = live w \<and> faults w' = faults w" using M8 [rule_format, of p n s w] by simp
  show "cudaStreamSynchronize api s w = (b, w') \<Longrightarrow> live w' = live w \<and> faults w' = faults w" using M9 [rule_format, of s w] by simp
  show "live (memset_host api p n w) = live w \<and> faults (memset_host api p n w) = faults w" by (rule M10 [rule_format])
qed

lemma select_owed:
  assumes "memory_api api live faults" "cudaSetDevice api d w = (b, w')" "owed live faults f w H"
  shows "owed live faults f w' H" "\<not> b \<Longrightarrow> f < faults w'" "b \<Longrightarrow> faults w' = faults w"
  using memory_apiD(10,11) [OF assms(1,2)] assms(3) by (cases b; auto simp: owed_def)+

text \<open>The handles of an algorithm.\<close>

definition algo_owns :: "Algo \<Rightarrow> handle multiset" where
  "algo_owns a = owning DeviceMemory (d_outputMatrix a) + owning HostMemory (h_outputMatrix a)"

lemma new_algo_owns [simp]: "algo_owns (new_algo k) = {#}" "algo_class (new_algo k) = k" "algo_initialized (new_algo k) = False"
  by (simp_all add: algo_owns_def new_algo_def)

lemma algo_owns_empty: "algo_owns a = {#} \<longleftrightarrow> d_outputMatrix a = nullptr \<and> h_outputMatrix a = nullptr"
  by (auto simp: algo_owns_def owning_def split: option.splits)

text \<open>
  Closing gives back exactly what the algorithm has, or a call has failed; when the device cannot be selected
  the algorithm keeps its buffers.
\<close>

lemma algo_close_owed:
  assumes M: "memory_api api live faults" and w: "owed live faults f w (base + algo_owns a)"
  shows "\<exists>b a' w'. algo_close api a w = (b, a', w') \<and> owed live faults f w' base \<and> algo_class a' = algo_class a
    \<and> (b \<longrightarrow> faults w' = faults w) \<and> (a' = new_algo (algo_class a) \<or> a' = a \<and> \<not> b \<and> f < faults w')"
proof -
  note D = memory_apiD [OF M]
  let ?any = "d_outputMatrix a \<noteq> nullptr \<or> h_outputMatrix a \<noteq> nullptr" and ?h = "owning HostMemory (h_outputMatrix a)"
  obtain c w1 where 1: "(if ?any then cudaSetDevice api (algo_gpuId a) w else (True, w)) = (c, w1)" by fastforce
  have c: "owed live faults f w1 (base + ?h + owning DeviceMemory (d_outputMatrix a))" "\<not> c \<Longrightarrow> f < faults w1" "c \<Longrightarrow> faults w1 = faults w"
    using 1 w select_owed [OF M _ w] by (cases ?any; auto simp: algo_owns_def add_ac)+
  show ?thesis
  proof (cases c)
    case False
    have "algo_close api a w = (False, a, w1)" using False unfolding algo_close_def 1 Let_def by simp
    then show ?thesis using c(2) [OF False] by (intro exI [of _ False]) (simp add: owed_fault)
  next
    case True
    obtain ok1 w2 where 2: "(if d_outputMatrix a \<noteq> nullptr then cudaFree api (d_outputMatrix a) w1 else (True, w1)) = (ok1, w2)" by fastforce
    have ok1: "owed live faults f w2 (base + ?h)" "ok1 \<Longrightarrow> faults w2 = faults w1"
      using 2 c(1) frees_owed(1,2) [OF D(7) _ c(1)] by (cases "d_outputMatrix a = nullptr"; auto)+
    obtain ok2 w3 where 3: "(if h_outputMatrix a \<noteq> nullptr then cudaFreeHost api (h_outputMatrix a) w2 else (True, w2)) = (ok2, w3)" by fastforce
    have "owed live faults f w3 base" "ok2 \<Longrightarrow> faults w3 = faults w2"
      using 3 ok1(1) frees_owed(1,2) [OF D(8) _ ok1(1)] by (cases "h_outputMatrix a = nullptr"; auto)+
    moreover have "algo_close api a w = (ok1 \<and> ok2, new_algo (algo_class a), w3)"
      using True unfolding algo_close_def 1 Let_def prod.case 2 3 by simp
    ultimately show ?thesis using ok1(2) c(3) [OF True] by simp
  qed
qed

text \<open>
  An allocation that fails leaves nothing behind; one that succeeds leaves an initialised object that
  has both of its buffers.
\<close>

lemma algo_allocate_owed:
  assumes M: "memory_api api live faults" and a: "algo_owns a = {#}" and w: "owed live faults f w base"
  shows "\<exists>ok a' w'. algo_allocate api stream a w = (ok, a', w') \<and> owed live faults f w' (base + algo_owns a') \<and> algo_class a' = algo_class a
    \<and> (ok \<longrightarrow> faults w' = faults w \<and> algo_initialized a'
        \<and> a' = a\<lparr>d_outputMatrix := d_outputMatrix a', h_outputMatrix := h_outputMatrix a', algo_initialized := True\<rparr>)"
proof -
  note D = memory_apiD [OF M]
  have closed: "\<exists>c b' v'. algo_close api b v = (c, b', v') \<and> owed live faults f v' (base + algo_owns b') \<and> algo_class b' = algo_class a"
    if "algo_class b = algo_class a" "owed live faults f v (base + algo_owns b)" for b v
    using algo_close_owed [OF M that(2)] that(1) by (elim exE conjE disjE) (auto simp: owed_fault)
  have null: "d_outputMatrix a = nullptr" "h_outputMatrix a = nullptr" using a by (simp_all add: algo_owns_empty)
  obtain rd w1 where 1: "cudaMalloc api (matrixBytes a) w = (rd, w1)" by fastforce
  show ?thesis
  proof (cases rd)
    case None
    then have "owed live faults f w1 (base + algo_owns a)" using owed_same [OF w] 1 D(2) a by simp
    from closed [OF refl this] show ?thesis using 1 None by (auto simp: algo_allocate_def)
  next
    case (Some d)
    let ?a1 = "a\<lparr>d_outputMatrix := d\<rparr>"
    have o1: "algo_owns ?a1 = owning DeviceMemory d" using null by (simp add: algo_owns_def)
    have l1: "owed live faults f w1 (base + owning DeviceMemory d)" "faults w1 = faults w" using owed_more [OF w] 1 Some D(1) by simp_all
    obtain rh w2 where 2: "cudaHostAlloc api (matrixBytes a) w1 = (rh, w2)" by fastforce
    show ?thesis
    proof (cases rh)
      case None
      then have "owed live faults f w2 (base + algo_owns ?a1)" using owed_same [OF l1(1)] 2 D(4) o1 by simp
      from closed [OF _ this] show ?thesis using 1 2 Some None by (auto simp: algo_allocate_def)
    next
      case h: (Some h)
      let ?a2 = "a\<lparr>d_outputMatrix := d, h_outputMatrix := h\<rparr>"
      have o2: "algo_owns ?a2 = owning DeviceMemory d + owning HostMemory h" by (simp add: algo_owns_def)
      obtain ok w4 where 4: "cudaMemsetAsync api d (matrixBytes a) stream (memset_host api h (matrixBytes a) w2) = (ok, w4)" by fastforce
      have l2: "owed live faults f w2 (base + algo_owns ?a2)" "faults w2 = faults w"
        using owed_more [OF l1(1), of w2 "owning HostMemory h"] D(3) [OF 2 [unfolded h]] l1(2) o2 by (simp_all add: add.assoc)
      have l4: "owed live faults f w4 (base + algo_owns ?a2)" "faults w4 = faults w" using owed_same [OF l2(1)] D(12) [OF 4] D(14) l2(2) by simp_all
      show ?thesis
      proof (cases ok)
        case True
        then show ?thesis using 1 2 4 Some h l4 by (auto simp: algo_allocate_def algo_owns_def)
      next
        case False
        from closed [OF _ l4(1)] show ?thesis using 1 2 4 Some h False by (auto simp: algo_allocate_def)
      qed
    qed
  qed
qed

text \<open>What the code of a class differs in.\<close>

definition multiplier_of :: "algo_kind \<Rightarrow> int" where
  "multiplier_of k = (case k of CelAlgo \<Rightarrow> CEL_MULTIPLIER | SddAlgo \<Rightarrow> SDD_MULTIPLIER | MiAlgo \<Rightarrow> MI_MULTIPLIER)"

definition name_of :: "algo_kind \<Rightarrow> string" where
  "name_of k = (case k of CelAlgo \<Rightarrow> ''cel'' | SddAlgo \<Rightarrow> ''sdd'' | MiAlgo \<Rightarrow> ''mi'')"

lemma IAlgo_generic:
  "IAlgo_init api info r a w = algo_init (multiplier_of (algo_class a)) api info r a w"
  "IAlgo_notifyParameter v a = algo_notifyParameter v a"
  "IAlgo_launchKernels api r d s a w = algo_launchKernels 16 (algo_class a) api r d s a w"
  "IAlgo_launchD2H api r s a w = algo_launchD2H api r s a w"
  "IAlgo_collectResult api r a out w = algo_collectResult (name_of (algo_class a)) api r a out w"
  "IAlgo_close api a w = algo_close api a w"
  by (cases "algo_class a"; simp add: IAlgo_init_def IAlgo_notifyParameter_def IAlgo_launchKernels_def IAlgo_launchD2H_def IAlgo_collectResult_def
      IAlgo_close_def Cel_init_def Sdd_init_def Mi_init_def Cel_notifyParameter_def Sdd_notifyParameter_def Mi_notifyParameter_def
      Cel_launchKernels_def Sdd_launchKernels_def Mi_launchKernels_def Cel_launchD2H_def Sdd_launchD2H_def
      Mi_launchD2H_def Cel_collectResult_def Sdd_collectResult_def Mi_collectResult_def Cel_close_def Sdd_close_def Mi_close_def
      multiplier_of_def name_of_def CEL_BLOCK_DIM_def SDD_BLOCK_DIM_def MI_BLOCK_DIM_def)+

text \<open>An algorithm that is ready to work for a task.\<close>

definition algo_ready :: "AlgoRuntimeInfo \<Rightarrow> TaskGpuResources \<Rightarrow> Algo \<Rightarrow> bool" where
  "algo_ready info r a \<longleftrightarrow> algo_initialized a \<and> algo_resourceId a = resourceId r \<and> algo_gpuId a = res_gpuId r
     \<and> algo_frameW a = frameW info \<and> matrixSize a = scaledDimension (sizeFactor info) (multiplier_of (algo_class a))
     \<and> matrixBytes a = squareBytes (matrixSize a) 4"

lemma IAlgo_init_owed:
  assumes M: "memory_api api live faults" and w: "owed live faults f w (base + algo_owns a)"
  shows "\<exists>ok a' w'. IAlgo_init api info r a w = (ok, a', 0, w') \<and> owed live faults f w' (base + algo_owns a')
    \<and> algo_class a' = algo_class a \<and> (ok \<longrightarrow> faults w' = faults w \<and> algo_ready info r a')"
proof -
  let ?m = "multiplier_of (algo_class a)"
  define bad where "bad \<longleftrightarrow> resourceId r < 0 \<or> res_gpuId r < 0 \<or> res_stream r = nullptr \<or> \<not> isValidFactor (sizeFactor info)
    \<or> frameW info < scaledDimension (sizeFactor info) ?m \<or> frameH info < scaledDimension (sizeFactor info) ?m
    \<or> inBytes info < of_int (frameW info) * of_int (frameH info)"
  let ?rest = "\<lambda>a1 w1. let a2 = a1\<lparr>algo_gpuId := res_gpuId r, algo_resourceId := resourceId r, algo_frameW := frameW info,
        algo_frameH := frameH info, matrixSize := scaledDimension (sizeFactor info) ?m, algo_inBytes := inBytes info,
        matrixBytes := squareBytes (scaledDimension (sizeFactor info) ?m) 4\<rparr>
      in (case cudaSetDevice api (res_gpuId r) w1 of (False, w2) \<Rightarrow> (False, a2, 0, w2)
        | (True, w2) \<Rightarrow> (let (ok, a3, w3) = algo_allocate api (res_stream r) a2 w2 in (ok, a3, 0, w3)))"
  show ?thesis
  proof (cases bad)
    case True
    then have "algo_init ?m api info r a w = (False, a, 0, w)" by (auto simp: algo_init_def bad_def Let_def)
    then show ?thesis using w by (auto simp: IAlgo_generic)
  next
    case False
    obtain c a1 w1 where 1: "algo_close api a w = (c, a1, w1)" "owed live faults f w1 base" "algo_class a1 = algo_class a" "c \<longrightarrow> faults w1 = faults w"
        "a1 = new_algo (algo_class a) \<or> a1 = a \<and> \<not> c \<and> f < faults w1"
      using algo_close_owed [OF M w] by (elim exE conjE)
    show ?thesis
    proof (cases c)
      case c: False
      then have "algo_init ?m api info r a w = (False, a1, 0, w1)" using False 1(1) by (auto simp: algo_init_def bad_def Let_def)
      moreover have "owed live faults f w1 (base + algo_owns a1)" using 1(2,5) owed_fault by auto
      ultimately show ?thesis using 1(3) by (intro exI [of _ False]) (simp add: IAlgo_generic)
    next
      case True
      then have a1: "a1 = new_algo (algo_class a)" using 1(5) by simp
      let ?a2 = "(new_algo (algo_class a))\<lparr>algo_gpuId := res_gpuId r, algo_resourceId := resourceId r, algo_frameW := frameW info,
        algo_frameH := frameH info, matrixSize := scaledDimension (sizeFactor info) ?m, algo_inBytes := inBytes info,
        matrixBytes := squareBytes (scaledDimension (sizeFactor info) ?m) 4\<rparr>"
      have eq: "algo_init ?m api info r a w = ?rest (new_algo (algo_class a)) w1"
        using False 1(1) True a1 by (auto simp: algo_init_def bad_def Let_def)
      have own2: "algo_owns ?a2 = {#}" "algo_class ?a2 = algo_class a" by (simp_all add: algo_owns_def new_algo_def)
      obtain b w2 where 2: "cudaSetDevice api (res_gpuId r) w1 = (b, w2)" by fastforce
      note l2 = select_owed [OF M 2 1(2)]
      show ?thesis
      proof (cases b)
        case b: True
        from algo_allocate_owed [OF M own2(1) l2(1), of "res_stream r"] obtain ok a3 w3 where 3: "algo_allocate api (res_stream r) ?a2 w2 = (ok, a3, w3)"
            "owed live faults f w3 (base + algo_owns a3)" "algo_class a3 = algo_class ?a2"
            "ok \<longrightarrow> faults w3 = faults w2 \<and> algo_initialized a3
              \<and> a3 = ?a2\<lparr>d_outputMatrix := d_outputMatrix a3, h_outputMatrix := h_outputMatrix a3, algo_initialized := True\<rparr>"
          by (elim exE conjE)
        have "algo_ready info r a3" if fine: ok
        proof -
          obtain d h where "a3 = ?a2\<lparr>d_outputMatrix := d, h_outputMatrix := h, algo_initialized := True\<rparr>" using 3(4) fine by blast
          then show ?thesis by (simp add: algo_ready_def)
        qed
        then show ?thesis using eq 2 b 3 own2(2) l2(3) 1(4) True by (simp add: IAlgo_generic)
      next
        case b: False
        then show ?thesis using eq 2 l2(1) own2 by (auto simp: IAlgo_generic)
      qed
    qed
  qed
qed

end
