(* ===== verification/Demo_Task.thy ===== *)
theory Demo_Task
  imports Demo_Algo Parameter_Registry Static_Data Data_Access
begin

text \<open>
  \<open>demo/DummyTask.h\<close> and \<open>.cpp\<close>: a task with its GPU resources and its three algorithms.  The
  \<open>TaskGpuResources\<close> member is named by its address in the store of the context manager, which keeps
  pointers to it.  The parameter registry behind the task's pointer, the manager, the cache and the
  CUDA runtime are arguments.  \<open>execute\<close> is split where it calls \<open>getCacheData\<close>, which may wait.
\<close>

section \<open>The class\<close>

datatype TaskLifecycle = Constructed | Registered | Loaded | Started | Stopped | Failed | Unloaded

record DummyTask =
  task_id :: int
  executionModel :: ExecutionModel
  algoRuntime :: AlgoRuntimeInfo
  task_resources :: nat
  algorithms :: "Algo list"
  parameterRegistry :: ptr
  appliedParameterRevision :: u64
  task_state :: TaskLifecycle

definition NAME_PARAMETER :: string where "NAME_PARAMETER = ''dummy.name''"
definition BLOB_PARAMETER :: string where "BLOB_PARAMETER = ''dummy.blob''"

definition new_task :: "int \<Rightarrow> ExecutionModel \<Rightarrow> AlgoRuntimeInfo \<Rightarrow> nat \<Rightarrow> DummyTask" where
  "new_task instanceId model rt address = \<lparr>task_id = instanceId, executionModel = model, algoRuntime = rt, task_resources = address,
     algorithms = [], parameterRegistry = nullptr, appliedParameterRevision = 0, task_state = Constructed\<rparr>"

text \<open>A change of the resources by the task itself.\<close>

definition put_resources :: "nat \<Rightarrow> TaskGpuResources \<Rightarrow> GpuContextManager \<Rightarrow> GpuContextManager" where
  "put_resources t r M = M\<lparr>task_heap := (task_heap M)(t \<mapsto> r)\<rparr>"

subsection \<open>Parameters\<close>

definition registerParameters :: "nat \<Rightarrow> ParameterRegistry \<Rightarrow> DummyTask \<Rightarrow> bool \<times> ParameterRegistry \<times> DummyTask" where
  "registerParameters address R T =
     (if task_state T \<noteq> Constructed then (False, R, T)
      else let (ok1, R1) = registerParameter NAME_PARAMETER ParameterType_String R
           in if \<not> ok1 then (False, R1, T)
              else let (ok2, R2) = registerParameter BLOB_PARAMETER ParameterType_Bytes R1
                   in if \<not> ok2 then (False, R2, T)
                      else (True, R2, T\<lparr>parameterRegistry := Some address, task_state := Registered\<rparr>))"

fun notify_algorithms :: "AlgoParams \<Rightarrow> Algo list \<Rightarrow> bool \<times> Algo list" where
  "notify_algorithms v [] = (True, [])"
| "notify_algorithms v (a # as) = (case IAlgo_notifyParameter v a of
      (False, a') \<Rightarrow> (False, a' # as)
    | (True, a') \<Rightarrow> (let (ok, as') = notify_algorithms v as in (ok, a' # as')))"

definition applyParameters :: "ParameterSnapshot \<Rightarrow> DummyTask \<Rightarrow> bool \<times> DummyTask" where
  "applyParameters s T = (case getString s NAME_PARAMETER of
      None \<Rightarrow> (False, T)
    | Some name \<Rightarrow> (case getBytes s BLOB_PARAMETER of
        None \<Rightarrow> (False, T)
      | Some blob \<Rightarrow>
          let (ok, as) = notify_algorithms \<lparr>param_name = name, param_blob = blob\<rparr> (algorithms T);
              T1 = T\<lparr>algorithms := as\<rparr>
          in if \<not> ok then (False, T1) else (True, T1\<lparr>appliedParameterRevision := snap_revision s\<rparr>)))"

subsection \<open>Release\<close>

fun close_algorithms :: "('w, 'x) task_api_scheme \<Rightarrow> Algo list \<Rightarrow> 'w \<Rightarrow> bool \<times> Algo list \<times> 'w" where
  "close_algorithms api [] w = (True, [], w)"
| "close_algorithms api (a # as) w =
     (let (ok, a', w1) = IAlgo_close api a w; (oks, as', w2) = close_algorithms api as w1 in (ok \<and> oks, a' # as', w2))"

text \<open>\<open>algorithms.clear()\<close>: the destructors close again.\<close>

fun destroy_algorithms :: "('w, 'x) task_api_scheme \<Rightarrow> Algo list \<Rightarrow> 'w \<Rightarrow> 'w" where
  "destroy_algorithms api [] w = w"
| "destroy_algorithms api (a # as) w = destroy_algorithms api as (snd (snd (IAlgo_close api a w)))"

text \<open>Free one resource, if it is there.\<close>

definition give_back :: "(ptr \<Rightarrow> 'w \<Rightarrow> bool \<times> 'w) \<Rightarrow> ptr \<Rightarrow> 'w \<Rightarrow> bool \<times> 'w" where
  "give_back call p w = (if p \<noteq> nullptr then call p w else (True, w))"

definition free_task_buffers :: "('w, 'x) task_api_scheme \<Rightarrow> TaskGpuResources \<Rightarrow> 'w \<Rightarrow> bool \<times> TaskGpuResources \<times> 'w" where
  "free_task_buffers api r w =
     (let (ok1, w1) = give_back (cudaFree api) (d_scratch r) w;
          (ok2, w2) = give_back (cudaFree api) (d_input r) w1;
          (ok3, w3) = give_back (cudaFreeHost api) (h_in r) w2;
          (ok4, w4) = give_back (cudaStreamDestroy api) (res_stream r) w3
      in (ok1 \<and> ok2 \<and> ok3 \<and> ok4,
          r\<lparr>d_scratch := nullptr, res_scratchBytes := 0, d_input := nullptr, h_in := nullptr, res_stream := nullptr, res_inBytes := 0\<rparr>, w4))"

definition releaseResources :: "('w, 'x) task_api_scheme \<Rightarrow> DummyTask \<Rightarrow> GpuContextManager \<Rightarrow> 'w
    \<Rightarrow> (bool \<times> DummyTask \<times> GpuContextManager \<times> 'w) option" where
  "releaseResources api T M w = do {
     r \<leftarrow> task_heap M (task_resources T);
     (ok1, w1) \<leftarrow> (if ctx r \<noteq> nullptr then makeTaskCurrent api r M w else Some (True, w));
     let (ok2, w2) = give_back (cudaStreamSynchronize api) (res_stream r) w1;
     let (ok3, as, w3) = close_algorithms api (algorithms T) w2;
     let (ok4, r', w4) = free_task_buffers api r (destroy_algorithms api as w3);
     (ok5, M') \<leftarrow> unregisterTask (task_resources T) (put_resources (task_resources T) r' M);
     Some (ok1 \<and> ok2 \<and> ok3 \<and> ok4 \<and> ok5, T\<lparr>algorithms := []\<rparr>, M', w4)
   }"

subsection \<open>Load\<close>

fun init_algorithms :: "('w, 'x) task_api_scheme \<Rightarrow> AlgoRuntimeInfo \<Rightarrow> TaskGpuResources \<Rightarrow> Algo list \<Rightarrow> size_t \<Rightarrow> 'w
    \<Rightarrow> bool \<times> Algo list \<times> size_t \<times> 'w" where
  "init_algorithms api info r [] scratch w = (True, [], scratch, w)"
| "init_algorithms api info r (a # as) scratch w = (case IAlgo_init api info r a w of
      (False, a', _, w1) \<Rightarrow> (False, a' # as, scratch, w1)
    | (True, a', n, w1) \<Rightarrow> (let (ok, as', m, w2) = init_algorithms api info r as (max scratch n) w1 in (ok, a' # as', m, w2)))"

text \<open>The common scratch buffer and the synchronisation at the end of the device part.\<close>

definition load_scratch :: "('w, 'x) task_api_scheme \<Rightarrow> size_t \<Rightarrow> TaskGpuResources \<Rightarrow> 'w \<Rightarrow> bool \<times> TaskGpuResources \<times> 'w" where
  "load_scratch api scratch r w =
     (if scratch = 0 then (let (ok, w1) = cudaStreamSynchronize api (res_stream r) w in (ok, r, w1))
      else case cudaMalloc api scratch w of
          (None, w1) \<Rightarrow> (False, r, w1)
        | (Some d, w1) \<Rightarrow>
            let r1 = r\<lparr>d_scratch := d\<rparr>;
                (cleared, w2) = cudaMemsetAsync api d scratch (res_stream r) w1;
                r2 = r1\<lparr>res_scratchBytes := scratch\<rparr>
            in if \<not> cleared then (False, r2, w2)
               else (let (ok, w3) = cudaStreamSynchronize api (res_stream r) w2 in (ok, r2, w3)))"

text \<open>Stream, buffers, algorithms: every step only when the ones before succeeded.\<close>

definition load_resources :: "('w, 'x) task_api_scheme \<Rightarrow> AlgoRuntimeInfo \<Rightarrow> TaskGpuResources \<Rightarrow> 'w
    \<Rightarrow> bool \<times> Algo list \<times> TaskGpuResources \<times> 'w" where
  "load_resources api rt r0 w =
     (let r = r0\<lparr>res_inBytes := inBytes rt\<rparr>
      in case cudaStreamCreateWithFlags api w of
          (None, w1) \<Rightarrow> (False, [], r, w1)
        | (Some s, w1) \<Rightarrow>
            let r1 = r\<lparr>res_stream := s\<rparr>
            in case cudaHostAlloc api (inBytes rt) w1 of
                (None, w2) \<Rightarrow> (False, [], r1, w2)
              | (Some h, w2) \<Rightarrow>
                  let r2 = r1\<lparr>h_in := h\<rparr>; w3 = memset_host api h (inBytes rt) w2
                  in case cudaMalloc api (inBytes rt) w3 of
                      (None, w4) \<Rightarrow> (False, [], r2, w4)
                    | (Some d, w4) \<Rightarrow>
                        let r3 = r2\<lparr>d_input := d\<rparr>
                        in case cudaMemsetAsync api d (inBytes rt) s w4 of
                            (False, w5) \<Rightarrow> (False, [], r3, w5)
                          | (True, w5) \<Rightarrow>
                              (case init_algorithms api rt r3 [new_algo CelAlgo, new_algo SddAlgo, new_algo MiAlgo] 0 w5 of
                                 (False, as, _, w6) \<Rightarrow> (False, as, r3, w6)
                               | (True, as, scratch, w6) \<Rightarrow> (let (ok, r4, w7) = load_scratch api scratch r3 w6 in (ok, as, r4, w7))))"

definition load_failed :: "('w, 'x) task_api_scheme \<Rightarrow> DummyTask \<Rightarrow> GpuContextManager \<Rightarrow> 'w
    \<Rightarrow> (bool \<times> DummyTask \<times> GpuContextManager \<times> 'w) option" where
  "load_failed api T M w = do { (_, T', M', w') \<leftarrow> releaseResources api (T\<lparr>task_state := Failed\<rparr>) M w; Some (False, T', M', w') }"

text \<open>Find the GPU of the node and register with it.\<close>

definition load_register :: "u32 option \<Rightarrow> nat \<Rightarrow> GpuContextManager \<Rightarrow> (bool \<times> GpuContextManager) option" where
  "load_register getcpu t M = do {
     (found, gpuIds) \<leftarrow> gpuIdsForCurrentNumaNode getcpu M;
     if found then registerTask (hd gpuIds) t M else Some (False, M)
   }"

definition task_load :: "('w, 'x) task_api_scheme \<Rightarrow> u32 option \<Rightarrow> ParameterRegistry \<Rightarrow> DummyTask \<Rightarrow> GpuContextManager \<Rightarrow> 'w
    \<Rightarrow> (bool \<times> DummyTask \<times> GpuContextManager \<times> 'w) option" where
  "task_load api getcpu R T M w =
     (if task_state T \<noteq> Registered \<or> parameterRegistry T = nullptr then Some (False, T, M, w)
      else case snapshot R of
        None \<Rightarrow> Some (False, T, M, w)
      | Some initialParameters \<Rightarrow>
          if task_id T < 0 \<or> \<not> validRuntime (algoRuntime T) then Some (False, T, M, w)
          else do {
            (registered, M1) \<leftarrow> load_register getcpu (task_resources T) M;
            if \<not> registered then load_failed api T M1 w
            else do {
              r \<leftarrow> task_heap M1 (task_resources T);
              (current, w1) \<leftarrow> makeTaskCurrent api r M1 w;
              if \<not> current then load_failed api T M1 w1
              else
                let (ok, as, r', w2) = load_resources api (algoRuntime T) r w1;
                    M2 = put_resources (task_resources T) r' M1;
                    T1 = T\<lparr>algorithms := as\<rparr>;
                    (ok2, T2) = (if ok then applyParameters initialParameters T1 else (False, T1))
                in if ok2 then Some (True, T2\<lparr>task_state := Loaded\<rparr>, M2, w2) else load_failed api T2 M2 w2
            }
          })"

subsection \<open>Lifecycle\<close>

definition notifyParameters :: "('w, 'x) task_api_scheme \<Rightarrow> ParameterSnapshot \<Rightarrow> DummyTask \<Rightarrow> GpuContextManager \<Rightarrow> 'w
    \<Rightarrow> (bool \<times> DummyTask \<times> 'w) option" where
  "notifyParameters api s T M w =
     (if task_state T \<noteq> Loaded \<and> task_state T \<noteq> Started \<and> task_state T \<noteq> Stopped then Some (False, T, w)
      else if snap_revision s < appliedParameterRevision T then Some (False, T, w)
      else if snap_revision s = appliedParameterRevision T then Some (True, T, w)
      else do {
        r \<leftarrow> task_heap M (task_resources T);
        (current, w1) \<leftarrow> makeTaskCurrent api r M w;
        let (ok, T1) = (if current then applyParameters s T else (False, T));
        Some (if ok then (True, T1, w1) else (False, T1\<lparr>task_state := Failed\<rparr>, w1))
      })"

definition task_start :: "DummyTask \<Rightarrow> bool \<times> DummyTask" where
  "task_start T = (if task_state T \<noteq> Loaded then (False, T) else (True, T\<lparr>task_state := Started\<rparr>))"

definition task_stop :: "DummyTask \<Rightarrow> bool \<times> DummyTask" where
  "task_stop T = (if task_state T \<noteq> Started then (False, T) else (True, T\<lparr>task_state := Stopped\<rparr>))"

definition task_unload :: "('w, 'x) task_api_scheme \<Rightarrow> DummyTask \<Rightarrow> GpuContextManager \<Rightarrow> 'w
    \<Rightarrow> (bool \<times> DummyTask \<times> GpuContextManager \<times> 'w) option" where
  "task_unload api T M w =
     (if task_state T = Unloaded then Some (True, T, M, w)
      else if task_state T = Started then Some (False, T, M, w)
      else do {
        (ok, T1, M1, w1) \<leftarrow> releaseResources api T M w;
        Some (ok, T1\<lparr>parameterRegistry := nullptr, appliedParameterRevision := 0, task_state := Unloaded\<rparr>, M1, w1)
      })"

definition task_delete :: "('w, 'x) task_api_scheme \<Rightarrow> DummyTask \<Rightarrow> GpuContextManager \<Rightarrow> 'w
    \<Rightarrow> (bool \<times> DummyTask \<times> GpuContextManager \<times> 'w) option" where
  "task_delete api T M w = task_unload api (if task_state T = Started then snd (task_stop T) else T) M w"

section \<open>Execution\<close>

definition result_ok :: "bool \<Rightarrow> FrameCpuAtom \<Rightarrow> FrameCpuAtom" where
  "result_ok b atom = atom\<lparr>atom_result := (atom_result atom)\<lparr>job_ok := b\<rparr>\<rparr>"

text \<open>
  \<open>execute\<close> up to the call of \<open>getCacheData\<close>: the frame with its result so far, and the request, unless
  \<open>execute\<close> has returned \<open>false\<close>.
\<close>

definition execute_begin :: "('w, 'x) task_api_scheme \<Rightarrow> FrameCpuAtom \<Rightarrow> DummyTask \<Rightarrow> GpuContextManager \<Rightarrow> 'w
    \<Rightarrow> (FrameCpuAtom \<times> GpuCacheRequest option \<times> 'w) option" where
  "execute_begin api atom0 T M w = do {
     r \<leftarrow> task_heap M (task_resources T);
     let md = atom_metadata atom0;
     let atom = atom0\<lparr>atom_result := (atom_result atom0)\<lparr>job_id := frameId (key md)\<rparr>\<rparr>;
     if task_state T \<noteq> Started then Some (result_ok False atom, None, w)
     else if length (atom_data atom) \<noteq> unat (bytes md) \<or> bytes md \<noteq> res_inBytes r \<or> width md \<noteq> frameW (algoRuntime T)
       \<or> height md \<noteq> frameH (algoRuntime T) \<or> dtype md \<noteq> frameDtype (algoRuntime T) then Some (result_ok False atom, None, w)
     else if d_input r = nullptr \<or> length (outputs (atom_result atom)) \<noteq> length (algorithms T) then Some (result_ok False atom, None, w)
     else do {
       (current, w1) \<leftarrow> makeTaskCurrent api r M w;
       if \<not> current then Some (result_ok False atom, None, w1)
       else Some (result_ok True atom,
              Some \<lparr>req_gpuId = res_gpuId r, req_stream = res_stream r, d_fallback = d_input r, fallbackBytes = res_inBytes r\<rparr>, w1)
     }
   }"

text \<open>The upload of a frame that is not resident: to pinned memory, then to the device.\<close>

definition upload_frame :: "('w, 'x) task_api_scheme \<Rightarrow> TaskGpuResources \<Rightarrow> u8 list \<Rightarrow> GpuDataAccess \<Rightarrow> 'w \<Rightarrow> bool \<times> 'w" where
  "upload_frame api r frame a w =
     (if accessStatus a = CacheFill \<or> accessStatus a = TaskFallback
      then repeat_call GPUINFRA_H2D_SIZE_MULTIPLIER (cudaMemcpyAsync api (writableData a, 0) (h_in r) (res_inBytes r) (accessStream a))
             (memcpy_to_host api (h_in r) frame w)
      else (True, w))"

fun launch_all :: "(Algo \<Rightarrow> 'w \<Rightarrow> bool \<times> 'w) \<Rightarrow> Algo list \<Rightarrow> 'w \<Rightarrow> bool \<times> 'w" where
  "launch_all launch [] w = (True, w)"
| "launch_all launch (a # as) w = (case launch a w of (False, w1) \<Rightarrow> (False, w1) | (True, w1) \<Rightarrow> launch_all launch as w1)"

text \<open>Kernels and copies, in the order of the execution model.\<close>

definition submit_work :: "('w, 'x) task_api_scheme \<Rightarrow> TaskGpuResources \<Rightarrow> ExecutionModel \<Rightarrow> Algo list \<Rightarrow> ptr \<Rightarrow> stream \<Rightarrow> 'w \<Rightarrow> bool \<times> 'w" where
  "submit_work api r model as d s w = (case model of
      Batched \<Rightarrow> (case launch_all (IAlgo_launchKernels api r d s) as w of
          (False, w1) \<Rightarrow> (False, w1)
        | (True, w1) \<Rightarrow> launch_all (IAlgo_launchD2H api r s) as w1)
    | Interleaved \<Rightarrow> launch_all (\<lambda>a v. case IAlgo_launchKernels api r d s a v of (False, v1) \<Rightarrow> (False, v1) | (True, v1) \<Rightarrow> IAlgo_launchD2H api r s a v1) as w
    | OtherModel _ \<Rightarrow> (False, w))"

definition submit_frame :: "('w, 'x) task_api_scheme \<Rightarrow> TaskGpuResources \<Rightarrow> DummyTask \<Rightarrow> u8 list \<Rightarrow> GpuDataAccess \<Rightarrow> 'w \<Rightarrow> bool \<times> 'w" where
  "submit_frame api r T frame a w = (case upload_frame api r frame a w of
      (False, w1) \<Rightarrow> (False, w1)
    | (True, w1) \<Rightarrow> submit_work api r (executionModel T) (algorithms T) (accessData a) (accessStream a) w1)"

text \<open>
  One output for each algorithm: an atom with another number of outputs was refused when \<open>execute\<close> began, so the last equation is used for two empty lists only.
\<close>

fun collect_results :: "('w, 'x) task_api_scheme \<Rightarrow> TaskGpuResources \<Rightarrow> Algo list \<Rightarrow> AlgoOutput list \<Rightarrow> 'w \<Rightarrow> bool \<times> AlgoOutput list" where
  "collect_results api r (a # as) (out # outs) w = (case IAlgo_collectResult api r a out w of
      (False, out') \<Rightarrow> (False, out' # outs)
    | (True, out') \<Rightarrow> (let (ok, outs') = collect_results api r as outs w in (ok, out' # outs')))"
| "collect_results api r as outs w = (True, outs)"

text \<open>\<open>execute\<close> after \<open>getCacheData\<close> returned an access.\<close>

definition execute_access :: "('w, 'x) task_api_scheme \<Rightarrow> TaskGpuResources \<Rightarrow> FrameCpuAtom \<Rightarrow> DummyTask \<Rightarrow> GpuDataAccess \<Rightarrow> GpuDataCache \<Rightarrow> 'w
    \<Rightarrow> (bool \<times> FrameCpuAtom \<times> GpuDataAccess \<times> GpuDataCache \<times> 'w) option" where
  "execute_access api r atom T a c w =
     (if accessStatus a = Invalid then Some (False, result_ok False atom, a, c, w)
      else let (submitted, w1) = submit_frame api r T (atom_data atom) a w
           in do {
                (freed, a', c', w2) \<leftarrow> freeCacheData api a submitted Keep c w1;
                let (ok, outs) = (if submitted \<and> freed then collect_results api r (algorithms T) (outputs (atom_result atom)) w2
                                  else (False, outputs (atom_result atom)));
                Some (ok, atom\<lparr>atom_result := (atom_result atom)\<lparr>job_ok := ok, outputs := outs\<rparr>\<rparr>, a', c', w2)
              })"

end
