(* ===== verification/Task_Ownership.thy ===== *)
theory Task_Ownership
  imports Demo_Task
begin

text \<open>
  What a task holds of the runtime's resources, and that it gives all of it back: after a load that
  failed at whatever call, and when it is unloaded, as long as its device can be selected and its handles can be freed.
\<close>

section \<open>The handles of a task\<close>

definition algos_own :: "Algo list \<Rightarrow> handle multiset" where
  "algos_own as = (\<Sum>a\<leftarrow>as. algo_owns a)"

definition resources_own :: "TaskGpuResources \<Rightarrow> handle multiset" where
  "resources_own r = owning StreamHandle (res_stream r) + owning HostMemory (h_in r) + owning DeviceMemory (d_input r)
     + owning DeviceMemory (d_scratch r)"

lemma algos_own_simps [simp]: "algos_own [] = {#}" "algos_own (a # as) = algo_owns a + algos_own as"
  by (simp_all add: algos_own_def)

definition idle_resources :: "TaskGpuResources \<Rightarrow> bool" where
  "idle_resources r \<longleftrightarrow> resources_own r = {#} \<and> res_scratchBytes r = 0"

lemma resources_own_empty:
  "resources_own r = {#} \<longleftrightarrow> res_stream r = nullptr \<and> h_in r = nullptr \<and> d_input r = nullptr \<and> d_scratch r = nullptr"
  by (auto simp: resources_own_def owning_def split: option.splits)

lemma owed_trans: "owed alive faults (faults w) w' (alive w) \<Longrightarrow> owed alive faults f w H \<Longrightarrow> owed alive faults f w' H"
  by (auto simp: owed_def)

section \<open>Closing\<close>

lemma close_algorithms_owed:
  assumes M: "memory_api api alive faults" and w: "owed alive faults f w (base + algos_own as)"
  shows "\<exists>b as' w'. close_algorithms api as w = (b, as', w') \<and> owed alive faults f w' (base + algos_own as')"
  using w
proof (induction as arbitrary: w base)
  case (Cons a as)
  have "owed alive faults f w ((base + algos_own as) + algo_owns a)" using Cons.prems by (simp add: add_ac)
  from algo_close_owed [OF M this] obtain b a' w1 where 1: "algo_close api a w = (b, a', w1)" "owed alive faults f w1 (base + algos_own as)"
      "a' = new_algo (algo_class a) \<or> a' = a \<and> \<not> b \<and> f < faults w1" by (elim exE conjE)
  have "owed alive faults f w1 ((base + algo_owns a') + algos_own as)" using 1(2,3) owed_fault by auto
  from Cons.IH [OF this] obtain c as' w2 where "close_algorithms api as w1 = (c, as', w2)" "owed alive faults f w2 (base + algo_owns a' + algos_own as')"
    by (elim exE conjE)
  then show ?case using 1(1) by (simp add: IAlgo_generic add_ac)
qed auto

lemma destroy_algorithms_owed:
  assumes M: "memory_api api alive faults" and w: "owed alive faults f w (base + algos_own as)"
  shows "owed alive faults f (destroy_algorithms api as w) base"
  using w
proof (induction as arbitrary: w)
  case (Cons a as)
  have "owed alive faults f w ((base + algos_own as) + algo_owns a)" using Cons.prems by (simp add: add_ac)
  from algo_close_owed [OF M this] obtain b a' w1 where "algo_close api a w = (b, a', w1)" "owed alive faults f w1 (base + algos_own as)"
    by (elim exE conjE)
  then show ?case using Cons.IH by (simp add: IAlgo_generic)
qed simp

lemma give_back_owed:
  assumes free: "frees call kind alive faults" and w: "owed alive faults f w (base + owning kind p)"
  shows "\<exists>b w'. give_back call p w = (b, w') \<and> owed alive faults f w' base"
proof (cases p)
  case (Some a)
  obtain b w' where "call p w = (b, w')" by fastforce
  then show ?thesis using frees_owed(1) [OF free _ w] Some by (auto simp: give_back_def)
qed (use w in \<open>simp add: give_back_def exI [of _ True]\<close>)

lemma give_back_calls:
  assumes M: "memory_api api alive faults"
  shows "owed alive faults f w (base + owning DeviceMemory p) \<Longrightarrow> \<exists>b w'. give_back (cudaFree api) p w = (b, w') \<and> owed alive faults f w' base"
    "owed alive faults f w (base + owning HostMemory p) \<Longrightarrow> \<exists>b w'. give_back (cudaFreeHost api) p w = (b, w') \<and> owed alive faults f w' base"
    "owed alive faults f w (base + owning StreamHandle p) \<Longrightarrow> \<exists>b w'. give_back (cudaStreamDestroy api) p w = (b, w') \<and> owed alive faults f w' base"
  by (erule give_back_owed [OF memory_apiD(7) [OF M]], erule give_back_owed [OF memory_apiD(8) [OF M]], erule give_back_owed [OF memory_apiD(9) [OF M]])

lemma give_back_sync:
  assumes M: "memory_api api alive faults" and "owed alive faults f w H" "give_back (cudaStreamSynchronize api) p w = (b, w')"
  shows "owed alive faults f w' H"
  using assms(3) owed_same [OF assms(2)] memory_apiD(13) [OF M] assms(2) by (auto simp: give_back_def split: if_splits)

definition cleared :: "TaskGpuResources \<Rightarrow> TaskGpuResources" where
  "cleared r = r\<lparr>d_scratch := nullptr, res_scratchBytes := 0, d_input := nullptr, h_in := nullptr, res_stream := nullptr, res_inBytes := 0\<rparr>"

lemma free_task_buffers_owed:
  assumes M: "memory_api api alive faults" and w: "owed alive faults f w (base + resources_own r)"
  shows "\<exists>b w'. free_task_buffers api r w = (b, cleared r, w') \<and> owed alive faults f w' base"
proof -
  let ?s = "owning StreamHandle (res_stream r)" and ?h = "owning HostMemory (h_in r)" and ?d = "owning DeviceMemory (d_input r)"
  have "owed alive faults f w ((base + ?s + ?h + ?d) + owning DeviceMemory (d_scratch r))" using w by (simp add: resources_own_def add_ac)
  from give_back_calls(1) [OF M this] obtain b1 w1 where 1: "give_back (cudaFree api) (d_scratch r) w = (b1, w1)" "owed alive faults f w1 (base + ?s + ?h + ?d)"
    by (elim exE conjE)
  from give_back_calls(1) [OF M 1(2)] obtain b2 w2 where 2: "give_back (cudaFree api) (d_input r) w1 = (b2, w2)" "owed alive faults f w2 (base + ?s + ?h)"
    by (elim exE conjE)
  from give_back_calls(2) [OF M 2(2)] obtain b3 w3 where 3: "give_back (cudaFreeHost api) (h_in r) w2 = (b3, w3)" "owed alive faults f w3 (base + ?s)"
    by (elim exE conjE)
  from give_back_calls(3) [OF M 3(2)] obtain b4 w4 where "give_back (cudaStreamDestroy api) (res_stream r) w3 = (b4, w4)" "owed alive faults f w4 base"
    by (elim exE conjE)
  then show ?thesis using 1(1) 2(1) 3(1) by (simp add: free_task_buffers_def cleared_def)
qed

lemma makeTaskCurrent_outcome:
  assumes M: "memory_api api alive faults" and ok: "manager_ok N" and t: "task_heap N t = Some r"
  shows "\<exists>b w'. makeTaskCurrent api r N w = Some (b, w') \<and> alive w' = alive w \<and> faults w \<le> faults w' \<and> (b \<longrightarrow> faults w' = faults w)"
proof (cases "ctx r")
  case (Some a)
  then obtain c where c: "context_heap N a = Some c" using manager_okD(4) [OF ok t Some] by auto
  obtain b w' where s: "cudaSetDevice api (res_gpuId r) w = (b, w')" by fastforce
  then show ?thesis using Some c memory_apiD(10,11) [OF M s] by (cases b) (auto simp: makeTaskCurrent_def)
qed (auto simp: makeTaskCurrent_def)

lemma makeTaskCurrent_owed:
  assumes "owed alive faults f w H" "alive w' = alive w" "faults w \<le> faults w'"
  shows "owed alive faults f w' H"
  using assms by (auto simp: owed_def)

text \<open>
  Whatever happens on the way, the release empties the task and frees the slot of the registry; and every handle is
  freed, or a selection or a release has failed.
\<close>

lemma releaseResources_outcome:
  assumes M: "memory_api api alive faults" and ok: "manager_ok N" and t: "task_heap N (task_resources T) = Some r"
    and w: "owed alive faults f w (base + algos_own (algorithms T) + resources_own r)"
  shows "\<exists>b N' w'. releaseResources api T N w = Some (b, T\<lparr>algorithms := []\<rparr>, N', w') \<and> owed alive faults f w' base \<and> manager_ok N'
    \<and> (\<exists>r'. task_heap N' = (task_heap N)(task_resources T \<mapsto> r') \<and> ctx r' = nullptr \<and> idle_resources r' \<and> res_inBytes r' = 0)"
proof -
  let ?t = "task_resources T"
  have "\<exists>ok1 w1. (if ctx r \<noteq> nullptr then makeTaskCurrent api r N w else Some (True, w)) = Some (ok1, w1) \<and> alive w1 = alive w \<and> faults w \<le> faults w1"
    using makeTaskCurrent_outcome [OF M ok t, of w] by auto
  then obtain ok1 w1 where 1: "(if ctx r \<noteq> nullptr then makeTaskCurrent api r N w else Some (True, w)) = Some (ok1, w1)" "alive w1 = alive w" "faults w \<le> faults w1"
    by (elim exE conjE)
  obtain ok2 w2 where 2: "give_back (cudaStreamSynchronize api) (res_stream r) w1 = (ok2, w2)" by fastforce
  have l2: "owed alive faults f w2 ((base + resources_own r) + algos_own (algorithms T))"
    using give_back_sync [OF M makeTaskCurrent_owed [OF w 1(2,3)] 2] by (simp add: add_ac)
  from close_algorithms_owed [OF M l2] obtain ok3 as w3 where 3: "close_algorithms api (algorithms T) w2 = (ok3, as, w3)"
      "owed alive faults f w3 ((base + resources_own r) + algos_own as)" by (elim exE conjE)
  from free_task_buffers_owed [OF M destroy_algorithms_owed [OF M 3(2)]] obtain ok4 w4 where 4:
      "free_task_buffers api r (destroy_algorithms api as w3) = (ok4, cleared r, w4)" "owed alive faults f w4 base" by (elim exE conjE)
  let ?N1 = "put_resources ?t (cleared r) N"
  have "registration (task_heap N ?t) = registration (Some (cleared r))" using t by (simp add: registration_def cleared_def)
  then have ok1': "manager_ok ?N1" using task_change_ok [OF ok] by (simp add: put_resources_def)
  have t1: "task_heap ?N1 ?t = Some (cleared r)" by (simp add: put_resources_def)
  have idle: "idle_resources (cleared r)" "res_inBytes (cleared r) = 0" by (simp_all add: idle_resources_def resources_own_empty cleared_def)
  obtain N' r' where 5: "unregisterTask ?t ?N1 = Some (True, N')" "task_heap N' = (task_heap N)(?t \<mapsto> r')" "ctx r' = nullptr"
      "idle_resources r'" "res_inBytes r' = 0"
    using ok1' t1
  proof (cases rule: unregister_outcome)
    case free
    then show ?thesis using that [of ?N1 "cleared r"] idle by (simp add: put_resources_def)
  next
    case (bound a c i)
    then show ?thesis using that [OF bound(5)] idle by (simp add: put_resources_def idle_resources_def resources_own_def)
  qed
  have "releaseResources api T N w = Some (ok1 \<and> ok2 \<and> ok3 \<and> ok4, T\<lparr>algorithms := []\<rparr>, N', w4)"
    using t 1(1) 2 3(1) 4(1) 5(1) by (simp add: releaseResources_def)
  then show ?thesis using 4(2) 5 unregister_ok [OF ok1' 5(1)] by blast
qed

section \<open>Loading\<close>

lemma init_algorithms_owed:
  assumes M: "memory_api api alive faults" and w: "owed alive faults f w (base + algos_own as)"
  shows "\<exists>b as' w'. init_algorithms api rt r as n w = (b, as', n, w') \<and> owed alive faults f w' (base + algos_own as')
    \<and> map algo_class as' = map algo_class as \<and> (b \<longrightarrow> faults w' = faults w \<and> (\<forall>a\<in>set as'. algo_ready rt r a))"
  using w
proof (induction as arbitrary: w base)
  case (Cons a as)
  have "owed alive faults f w ((base + algos_own as) + algo_owns a)" using Cons.prems by (simp add: add_ac)
  from IAlgo_init_owed [OF M this, of rt r]
  obtain b a' w1 where 1: "IAlgo_init api rt r a w = (b, a', 0, w1)" "owed alive faults f w1 ((base + algo_owns a') + algos_own as)"
      "algo_class a' = algo_class a" "b \<longrightarrow> faults w1 = faults w \<and> algo_ready rt r a'" by (auto simp: add_ac)
  show ?case
  proof (cases b)
    case True
    from Cons.IH [OF 1(2)] obtain b' as' w2 where "init_algorithms api rt r as n w1 = (b', as', n, w2)"
        "owed alive faults f w2 (base + algo_owns a' + algos_own as')" "map algo_class as' = map algo_class as"
        "b' \<longrightarrow> faults w2 = faults w1 \<and> (\<forall>a\<in>set as'. algo_ready rt r a)" by (elim exE conjE)
    then show ?thesis using 1 True by (auto simp: add_ac)
  next
    case False
    then have "init_algorithms api rt r (a # as) n w = (False, a' # as, n, w1)" using 1(1) by simp
    then show ?thesis using 1(2,3) by (intro exI [of _ False] exI [of _ "a' # as"] exI [of _ w1]) (simp add: add_ac)
  qed
qed auto

text \<open>A task that has loaded.\<close>

definition loaded :: "AlgoRuntimeInfo \<Rightarrow> Algo list \<Rightarrow> TaskGpuResources \<Rightarrow> bool" where
  "loaded rt as r \<longleftrightarrow> map algo_class as = [CelAlgo, SddAlgo, MiAlgo] \<and> (\<forall>a\<in>set as. algo_ready rt r a)
     \<and> res_stream r \<noteq> nullptr \<and> d_input r \<noteq> nullptr \<and> res_inBytes r = inBytes rt \<and> 0 \<le> resourceId r \<and> 0 \<le> res_gpuId r"

lemma init_checks:
  assumes "IAlgo_init api rt r a w = (True, a', n, w')"
  shows "0 \<le> resourceId r \<and> 0 \<le> res_gpuId r \<and> res_stream r \<noteq> nullptr"
  using assms by (auto simp: IAlgo_generic algo_init_def split: if_splits)

lemma init_algorithms_checks:
  assumes "init_algorithms api rt r (a # as) n w = (True, as', m, w')"
  shows "0 \<le> resourceId r \<and> 0 \<le> res_gpuId r \<and> res_stream r \<noteq> nullptr"
proof -
  obtain b a' k w1 where 1: "IAlgo_init api rt r a w = (b, a', k, w1)" by (metis prod_cases4)
  then have b using assms by (cases b) auto
  with 1 have "IAlgo_init api rt r a w = (True, a', k, w1)" by simp
  then show ?thesis by (rule init_checks)
qed

lemma load_resources_owed:
  assumes M: "memory_api api alive faults" and mem: "malloc_gives_memory api" and r0: "idle_resources r0" and w: "owed alive faults f w base"
    and n: "inBytes rt \<noteq> 0"
  shows "\<exists>b as r w'. load_resources api rt r0 w = (b, as, r, w') \<and> owed alive faults f w' (base + algos_own as + resources_own r)
    \<and> same_registration r0 r \<and> (b \<longrightarrow> faults w' = faults w \<and> loaded rt as r)"
proof -
  note D = memory_apiD [OF M]
  have null: "res_stream r0 = nullptr" "h_in r0 = nullptr" "d_input r0 = nullptr" "d_scratch r0 = nullptr"
    using r0 by (simp_all add: idle_resources_def resources_own_empty)
  let ?r1 = "r0\<lparr>res_inBytes := inBytes rt\<rparr>"
  have failed: ?thesis if "load_resources api rt r0 w = (False, [], r, v)" "owed alive faults f v (base + resources_own r)" "same_registration r0 r" for r v
    using that by (intro exI [of _ False] exI [of _ "[]"] exI [of _ r] exI [of _ v]) simp
  obtain rs w1 where 1: "cudaStreamCreateWithFlags api w = (rs, w1)" by fastforce
  show ?thesis
  proof (cases rs)
    case None
    show ?thesis
      by (rule failed [of ?r1 w1]) (use 1 None owed_same [OF w] D(6) null in \<open>simp_all add: load_resources_def resources_own_def same_registration_def\<close>)
  next
    case s: (Some s)
    have l1: "owed alive faults f w1 (base + owning StreamHandle s)" "faults w1 = faults w" using owed_more [OF w] D(5) [OF 1 [unfolded s]] by simp_all
    obtain rh w2 where 2: "cudaHostAlloc api (inBytes rt) w1 = (rh, w2)" by fastforce
    show ?thesis
    proof (cases rh)
      case None
      show ?thesis
        by (rule failed [of "?r1\<lparr>res_stream := s\<rparr>" w2])
          (use 1 2 s None owed_same [OF l1(1)] D(4) null in \<open>simp_all add: load_resources_def resources_own_def same_registration_def\<close>)
    next
      case h: (Some h)
      have l2: "owed alive faults f w2 (base + owning StreamHandle s + owning HostMemory h)" "faults w2 = faults w"
        using owed_more [OF l1(1)] D(3) [OF 2 [unfolded h]] l1(2) by simp_all
      let ?w3 = "memset_host api h (inBytes rt) w2"
      have l3: "owed alive faults f ?w3 (base + owning StreamHandle s + owning HostMemory h)" "faults ?w3 = faults w" using owed_same [OF l2(1)] D(14) l2(2) by simp_all
      obtain rd w4 where 4: "cudaMalloc api (inBytes rt) ?w3 = (rd, w4)" by fastforce
      show ?thesis
      proof (cases rd)
        case None
        show ?thesis
          by (rule failed [of "?r1\<lparr>res_stream := s, h_in := h\<rparr>" w4])
            (use 1 2 4 s h None owed_same [OF l3(1)] D(2) null in \<open>simp_all add: load_resources_def resources_own_def same_registration_def add.assoc\<close>)
      next
        case d: (Some d)
        let ?r = "r0\<lparr>res_inBytes := inBytes rt, res_stream := s, h_in := h, d_input := d\<rparr>"
        have d0: "d \<noteq> nullptr" using mem n 4 d unfolding malloc_gives_memory_def by blast
        have l4: "owed alive faults f w4 (base + resources_own ?r)" "faults w4 = faults w"
          using owed_more [OF l3(1), of w4 "owning DeviceMemory d"] D(1) [OF 4 [unfolded d]] l3(2) null by (simp_all add: resources_own_def add.assoc)
        obtain b5 w5 where 5: "cudaMemsetAsync api d (inBytes rt) s w4 = (b5, w5)" by fastforce
        have l5: "owed alive faults f w5 (base + resources_own ?r)" "faults w5 = faults w" using owed_same [OF l4(1)] D(12) [OF 5] l4(2) by simp_all
        show ?thesis
        proof (cases b5)
          case False
          show ?thesis
            by (rule failed [of ?r w5]) (use 1 2 4 5 s h d False l5 in \<open>simp_all add: load_resources_def same_registration_def\<close>)
        next
          case True
          let ?as = "[new_algo CelAlgo, new_algo SddAlgo, new_algo MiAlgo]"
          have "owed alive faults f w5 ((base + resources_own ?r) + algos_own ?as)" using l5 by simp
          from init_algorithms_owed [OF M this, of rt ?r 0]
          obtain b6 as w6 where 6: "init_algorithms api rt ?r ?as 0 w5 = (b6, as, 0, w6)" "owed alive faults f w6 (base + resources_own ?r + algos_own as)"
              "map algo_class as = map algo_class ?as" "b6 \<longrightarrow> faults w6 = faults w5 \<and> (\<forall>a\<in>set as. algo_ready rt ?r a)"
            by (elim exE conjE)
          have l6: "owed alive faults f w6 (base + algos_own as + resources_own ?r)" using 6(2) by (simp add: add_ac)
          show ?thesis
          proof (cases b6)
            case False
            then have "load_resources api rt r0 w = (False, as, ?r, w6)" using 1 2 4 5 6(1) s h d True by (simp add: load_resources_def)
            then show ?thesis using l6 by (intro exI [of _ False] exI [of _ as] exI [of _ ?r] exI [of _ w6]) (simp add: same_registration_def)
          next
            case b6: True
            obtain b7 w7 where 7: "cudaStreamSynchronize api s w6 = (b7, w7)" by fastforce
            have "0 \<le> resourceId ?r \<and> 0 \<le> res_gpuId ?r \<and> res_stream ?r \<noteq> nullptr"
              using init_algorithms_checks 6(1) b6 by (metis (full_types))
            then have l: "loaded rt as ?r" using 6 b6 d0 by (simp add: loaded_def)
            have "load_resources api rt r0 w = (b7, as, ?r, w7)" using 1 2 4 5 6(1) 7 s h d True b6 by (simp add: load_resources_def load_scratch_def)
            moreover have "owed alive faults f w7 (base + algos_own as + resources_own ?r)" "faults w7 = faults w"
              using owed_same [OF l6] D(13) [OF 7] 6(4) b6 l5(2) by simp_all
            ultimately show ?thesis using l by (intro exI [of _ b7] exI [of _ as] exI [of _ ?r] exI [of _ w7]) (simp add: same_registration_def)
          qed
        qed
      qed
    qed
  qed
qed

text \<open>New parameters change nothing else of an algorithm.\<close>

definition same_algo :: "Algo \<Rightarrow> Algo \<Rightarrow> bool" where
  "same_algo a a' \<longleftrightarrow> (\<exists>u. a' = a\<lparr>algoParams := u\<rparr>)"

lemma same_algo_refl: "same_algo a a"
  unfolding same_algo_def by (intro exI [of _ "algoParams a"]) simp

lemma same_algo_facts:
  assumes "same_algo a a'"
  shows "algo_owns a' = algo_owns a" "algo_class a' = algo_class a"
    "algo_ready rt r a' = algo_ready rt r a"
  using assms by (auto simp: same_algo_def algo_owns_def algo_ready_def)

lemma notify_algorithms_same: "notify_algorithms v as = (b, as') \<Longrightarrow> list_all2 same_algo as as'"
proof (induction as arbitrary: b as')
  case (Cons a as)
  obtain c a1 where a: "algo_notifyParameter v a = (c, a1)" by fastforce
  then have same: "same_algo a a1" using same_algo_refl [of a] by (auto simp: algo_notifyParameter_def same_algo_def split: if_splits)
  obtain d bs where rec: "notify_algorithms v as = (d, bs)" by fastforce
  have "list_all2 same_algo as as" by (simp add: list_all2_conv_all_nth same_algo_refl)
  then show ?case using Cons.prems Cons.IH [OF rec] a rec same by (cases c) (auto simp: IAlgo_generic)
qed simp

lemma same_algos_facts:
  assumes "list_all2 same_algo as as'"
  shows "algos_own as' = algos_own as"
    "loaded rt as' r \<longleftrightarrow> loaded rt as r"
proof -
  show "algos_own as' = algos_own as" using assms by (induction rule: list_all2_induct) (simp_all add: same_algo_facts(1))
  have "map algo_class as' = map algo_class as" using assms by (induction rule: list_all2_induct) (simp_all add: same_algo_facts(2))
  moreover have "(\<forall>a\<in>set as'. algo_ready rt r a) \<longleftrightarrow> (\<forall>a\<in>set as. algo_ready rt r a)"
    using assms by (induction rule: list_all2_induct) (simp_all add: same_algo_facts(3))
  ultimately show "loaded rt as' r \<longleftrightarrow> loaded rt as r" by (simp add: loaded_def)
qed

lemma applyParameters_same:
  assumes "applyParameters s T = (b, T')"
  shows "\<exists>as n. T' = T\<lparr>algorithms := as, appliedParameterRevision := n\<rparr> \<and> list_all2 same_algo (algorithms T) as \<and> (b \<longrightarrow> n = snap_revision s)"
proof -
  have refl: "list_all2 same_algo (algorithms T) (algorithms T)" by (simp add: list_all2_conv_all_nth same_algo_refl)
  have id: "T = T\<lparr>algorithms := algorithms T, appliedParameterRevision := appliedParameterRevision T\<rparr>" by simp
  show ?thesis
  proof (cases "getString s NAME_PARAMETER = None \<or> getBytes s BLOB_PARAMETER = None")
    case True
    then have "T' = T" "\<not> b" using assms by (auto simp: applyParameters_def split: option.splits)
    then show ?thesis using refl id by blast
  next
    case False
    then obtain name blob where "getString s NAME_PARAMETER = Some name" "getBytes s BLOB_PARAMETER = Some blob" by auto
    moreover obtain c as where n: "notify_algorithms \<lparr>param_name = name, param_blob = blob\<rparr> (algorithms T) = (c, as)" by fastforce
    ultimately have "T' = T\<lparr>algorithms := as, appliedParameterRevision := (if c then snap_revision s else appliedParameterRevision T)\<rparr>" "b = c"
      using assms by (auto simp: applyParameters_def Let_def split: if_splits)
    then show ?thesis using notify_algorithms_same [OF n] by (intro exI conjI) auto
  qed
qed

section \<open>Load and unload\<close>

lemma load_register_outcome:
  assumes ok: "manager_ok N" and t: "task_heap N t = Some r" "ctx r = nullptr" and room: "\<not> crammed N"
  shows "\<exists>b N1. load_register getcpu t N = Some (b, N1) \<and> manager_ok N1
    \<and> (if b then \<exists>a i g. task_heap N1 = (task_heap N)(t \<mapsto> r\<lparr>resourceId := i, res_gpuId := g, ctx := Some a\<rparr>) else N1 = N)"
proof -
  obtain ls where ls: "gpuLocations N = Some ls" 
    using gpu_locations_defined [of "contexts N" "context_heap N"] listed_context [OF manager_okD(1) [OF ok]] by (auto simp: gpuLocations_def)
  have "gpuIdsForCurrentNumaNode getcpu N \<noteq> None" using ls by (auto simp: gpuIdsForCurrentNumaNode_def)
  then obtain f ids where ids: "gpuIdsForCurrentNumaNode getcpu N = Some (f, ids)" by auto
  show ?thesis
  proof (cases "f \<and> register_allowed (hd ids) r N")
    case True
    then have run: "load_register getcpu t N = register_locked (hd ids) t r N" using ids t(1) by (simp add: load_register_def registerTask_def)
    show ?thesis
      using manager_okD(1) [OF ok] t(1)
    proof (cases rule: register_locked_outcome [where gpu = "hd ids"])
      case unknown
      then show ?thesis using run ok by auto
    next
      case (bound a c i slots)
      then show ?thesis using run register_ok [OF ok t room bound(5)] by auto
    qed
  next
    case False
    then have "load_register getcpu t N = Some (False, N)" using ids t(1) by (auto simp: load_register_def registerTask_def)
    then show ?thesis using ok by auto
  qed
qed

text \<open>The task has nothing: no algorithm, no handle, no slot.\<close>

definition task_empty :: "DummyTask \<Rightarrow> GpuContextManager \<Rightarrow> bool" where
  "task_empty T N \<longleftrightarrow> algorithms T = [] \<and> (\<exists>r. task_heap N (task_resources T) = Some r \<and> ctx r = nullptr \<and> idle_resources r)"

text \<open>The task has all it needs to run, and the handles \<open>hs\<close>.\<close>

definition task_ready :: "DummyTask \<Rightarrow> GpuContextManager \<Rightarrow> handle multiset \<Rightarrow> bool" where
  "task_ready T N hs \<longleftrightarrow> (\<exists>r. task_heap N (task_resources T) = Some r \<and> ctx r \<noteq> nullptr \<and> loaded (algoRuntime T) (algorithms T) r
     \<and> hs = algos_own (algorithms T) + resources_own r)"

lemma load_failed_outcome:
  assumes M: "memory_api api alive faults" and ok: "manager_ok N" and t: "task_heap N (task_resources T) = Some r"
    and w: "owed alive faults f w (base + algos_own (algorithms T) + resources_own r)"
  shows "\<exists>T' N' w'. load_failed api T N w = Some (False, T', N', w') \<and> owed alive faults f w' base \<and> manager_ok N' \<and> task_empty T' N' \<and> task_state T' = Failed"
proof -
  let ?T = "T\<lparr>task_state := Failed\<rparr>"
  have t': "task_heap N (task_resources ?T) = Some r" and w': "owed alive faults f w (base + algos_own (algorithms ?T) + resources_own r)"
    using t w by simp_all
  from releaseResources_outcome [OF M ok t' w'] show ?thesis by (elim exE conjE) (simp add: load_failed_def task_empty_def)
qed

lemma task_load_outcome:
  assumes M: "memory_api api alive faults" and mem: "malloc_gives_memory api" and ok: "manager_ok N" and room: "\<not> crammed N" and e: "task_empty T N"
  shows "\<exists>b T' N' w'. task_load api getcpu R T N w = Some (b, T', N', w') \<and> manager_ok N'
    \<and> (if b then task_state T' = Loaded \<and> appliedParameterRevision T' = revisionNumber R
           \<and> faults w' = faults w \<and> (\<exists>hs. task_ready T' N' hs \<and> alive w' = alive w + hs)
       else task_empty T' N' \<and> owed alive faults (faults w) w' (alive w) \<and> (task_state T' = Failed \<or> (T', N', w') = (T, N, w)))"
proof -
  let ?t = "task_resources T"
  obtain r where r: "task_heap N ?t = Some r" "ctx r = nullptr" "idle_resources r" "algorithms T = []" using e by (auto simp: task_empty_def)
  show ?thesis
  proof (cases "task_state T \<noteq> Registered \<or> parameterRegistry T = nullptr \<or> snapshot R = None \<or> task_id T < 0 \<or> \<not> validRuntime (algoRuntime T)")
    case True
    then have "task_load api getcpu R T N w = Some (False, T, N, w)" by (auto simp: task_load_def split: option.splits)
    then show ?thesis using ok e owed_start by (intro exI [of _ False]) simp
  next
    case False
    then obtain y where G: "task_state T = Registered" "parameterRegistry T = Some y" "\<not> task_id T < 0" "validRuntime (algoRuntime T)" by auto
    from False obtain p where p: "snapshot R = Some p" "snap_revision p = revisionNumber R" by (auto simp: snapshot_def split: if_splits)
    have n: "inBytes (algoRuntime T) \<noteq> 0" using new_atom_layout [OF G(4)] by (simp add: Let_def)
    obtain b N1 where 1: "load_register getcpu ?t N = Some (b, N1)" "manager_ok N1"
        "if b then \<exists>a i g. task_heap N1 = (task_heap N)(?t \<mapsto> r\<lparr>resourceId := i, res_gpuId := g, ctx := Some a\<rparr>) else N1 = N"
      using load_register_outcome [OF ok r(1,2) room] by blast
    have w0: "owed alive faults (faults w) w (alive w + algos_own (algorithms T) + resources_own r)" using r owed_start by (simp add: idle_resources_def)
    show ?thesis
    proof (cases b)
      case False
      then have "task_load api getcpu R T N w = load_failed api T N w" using G 1 p by (simp add: task_load_def)
      then show ?thesis using load_failed_outcome [OF M ok r(1) w0] by (elim exE conjE) (simp add: exI [of _ False])
    next
      case b: True
      then obtain a i g where N1: "task_heap N1 = (task_heap N)(?t \<mapsto> r\<lparr>resourceId := i, res_gpuId := g, ctx := Some a\<rparr>)" using 1(3) by auto
      let ?r = "r\<lparr>resourceId := i, res_gpuId := g, ctx := Some a\<rparr>"
      have t1: "task_heap N1 ?t = Some ?r" using N1 by simp
      have r1: "idle_resources ?r" "resources_own ?r = {#}" using r(3) by (simp_all add: idle_resources_def resources_own_def)
      obtain c where c: "context_heap N1 a = Some c" using manager_okD(4) [OF 1(2) t1, of a] by auto
      from makeTaskCurrent_outcome [OF M 1(2) t1, of w]
      obtain cur w1 where 2: "makeTaskCurrent api ?r N1 w = Some (cur, w1)" "alive w1 = alive w" "faults w \<le> faults w1" "cur \<longrightarrow> faults w1 = faults w"
        by (elim exE conjE)
      have l1: "owed alive faults (faults w) w1 (alive w)" by (rule makeTaskCurrent_owed [OF owed_start 2(2,3)])
      show ?thesis
      proof (cases cur)
        case False
        have w1: "owed alive faults (faults w) w1 (alive w + algos_own (algorithms T) + resources_own ?r)" using l1 r1(2) r(4) by simp
        have "task_load api getcpu R T N w = load_failed api T N1 w1" using G 1(1) b p t1 2(1) False by (simp add: task_load_def)
        then show ?thesis using load_failed_outcome [OF M 1(2) t1 w1] by (elim exE conjE) (simp add: exI [of _ False])
      next
        case cur: True
        obtain ok3 as r3 w3 where 3: "load_resources api (algoRuntime T) ?r w1 = (ok3, as, r3, w3)"
            "owed alive faults (faults w) w3 (alive w + algos_own as + resources_own r3)"
            "same_registration ?r r3" "ok3 \<longrightarrow> faults w3 = faults w1 \<and> loaded (algoRuntime T) as r3"
          using load_resources_owed [OF M mem r1(1) l1 n] by (elim exE conjE)
        let ?N2 = "put_resources ?t r3 N1" and ?T1 = "T\<lparr>algorithms := as\<rparr>"
        have ctx3: "ctx r3 = Some a" "registration (task_heap N1 ?t) = registration (Some r3)"
          using 3(3) t1 by (auto simp: same_registration_def registration_def)
        have N2: "manager_ok ?N2" "task_heap ?N2 ?t = Some r3"
          using task_change_ok [OF 1(2) ctx3(2)] by (simp_all add: put_resources_def)
        obtain ok4 T2 where 4: "(if ok3 then applyParameters p ?T1 else (False, ?T1)) = (ok4, T2)" by fastforce
        have run: "task_load api getcpu R T N w = (if ok4 then Some (True, T2\<lparr>task_state := Loaded\<rparr>, ?N2, w3) else load_failed api T2 ?N2 w3)"
          using G 1(1) b p t1 2(1) cur 3(1) 4 by (simp add: task_load_def)
        obtain as2 n2 where T2: "T2 = ?T1\<lparr>algorithms := as2, appliedParameterRevision := n2\<rparr>" "list_all2 same_algo as as2"
            "ok4 \<longrightarrow> ok3 \<and> n2 = snap_revision p"
        proof (cases ok3)
          case True
          then have "applyParameters p ?T1 = (ok4, T2)" using 4 by simp
          from applyParameters_same [OF this] that True show ?thesis by auto
        next
          case False
          then have "T2 = ?T1\<lparr>algorithms := as, appliedParameterRevision := appliedParameterRevision T\<rparr>" "\<not> ok4" using 4 by auto
          moreover have "list_all2 same_algo as as" by (simp add: list_all2_conv_all_nth same_algo_refl)
          ultimately show ?thesis using that [of "appliedParameterRevision T" as] by simp
        qed
        note S = same_algos_facts [OF T2(2)]
        have w3: "owed alive faults (faults w) w3 (alive w + algos_own (algorithms T2) + resources_own r3)"
          and tr: "task_resources T2 = ?t" "algoRuntime T2 = algoRuntime T" using 3(2) S T2(1) by auto
        show ?thesis
        proof (cases ok4)
          case True
          then have "loaded (algoRuntime T) (algorithms T2) r3" using S(2) T2 3(4) by simp
          then have "task_ready (T2\<lparr>task_state := Loaded\<rparr>) ?N2 (algos_own (algorithms T2) + resources_own r3)"
            using N2(2) ctx3(1) tr by (simp add: task_ready_def)
          moreover have "faults w3 = faults w" "alive w3 = alive w + (algos_own (algorithms T2) + resources_own r3)"
            using w3 3(4) 2(4) cur T2(3) True by (simp_all add: owed_def add_ac)
          ultimately show ?thesis using run True N2(1) T2(1,3) p(2) by auto
        next
          case False
          have "task_heap ?N2 (task_resources T2) = Some r3" using N2(2) tr by simp
          from load_failed_outcome [OF M N2(1) this w3] show ?thesis using run False by (elim exE conjE) (simp add: exI [of _ False])
        qed
      qed
    qed
  qed
qed

lemma task_unload_outcome:
  assumes M: "memory_api api alive faults" and ok: "manager_ok N" and r: "task_ready T N hs"
    and w: "owed alive faults f w (base + hs)" and st: "task_state T \<noteq> Started" "task_state T \<noteq> Unloaded"
  shows "\<exists>b T' N' w'. task_unload api T N w = Some (b, T', N', w') \<and> owed alive faults f w' base \<and> manager_ok N' \<and> task_empty T' N'
    \<and> task_state T' = Unloaded \<and> parameterRegistry T' = nullptr"
proof -
  obtain r where r: "task_heap N (task_resources T) = Some r" "hs = algos_own (algorithms T) + resources_own r" using r by (auto simp: task_ready_def)
  have "owed alive faults f w (base + algos_own (algorithms T) + resources_own r)" using w r(2) by (simp add: add_ac)
  from releaseResources_outcome [OF M ok r(1) this] show ?thesis using st by (elim exE conjE) (simp add: task_unload_def task_empty_def)
qed

section \<open>Properties\<close>

text \<open>
  C20.  Loading a task is all or nothing.  It returns; when it answers \<open>true\<close> the task has its three
  algorithms, all initialised for its GPU and stream, its buffers and a registered slot, it applied the
  parameters of the current revision, and the live handles of the runtime are those before plus exactly the handles it
  owns.  Otherwise, whichever call failed, the task owns nothing and is not registered; and the live
  handles are those before, unless on the way a device could not be selected or a handle could not be freed: the
  account \<open>faults\<close> counts these calls, and the claim about the handles is made where it has not changed.
\<close>

theorem task_load_all_or_nothing:
  assumes "manager_starts api M0" "steps (manager_step api) M0 N" "\<not> crammed N" "memory_api api alive faults" "malloc_gives_memory api" "task_empty T N"
  shows "\<exists>b T' N' w'. task_load api getcpu R T N w = Some (b, T', N', w')
    \<and> (if b then task_state T' = Loaded \<and> appliedParameterRevision T' = revisionNumber R \<and> (\<exists>hs. task_ready T' N' hs \<and> alive w' = alive w + hs)
       else task_empty T' N' \<and> (alive w' = alive w \<or> faults w < faults w') \<and> (task_state T' = Failed \<or> (T', N', w') = (T, N, w)))"
proof -
  have ok: "manager_ok N" using mgr.reached_invar [OF assms(1,2)] by blast
  from task_load_outcome [OF assms(4,5) ok assms(3,6), of getcpu R w] show ?thesis
    by (elim exE conjE) (auto simp: owed_def split: if_splits)
qed

text \<open>
  Unloading undoes loading.  A task that was loaded gives back every handle and its slot when it is
  unloaded, at once or after it was started and stopped, and the live handles are those before the
  load, unless a selection or a release failed; while it is started the unload is refused without any effect.
\<close>

theorem load_unload_roundtrip:
  assumes "manager_starts api M0" "steps (manager_step api) M0 N" "\<not> crammed N" "memory_api api alive faults" "malloc_gives_memory api" "task_empty T N"
    and load: "task_load api getcpu R T N w = Some (True, T1, N1, w1)"
  shows "fst (task_start T1) \<and> task_unload api (snd (task_start T1)) N1 w1 = Some (False, snd (task_start T1), N1, w1)
    \<and> fst (task_stop (snd (task_start T1)))
    \<and> (\<forall>T2\<in>{T1, snd (task_stop (snd (task_start T1)))}. \<exists>b T3 N3 w3. task_unload api T2 N1 w1 = Some (b, T3, N3, w3)
        \<and> (alive w3 = alive w \<or> faults w < faults w3) \<and> task_empty T3 N3 \<and> task_state T3 = Unloaded)"
proof -
  have ok: "manager_ok N" using mgr.reached_invar [OF assms(1,2)] by blast
  obtain hs where L: "manager_ok N1" "task_state T1 = Loaded" "task_ready T1 N1 hs" "alive w1 = alive w + hs" "faults w1 = faults w"
    using task_load_outcome [OF assms(4,5) ok assms(3,6), of getcpu R w] load by auto
  have w1: "owed alive faults (faults w) w1 (alive w + hs)" using L(4,5) by (simp add: owed_def)
  have "\<exists>b T3 N3 w3. task_unload api T2 N1 w1 = Some (b, T3, N3, w3) \<and> (alive w3 = alive w \<or> faults w < faults w3) \<and> task_empty T3 N3 \<and> task_state T3 = Unloaded"
    if "T2 = T1 \<or> T2 = T1\<lparr>task_state := Stopped\<rparr>" for T2
  proof -
    have "task_ready T2 N1 hs" "task_state T2 \<noteq> Started" "task_state T2 \<noteq> Unloaded"
      using that L by (auto simp: task_ready_def)
    from task_unload_outcome [OF assms(4) L(1) this(1) w1 this(2,3)] show ?thesis by (elim exE conjE) (auto simp: owed_def)
  qed
  then show ?thesis using L(2) by (auto simp: task_start_def task_stop_def task_unload_def)
qed

end
