(* ===== verification/Task_Samples.thy ===== *)
theory Task_Samples
  imports Task_Ownership
begin

text \<open>
  A concrete runtime with one GPU in which every call succeeds, and a task loaded on it.  The state of
  the runtime is the next free address and the live handles.
\<close>

type_synonym sample_world = "nat \<times> handle multiset"

definition sample_task_api :: "sample_world task_api" where
  "sample_task_api = \<lparr>
     cudaGetDevice = \<lambda>w. (Some 0, w), cudaSetDevice = \<lambda>d w. (True, w),
     cudaMalloc = \<lambda>n (k, H). (Some (Some k), (k + 1, add_mset (DeviceMemory k) H)),
     cudaFree = \<lambda>p (k, H). (True, (k, H - owning DeviceMemory p)),
     cudaStreamCreateWithFlags = \<lambda>(k, H). (Some (Some k), (k + 1, add_mset (StreamHandle k) H)),
     cudaStreamSynchronize = \<lambda>s w. (True, w), cudaStreamDestroy = \<lambda>p (k, H). (True, (k, H - owning StreamHandle p)),
     cudaMemsetAsync = \<lambda>p n s w. (True, w), cudaMemcpyAsync = \<lambda>d p n s w. (True, w),
     cudaMemGetInfo = \<lambda>w. (Some (0, 0), w),
     cuInit = \<lambda>w. (True, w), cudaGetDeviceCount = \<lambda>w. (Some 1, w),
     cudaDeviceGetPCIBusId = \<lambda>g w. (Some ''0000:3B:00.0'', w),
     cuDeviceGet = \<lambda>g w. (Some g, w), cuDevicePrimaryCtxRetain = \<lambda>d w. (Some (Some 5), w),
     cuDevicePrimaryCtxRelease = \<lambda>d w. (True, w),
     cuCtxGetId = \<lambda>p w. (Some 9, w), cudaGetDeviceProperties = \<lambda>g w. (True, w), has_ctx_id = True,
     read_file = \<lambda>f w. (Some ''0'', w),
     new_context = \<lambda>h w. (if h 100 = None then Some 100 else None, w),
     cudaHostAlloc = \<lambda>n (k, H). (Some (Some k), (k + 1, add_mset (HostMemory k) H)),
     cudaFreeHost = \<lambda>p (k, H). (True, (k, H - owning HostMemory p)),
     cudaGetLastError = \<lambda>w. (True, w), launch_kernel = \<lambda>kind g b s i out n stride w. w,
     memset_host = \<lambda>p n w. w, memcpy_to_host = \<lambda>p xs w. w, memcpy_from_host = \<lambda>p n w. replicate (unat n) 0\<rparr>"

lemma sample_task_api_documented:
  "memory_api sample_task_api snd (\<lambda>_. 0)" "malloc_gives_memory sample_task_api" "manager_starts sample_task_api (new_manager Map.empty)"
  by (auto simp: memory_api_def frees_def malloc_gives_memory_def manager_starts_def new_is_fresh_def sample_task_api_def allocated_def split: if_splits)

definition sample_context :: GpuContext where
  "sample_context = new_gpu_context\<lparr>ctx_gpuId := 0, ctx_numaNode := 0, device := 0, primaryCtx := Some 5, driverContextId := 9, driverContextIdKnown := True\<rparr>"

definition sample_gpu_manager :: GpuContextManager where
  "sample_gpu_manager = \<lparr>contexts = [Some 100], initialised = True, context_heap = [100 \<mapsto> sample_context], task_heap = [3 \<mapsto> new_resources]\<rparr>"

lemma sample_gpu_init:
  "manager_init sample_task_api True (new_manager Map.empty) w = Some (True, sample_gpu_manager\<lparr>task_heap := Map.empty\<rparr>, w)"
proof -
  have "node_of_gpu sample_task_api True g w = (0, w)" for g w
    using sample_nodes sample_paths by (simp add: node_of_gpu_def probeNumaNodeOfGpu_def sample_task_api_def)
  then show ?thesis
    by (simp add: manager_init_def init_gpu_def retain_context_def new_manager_def new_gpu_context_def sample_task_api_def sample_gpu_manager_def
        sample_context_def)
qed

lemma sample_gpu_reached: "steps (manager_step sample_task_api) (new_manager Map.empty) sample_gpu_manager"
proof -
  have s1: "steps (manager_step sample_task_api) (new_manager Map.empty) (sample_gpu_manager\<lparr>task_heap := Map.empty\<rparr>)"
    by (rule steps_one) (rule manager_step.init [OF sample_gpu_init])
  have "manager_step sample_task_api (sample_gpu_manager\<lparr>task_heap := Map.empty\<rparr>)
      ((sample_gpu_manager\<lparr>task_heap := Map.empty\<rparr>)\<lparr>task_heap := (task_heap (sample_gpu_manager\<lparr>task_heap := Map.empty\<rparr>))(3 \<mapsto> new_resources)\<rparr>)"
    by (rule manager_step.create) simp
  from steps.more [OF s1 this] show ?thesis by (simp add: sample_gpu_manager_def)
qed

definition sample_runtime :: AlgoRuntimeInfo where
  "sample_runtime = \<lparr>inBytes = 16384, sizeFactor = 16, frameW = 128, frameH = 128, frameDtype = 0\<rparr>"

definition sample_parameters :: ParameterRegistry where
  "sample_parameters = snd (seal (snd (setBytes BLOB_PARAMETER [1] (snd (setString NAME_PARAMETER ''n''
     (fst (snd (registerParameters 8 new_registry (new_task 0 Batched sample_runtime 3)))))))))"

definition sample_demo_task :: DummyTask where
  "sample_demo_task = snd (snd (registerParameters 8 new_registry (new_task 0 Batched sample_runtime 3)))"

lemma sample_runtime_valid: "validRuntime sample_runtime"
  by (simp add: validRuntime_def isValidFactor_def scaledDimension_def squareBytes_def sizing_defs sample_runtime_def)

lemma sample_parameters_sealed:
  "snapshot sample_parameters = Some \<lparr>snap_values = reg_values sample_parameters, snap_revision = 2\<rparr>"
  "revisionNumber sample_parameters = 2" "getString \<lparr>snap_values = reg_values sample_parameters, snap_revision = 2\<rparr> NAME_PARAMETER = Some ''n''"
  "getBytes \<lparr>snap_values = reg_values sample_parameters, snap_revision = 2\<rparr> BLOB_PARAMETER = Some [1]"
  by code_simp+

lemma sample_demo_task_eq: "sample_demo_task = (new_task 0 Batched sample_runtime 3)\<lparr>parameterRegistry := Some 8, task_state := Registered\<rparr>"
  by (simp add: sample_demo_task_def registerParameters_def new_task_def registerParameter_def new_registry_def NAME_PARAMETER_def BLOB_PARAMETER_def
      lookup_update_iff Mapping.lookup_empty)

lemma sample_demo_empty: "task_empty sample_demo_task sample_gpu_manager"
  by (simp add: task_empty_def sample_demo_task_eq new_task_def sample_gpu_manager_def new_resources_def idle_resources_def resources_own_def)

lemma sample_gpu_room: "\<not> crammed sample_gpu_manager"
  by (auto simp: crammed_def sample_gpu_manager_def sample_context_def new_gpu_context_def split: if_splits)

lemma sample_register: "load_register (Some 0) 3 sample_gpu_manager
    = Some (True, sample_gpu_manager\<lparr>context_heap := [100 \<mapsto> sample_context\<lparr>taskResources := [Some 3]\<rparr>],
        task_heap := [3 \<mapsto> new_resources\<lparr>resourceId := 0, res_gpuId := 0, ctx := Some 100\<rparr>]\<rparr>)"
  by (simp add: load_register_def gpuIdsForCurrentNumaNode_def gpuLocations_def sample_gpu_manager_def sample_context_def new_gpu_context_def
      currentNumaNode_def resolveGpuIds_def registerTask_def register_allowed_def register_locked_def new_resources_def INT_MAX_def)

lemma sample_calls_task:
  "cudaStreamCreateWithFlags sample_task_api (k, H) = (Some (Some k), (k + 1, add_mset (StreamHandle k) H))"
  "cudaHostAlloc sample_task_api n (k, H) = (Some (Some k), (k + 1, add_mset (HostMemory k) H))"
  "cudaMalloc sample_task_api n (k, H) = (Some (Some k), (k + 1, add_mset (DeviceMemory k) H))"
  "memset_host sample_task_api p n w = w" "cudaMemsetAsync sample_task_api p n s w = (True, w)" "cudaStreamSynchronize sample_task_api s w = (True, w)"
  "cudaSetDevice sample_task_api d w = (True, w)"
  by (simp_all add: sample_task_api_def)

text \<open>The load of the sample task succeeds.\<close>

definition sample_loaded_manager :: "TaskGpuResources \<Rightarrow> GpuContextManager" where
  "sample_loaded_manager r = sample_gpu_manager\<lparr>context_heap := [100 \<mapsto> sample_context\<lparr>taskResources := [Some 3]\<rparr>], task_heap := [3 \<mapsto> r]\<rparr>"

lemma sample_loads:
  "\<exists>T r w. task_load sample_task_api (Some 0) sample_parameters sample_demo_task sample_gpu_manager (1, {#}) = Some (True, T, sample_loaded_manager r, w)"
proof -
  let ?r = "new_resources\<lparr>resourceId := 0, res_gpuId := 0, ctx := Some 100\<rparr>"
  have init: "\<exists>a w'. IAlgo_init sample_task_api sample_runtime r (new_algo k) w = (True, a, 0, w') \<and> algo_initialized a"
    if "resourceId r = 0" "res_gpuId r = 0" "res_stream r \<noteq> nullptr" for r k w
    using that by (cases w; cases k) (auto simp: IAlgo_generic algo_init_def algo_allocate_def algo_close_def new_algo_def sample_task_api_def sample_runtime_def
        isValidFactor_def scaledDimension_def multiplier_of_def sizing_defs)
  have algos: "\<exists>as w'. init_algorithms sample_task_api sample_runtime r (map new_algo ks) 0 w = (True, as, 0, w') \<and> (\<forall>a\<in>set as. algo_initialized a)"
    if r: "resourceId r = 0" "res_gpuId r = 0" "res_stream r \<noteq> nullptr" for r ks w
  proof (induction ks arbitrary: w)
    case (Cons k ks)
    obtain a w1 where "IAlgo_init sample_task_api sample_runtime r (new_algo k) w = (True, a, 0, w1)" "algo_initialized a" using init [OF r] by blast
    then show ?case using Cons.IH [of w1] by auto
  qed simp
  let ?r3 = "?r\<lparr>res_inBytes := inBytes sample_runtime, res_stream := Some 1, h_in := Some 2, d_input := Some 3\<rparr>"
  let ?w = "(4, {#DeviceMemory 3, HostMemory 2, StreamHandle 1#})"
  have "\<exists>as w'. init_algorithms sample_task_api sample_runtime ?r3 [new_algo CelAlgo, new_algo SddAlgo, new_algo MiAlgo] 0 ?w = (True, as, 0, w')
      \<and> (\<forall>a\<in>set as. algo_initialized a)"
    using algos [of ?r3 "[CelAlgo, SddAlgo, MiAlgo]" ?w] by (simp del: init_algorithms.simps)
  then obtain as w' where as: "init_algorithms sample_task_api sample_runtime ?r3 [new_algo CelAlgo, new_algo SddAlgo, new_algo MiAlgo] 0 ?w
      = (True, as, 0, w')" "\<forall>a\<in>set as. algo_initialized a" by (elim exE conjE)
  have load: "load_resources sample_task_api sample_runtime ?r (1, {#}) = (True, as, ?r3, w')"
    using as(1) unfolding load_resources_def by (simp add: load_scratch_def sample_calls_task Let_def eval_nat_numeral del: init_algorithms.simps)
  have "fst (notify_algorithms v bs)" if "\<forall>a\<in>set bs. algo_initialized a" for v bs
    using that by (induction bs) (auto simp: IAlgo_generic algo_notifyParameter_def split: prod.splits)
  then obtain cs where "notify_algorithms \<lparr>param_name = ''n'', param_blob = [1]\<rparr> as = (True, cs)" using as(2) by (metis prod.collapse)
  then have "\<exists>T. task_load sample_task_api (Some 0) sample_parameters sample_demo_task sample_gpu_manager (1, {#})
      = Some (True, T, sample_loaded_manager ?r3, w')"
    using sample_register sample_runtime_valid load sample_parameters_sealed
    by (simp add: task_load_def sample_demo_task_eq new_task_def makeTaskCurrent_def sample_gpu_manager_def sample_context_def new_gpu_context_def
        applyParameters_def sample_calls_task put_resources_def sample_loaded_manager_def)
  then show ?thesis by blast
qed

theorem task_load_all_or_nothing_witness:
  "\<exists>b T' N' w'. task_load sample_task_api (Some 0) sample_parameters sample_demo_task sample_gpu_manager (1, {#}) = Some (b, T', N', w')
    \<and> (b \<or> snd w' = {#})"
proof -
  from task_load_all_or_nothing [OF sample_task_api_documented(3) sample_gpu_reached sample_gpu_room sample_task_api_documented(1,2) sample_demo_empty,
      of "Some 0" sample_parameters "(1, {#})"]
  show ?thesis by (elim exE conjE) (intro exI conjI, assumption, auto split: if_splits)
qed

theorem load_unload_roundtrip_witness:
  "\<exists>T N w T3 N3 w3 b. task_load sample_task_api (Some 0) sample_parameters sample_demo_task sample_gpu_manager (1, {#}) = Some (True, T, N, w)
    \<and> task_unload sample_task_api T N w = Some (b, T3, N3, w3) \<and> snd w3 = {#} \<and> task_state T3 = Unloaded"
proof -
  obtain T N w where L: "task_load sample_task_api (Some 0) sample_parameters sample_demo_task sample_gpu_manager (1, {#}) = Some (True, T, N, w)"
    using sample_loads by blast
  from load_unload_roundtrip [OF sample_task_api_documented(3) sample_gpu_reached sample_gpu_room sample_task_api_documented(1,2) sample_demo_empty L]
  show ?thesis using L by fastforce
qed

end
