(* ===== verification/Task_Execution.thy ===== *)
theory Task_Execution
  imports Demo_Task Task_Samples Cache_Properties
begin

text \<open>
  What \<open>DummyTask::execute\<close> does with its lease and in which order it submits its work.
\<close>

section \<open>The lease\<close>

lemma collect_results_length: "collect_results api r as outs w = (b, outs') \<Longrightarrow> length outs' = length outs"
proof (induction as arbitrary: outs b outs')
  case (Cons a as)
  show ?case
  proof (cases outs)
    case (Cons out rest)
    obtain c out' where 1: "IAlgo_collectResult api r a out w = (c, out')" by fastforce
    obtain d rest' where 2: "collect_results api r as rest w = (d, rest')" by fastforce
    show ?thesis using Cons.prems Cons.IH [OF 2] 1 2 Cons by (cases c) auto
  qed (use Cons.prems in simp)
qed simp

text \<open>
  C21.  A task ends its lease on every path.  Whatever fails while a frame is uploaded and its kernels and
  copies are submitted, \<open>execute\<close> returns, the lease is finished, and the cache continues as if
  the lease had been published exactly when everything was submitted and the stream synchronised, and
  rolled back otherwise.  The answer of the task is the \<open>ok\<close> of the result, which is never set
  unless everything was submitted and synchronised, and a failed synchronisation marks the cache as failed.
\<close>

theorem execute_finishes_the_lease:
  assumes "implements c A" "live c A a" "accessStream a \<noteq> nullptr" "\<not> releasing c"
    and submit: "submit_frame api r T (atom_data atom) a w = (submitted, w1)"
    and sync: "cudaStreamSynchronize api (accessStream a) w1 = (synchronized, w2)"
  shows "\<exists>ok atom' c'. execute_access api r atom T a c w = Some (ok, atom', default_access, c', w2)
    \<and> implements c' (finish (accessStatus a) (entryIndex a) (submitted \<and> synchronized) False A)
    \<and> failed c' = (failed c \<or> \<not> synchronized)
    \<and> job_ok (atom_result atom') = ok \<and> (ok \<longrightarrow> submitted \<and> synchronized)
    \<and> length (outputs (atom_result atom')) = length (outputs (atom_result atom))"
proof -
  obtain c' where c': "freeCacheData api a submitted Keep c w1 = Some (submitted \<and> synchronized, default_access, c', w2)"
      "implements c' (finish (accessStatus a) (entryIndex a) (submitted \<and> synchronized) False A)" "ended synchronized a c' c"
    using freeCacheData_ends [OF assms(1-4) sync, of submitted Keep] by auto
  have valid: "accessStatus a \<noteq> Invalid" using assms(2) by (auto simp: live_def)
  let ?outs = "outputs (atom_result atom)"
  obtain ok outs where o: "(if submitted \<and> synchronized then collect_results api r (algorithms T) ?outs w2 else (False, ?outs)) = (ok, outs)" by fastforce
  then have "(ok \<longrightarrow> submitted \<and> synchronized) \<and> length outs = length ?outs" using collect_results_length by (auto split: if_splits)
  moreover have "execute_access api r atom T a c w
      = Some (ok, atom\<lparr>atom_result := (atom_result atom)\<lparr>job_ok := ok, outputs := outs\<rparr>\<rparr>, default_access, c', w2)"
    using valid submit c'(1) o by (cases submitted) (auto simp: execute_access_def)
  ultimately show ?thesis using c'(2,3) by (auto simp: ended_def)
qed

section \<open>The order of submission\<close>

text \<open>What is submitted to a stream.\<close>

datatype command =
    Kernel algo_kind dim dim stream ptr ptr int int
  | Copy "ptr \<times> size_t" ptr size_t stream

text \<open>
  Documented behaviour: a launch and a successful asynchronous copy append to the work of their
  stream, and asking for the last error and writing pinned memory do not.
\<close>

definition records :: "('w, 'x) task_api_scheme \<Rightarrow> ('w \<Rightarrow> command list) \<Rightarrow> bool" where
  "records api log \<longleftrightarrow>
     (\<forall>kind g b s i out n stride w. log (launch_kernel api kind g b s i out n stride w) = log w @ [Kernel kind g b s i out n stride])
     \<and> (\<forall>d p n s w w'. cudaMemcpyAsync api d p n s w = (True, w') \<longrightarrow> log w' = log w @ [Copy d p n s])
     \<and> (\<forall>w. log (snd (cudaGetLastError api w)) = log w)
     \<and> (\<forall>p xs w. log (memcpy_to_host api p xs w) = log w)"

definition kernel_of :: "ptr \<Rightarrow> stream \<Rightarrow> Algo \<Rightarrow> command" where
  "kernel_of d s a = Kernel (algo_class a) (blocks_for (matrixSize a) 16, blocks_for (matrixSize a) 16) (16, 16) s d (d_outputMatrix a)
     (matrixSize a) (algo_frameW a)"

definition copy_of :: "stream \<Rightarrow> Algo \<Rightarrow> command" where
  "copy_of s a = Copy (h_outputMatrix a, 0) (d_outputMatrix a) (matrixBytes a) s"

lemma launchKernels_log:
  assumes R: "records api log" and l: "IAlgo_launchKernels api r d s a w = (True, w')"
  shows "log w' = log w @ [kernel_of d s a]"
proof -
  let ?v = "launch_kernel api (algo_class a) (blocks_for (matrixSize a) 16, blocks_for (matrixSize a) 16) (16, 16) s d (d_outputMatrix a)
      (matrixSize a) (algo_frameW a) w"
  have "cudaGetLastError api ?v = (True, w')" using l by (auto simp: IAlgo_generic algo_launchKernels_def split: if_splits)
  then have "log w' = log ?v" using R unfolding records_def by (metis snd_conv)
  then show ?thesis using R by (simp add: records_def kernel_of_def)
qed

lemma launchD2H_log:
  assumes R: "records api log" and l: "IAlgo_launchD2H api r s a w = (True, w')"
  shows "log w' = log w @ [copy_of s a]"
proof -
  have "cudaMemcpyAsync api (h_outputMatrix a, 0) (d_outputMatrix a) (matrixBytes a) s w = (True, w')"
    using l by (auto simp: IAlgo_generic algo_launchD2H_def GPUINFRA_D2H_SIZE_MULTIPLIER_def numeral_eq_Suc split: if_splits prod.splits bool.splits)
  then show ?thesis using R by (simp add: records_def copy_of_def)
qed

lemma launch_all_log:
  assumes "\<And>a v v'. launch a v = (True, v') \<Longrightarrow> log v' = log v @ f a" "launch_all launch as w = (True, w')"
  shows "log w' = log w @ concat (map f as)"
  using assms(2)
proof (induction as arbitrary: w)
  case (Cons a as)
  obtain b w1 where 1: "launch a w = (b, w1)" by fastforce
  then have b using Cons.prems by (cases b) auto
  with 1 Cons show ?case using assms(1) by auto
qed simp

text \<open>
  C22.  Work is submitted in the order the execution model names.  When a frame was submitted without a
  failure, the streams got: first the upload, exactly when the frame was not resident; then, in the
  batched model, the kernels of all algorithms and after them all their copies, and in the
  interleaved model the kernel and the copy of one algorithm after the other; nothing else, and in no other
  model.  For a loaded task every kernel is launched on the data of the lease with the matrix size of
  its algorithm and the width of the frame.
\<close>

theorem submission_order:
  assumes R: "records api log" and s: "submit_frame api r T frame a w = (True, w')"
  shows "executionModel T \<in> {Batched, Interleaved} \<and> log w' = log w
    @ (if accessStatus a \<in> {CacheFill, TaskFallback} then [Copy (writableData a, 0) (h_in r) (res_inBytes r) (accessStream a)] else [])
    @ (if executionModel T = Batched
       then map (kernel_of (accessData a) (accessStream a)) (algorithms T) @ map (copy_of (accessStream a)) (algorithms T)
       else concat (map (\<lambda>x. [kernel_of (accessData a) (accessStream a) x, copy_of (accessStream a) x]) (algorithms T)))"
proof -
  let ?s = "accessStream a" and ?d = "accessData a"
  obtain b w1 where 1: "upload_frame api r frame a w = (b, w1)" by fastforce
  with s have b and work: "submit_work api r (executionModel T) (algorithms T) ?d ?s w1 = (True, w')" by (cases b; simp add: submit_frame_def)+
  have up: "log w1 = log w @ (if accessStatus a \<in> {CacheFill, TaskFallback} then [Copy (writableData a, 0) (h_in r) (res_inBytes r) ?s] else [])"
    using 1 \<open>b\<close> R
    by (auto simp: upload_frame_def GPUINFRA_H2D_SIZE_MULTIPLIER_def records_def split: if_splits prod.splits bool.splits)
  note K = launchKernels_log [OF R, of r ?d ?s] and C = launchD2H_log [OF R, of r ?s]
  show ?thesis
  proof (cases "executionModel T")
    case Batched
    obtain k w2 where 2: "launch_all (IAlgo_launchKernels api r ?d ?s) (algorithms T) w1 = (k, w2)" by fastforce
    with work Batched have k and 3: "launch_all (IAlgo_launchD2H api r ?s) (algorithms T) w2 = (True, w')" by (cases k; simp add: submit_work_def)+
    have "log w2 = log w1 @ concat (map (\<lambda>x. [kernel_of ?d ?s x]) (algorithms T))"
      by (rule launch_all_log [where launch = "IAlgo_launchKernels api r ?d ?s"]) (use K 2 \<open>k\<close> in simp_all)
    moreover have "log w' = log w2 @ concat (map (\<lambda>x. [copy_of ?s x]) (algorithms T))"
      by (rule launch_all_log [where launch = "IAlgo_launchD2H api r ?s"]) (use C 3 in simp_all)
    ultimately show ?thesis using up Batched by simp
  next
    case Interleaved
    let ?l = "\<lambda>x v. case IAlgo_launchKernels api r ?d ?s x v of (False, v1) \<Rightarrow> (False, v1) | (True, v1) \<Rightarrow> IAlgo_launchD2H api r ?s x v1"
    have "log v' = log v @ [kernel_of ?d ?s x, copy_of ?s x]" if "?l x v = (True, v')" for x v v'
    proof -
      obtain k v1 where k: "IAlgo_launchKernels api r ?d ?s x v = (k, v1)" by fastforce
      with that have "k" "IAlgo_launchD2H api r ?s x v1 = (True, v')" by (cases k; simp)+
      then show ?thesis using K [of x v v1] C [of x v1 v'] k by simp
    qed
    moreover have "launch_all ?l (algorithms T) w1 = (True, w')" using work Interleaved by (simp add: submit_work_def)
    ultimately have "log w' = log w1 @ concat (map (\<lambda>x. [kernel_of ?d ?s x, copy_of ?s x]) (algorithms T))" by (rule launch_all_log)
    then show ?thesis using up Interleaved by simp
  qed (use work in \<open>simp add: submit_work_def\<close>)
qed

section \<open>Samples\<close>

theorem execute_finishes_the_lease_witness:
  "\<exists>c ok atom' c' w2. execute_access sample_task_api new_resources (new_atom sample_md sample_runtime) sample_demo_task
      (lease (sample_cache FIFO) sample_rq sample_md 0 CacheFill) c (1, {#}) = Some (ok, atom', default_access, c', w2)
    \<and> implements c' (publish_cell 0 False (take_cell 0 sample_md (empty_cache 2 True))) \<and> job_ok (atom_result atom') = ok"
proof -
  let ?a = "lease (sample_cache FIFO) sample_rq sample_md 0 CacheFill"
  obtain c where c: "implements c (take_cell 0 sample_md (empty_cache 2 True))" "\<not> releasing c" "live c (take_cell 0 sample_md (empty_cache 2 True)) ?a"
    using sample_live by blast
  have s: "submit_frame sample_task_api new_resources sample_demo_task f ?a w = (True, w)" for f w
    by (simp add: submit_frame_def upload_frame_def submit_work_def sample_demo_task_eq new_task_def sample_task_api_def GPUINFRA_H2D_SIZE_MULTIPLIER_def)
  have stream: "accessStream ?a \<noteq> nullptr" "cudaStreamSynchronize sample_task_api (accessStream ?a) w = (True, w)" "accessStatus ?a = CacheFill"
      "entryIndex ?a = 0" for w
    by (simp_all add: lease_def sample_rq_def sample_task_api_def)
  from execute_finishes_the_lease [OF c(1,3) stream(1) c(2) s [of "atom_data (new_atom sample_md sample_runtime)" "(1, {#})"] stream(2)]
  obtain ok atom' c' where "execute_access sample_task_api new_resources (new_atom sample_md sample_runtime) sample_demo_task ?a c (1, {#})
      = Some (ok, atom', default_access, c', (1, {#}))" "implements c' (publish_cell 0 False (take_cell 0 sample_md (empty_cache 2 True)))"
      "job_ok (atom_result atom') = ok"
    unfolding stream(3,4) by auto
  then show ?thesis by (intro exI conjI)
qed

text \<open>A runtime that only records what is submitted.\<close>

definition log_api :: "command list task_api" where
  "log_api = \<lparr>
     cudaGetDevice = \<lambda>w. (Some 0, w), cudaSetDevice = \<lambda>d w. (True, w), cudaMalloc = \<lambda>n w. (Some (Some 1), w),
     cudaFree = \<lambda>p w. (True, w), cudaStreamCreateWithFlags = \<lambda>w. (Some (Some 1), w),
     cudaStreamSynchronize = \<lambda>s w. (True, w), cudaStreamDestroy = \<lambda>s w. (True, w), cudaMemsetAsync = \<lambda>p n s w. (True, w),
     cudaMemcpyAsync = \<lambda>d p n s w. (True, w @ [Copy d p n s]), cudaMemGetInfo = \<lambda>w. (Some (0, 0), w),
     cuInit = \<lambda>w. (True, w), cudaGetDeviceCount = \<lambda>w. (Some 1, w), cudaDeviceGetPCIBusId = \<lambda>g w. (None, w),
     cuDeviceGet = \<lambda>g w. (Some g, w), cuDevicePrimaryCtxRetain = \<lambda>d w. (Some (Some 5), w), cuDevicePrimaryCtxRelease = \<lambda>d w. (True, w),
     cuCtxGetId = \<lambda>p w. (None, w), cudaGetDeviceProperties = \<lambda>g w. (True, w), has_ctx_id = False, read_file = \<lambda>f w. (None, w),
     new_context = \<lambda>h w. (None, w), cudaHostAlloc = \<lambda>n w. (Some (Some 1), w), cudaFreeHost = \<lambda>p w. (True, w),
     cudaGetLastError = \<lambda>w. (True, w),
     launch_kernel = \<lambda>kind g b s i out n stride w. w @ [Kernel kind g b s i out n stride],
     memset_host = \<lambda>p n w. w, memcpy_to_host = \<lambda>p xs w. w, memcpy_from_host = \<lambda>p n w. []\<rparr>"

definition log_algo :: "algo_kind \<Rightarrow> Algo" where
  "log_algo k = (new_algo k)\<lparr>algo_initialized := True, algo_gpuId := 0, algo_resourceId := 0, matrixSize := 32\<rparr>"

theorem submission_order_witness:
  "\<exists>w'. submit_frame log_api (new_resources\<lparr>resourceId := 0, res_gpuId := 0, res_stream := Some 7\<rparr>)
      ((new_task 0 Batched sample_runtime 3)\<lparr>algorithms := [log_algo CelAlgo, log_algo MiAlgo]\<rparr>) []
      (default_access\<lparr>accessStatus := CacheHit, accessStream := Some 7, accessData := Some 1\<rparr>) [] = (True, w')
    \<and> w' = [kernel_of (Some 1) (Some 7) (log_algo CelAlgo), kernel_of (Some 1) (Some 7) (log_algo MiAlgo),
        copy_of (Some 7) (log_algo CelAlgo), copy_of (Some 7) (log_algo MiAlgo)]"
proof -
  let ?r = "new_resources\<lparr>resourceId := 0, res_gpuId := 0, res_stream := Some 7\<rparr>"
    and ?T = "(new_task 0 Batched sample_runtime 3)\<lparr>algorithms := [log_algo CelAlgo, log_algo MiAlgo]\<rparr>"
    and ?a = "default_access\<lparr>accessStatus := CacheHit, accessStream := Some 7, accessData := Some 1\<rparr>"
  have R: "records log_api (\<lambda>w. w)" by (simp add: records_def log_api_def)
  have "\<exists>w'. submit_frame log_api ?r ?T [] ?a [] = (True, w')"
    by (simp add: submit_frame_def upload_frame_def submit_work_def new_task_def log_algo_def IAlgo_generic algo_launchKernels_def algo_launchD2H_def
        log_api_def GPUINFRA_D2H_SIZE_MULTIPLIER_def new_algo_def)
  then obtain w' where w': "submit_frame log_api ?r ?T [] ?a [] = (True, w')" by blast
  from submission_order [OF R w'] show ?thesis using w' by (simp add: new_task_def)
qed

end
