(* ===== verification/Numa_Executor.thy ===== *)
theory Numa_Executor
  imports Diagnostics
begin

text \<open>
  \<open>demo/Grape/NumaExecutor.h\<close> and \<open>.cpp\<close>: a callback runs on a thread whose affinity is the set of
  CPUs of its NUMA node, as far as the process may use them.  The CPUs of a node are read from the
  system's list, ranges separated by commas.  A \<open>cpu_set_t\<close> is a set of CPU numbers; the contents
  of the system files and the two affinity calls are parameters.
\<close>

section \<open>Parsing\<close>

definition CPU_SETSIZE :: int where "CPU_SETSIZE = 1024"

text \<open>
  \<open>std::stoi\<close>: white space, an optional sign and digits; what follows is ignored.  It throws,
  \<open>None\<close>, without a digit and for a number that is no \<open>int\<close>.
\<close>

definition stoi :: "string \<Rightarrow> int option" where
  "stoi s =
     (let (neg, ds, _) = split_decimal (dropWhile is_space s);
          v = (if neg then - int (digits_value ds) else int (digits_value ds))
      in if ds = [] \<or> v < - INT_MAX - 1 \<or> INT_MAX < v then None else Some v)"

text \<open>
  \<open>token.substr(0, token.find('-'))\<close>, and \<open>token.substr(separator + 1)\<close> unless there is no separator.
\<close>

definition before_dash :: "string \<Rightarrow> string" where
  "before_dash token = takeWhile (\<lambda>c. c \<noteq> CHR ''-'') token"

definition after_dash :: "string \<Rightarrow> string option" where
  "after_dash token = (case dropWhile (\<lambda>c. c \<noteq> CHR ''-'') token of [] \<Rightarrow> None | _ # r \<Rightarrow> Some r)"

text \<open>\<open>None\<close> stands for the answer \<open>false\<close>, after which the set is not used any more.\<close>

definition addCpuRange :: "int set \<Rightarrow> string \<Rightarrow> int set option" where
  "addCpuRange cpus token = do {
     first \<leftarrow> stoi (before_dash token);
     final \<leftarrow> (case after_dash token of None \<Rightarrow> Some first | Some r \<Rightarrow> stoi r);
     if first < 0 \<or> final < first then None
     else Some (fold insert [first..min final (CPU_SETSIZE - 1)] cpus)
   }"

text \<open>
  The tokens that \<open>std::getline(tokens, token, ',')\<close> gives until it fails: a delimiter at the
  very end is not followed by an empty token.
\<close>

function getlines :: "char \<Rightarrow> string \<Rightarrow> string list" where
  "getlines d s = (if s = [] then []
     else takeWhile (\<lambda>c. c \<noteq> d) s # getlines d (tl (dropWhile (\<lambda>c. c \<noteq> d) s)))"
  by pat_completeness auto
termination
proof (relation "measure (length \<circ> snd)")
  fix d s assume "s \<noteq> ([] :: string)"
  then have "length (dropWhile (\<lambda>c. c \<noteq> d) s) - 1 < length s" using length_dropWhile_le [of "\<lambda>c. c \<noteq> d" s] by (cases s) (auto simp: less_Suc_eq_le)
  then show "((d, tl (dropWhile (\<lambda>c. c \<noteq> d) s)), d, s) \<in> measure (length \<circ> snd)" by simp
qed simp

declare getlines.simps [simp del]

fun add_ranges :: "int set \<Rightarrow> string list \<Rightarrow> int set option" where
  "add_ranges cpus [] = Some cpus"
| "add_ranges cpus (token # tokens) = do { cpus1 \<leftarrow> addCpuRange cpus token; add_ranges cpus1 tokens }"

text \<open>\<open>input >> word\<close>: the first word of a file.\<close>

definition first_word :: "string \<Rightarrow> string" where
  "first_word s = takeWhile (\<lambda>c. \<not> is_space c) (dropWhile is_space s)"

definition nodeCpuSet :: "(int \<Rightarrow> string option) \<Rightarrow> int \<Rightarrow> int set option" where
  "nodeCpuSet cpulist node = (case cpulist node of
      None \<Rightarrow> None
    | Some text \<Rightarrow> if first_word text = [] then None else add_ranges {} (getlines CHR '','' (first_word text)))"

section \<open>Affinity\<close>

record 'w affinity_api =
  pthread_getaffinity_np :: "'w \<Rightarrow> int set option"
  pthread_setaffinity_np :: "int set \<Rightarrow> 'w \<Rightarrow> bool \<times> 'w"

definition pinToNumaNode :: "'w affinity_api \<Rightarrow> (int \<Rightarrow> string option) \<Rightarrow> int \<Rightarrow> 'w \<Rightarrow> bool \<times> 'w" where
  "pinToNumaNode os cpulist node w =
     (if node < 0 then (False, w)
      else case (nodeCpuSet cpulist node, pthread_getaffinity_np os w) of
          (Some nodeSet, Some allowedSet) \<Rightarrow>
            if card (nodeSet \<inter> allowedSet) = 0 then (False, w) else pthread_setaffinity_np os (nodeSet \<inter> allowedSet) w
        | _ \<Rightarrow> (False, w))"

text \<open>
  \<open>NumaExecutor::run\<close>: \<open>created\<close> tells whether a thread could be created, \<open>w\<close> is the state of the
  affinity of the new thread; the callback is a function on the state it works on.  The answer is
  \<open>false\<close> when there is no thread, when it could not be pinned, and when the callback throws a \<open>std::exception\<close> or
  answers \<open>false\<close>; a callback that throws one is \<open>Inl\<close> with the state it left.  \<open>None\<close> stands for a callback that does not come back: one that does not return, and
  one that throws anything else, which nothing catches and which ends the program.
\<close>

definition NumaExecutor_run :: "'w affinity_api \<Rightarrow> (int \<Rightarrow> string option) \<Rightarrow> int \<Rightarrow> bool \<Rightarrow> 'w
    \<Rightarrow> ('w \<Rightarrow> 's \<Rightarrow> ('s + bool \<times> 's) option) \<Rightarrow> 's \<Rightarrow> (bool \<times> 's) option" where
  "NumaExecutor_run os cpulist node created w callback s =
     (if \<not> created then Some (False, s)
      else case pinToNumaNode os cpulist node w of
          (False, _) \<Rightarrow> Some (False, s)
        | (True, w1) \<Rightarrow> map_option (\<lambda>r. case r of Inl s1 \<Rightarrow> (False, s1) | Inr (b, s1) \<Rightarrow> (b, s1)) (callback w1 s))"

section \<open>The lists of the system\<close>

text \<open>How the system prints a range, a list of ranges, and which CPUs they are.\<close>

definition show_range :: "nat \<times> nat \<Rightarrow> string" where
  "show_range r = (if fst r = snd r then show_nat (fst r) else show_nat (fst r) @ CHR ''-'' # show_nat (snd r))"

fun show_ranges :: "(nat \<times> nat) list \<Rightarrow> string" where
  "show_ranges [] = []"
| "show_ranges [r] = show_range r"
| "show_ranges (r # rs) = show_range r @ CHR '','' # show_ranges rs"

definition cpus_of :: "nat \<times> nat \<Rightarrow> int set" where
  "cpus_of r = {int (fst r)..int (snd r)} \<inter> {..<CPU_SETSIZE}"

lemma show_nat_chars:
  "c \<in> set (show_nat n) \<Longrightarrow> is_digit c" "show_nat n \<noteq> []" "digits_value (show_nat n) = n"
  using show_nat_digits [of n] by (auto simp: list_all_iff)

lemma digit_no_space: "is_digit c \<Longrightarrow> \<not> is_space c \<and> c \<noteq> CHR ''-'' \<and> c \<noteq> CHR ''+'' \<and> c \<noteq> CHR '',''"
  by (auto simp: is_digit_def is_space_def)

lemma takeWhile_append_stop: "(\<forall>c\<in>set xs. P c) \<Longrightarrow> \<not> P y \<Longrightarrow> takeWhile P (xs @ y # ys) = xs"
  by simp

lemma stoi_show_nat:
  assumes "n < 2 ^ 31"
  shows "stoi (show_nat n) = Some (int n)"
proof -
  obtain c cs where s: "show_nat n = c # cs" using show_nat_chars(2) [of n] by (cases "show_nat n") auto
  have d: "is_digit c" using show_nat_chars(1) [of c n] s by simp
  have all: "takeWhile is_digit (show_nat n) = show_nat n" using show_nat_chars(1) [of _ n] by (simp add: takeWhile_eq_all_conv)
  have "dropWhile is_space (show_nat n) = show_nat n" using digit_no_space [OF d] s by simp
  moreover have "split_decimal (show_nat n) = (False, show_nat n, dropWhile is_digit (show_nat n))"
    using digit_no_space [OF d] s all by (auto simp: split_decimal_def Let_def)
  ultimately show ?thesis using assms show_nat_chars(2,3) [of n] by (simp add: stoi_def INT_MAX_def)
qed

lemma show_range_chars: "c \<in> set (show_range r) \<Longrightarrow> \<not> is_space c \<and> c \<noteq> CHR '',''" "show_range r \<noteq> []"
  using digit_no_space show_nat_chars(1) [of c "fst r"] show_nat_chars(1) [of c "snd r"] show_nat_chars(2)
  by (auto simp: show_range_def is_space_def split: if_splits)

lemma addCpuRange_range:
  assumes "fst r \<le> snd r" "snd r < 2 ^ 31"
  shows "addCpuRange S (show_range r) = Some (cpus_of r \<union> S)"
proof -
  have no: "\<forall>c\<in>set (show_nat n). c \<noteq> CHR ''-''" for n using digit_no_space show_nat_chars(1) by blast
  have first: "before_dash (show_range r) = show_nat (fst r)"
    using no [of "fst r"] by (auto simp: before_dash_def show_range_def takeWhile_eq_all_conv)
  have final: "(case after_dash (show_range r) of None \<Rightarrow> Some (int (fst r)) | Some t \<Rightarrow> stoi t) = Some (int (snd r))"
    using no [of "fst r"] stoi_show_nat [OF assms(2)]
    by (auto simp: after_dash_def show_range_def dropWhile_append3 dropWhile_eq_Nil_conv [THEN iffD2] split: list.splits)
  have "set [int (fst r)..min (int (snd r)) (CPU_SETSIZE - 1)] = cpus_of r" by (auto simp: cpus_of_def)
  then show ?thesis
    using assms first final stoi_show_nat [of "fst r"] by (simp add: addCpuRange_def flip: union_set_fold)
qed

lemma getlines_ranges: "getlines CHR '','' (show_ranges rs) = map show_range rs"
proof (induction rs rule: show_ranges.induct)
  case (2 r)
  have "takeWhile (\<lambda>c. c \<noteq> CHR '','') (show_range r) = show_range r" "tl (dropWhile (\<lambda>c. c \<noteq> CHR '','') (show_range r)) = []"
    using show_range_chars(1) [of _ r] by (auto simp: takeWhile_eq_all_conv dropWhile_eq_Nil_conv [THEN iffD2])
  then show ?case using show_range_chars(2) [of r] by (simp add: getlines.simps)
next
  case (3 r q rs)
  have "takeWhile (\<lambda>c. c \<noteq> CHR '','') (show_range r @ CHR '','' # s) = show_range r"
    "dropWhile (\<lambda>c. c \<noteq> CHR '','') (show_range r @ CHR '','' # s) = CHR '','' # s" for s
    using show_range_chars(1) [of _ r] by (auto simp: takeWhile_append2 dropWhile_append3)
  then show ?case using 3 by (simp add: getlines.simps [of _ "show_range r @ _"])
qed (simp add: getlines.simps)

lemma add_ranges_list:
  assumes "\<forall>r\<in>set rs. fst r \<le> snd r \<and> snd r < 2 ^ 31"
  shows "add_ranges S (map show_range rs) = Some ((\<Union>r\<in>set rs. cpus_of r) \<union> S)"
  using assms by (induction rs arbitrary: S) (auto simp: addCpuRange_range)

lemma first_word_ranges:
  assumes "rs \<noteq> []"
  shows "first_word (show_ranges rs @ CHR 0x0A # t) = show_ranges rs" "show_ranges rs \<noteq> []"
proof -
  have chars: "\<forall>c\<in>set (show_ranges rs). \<not> is_space c"
  proof (induction rs rule: show_ranges.induct)
    case (3 r q rs)
    then show ?case using show_range_chars(1) [of _ r] by (auto simp: is_space_def)
  qed (use show_range_chars(1) in auto)
  show ne: "show_ranges rs \<noteq> []" using assms show_range_chars(2) by (cases rs rule: show_ranges.cases) auto
  then obtain c cs where s: "show_ranges rs = c # cs" by (cases "show_ranges rs") auto
  then have "dropWhile is_space (show_ranges rs @ CHR 0x0A # t) = show_ranges rs @ CHR 0x0A # t" using chars by simp
  moreover have "is_space (CHR 0x0A)" by (simp add: is_space_def)
  ultimately show "first_word (show_ranges rs @ CHR 0x0A # t) = show_ranges rs"
    using chars by (simp add: first_word_def)
qed

section \<open>Pinning\<close>

text \<open>
  C31.  A callback runs on its node.  When the system lists the CPUs of a node as ranges, the node's
  set is exactly those CPUs, as far as a \<open>cpu_set_t\<close> can hold them.  A thread is pinned exactly
  when some of them is allowed for it and the call that sets the affinity succeeds, and then its affinity is
  set to the allowed ones among them: never a CPU of another node, never one it might not use.  \<open>run\<close> calls its
  callback at most once and only on a pinned thread, and answers \<open>true\<close> only when the callback did.
\<close>

theorem callback_runs_on_its_node:
  assumes list: "cpulist node = Some (show_ranges rs @ CHR 0x0A # tail)" "rs \<noteq> []"
    and ranges: "\<forall>r\<in>set rs. fst r \<le> snd r \<and> snd r < 2 ^ 31" and node: "0 \<le> node"
    and allowed: "pthread_getaffinity_np os w = Some allowed"
  shows "let cpus = (\<Union>r\<in>set rs. cpus_of r) \<inter> allowed;
             pinned = (cpus \<noteq> {} \<and> fst (pthread_setaffinity_np os cpus w))
         in nodeCpuSet cpulist node = Some (\<Union>r\<in>set rs. cpus_of r)
            \<and> fst (pinToNumaNode os cpulist node w) = pinned
            \<and> (pinned \<longrightarrow> pinToNumaNode os cpulist node w = pthread_setaffinity_np os cpus w)
            \<and> NumaExecutor_run os cpulist node created w callback s
                = (if created \<and> pinned
                   then map_option (case_sum (Pair False) (\<lambda>r. r)) (callback (snd (pthread_setaffinity_np os cpus w)) s)
                   else Some (False, s))"
proof -
  have set: "nodeCpuSet cpulist node = Some (\<Union>r\<in>set rs. cpus_of r)"
    using list first_word_ranges [OF list(2)] getlines_ranges add_ranges_list [OF ranges] by (simp add: nodeCpuSet_def)
  let ?cpus = "(\<Union>r\<in>set rs. cpus_of r) \<inter> allowed"
  have "finite ?cpus" by (auto simp: cpus_of_def)
  then have zero: "card ?cpus = 0 \<longleftrightarrow> ?cpus = {}" by simp
  obtain b w1 where s: "pthread_setaffinity_np os ?cpus w = (b, w1)" by fastforce
  have pin: "pinToNumaNode os cpulist node w = (if ?cpus = {} then (False, w) else (b, w1))"
    unfolding pinToNumaNode_def set allowed prod.case option.case zero s using node by simp
  have run: "(\<lambda>r. case r of Inl s1 \<Rightarrow> (False, s1) | Inr (b, s1) \<Rightarrow> (b, s1)) = case_sum (Pair False) (\<lambda>r :: bool \<times> 's. r)"
    by (auto simp: fun_eq_iff split: sum.splits)
  show ?thesis using set pin s unfolding Let_def NumaExecutor_run_def run by (cases b) auto
qed

definition sample_os :: "int set affinity_api" where
  "sample_os = \<lparr>pthread_getaffinity_np = \<lambda>w. Some w, pthread_setaffinity_np = \<lambda>s w. (True, s)\<rparr>"

theorem callback_runs_on_its_node_witness:
  "show_ranges [(0, 3), (8, 8), (1022, 2000)] = ''0-3,8,1022-2000''
   \<and> pinToNumaNode sample_os (\<lambda>n. if n = 1 then Some (''0-3,8,1022-2000'' @ [CHR 0x0A]) else None) 1 {2..9} = (True, {2, 3, 8})"
proof -
  let ?list = "\<lambda>n :: int. if n = 1 then Some (''0-3,8,1022-2000'' @ [CHR 0x0A]) else None"
  have printed: "show_ranges [(0, 3), (8, 8), (1022, 2000)] = ''0-3,8,1022-2000''" by code_simp
  have cpus: "(\<Union>r\<in>set [(0, 3), (8, 8), (1022, 2000)]. cpus_of r) \<inter> {2..9} = {2, 3, 8}" by (auto simp: cpus_of_def CPU_SETSIZE_def)
  have "pinToNumaNode sample_os ?list 1 {2..9} = pthread_setaffinity_np sample_os {2, 3, 8} {2..9}"
    using callback_runs_on_its_node [of ?list 1 "[(0, 3), (8, 8), (1022, 2000)]" "[]" sample_os "{2..9}" "{2..9}" True "\<lambda>_ s. Some (Inr (True, s))" "()"] printed
    unfolding Let_def cpus by (simp add: sample_os_def)
  then show ?thesis using printed by (simp add: sample_os_def)
qed

end
