(* ===== verification/Graph_Setup.thy ===== *)
theory Graph_Setup
  imports Task_Ownership Graph_Scheduler Numa_Executor
begin

text \<open>
  The part of \<open>demo/Grape/DummyGraph.cpp\<close> that a graph runs on its NUMA node: it builds the tasks, the
  parameters, the frames and the static data, starts and stops the tasks, passes new parameters to
  them, and takes everything down again.  \<open>GraphNode\<close> has the members of \<open>DummyGraph\<close> these calls use;
  the scheduler's members are in \<open>Graph_Scheduler\<close>.  The \<open>TaskGpuResources\<close> member of a task lives
  in the store of the context manager; \<open>address\<close> gives the address \<open>operator new\<close> returned for each
  task.  Memory is a number of allocations that succeed: each \<open>reserve\<close>, each task and each frame
  takes one, and the next throws.
\<close>

section \<open>State\<close>

record GraphConfig =
  taskInstancesPerGpu :: size_t
  cfg_graphThreads :: size_t
  cfg_gpuCacheEntries :: size_t
  cfg_gpuCacheWaitTimeout :: int
  warmupFramesPerGpu :: u64
  timedFramesPerGpu :: u64
  firstFrameId :: u64
  cfg_executionModel :: ExecutionModel
  graph_runtime :: AlgoRuntimeInfo
  graph_parameters :: AlgoParams
  cfg_gpuCacheEvictionPolicy :: CacheEvictionPolicy

definition default_config :: GraphConfig where
  "default_config = \<lparr>taskInstancesPerGpu = 4, cfg_graphThreads = 0, cfg_gpuCacheEntries = 4, cfg_gpuCacheWaitTimeout = 50,
     warmupFramesPerGpu = 0, timedFramesPerGpu = 0, firstFrameId = 0, cfg_executionModel = Batched, graph_runtime = default_runtime,
     graph_parameters = default_params, cfg_gpuCacheEvictionPolicy = LRU\<rparr>"

record GraphNode =
  node_config :: GraphConfig
  node_gpuIds :: "int list"
  node_registry :: ParameterRegistry
  registry_address :: nat
  node_snapshot :: ParameterSnapshot
  node_tasks :: "DummyTask list"
  node_static :: StaticData
  node_warmup :: "FrameCpuAtom list"
  node_timed :: "FrameCpuAtom list"
  node_cycleStarted :: bool
  node_cycleStopped :: bool

definition new_node :: "GraphConfig \<Rightarrow> nat \<Rightarrow> nat \<Rightarrow> GraphNode" where
  "new_node config registry cache = \<lparr>node_config = config, node_gpuIds = [], node_registry = new_registry, registry_address = registry,
     node_snapshot = \<lparr>snap_values = Mapping.empty, snap_revision = 0\<rparr>, node_tasks = [], node_static = new_static_data cache,
     node_warmup = [], node_timed = [], node_cycleStarted = False, node_cycleStopped = False\<rparr>"

section \<open>Setup\<close>

definition multiplyFrameCount :: "u64 \<Rightarrow> size_t \<Rightarrow> size_t option" where
  "multiplyFrameCount framesPerGpu gpuCount =
     (if gpuCount = 0 \<or> framesPerGpu > SIZE_MAX div gpuCount then None else Some (framesPerGpu * gpuCount))"

text \<open>The numbers of warm-up and timed frames, unless a count or the last frame id would overflow.\<close>

definition plan_frames :: "GraphConfig \<Rightarrow> size_t \<Rightarrow> (size_t \<times> size_t) option" where
  "plan_frames cfg gpuCount = do {
     warmupCount \<leftarrow> multiplyFrameCount (warmupFramesPerGpu cfg) gpuCount;
     timedCount \<leftarrow> multiplyFrameCount (timedFramesPerGpu cfg) gpuCount;
     if warmupCount > SIZE_MAX - timedCount then None
     else let totalFrameCount = warmupCount + timedCount
          in if totalFrameCount > SIZE_MAX \<or> firstFrameId cfg > SIZE_MAX - totalFrameCount then None
             else Some (warmupCount, timedCount)
   }"

text \<open>The end of the life of a task object: its destructor, and its resources leave the store.\<close>

definition drop_resources :: "nat \<Rightarrow> GpuContextManager \<Rightarrow> GpuContextManager" where
  "drop_resources t M = M\<lparr>task_heap := (task_heap M)(t := None)\<rparr>"

definition destroy_task :: "('w, 'x) task_api_scheme \<Rightarrow> DummyTask \<Rightarrow> GpuContextManager \<Rightarrow> 'w \<Rightarrow> (GpuContextManager \<times> 'w) option" where
  "destroy_task api T M w = do { (_, T', M', w') \<leftarrow> task_delete api T M w; Some (drop_resources (task_resources T) M', w') }"

text \<open>The two loops that create the tasks: the task ids count up over all GPUs.\<close>

fun build_tasks :: "('w, 'x) task_api_scheme \<Rightarrow> (nat \<Rightarrow> nat) \<Rightarrow> nat list \<Rightarrow> nat \<Rightarrow> GraphNode \<Rightarrow> GpuContextManager \<Rightarrow> 'w
    \<Rightarrow> (bool \<times> nat \<times> GraphNode \<times> GpuContextManager \<times> 'w) option" where
  "build_tasks api address [] memory G M w = Some (True, memory, G, M, w)"
| "build_tasks api address (taskId # ids) memory G M w = (case memory of
      0 \<Rightarrow> Some (False, 0, G, M, w)
    | Suc m \<Rightarrow>
        let cfg = node_config G;
            T = new_task (int taskId) (cfg_executionModel cfg) (graph_runtime cfg) (address taskId);
            M1 = put_resources (address taskId) new_resources M;
            (ok, R, T1) = registerParameters (registry_address G) (node_registry G) T;
            G1 = G\<lparr>node_registry := R\<rparr>
        in if ok then build_tasks api address ids m (G1\<lparr>node_tasks := node_tasks G1 @ [T1]\<rparr>) M1 w
           else do { (M2, w2) \<leftarrow> destroy_task api T1 M1 w; Some (False, m, G1, M2, w2) })"

text \<open>Set both parameters, seal the registry, take the first snapshot.\<close>

definition set_parameters :: "AlgoParams \<Rightarrow> ParameterRegistry \<Rightarrow> bool \<times> ParameterRegistry" where
  "set_parameters p R =
     (let (ok1, R1) = setString NAME_PARAMETER (param_name p) R
      in if \<not> ok1 then (False, R1) else setBytes BLOB_PARAMETER (param_blob p) R1)"

definition seal_parameters :: "GraphNode \<Rightarrow> bool \<times> GraphNode" where
  "seal_parameters G =
     (let (ok1, R1) = set_parameters (graph_parameters (node_config G)) (node_registry G);
          (ok2, R2) = (if ok1 then seal R1 else (False, R1));
          G1 = G\<lparr>node_registry := R2\<rparr>
      in if \<not> ok2 then (False, G1)
         else case snapshot R2 of None \<Rightarrow> (False, G1) | Some s \<Rightarrow> (True, G1\<lparr>node_snapshot := s\<rparr>))"

fun load_tasks :: "('w, 'x) task_api_scheme \<Rightarrow> u32 option \<Rightarrow> ParameterRegistry \<Rightarrow> DummyTask list \<Rightarrow> GpuContextManager \<Rightarrow> 'w
    \<Rightarrow> (bool \<times> DummyTask list \<times> GpuContextManager \<times> 'w) option" where
  "load_tasks api getcpu R [] M w = Some (True, [], M, w)"
| "load_tasks api getcpu R (T # Ts) M w = do {
     (ok, T1, M1, w1) \<leftarrow> task_load api getcpu R T M w;
     if \<not> ok then Some (False, T1 # Ts, M1, w1)
     else do { (b, Ts1, M2, w2) \<leftarrow> load_tasks api getcpu R Ts M1 w1; Some (b, T1 # Ts1, M2, w2) }
   }"

text \<open>One loop over the frames of a phase; the next id and the memory that is left go on.\<close>

fun make_atoms :: "AlgoRuntimeInfo \<Rightarrow> nat \<Rightarrow> nat \<Rightarrow> u64 \<Rightarrow> FrameCpuAtom list \<Rightarrow> bool \<times> nat \<times> u64 \<times> FrameCpuAtom list" where
  "make_atoms rt 0 memory nextId as = (True, memory, nextId, as)"
| "make_atoms rt (Suc n) memory nextId as = (case memory of
      0 \<Rightarrow> (False, 0, nextId, as)
    | Suc m \<Rightarrow> make_atoms rt n m (nextId + 1) (as @ [new_atom (makeFrameMetadata nextId rt) rt]))"

definition make_frames :: "size_t \<Rightarrow> size_t \<Rightarrow> nat \<Rightarrow> GraphNode \<Rightarrow> bool \<times> GraphNode" where
  "make_frames warmupCount timedCount memory G =
     (if memory < 2 then (False, G)
      else let cfg = node_config G;
               (ok1, m1, nextId, warm) = make_atoms (graph_runtime cfg) (unat warmupCount) (memory - 2) (firstFrameId cfg) (node_warmup G);
               G1 = G\<lparr>node_warmup := warm\<rparr>
           in if \<not> ok1 then (False, G1)
              else let (ok2, m2, _, timed) = make_atoms (graph_runtime cfg) (unat timedCount) m1 nextId (node_timed G1)
                   in (ok2, G1\<lparr>node_timed := timed\<rparr>))"

definition static_config :: "GraphConfig \<Rightarrow> StaticDataConfig" where
  "static_config cfg = \<lparr>cfg_runtime = graph_runtime cfg, detectionZoneBytes = 0, distortionBytes = 0,
     gpuCacheEntries = cfg_gpuCacheEntries cfg, gpuCacheWaitTimeout = cfg_gpuCacheWaitTimeout cfg,
     gpuCacheEvictionPolicy = cfg_gpuCacheEvictionPolicy cfg\<rparr>"

definition task_ids :: "GraphNode \<Rightarrow> nat list" where
  "task_ids G = [0..<length (node_gpuIds G) * unat (taskInstancesPerGpu (node_config G))]"

definition initializeOnNumaNode :: "('w, 'x) task_api_scheme \<Rightarrow> host_memory \<Rightarrow> u32 option \<Rightarrow> (nat \<Rightarrow> nat) \<Rightarrow> nat
    \<Rightarrow> GraphNode \<Rightarrow> GpuContextManager \<Rightarrow> 'w \<Rightarrow> (bool \<times> GraphNode \<times> GpuContextManager \<times> 'w) option" where
  "initializeOnNumaNode api mem getcpu address memory G M w =
     (case plan_frames (node_config G) (of_nat (length (node_gpuIds G))) of
        None \<Rightarrow> Some (False, G, M, w)
      | Some (warmupCount, timedCount) \<Rightarrow> (case memory of
          0 \<Rightarrow> Some (False, G, M, w)
        | Suc m \<Rightarrow> do {
            (built, m1, G1, M1, w1) \<leftarrow> build_tasks api address (task_ids G) m G M w;
            let (ready, G2) = (if built then seal_parameters G1 else (False, G1));
            if \<not> ready then Some (False, G2, M1, w1)
            else do {
              (loaded, ts, M2, w2) \<leftarrow> load_tasks api getcpu (node_registry G2) (node_tasks G2) M1 w1;
              let G3 = G2\<lparr>node_tasks := ts\<rparr>;
              let (made, G4) = (if loaded then make_frames warmupCount timedCount m1 G3 else (False, G3));
              if \<not> made then Some (False, G4, M2, w2)
              else do {
                (ok, D, w3) \<leftarrow> StaticData_init api mem getcpu M2 (static_config (node_config G4)) (node_static G4) w2;
                Some (ok, G4\<lparr>node_static := D\<rparr>, M2, w3)
              }
            }
          }))"

section \<open>Start, stop, parameters\<close>

text \<open>A task that does not start undoes the starts before it, last one first.\<close>

fun start_tasks :: "DummyTask list \<Rightarrow> DummyTask list \<Rightarrow> bool \<times> DummyTask list" where
  "start_tasks started [] = (True, rev started)"
| "start_tasks started (T # Ts) = (case task_start T of
      (True, T1) \<Rightarrow> start_tasks (T1 # started) Ts
    | (False, T1) \<Rightarrow> (False, rev (map (snd \<circ> task_stop) started) @ T1 # Ts))"

definition startOnNumaNode :: "GraphNode \<Rightarrow> bool \<times> GraphNode" where
  "startOnNumaNode G = (let (ok, ts) = start_tasks [] (node_tasks G) in (ok, G\<lparr>node_tasks := ts\<rparr>))"

fun notify_tasks :: "('w, 'x) task_api_scheme \<Rightarrow> ParameterSnapshot \<Rightarrow> DummyTask list \<Rightarrow> GpuContextManager \<Rightarrow> 'w
    \<Rightarrow> (bool \<times> DummyTask list \<times> 'w) option" where
  "notify_tasks api s [] M w = Some (True, [], w)"
| "notify_tasks api s (T # Ts) M w = do {
     (ok, T1, w1) \<leftarrow> notifyParameters api s T M w;
     if \<not> ok then Some (False, T1 # Ts, w1)
     else do { (b, Ts1, w2) \<leftarrow> notify_tasks api s Ts M w1; Some (b, T1 # Ts1, w2) }
   }"

definition notifyParametersOnNumaNode :: "('w, 'x) task_api_scheme \<Rightarrow> ParameterSnapshot \<Rightarrow> GpuContextManager \<Rightarrow> GraphNode \<times> 'w
    \<Rightarrow> (bool \<times> GraphNode \<times> 'w) option" where
  "notifyParametersOnNumaNode api s M Gw = do {
     (ok, ts, w1) \<leftarrow> notify_tasks api s (node_tasks (fst Gw)) M (snd Gw);
     Some (ok, (fst Gw)\<lparr>node_tasks := ts\<rparr>, w1)
   }"

text \<open>Stop one task: \<open>ok\<close> stays when it was started and stops, or had stopped before.\<close>

definition stop_task :: "DummyTask \<Rightarrow> bool \<times> DummyTask" where
  "stop_task T =
     (let (stopped, T1) = (if task_state T = Started then task_stop T else (True, T))
      in if task_state T = Started \<and> \<not> stopped then (False, T1) else (task_state T1 = Stopped, T1))"

fun stop_tasks :: "DummyTask list \<Rightarrow> bool \<times> DummyTask list" where
  "stop_tasks [] = (True, [])"
| "stop_tasks (T # Ts) = (let (ok, Ts1) = stop_tasks Ts; (b, T1) = stop_task T in (ok \<and> b, T1 # Ts1))"

definition stopOnNumaNode :: "GraphNode \<Rightarrow> bool \<times> GraphNode" where
  "stopOnNumaNode G = (let (ok, ts) = stop_tasks (node_tasks G) in (ok, G\<lparr>node_tasks := ts\<rparr>))"

section \<open>Unload\<close>

fun unload_tasks :: "('w, 'x) task_api_scheme \<Rightarrow> DummyTask list \<Rightarrow> GpuContextManager \<Rightarrow> 'w
    \<Rightarrow> (bool \<times> DummyTask list \<times> GpuContextManager \<times> 'w) option" where
  "unload_tasks api [] M w = Some (True, [], M, w)"
| "unload_tasks api (T # Ts) M w = do {
     (ok, T1, M1, w1) \<leftarrow> task_unload api T M w;
     (b, Ts1, M2, w2) \<leftarrow> unload_tasks api Ts M1 w1;
     Some (ok \<and> b, T1 # Ts1, M2, w2)
   }"

fun destroy_tasks :: "('w, 'x) task_api_scheme \<Rightarrow> DummyTask list \<Rightarrow> GpuContextManager \<Rightarrow> 'w \<Rightarrow> (GpuContextManager \<times> 'w) option" where
  "destroy_tasks api [] M w = Some (M, w)"
| "destroy_tasks api (T # Ts) M w = do { (M1, w1) \<leftarrow> destroy_task api T M w; destroy_tasks api Ts M1 w1 }"

definition unloadOnNumaNode :: "('w, 'x) task_api_scheme \<Rightarrow> GraphNode \<Rightarrow> GpuContextManager \<Rightarrow> 'w
    \<Rightarrow> (bool \<times> GraphNode \<times> GpuContextManager \<times> 'w) option" where
  "unloadOnNumaNode api G M w =
     (let (ok1, G1) = (if node_cycleStarted G
            then let (stopped, G0) = stopOnNumaNode G in (stopped, G0\<lparr>node_cycleStarted := False, node_cycleStopped := True\<rparr>)
            else (True, G));
          (ok2, D, w1) = StaticData_release api (node_static G1) w;
          G2 = G1\<lparr>node_static := D, node_warmup := [], node_timed := []\<rparr>
      in do {
           (ok3, ts, M1, w2) \<leftarrow> unload_tasks api (node_tasks G2) M w1;
           (M2, w3) \<leftarrow> destroy_tasks api ts M1 w2;
           Some (ok1 \<and> ok2 \<and> ok3, G2\<lparr>node_tasks := []\<rparr>, M2, w3)
         })"

section \<open>The calls of the graph\<close>

text \<open>
  \<open>executor.run\<close> with a callback that does not throw: \<open>ready\<close> tells whether the thread was created
  and pinned to the node.
\<close>

definition run_on_node :: "bool \<Rightarrow> ('s \<Rightarrow> (bool \<times> 's) option) \<Rightarrow> 's \<Rightarrow> (bool \<times> 's) option" where
  "run_on_node ready callback s = (if ready then callback s else Some (False, s))"

lemma run_on_node_executor:
  "NumaExecutor_run os cpulist node created v (\<lambda>_ s. map_option Inr (callback s)) s
     = run_on_node (created \<and> fst (pinToNumaNode os cpulist node v)) callback s"
  by (auto simp: NumaExecutor_run_def run_on_node_def option.map_comp comp_def option.map_ident split: prod.splits bool.splits)

text \<open>
  \<open>initialize()\<close> up to the creation of the workers.  \<open>ready\<close> are the three runs on the node; the
  result has the answer, the cancellation flag and the state.
\<close>

definition initialize_prepare :: "('w, 'x) task_api_scheme \<Rightarrow> host_memory \<Rightarrow> u32 option \<Rightarrow> (nat \<Rightarrow> nat) \<Rightarrow> nat \<Rightarrow> (nat \<Rightarrow> bool)
    \<Rightarrow> bool \<Rightarrow> bool \<Rightarrow> GraphNode \<Rightarrow> GpuContextManager \<Rightarrow> 'w \<Rightarrow> (bool \<times> bool \<times> GraphNode \<times> GpuContextManager \<times> 'w) option" where
  "initialize_prepare api mem getcpu address memory ready wasInitialized cancelled G M w =
     (let cfg = node_config G
      in if wasInitialized \<or> taskInstancesPerGpu cfg = 0 \<or> inBytes (graph_runtime cfg) = 0 \<or> cancelled then Some (False, cancelled, G, M, w)
      else do {
        (found, ids) \<leftarrow> run_on_node (ready 0) (\<lambda>_. gpuIdsForCurrentNumaNode getcpu M) (node_gpuIds G);
        let G1 = G\<lparr>node_gpuIds := ids\<rparr>;
        if \<not> found \<or> taskInstancesPerGpu cfg > SIZE_MAX div of_nat (length ids) then Some (False, cancelled, G1, M, w)
        else let configuredTaskCount = taskInstancesPerGpu cfg * of_nat (length ids)
             in if configuredTaskCount > of_int INT_MAX then Some (False, cancelled, G1, M, w)
             else let threads = (if cfg_graphThreads cfg = 0 then configuredTaskCount else cfg_graphThreads cfg);
                      G2 = G1\<lparr>node_config := cfg\<lparr>cfg_graphThreads := threads\<rparr>\<rparr>
                  in if threads = 0 then Some (False, cancelled, G2, M, w)
                  else do {
                    (setupSucceeded, G3, M1, w1) \<leftarrow> run_on_node (ready 1)
                        (\<lambda>(G', M', w'). initializeOnNumaNode api mem getcpu address memory G' M' w') (G2, M, w);
                    if setupSucceeded then Some (True, cancelled, G3, M1, w1)
                    else do {
                      (_, G4, M2, w2) \<leftarrow> run_on_node (ready 2) (\<lambda>(G', M', w'). unloadOnNumaNode api G' M' w') (G3, M1, w1);
                      Some (False, True, G4, M2, w2)
                    }
                  }
      })"

text \<open>
  \<open>changeParameters\<close>: on the scheduler's state \<open>S\<close>, for its guard and the cancellation flag, and on the
  node.
\<close>

definition changeParameters :: "('w, 'x) task_api_scheme \<Rightarrow> bool \<Rightarrow> AlgoParams \<Rightarrow> GpuContextManager \<Rightarrow> Graph \<Rightarrow> GraphNode \<Rightarrow> 'w
    \<Rightarrow> (bool \<times> Graph \<times> GraphNode \<times> 'w) option" where
  "changeParameters api ready p M S G w =
     (let cfg = node_config G; R = node_registry G
      in if \<not> initialized S \<or> phaseActive S \<or> inFlight S \<noteq> 0 \<or> stopping S \<or> cancellation S \<or> \<not> sealed R then Some (False, S, G, w)
      else if param_name p = param_name (graph_parameters cfg) \<and> param_blob p = param_blob (graph_parameters cfg) then Some (True, S, G, w)
      else let (ok, R1) = set_parameters p R; G1 = G\<lparr>node_registry := R1\<rparr>
           in if \<not> ok \<or> revisionNumber R1 = revisionNumber R then Some (False, S, G1, w)
           else case snapshot R1 of
               None \<Rightarrow> Some (False, S, G1, w)
             | Some s \<Rightarrow> do {
                 (notified, G2, w1) \<leftarrow> run_on_node ready (notifyParametersOnNumaNode api s M) (G1, w);
                 if \<not> notified then Some (False, S\<lparr>cancellation := True\<rparr>, G2, w1)
                 else Some (True, S, G2\<lparr>node_config := cfg\<lparr>graph_parameters := p\<rparr>, node_snapshot := s\<rparr>, w1)
               })"

end
