(* ===== verification/Setup_Properties.thy ===== *)
theory Setup_Properties
  imports Graph_Setup Task_Samples
begin

text \<open>
  What the setup of a graph on its NUMA node gives: the frames with their ids, the loaded tasks, and the
  parameters, which stay the same in the configuration, the registry, the snapshot and every algorithm.
\<close>

section \<open>Frames\<close>

lemma unat_of_nat_small: "n < 2 ^ 64 \<Longrightarrow> unat (of_nat n :: size_t) = n"
  by (simp only: unat_of_nat) simp

lemma plan_frames_exact:
  "plan_frames cfg n =
     (let w = unat (warmupFramesPerGpu cfg) * unat n; t = unat (timedFramesPerGpu cfg) * unat n
      in if n \<noteq> 0 \<and> unat (firstFrameId cfg) + w + t < 2 ^ 64 then Some (of_nat w, of_nat t) else None)"
proof (cases "n = 0")
  case False
  let ?w = "unat (warmupFramesPerGpu cfg) * unat n" and ?t = "unat (timedFramesPerGpu cfg) * unat n"
  have count: "multiplyFrameCount f n = (if unat f * unat n < 2 ^ 64 then Some (of_nat (unat f * unat n)) else None)" for f
    using False size_t_mult_fits [of n f] by (auto simp: multiplyFrameCount_def mult.commute)
  show ?thesis
  proof (cases "?w < 2 ^ 64 \<and> ?t < 2 ^ 64")
    case True
    then have u: "unat (of_nat ?w :: size_t) = ?w" "unat (of_nat ?t :: size_t) = ?t" by (blast intro: unat_of_nat_small)+
    have room: "(SIZE_MAX - of_nat ?t < (of_nat ?w :: size_t)) \<longleftrightarrow> 2 ^ 64 \<le> ?w + ?t" using size_t_room(2) [of "of_nat ?t" "of_nat ?w"] u by (simp add: add.commute)
    have max: "(SIZE_MAX < (x :: size_t)) = False" for x using unat_size_t_less [of x] by (simp add: word_less_nat_alt)
    have total: "(SIZE_MAX - (of_nat ?w + of_nat ?t) < firstFrameId cfg) \<longleftrightarrow> 2 ^ 64 \<le> ?w + ?t + unat (firstFrameId cfg)" if "?w + ?t < 2 ^ 64"
    proof -
      have "unat (of_nat ?w + of_nat ?t :: size_t) = ?w + ?t" using that u by (simp add: unat_add_no_wrap)
      then show ?thesis using size_t_room(2) [of "of_nat ?w + of_nat ?t" "firstFrameId cfg"] by simp
    qed
    show ?thesis using False True room total unfolding plan_frames_def count max Let_def by (auto simp: add_ac not_less)
  next
    case no: False
    then show ?thesis using False by (auto simp: plan_frames_def count Let_def split: Option.bind_splits)
  qed
qed (simp add: plan_frames_def multiplyFrameCount_def)

definition frames_from :: "AlgoRuntimeInfo \<Rightarrow> u64 \<Rightarrow> nat \<Rightarrow> FrameCpuAtom list" where
  "frames_from rt i n = map (\<lambda>k. new_atom (makeFrameMetadata (i + of_nat k) rt) rt) [0..<n]"

lemma make_atoms_frames:
  "make_atoms rt n m i as = (True, m', i', as') \<Longrightarrow> as' = as @ frames_from rt i n \<and> i' = i + of_nat n"
proof (induction n arbitrary: m i as)
  case (Suc n)
  then obtain m1 where m: "m = Suc m1" by (cases m) auto
  have "[0..<Suc n] = 0 # map Suc [0..<n]" by (simp add: upt_conv_Cons map_Suc_upt del: upt_Suc)
  then have "frames_from rt i (Suc n) = new_atom (makeFrameMetadata i rt) rt # frames_from rt (i + 1) n"
    by (simp add: frames_from_def add_ac del: upt_Suc)
  then show ?case using Suc.IH [of m1 "i + 1" "as @ [new_atom (makeFrameMetadata i rt) rt]"] Suc.prems m by (auto simp: add_ac)
qed (simp add: frames_from_def)

lemma make_frames_made:
  assumes "make_frames warm timed m G = (True, G')"
  shows "G' = G\<lparr>node_warmup := node_warmup G @ frames_from (graph_runtime (node_config G)) (firstFrameId (node_config G)) (unat warm),
    node_timed := node_timed G @ frames_from (graph_runtime (node_config G)) (firstFrameId (node_config G) + warm) (unat timed)\<rparr>"
  using assms by (auto simp: make_frames_def Let_def split: if_splits prod.splits dest!: make_atoms_frames)

lemma frames_from_ids:
  assumes "unat i + n \<le> 2 ^ 64"
  shows "map (\<lambda>a. unat (frameId (key (atom_metadata a)))) (frames_from rt i n) = [unat i..<unat i + n]"
proof -
  have "unat (i + of_nat k) = unat i + k" if "k < n" for k
  proof -
    have "unat (of_nat k :: u64) = k" using that assms by (simp add: unat_of_nat_small)
    then show ?thesis using that assms by (simp add: unat_add_no_wrap)
  qed
  then show ?thesis
    by (auto simp: frames_from_def new_atom_def makeFrameMetadata_def comp_def intro!: nth_equalityI)
qed

lemma frames_from_layout:
  assumes "validRuntime rt" "a \<in> set (frames_from rt i n)"
  shows "matchesRuntime (atom_metadata a) rt \<and> length (atom_data a) = unat (inBytes rt) \<and> length (outputs (atom_result a)) = 3"
  using assms(2) new_atom_layout [OF assms(1)] by (auto simp: frames_from_def matchesRuntime_def Let_def)

section \<open>Tasks\<close>

definition registered_task :: "GraphNode \<Rightarrow> (nat \<Rightarrow> nat) \<Rightarrow> nat \<Rightarrow> DummyTask" where
  "registered_task G address i = (new_task (int i) (cfg_executionModel (node_config G)) (graph_runtime (node_config G)) (address i))
     \<lparr>parameterRegistry := Some (registry_address G), task_state := Registered\<rparr>"

lemma registerParameters_new:
  assumes "registerParameters r R (new_task i m rt a) = (ok, R', T')"
  shows "if ok then T' = (new_task i m rt a)\<lparr>parameterRegistry := Some r, task_state := Registered\<rparr> else T' = new_task i m rt a"
  using assms by (auto simp: registerParameters_def new_task_def Let_def split: if_splits prod.splits)

lemma build_tasks_built:
  assumes "build_tasks api address ids m G M w = Some (True, m', G', M', w')"
  shows "\<exists>R. G' = G\<lparr>node_registry := R, node_tasks := node_tasks G @ map (registered_task G address) ids\<rparr>"
  using assms
proof (induction ids arbitrary: m G M)
  case (Cons i ids)
  then obtain m1 where m: "m = Suc m1" by (cases m) auto
  let ?T = "new_task (int i) (cfg_executionModel (node_config G)) (graph_runtime (node_config G)) (address i)"
  obtain ok R T1 where r: "registerParameters (registry_address G) (node_registry G) ?T = (ok, R, T1)" by (metis prod_cases3)
  have ok: ok using Cons.prems m r by (cases ok) (auto split: Option.bind_splits)
  then have T1: "T1 = registered_task G address i" using registerParameters_new [OF r] by (simp add: registered_task_def)
  have same: "registered_task (G\<lparr>node_registry := R, node_tasks := ts\<rparr>) address = registered_task G address" for ts
    by (simp add: registered_task_def fun_eq_iff)
  obtain R' where "G' = G\<lparr>node_registry := R', node_tasks := (node_tasks G @ [T1]) @ map (registered_task G address) ids\<rparr>"
    using Cons.IH Cons.prems m r ok same by fastforce
  then show ?case using T1 by auto
qed (auto intro: exI [of _ "node_registry G'"])

lemma notify_algorithms_params:
  "notify_algorithms v as = (True, as') \<Longrightarrow> \<forall>a\<in>set as'. algoParams a = v"
proof (induction as arbitrary: as')
  case (Cons a as)
  obtain c a1 where a: "algo_notifyParameter v a = (c, a1)" by fastforce
  obtain d bs where rec: "notify_algorithms v as = (d, bs)" by fastforce
  have c d "as' = a1 # bs" using Cons.prems a rec by (cases c; auto simp: IAlgo_generic)+
  moreover have "algoParams a1 = v" using a \<open>c\<close> by (auto simp: algo_notifyParameter_def split: if_splits)
  ultimately show ?case using Cons.IH rec by auto
qed simp

text \<open>The task has applied the values of the snapshot, in every algorithm.\<close>

definition applied :: "ParameterSnapshot \<Rightarrow> DummyTask \<Rightarrow> bool" where
  "applied s T \<longleftrightarrow> appliedParameterRevision T = snap_revision s
     \<and> (\<forall>a\<in>set (algorithms T). getString s NAME_PARAMETER = Some (param_name (algoParams a)) \<and> getBytes s BLOB_PARAMETER = Some (param_blob (algoParams a)))"

lemma applyParameters_applied:
  assumes "applyParameters s T = (True, T')"
  shows "applied s T'" "\<exists>as n. T' = T\<lparr>algorithms := as, appliedParameterRevision := n\<rparr>"
proof -
  show "applied s T'"
    using assms by (auto simp: applyParameters_def applied_def Let_def split: option.splits prod.splits if_splits dest!: notify_algorithms_params)
  show "\<exists>as n. T' = T\<lparr>algorithms := as, appliedParameterRevision := n\<rparr>" using applyParameters_same [OF assms] by blast
qed

lemma task_load_applied:
  assumes "task_load api getcpu R T M w = Some (True, T', M', w')"
  shows "\<exists>s as n. snapshot R = Some s \<and> applied s T' \<and> T' = T\<lparr>algorithms := as, appliedParameterRevision := n, task_state := Loaded\<rparr>
    \<and> validRuntime (algoRuntime T)"
proof -
  have no: "load_failed api U N v \<noteq> Some (True, T', M', w')" for U N v
    by (auto simp: load_failed_def split: Option.bind_splits)
  obtain s as U where s: "snapshot R = Some s" "applyParameters s (T\<lparr>algorithms := as\<rparr>) = (True, U)" "T' = U\<lparr>task_state := Loaded\<rparr>"
      "validRuntime (algoRuntime T)"
    using assms no by (auto simp: task_load_def Let_def split: if_splits option.splits Option.bind_splits prod.splits)
  then show ?thesis using applyParameters_applied [OF s(2)] by (auto simp: applied_def)
qed

lemma load_tasks_applied:
  assumes "load_tasks api getcpu R Ts M w = Some (True, Ts', M', w')"
  shows "list_all2 (\<lambda>T T'. \<exists>s as n. snapshot R = Some s \<and> applied s T' \<and> T' = T\<lparr>algorithms := as, appliedParameterRevision := n, task_state := Loaded\<rparr>
    \<and> validRuntime (algoRuntime T)) Ts Ts'"
  using assms
proof (induction Ts arbitrary: M w Ts')
  case (Cons T Ts)
  then obtain T1 M1 w1 Ts1 where 1: "task_load api getcpu R T M w = Some (True, T1, M1, w1)"
      "load_tasks api getcpu R Ts M1 w1 = Some (True, Ts1, M', w')" "Ts' = T1 # Ts1"
    by (auto split: Option.bind_splits if_splits)
  then show ?case using task_load_applied [OF 1(1)] Cons.IH [OF 1(2)] by simp
qed simp

section \<open>Parameters\<close>

lemma setValue_set:
  assumes "setValue name ty v R = (True, R')"
  shows "Mapping.lookup (reg_values R') name = Some v" "m \<noteq> name \<Longrightarrow> Mapping.lookup (reg_values R') m = Mapping.lookup (reg_values R) m"
    "sealed R' = sealed R"
  using assms by (auto simp: setValue_def lookup_update_iff split: if_splits)

lemma set_parameters_set:
  assumes "set_parameters p R = (True, R')" "s = \<lparr>snap_values = reg_values R', snap_revision = n\<rparr>"
  shows "getString s NAME_PARAMETER = Some (param_name p)" "getBytes s BLOB_PARAMETER = Some (param_blob p)" "sealed R' = sealed R"
proof -
  have ne: "NAME_PARAMETER \<noteq> BLOB_PARAMETER" by (simp add: NAME_PARAMETER_def BLOB_PARAMETER_def)
  obtain R1 where 1: "setValue NAME_PARAMETER ParameterType_String (StringValue (param_name p)) R = (True, R1)"
      "setValue BLOB_PARAMETER ParameterType_Bytes (BytesValue (param_blob p)) R1 = (True, R')"
    using assms(1) by (auto simp: set_parameters_def setString_def setBytes_def Let_def split: prod.splits if_splits)
  show "getString s NAME_PARAMETER = Some (param_name p)" using setValue_set(1) [OF 1(1)] setValue_set(2) [OF 1(2) ne] assms(2) by (simp add: getString_def)
  show "getBytes s BLOB_PARAMETER = Some (param_blob p)" using setValue_set(1) [OF 1(2)] assms(2) by (simp add: getBytes_def)
  show "sealed R' = sealed R" using setValue_set(3) [OF 1(1)] setValue_set(3) [OF 1(2)] by simp
qed

text \<open>Configuration, registry, snapshot and every algorithm have the same parameters.\<close>

definition has_parameters :: "ParameterSnapshot \<Rightarrow> AlgoParams \<Rightarrow> bool" where
  "has_parameters s p \<longleftrightarrow> getString s NAME_PARAMETER = Some (param_name p) \<and> getBytes s BLOB_PARAMETER = Some (param_blob p)"

definition in_sync :: "GraphNode \<Rightarrow> bool" where
  "in_sync G \<longleftrightarrow> snapshot (node_registry G) = Some (node_snapshot G) \<and> has_parameters (node_snapshot G) (graph_parameters (node_config G))
     \<and> (\<forall>T\<in>set (node_tasks G). applied (node_snapshot G) T)"

lemma seal_parameters_sealed:
  assumes "seal_parameters G = (True, G')"
  shows "\<exists>R s. G' = G\<lparr>node_registry := R, node_snapshot := s\<rparr> \<and> snapshot R = Some s \<and> has_parameters s (graph_parameters (node_config G))"
proof -
  obtain R1 R2 s where 1: "set_parameters (graph_parameters (node_config G)) (node_registry G) = (True, R1)" "seal R1 = (True, R2)"
      "snapshot R2 = Some s" "G' = G\<lparr>node_registry := R2, node_snapshot := s\<rparr>"
    using assms by (auto simp: seal_parameters_def Let_def split: prod.splits if_splits option.splits)
  have "s = \<lparr>snap_values = reg_values R1, snap_revision = revisionNumber R1\<rparr>"
    using 1(2,3) by (auto simp: seal_def snapshot_def split: if_splits)
  from set_parameters_set(1,2) [OF 1(1) this] have "has_parameters s (graph_parameters (node_config G))" by (simp add: has_parameters_def)
  then show ?thesis using 1(3,4) by (intro exI conjI)
qed

lemma notifyParameters_applied:
  assumes "notifyParameters api s T M w = Some (True, T', w')" "snap_revision s \<noteq> appliedParameterRevision T"
  shows "applied s T'"
  using assms by (auto simp: notifyParameters_def Let_def split: if_splits Option.bind_splits prod.splits dest: applyParameters_applied(1))

lemma notify_tasks_applied:
  assumes "notify_tasks api s Ts M w = Some (True, Ts', w')" "\<forall>T\<in>set Ts. snap_revision s \<noteq> appliedParameterRevision T"
  shows "\<forall>T\<in>set Ts'. applied s T"
  using assms
proof (induction Ts arbitrary: w Ts')
  case (Cons T Ts)
  then obtain T1 w1 Ts1 where 1: "notifyParameters api s T M w = Some (True, T1, w1)"
      "notify_tasks api s Ts M w1 = Some (True, Ts1, w')" "Ts' = T1 # Ts1"
    by (auto split: Option.bind_splits if_splits)
  then show ?case using notifyParameters_applied [OF 1(1)] Cons.IH [OF 1(2)] Cons.prems(2) by auto
qed simp

lemma notify_tasks_length: "notify_tasks api s Ts M w = Some (b, Ts', w') \<Longrightarrow> length Ts' = length Ts"
  by (induction Ts arbitrary: w b Ts') (auto split: Option.bind_splits if_splits)

lemma notify_tasks_returns:
  assumes ok: "manager_ok M" and "\<forall>T\<in>set Ts. task_heap M (task_resources T) \<noteq> None"
  shows "\<exists>b Ts' w'. notify_tasks api s Ts M w = Some (b, Ts', w')"
  using assms(2)
proof (induction Ts arbitrary: w)
  case (Cons T Ts)
  then obtain r where r: "task_heap M (task_resources T) = Some r" by auto
  have "\<exists>x. makeTaskCurrent api r M w = Some x"
    using manager_okD(4) [OF ok r] by (cases "ctx r") (auto simp: makeTaskCurrent_def)
  then have "notifyParameters api s T M w \<noteq> None" using r by (auto simp: notifyParameters_def Let_def split: prod.splits)
  then obtain b T1 w1 where 1: "notifyParameters api s T M w = Some (b, T1, w1)" by auto
  obtain c Ts1 w2 where "notify_tasks api s Ts M w1 = Some (c, Ts1, w2)" using Cons.IH [of w1] Cons.prems by auto
  then show ?case using 1 by (cases b) auto
qed auto

lemma snapshot_revision: "snapshot R = Some s \<Longrightarrow> snap_revision s = revisionNumber R"
  by (auto simp: snapshot_def split: if_splits)

text \<open>What a change of parameters does once its guards are passed.\<close>

lemma changeParameters_changes:
  assumes "initialized S" "\<not> phaseActive S" "inFlight S = 0" "\<not> stopping S" "\<not> cancellation S" "sealed (node_registry G)"
    and differs: "\<not> (param_name p = param_name (graph_parameters (node_config G)) \<and> param_blob p = param_blob (graph_parameters (node_config G)))"
    and set: "set_parameters p (node_registry G) = (True, R)" "revisionNumber R \<noteq> revisionNumber (node_registry G)"
    and n: "notify_tasks api \<lparr>snap_values = reg_values R, snap_revision = revisionNumber R\<rparr> (node_tasks G) M w = Some (b, Ts, v)"
  shows "changeParameters api ready p M S G w
    = (if \<not> ready then Some (False, S\<lparr>cancellation := True\<rparr>, G\<lparr>node_registry := R\<rparr>, w)
       else if \<not> b then Some (False, S\<lparr>cancellation := True\<rparr>, G\<lparr>node_registry := R, node_tasks := Ts\<rparr>, v)
       else Some (True, S, G\<lparr>node_registry := R, node_tasks := Ts, node_config := (node_config G)\<lparr>graph_parameters := p\<rparr>,
         node_snapshot := \<lparr>snap_values = reg_values R, snap_revision = revisionNumber R\<rparr>\<rparr>, v))"
proof -
  have "sealed R" using set_parameters_set(3) [OF set(1) refl] assms(6) by simp
  then show ?thesis
    using assms unfolding changeParameters_def Let_def by (auto simp: snapshot_def run_on_node_def notifyParametersOnNumaNode_def)
qed

text \<open>
  C29.  Parameters stay in step.  As long as the configuration, the registry, the current snapshot and all
  algorithms of all tasks have the same parameters, a change of parameters returns, and when it answers
  \<open>true\<close> they all have the new parameters, at the revision of the registry.  When it answers \<open>false\<close>, either no task and
  neither the configuration nor the snapshot changed, or the run is cancelled, so that no frame is
  executed with a mixture of parameters.
\<close>

theorem parameters_stay_in_sync:
  assumes "manager_starts api M0" "steps (manager_step api) M0 M" and tasks: "\<forall>T\<in>set (node_tasks G). task_heap M (task_resources T) \<noteq> None"
    and sync: "in_sync G"
  shows "\<exists>b S' G' w'. changeParameters api ready p M S G w = Some (b, S', G', w')
    \<and> (if b then in_sync G' \<and> has_parameters (node_snapshot G') p \<and> S' = S \<and> length (node_tasks G') = length (node_tasks G)
       else cancellation S' \<or> S' = S \<and> node_tasks G' = node_tasks G \<and> node_config G' = node_config G \<and> node_snapshot G' = node_snapshot G)"
proof -
  have ok: "manager_ok M" using mgr.reached_invar [OF assms(1,2)] by blast
  let ?R = "node_registry G" and ?q = "graph_parameters (node_config G)"
  let ?guard = "\<not> initialized S \<or> phaseActive S \<or> inFlight S \<noteq> 0 \<or> stopping S \<or> cancellation S \<or> \<not> sealed ?R"
    and ?same = "param_name p = param_name ?q \<and> param_blob p = param_blob ?q"
  obtain c R1 where R1: "set_parameters p ?R = (c, R1)" by fastforce
  consider (guard) ?guard | (same) "\<not> ?guard" ?same | (unset) "\<not> ?guard" "\<not> ?same" "\<not> c \<or> revisionNumber R1 = revisionNumber ?R"
    | (change) "\<not> ?guard" "\<not> ?same" c "revisionNumber R1 \<noteq> revisionNumber ?R" by blast
  then show ?thesis
  proof cases
    case guard
    then have "changeParameters api ready p M S G w = Some (False, S, G, w)" by (simp add: changeParameters_def)
    then show ?thesis by auto
  next
    case same
    then have "changeParameters api ready p M S G w = Some (True, S, G, w)" by (simp add: changeParameters_def)
    then show ?thesis using sync same(2) by (auto simp: in_sync_def has_parameters_def)
  next
    case unset
    then have "changeParameters api ready p M S G w = Some (False, S, G\<lparr>node_registry := R1\<rparr>, w)" using R1 by (auto simp: changeParameters_def)
    then show ?thesis by auto
  next
    case change
    let ?s = "\<lparr>snap_values = reg_values R1, snap_revision = revisionNumber R1\<rparr>"
    have set: "set_parameters p ?R = (True, R1)" using R1 change(3) by simp
    have s: "has_parameters ?s p" "snapshot R1 = Some ?s"
      using set_parameters_set [OF set refl] change(1) by (simp_all add: has_parameters_def snapshot_def)
    have "snap_revision (node_snapshot G) = revisionNumber ?R" using sync snapshot_revision by (simp add: in_sync_def)
    then have new: "\<forall>T\<in>set (node_tasks G). snap_revision ?s \<noteq> appliedParameterRevision T" using sync change(4) by (simp add: in_sync_def applied_def)
    obtain b Ts v where n: "notify_tasks api ?s (node_tasks G) M w = Some (b, Ts, v)" using notify_tasks_returns [OF ok tasks, of api ?s w] by (elim exE)
    have "b \<Longrightarrow> (\<forall>T\<in>set Ts. applied ?s T) \<and> length Ts = length (node_tasks G)"
      using notify_tasks_applied [OF _ new, of api M w Ts v] notify_tasks_length [OF n] n by simp
    then show ?thesis
      using changeParameters_changes [OF _ _ _ _ _ _ change(2) set change(4) n, of S ready] change(1) s by (auto simp: in_sync_def)
  qed
qed

section \<open>Setup\<close>

lemma StaticData_init_ready:
  assumes "StaticData_init api mem getcpu M cfg D w = Some (True, D', w')" "detectionZoneBytes cfg = 0" "distortionBytes cfg = 0"
  shows "frameRuntime D' = cfg_runtime cfg \<and> execute D'"
proof -
  obtain g D1 w1 where i: "init_static_part api g cfg D1 w1 = (True, D', w')"
    using assms(1) by (auto simp: StaticData_init_def split: if_splits option.splits prod.splits bool.splits)
  obtain ok d1 w2 where 1: "static_initialize api g 0 0 (gpuStaticData D1) w1 = (ok, d1, w2)" by (metis prod_cases3)
  obtain ok2 d2 w3 where 2: "(if ok then static_finalize api d1 w2 else (ok, d1, w2)) = (ok2, d2, w3)" by (metis prod_cases3)
  have D': "ok2" "D' = D1\<lparr>gpuStaticData := d2, frameRuntime := cfg_runtime cfg, staticInitialized := True\<rparr>"
    using i 1 2 assms(2,3) by (auto simp: init_static_part_def Let_def split: if_splits prod.splits)
  then have "static_finalize api d1 w2 = (True, d2, w3)" using 2 by (auto split: if_splits)
  from static_finalize_outcome [OF this] have "currentState d2 = StaticReady" by (auto split: if_splits)
  then show ?thesis using D'(2) by (simp add: execute_def)
qed

lemma found_one: "gpuIdsForCurrentNumaNode getcpu M = Some (True, ids) \<Longrightarrow> \<exists>g. ids = [g]"
  by (auto simp: gpuIdsForCurrentNumaNode_def resolveGpuIds_def split: if_splits prod.splits)

lemma initializeOnNumaNode_built:
  assumes run: "initializeOnNumaNode api mem getcpu address memory G M w = Some (True, G', M', w')"
    and new: "node_tasks G = []" "node_warmup G = []" "node_timed G = []"
  defines "cfg \<equiv> node_config G"
  shows "\<exists>warm timed. plan_frames cfg (of_nat (length (node_gpuIds G))) = Some (warm, timed)
    \<and> node_config G' = cfg \<and> node_gpuIds G' = node_gpuIds G
    \<and> node_warmup G' = frames_from (graph_runtime cfg) (firstFrameId cfg) (unat warm)
    \<and> node_timed G' = frames_from (graph_runtime cfg) (firstFrameId cfg + warm) (unat timed)
    \<and> in_sync G' \<and> frameRuntime (node_static G') = graph_runtime cfg \<and> execute (node_static G')
    \<and> list_all2 (\<lambda>i T. \<exists>as n. T = (registered_task G address i)\<lparr>algorithms := as, appliedParameterRevision := n, task_state := Loaded\<rparr>
         \<and> validRuntime (graph_runtime cfg)) (task_ids G) (node_tasks G')"
proof -
  obtain warm timed m where p: "plan_frames cfg (of_nat (length (node_gpuIds G))) = Some (warm, timed)" "memory = Suc m"
    using run unfolding cfg_def by (auto simp: initializeOnNumaNode_def split: option.splits nat.splits)
  obtain m1 G1 M1 w1 G2 ts M2 w2 G4 D where b: "build_tasks api address (task_ids G) m G M w = Some (True, m1, G1, M1, w1)"
      "seal_parameters G1 = (True, G2)" "load_tasks api getcpu (node_registry G2) (node_tasks G2) M1 w1 = Some (True, ts, M2, w2)"
      "make_frames warm timed m1 (G2\<lparr>node_tasks := ts\<rparr>) = (True, G4)"
      "StaticData_init api mem getcpu M2 (static_config (node_config G4)) (node_static G4) w2 = Some (True, D, w')" "G' = G4\<lparr>node_static := D\<rparr>"
    using run p unfolding cfg_def
    by (auto simp: initializeOnNumaNode_def Let_def split: Option.bind_splits if_splits prod.splits)
  obtain R1 where 1: "G1 = G\<lparr>node_registry := R1, node_tasks := map (registered_task G address) (task_ids G)\<rparr>"
    using build_tasks_built [OF b(1)] new(1) by auto
  obtain R s where 2: "G2 = G1\<lparr>node_registry := R, node_snapshot := s\<rparr>" "snapshot R = Some s" "has_parameters s (graph_parameters (node_config G1))"
    using seal_parameters_sealed [OF b(2)] by blast
  have 3: "list_all2 (\<lambda>i T. \<exists>as n. applied s T \<and> T = (registered_task G address i)\<lparr>algorithms := as, appliedParameterRevision := n, task_state := Loaded\<rparr>
      \<and> validRuntime (graph_runtime cfg)) (task_ids G) ts"
    using load_tasks_applied [OF b(3)] 1 2(1,2) by (auto simp: list_all2_conv_all_nth registered_task_def new_task_def cfg_def)
  have 4: "G4 = G2\<lparr>node_tasks := ts, node_warmup := frames_from (graph_runtime cfg) (firstFrameId cfg) (unat warm),
      node_timed := frames_from (graph_runtime cfg) (firstFrameId cfg + warm) (unat timed)\<rparr>"
    using make_frames_made [OF b(4)] 1 2(1) new by (simp add: cfg_def)
  have 5: "frameRuntime D = graph_runtime cfg \<and> execute D"
    using StaticData_init_ready [OF b(5)] 4 1 2(1) by (simp add: static_config_def cfg_def)
  have app: "\<forall>T\<in>set ts. applied s T" using 3 by (auto simp: list_all2_conv_all_nth in_set_conv_nth)
  have tasks: "list_all2 (\<lambda>i T. \<exists>as n. T = (registered_task G address i)\<lparr>algorithms := as, appliedParameterRevision := n, task_state := Loaded\<rparr>
      \<and> validRuntime (graph_runtime cfg)) (task_ids G) ts" using 3 by (rule list_all2_mono) blast
  show ?thesis
    using p(1) tasks app b(6) 1 2 4 5 by (simp add: in_sync_def cfg_def)
qed

lemma initialize_prepare_runs:
  assumes "initialize_prepare api mem getcpu address memory ready False False (new_node cfg r a) M w = Some (True, c, G, M', w')"
  shows "\<exists>g threads. \<not> c \<and> threads \<noteq> 0 \<and> taskInstancesPerGpu cfg \<noteq> 0 \<and> taskInstancesPerGpu cfg \<le> of_int INT_MAX
    \<and> gpuIdsForCurrentNumaNode getcpu M = Some (True, [g])
    \<and> initializeOnNumaNode api mem getcpu address memory
        ((new_node cfg r a)\<lparr>node_gpuIds := [g], node_config := cfg\<lparr>cfg_graphThreads := threads\<rparr>\<rparr>) M w = Some (True, G, M', w')"
proof -
  obtain found ids where f: "run_on_node (ready 0) (\<lambda>_. gpuIdsForCurrentNumaNode getcpu M) (node_gpuIds (new_node cfg r a)) = Some (found, ids)" "found"
    using assms by (auto simp: initialize_prepare_def Let_def split: if_splits Option.bind_splits)
  then have g: "gpuIdsForCurrentNumaNode getcpu M = Some (True, ids)" by (auto simp: run_on_node_def split: if_splits)
  then obtain g where ids: "ids = [g]" using found_one by blast
  define threads where "threads = (if cfg_graphThreads cfg = 0 then taskInstancesPerGpu cfg else cfg_graphThreads cfg)"
  let ?G = "(new_node cfg r a)\<lparr>node_gpuIds := [g], node_config := cfg\<lparr>cfg_graphThreads := threads\<rparr>\<rparr>"
  have cfg: "node_config (new_node cfg r a) = cfg" by (simp add: new_node_def)
  note run = assms [unfolded initialize_prepare_def Let_def cfg f(1) bind.bind_lunit prod.case ids threads_def [symmetric], simplified]
  have 1: "taskInstancesPerGpu cfg \<noteq> 0" "taskInstancesPerGpu cfg \<le> of_int INT_MAX" "threads \<noteq> 0"
    using run f(2) by (auto simp: threads_def split: if_splits)
  have 2: "run_on_node (ready 1) (\<lambda>(G', M', w'). initializeOnNumaNode api mem getcpu address memory G' M' w') (?G, M, w) = Some (True, G, M', w')" "\<not> c"
    using run f(2) 1 by (auto simp: threads_def split: if_splits Option.bind_splits)
  then show ?thesis using g ids 1 by (auto simp: run_on_node_def split: if_splits)
qed

lemma loaded_tasks:
  assumes "0 < n" "list_all2 (\<lambda>i T. \<exists>as k. T = (registered_task G address i)\<lparr>algorithms := as, appliedParameterRevision := k, task_state := Loaded\<rparr> \<and> P)
    [0..<n] Ts"
  shows "map task_id Ts = map int [0..<n]" P
    "\<forall>T\<in>set Ts. task_state T = Loaded \<and> algoRuntime T = graph_runtime (node_config G) \<and> executionModel T = cfg_executionModel (node_config G)"
proof -
  have l: "length Ts = n" "\<And>i. i < n \<Longrightarrow> \<exists>as k. Ts ! i = (registered_task G address i)\<lparr>algorithms := as, appliedParameterRevision := k, task_state := Loaded\<rparr> \<and> P"
    using assms(2) by (auto simp: list_all2_conv_all_nth)
  show P using l(2) [OF assms(1)] by blast
  have "task_id (Ts ! i) = int i \<and> task_state (Ts ! i) = Loaded \<and> algoRuntime (Ts ! i) = graph_runtime (node_config G)
      \<and> executionModel (Ts ! i) = cfg_executionModel (node_config G)" if "i < n" for i
    using l(2) [OF that] by (auto simp: registered_task_def new_task_def)
  then show "map task_id Ts = map int [0..<n]"
    "\<forall>T\<in>set Ts. task_state T = Loaded \<and> algoRuntime T = graph_runtime (node_config G) \<and> executionModel T = cfg_executionModel (node_config G)"
    using l(1) by (auto simp: list_eq_iff_nth_eq in_set_conv_nth)
qed

lemma queue_accepts:
  assumes "\<forall>x\<in>set frames. accepts (atom_metadata x)" "\<forall>i\<in>set as. objs i \<in> set frames"
  shows "queue_frames accepts objs n as \<noteq> Rejected"
  using assms by (induction as arbitrary: n) (auto split: nat.splits)

text \<open>
  C28.  A graph is set up as configured.  When the setup of a new graph succeeds, it serves the only GPU of
  its NUMA node; the frames of both phases together have the ids from the first configured one on, each once, without
  overflow; the static data accepts every frame, and each has the size and the number of outputs its tasks check for, so that
  filling the queue of a phase never rejects one; the tasks, numbered from zero and no more than an \<open>int\<close> can number, are all loaded with the
  runtime and the execution model of the configuration; and all of them have applied its parameters.
\<close>

theorem graph_is_set_up:
  assumes run: "initialize_prepare api mem getcpu address memory ready False False (new_node cfg r a) M w = Some (True, c, G, M', w')"
  shows "(\<exists>g. gpuIdsForCurrentNumaNode getcpu M = Some (True, [g]) \<and> node_gpuIds G = [g]) \<and> \<not> c \<and> cfg_graphThreads (node_config G) \<noteq> 0
    \<and> (let first = unat (firstFrameId cfg); warm = unat (warmupFramesPerGpu cfg); timed = unat (timedFramesPerGpu cfg)
       in first + warm + timed < 2 ^ 64 \<and> length (node_warmup G) = warm
          \<and> map (\<lambda>x. unat (frameId (key (atom_metadata x)))) (node_warmup G @ node_timed G) = [first..<first + warm + timed])
    \<and> (\<forall>x\<in>set (node_warmup G @ node_timed G). validateFrame (atom_metadata x) (node_static G)
         \<and> length (atom_data x) = unat (bytes (atom_metadata x)) \<and> length (outputs (atom_result x)) = 3)
    \<and> (\<forall>objs as n. (\<forall>i\<in>set as. objs i \<in> set (node_warmup G @ node_timed G))
         \<longrightarrow> queue_frames (\<lambda>md. validateFrame md (node_static G)) objs n as \<noteq> Rejected)
    \<and> map task_id (node_tasks G) = map int [0..<unat (taskInstancesPerGpu cfg)] \<and> unat (taskInstancesPerGpu cfg) < 2 ^ 31
    \<and> (\<forall>T\<in>set (node_tasks G). task_state T = Loaded \<and> algoRuntime T = graph_runtime cfg \<and> executionModel T = cfg_executionModel cfg)
    \<and> in_sync G \<and> has_parameters (node_snapshot G) (graph_parameters cfg)"
proof -
  obtain g threads where 1: "\<not> c" "threads \<noteq> 0" "taskInstancesPerGpu cfg \<noteq> 0" "taskInstancesPerGpu cfg \<le> of_int INT_MAX"
      "gpuIdsForCurrentNumaNode getcpu M = Some (True, [g])"
      "initializeOnNumaNode api mem getcpu address memory
        ((new_node cfg r a)\<lparr>node_gpuIds := [g], node_config := cfg\<lparr>cfg_graphThreads := threads\<rparr>\<rparr>) M w = Some (True, G, M', w')"
    using initialize_prepare_runs [OF run] by blast
  let ?G = "(new_node cfg r a)\<lparr>node_gpuIds := [g], node_config := cfg\<lparr>cfg_graphThreads := threads\<rparr>\<rparr>"
  let ?rt = "graph_runtime cfg" and ?first = "firstFrameId cfg" and ?n = "unat (taskInstancesPerGpu cfg)"
  obtain warm timed where 2: "plan_frames (cfg\<lparr>cfg_graphThreads := threads\<rparr>) 1 = Some (warm, timed)"
      "node_config G = cfg\<lparr>cfg_graphThreads := threads\<rparr>" "node_gpuIds G = [g]"
      "node_warmup G = frames_from ?rt ?first (unat warm)" "node_timed G = frames_from ?rt (?first + warm) (unat timed)"
      "in_sync G" "frameRuntime (node_static G) = ?rt" "execute (node_static G)"
      "list_all2 (\<lambda>i T. \<exists>as n. T = (registered_task ?G address i)\<lparr>algorithms := as, appliedParameterRevision := n, task_state := Loaded\<rparr>
         \<and> validRuntime ?rt) [0..<?n] (node_tasks G)"
    using initializeOnNumaNode_built [OF 1(6)] by (auto simp: new_node_def task_ids_def)
  have f: "unat ?first + unat warm + unat timed < 2 ^ 64" "warm = warmupFramesPerGpu cfg" "timed = timedFramesPerGpu cfg"
    using 2(1) by (auto simp: plan_frames_exact Let_def split: if_splits)
  have ids: "map (\<lambda>x. unat (frameId (key (atom_metadata x)))) (node_warmup G @ node_timed G) = [unat ?first..<unat ?first + unat warm + unat timed]"
    using frames_from_ids [of ?first "unat warm" ?rt] frames_from_ids [of "?first + warm" "unat timed" ?rt] f(1) 2(4,5)
    by (simp add: unat_add_no_wrap upt_add_eq_append [of "unat ?first" "unat ?first + unat warm" "unat timed", simplified])
  have n: "0 < ?n" using 1(3) by (simp add: unat_gt_0)
  have tasks: "map task_id (node_tasks G) = map int [0..<?n]" "validRuntime ?rt"
      "\<forall>T\<in>set (node_tasks G). task_state T = Loaded \<and> algoRuntime T = ?rt \<and> executionModel T = cfg_executionModel cfg"
    using loaded_tasks [OF n 2(9)] by (simp_all add: new_node_def)
  have frames: "\<forall>x\<in>set (node_warmup G @ node_timed G). validateFrame (atom_metadata x) (node_static G)
      \<and> length (atom_data x) = unat (bytes (atom_metadata x)) \<and> length (outputs (atom_result x)) = 3"
    using frames_from_layout [OF tasks(2)] 2(4,5,7,8) by (fastforce simp: validateFrame_def matchesRuntime_def)
  have "?n < 2 ^ 31" using 1(4) by (simp add: word_le_nat_alt INT_MAX_def)
  moreover have "has_parameters (node_snapshot G) (graph_parameters cfg)" using 2(2,6) by (simp add: in_sync_def)
  ultimately show ?thesis
    using 1(1,2,5) 2(2,3,4,6) f ids tasks(1,3) frames queue_accepts [of "node_warmup G @ node_timed G"] by (simp add: Let_def frames_from_def)
qed

end
