(* ===== verification/Setup_Samples.thy ===== *)
theory Setup_Samples
  imports Setup_Properties
begin

text \<open>A graph of one task and three frames, set up on the concrete runtime of \<open>Task_Samples\<close>.\<close>

definition sample_graph_config :: GraphConfig where
  "sample_graph_config = default_config\<lparr>taskInstancesPerGpu := 1, cfg_gpuCacheEntries := 0, warmupFramesPerGpu := 1, timedFramesPerGpu := 2,
     firstFrameId := 40, graph_runtime := sample_runtime, graph_parameters := \<lparr>param_name = ''n'', param_blob = [1]\<rparr>\<rparr>"

definition sample_memory :: host_memory where
  "sample_memory = \<lparr>tableMemory = \<lambda>_. True, vectorMemory = True, entryMemory = \<lambda>_. True, replicaMemory = \<lambda>_. True, idsMemory = True\<rparr>"

lemma sample_static: "\<exists>D w'. StaticData_init sample_task_api sample_memory (Some 0) (sample_loaded_manager r) (static_config sample_graph_config) (new_static_data a) w
    = Some (True, D, w')"
proof -
  let ?cfg = "static_config sample_graph_config"
  have ids: "gpuIdsForCurrentNumaNode (Some 0) (sample_loaded_manager r) = Some (True, [0])"
    by (simp add: gpuIdsForCurrentNumaNode_def gpuLocations_def sample_loaded_manager_def sample_gpu_manager_def sample_context_def new_gpu_context_def
        currentNumaNode_def resolveGpuIds_def INT_MAX_def)
  have plan: "plan_bytes ?cfg = Some 0" by (simp add: plan_bytes_def static_config_def sample_graph_config_def default_config_def)
  obtain t where t: "table_initialize (\<lambda>_. True) new_table 0 = Some (True, t)"
    using growSlots_stop by (auto simp: table_initialize_def new_table_def)
  have cache: "\<exists>c. cache_initialize sample_task_api sample_memory [0] 16384 0 50 LRU (new_cache a) v = Some (True, c, v)" for v
    using t by (simp add: cache_initialize_def init_rejected_def init_blocked_def init_commit_def new_cache_def sample_memory_def new_table_def)
  have part: "\<exists>D' w'. init_static_part sample_task_api 0 ?cfg D v = (True, D', w')" if "gpuStaticData D = new_static" for D v
    using that by (auto simp: init_static_part_def static_initialize_def static_finalize_def new_static_def guard_new_def guard_ok_def sample_task_api_def
        static_config_def sample_graph_config_def default_config_def sync_stream_def split: prod.splits)
  obtain c where c: "cache_initialize sample_task_api sample_memory [0] 16384 0 50 LRU (new_cache a) w = Some (True, c, w)" using cache by blast
  show ?thesis
    using ids plan c part [of "(new_static_data a)\<lparr>gpuDataCache := c\<rparr>" w]
    by (simp add: StaticData_init_def memory_fits_def new_static_data_def static_config_def sample_graph_config_def default_config_def sample_runtime_def
        default_runtime_def new_static_def new_cache_def)
qed

definition sample_empty_manager :: GpuContextManager where
  "sample_empty_manager = sample_gpu_manager\<lparr>task_heap := Map.empty\<rparr>"

abbreviation sample_node :: GraphNode where
  "sample_node \<equiv> (new_node sample_graph_config 8 0)\<lparr>node_gpuIds := [0], node_config := sample_graph_config\<lparr>cfg_graphThreads := 1\<rparr>\<rparr>"

definition sample_schema :: ParameterRegistry where
  "sample_schema = fst (snd (registerParameters 8 new_registry (new_task 0 Batched sample_runtime 3)))"

lemma sample_build: "build_tasks sample_task_api (\<lambda>_. 3) [0] 9 sample_node sample_empty_manager w
    = Some (True, 8, sample_node\<lparr>node_registry := sample_schema, node_tasks := [sample_demo_task]\<rparr>, sample_gpu_manager, w)"
proof -
  have r: "registerParameters 8 new_registry (new_task 0 Batched sample_runtime 3) = (True, sample_schema, sample_demo_task)"
    by (simp add: sample_schema_def sample_demo_task_def registerParameters_def new_task_def registerParameter_def new_registry_def NAME_PARAMETER_def
        BLOB_PARAMETER_def lookup_update_iff Mapping.lookup_empty)
  have "put_resources 3 new_resources sample_empty_manager = sample_gpu_manager"
    by (simp add: put_resources_def sample_empty_manager_def sample_gpu_manager_def)
  then show ?thesis using r by (simp add: new_node_def sample_graph_config_def default_config_def numeral_eq_Suc)
qed

lemma sample_seal:
  assumes "node_registry G = sample_schema" "graph_parameters (node_config G) = \<lparr>param_name = ''n'', param_blob = [1]\<rparr>"
  shows "\<exists>s. seal_parameters G = (True, G\<lparr>node_registry := sample_parameters, node_snapshot := s\<rparr>)"
proof -
  have c: "fst (setString NAME_PARAMETER ''n'' sample_schema)"
    "fst (setBytes BLOB_PARAMETER [1] (snd (setString NAME_PARAMETER ''n'' sample_schema)))"
    "fst (seal (snd (setBytes BLOB_PARAMETER [1] (snd (setString NAME_PARAMETER ''n'' sample_schema)))))" by code_simp+
  obtain R1 where R1: "setString NAME_PARAMETER ''n'' sample_schema = (True, R1)" using c(1) by (metis prod.collapse)
  obtain R2 where R2: "setBytes BLOB_PARAMETER [1] R1 = (True, R2)" using c(2) R1 by (metis prod.collapse snd_conv)
  have "seal R2 = (True, sample_parameters)" using c(3) R1 R2 by (simp add: prod_eq_iff sample_parameters_def flip: sample_schema_def)
  then show ?thesis using assms R1 R2 sample_parameters_sealed(1) by (intro exI) (simp add: seal_parameters_def set_parameters_def)
qed

lemma make_atoms_enough: "n \<le> m \<Longrightarrow> \<exists>m' i' as'. make_atoms rt n m i as = (True, m', i', as')"
  by (induction n arbitrary: m i as) (auto split: nat.splits)

lemma sample_setup: "\<exists>G M w. initialize_prepare sample_task_api sample_memory (Some 0) (\<lambda>_. 3) 10 (\<lambda>_. True) False False
    (new_node sample_graph_config 8 0) sample_empty_manager (1, {#}) = Some (True, False, G, M, w)"
proof -
  let ?G1 = "sample_node\<lparr>node_registry := sample_schema, node_tasks := [sample_demo_task]\<rparr>"
  have ids: "gpuIdsForCurrentNumaNode (Some 0) sample_empty_manager = Some (True, [0])"
    by (simp add: gpuIdsForCurrentNumaNode_def gpuLocations_def sample_empty_manager_def sample_gpu_manager_def sample_context_def new_gpu_context_def
        currentNumaNode_def resolveGpuIds_def INT_MAX_def)
  obtain s where s: "seal_parameters ?G1 = (True, ?G1\<lparr>node_registry := sample_parameters, node_snapshot := s\<rparr>)"
    using sample_seal [of ?G1] by (auto simp: sample_graph_config_def)
  obtain T r v where l: "task_load sample_task_api (Some 0) sample_parameters sample_demo_task sample_gpu_manager (1, {#}) = Some (True, T, sample_loaded_manager r, v)"
    using sample_loads by blast
  let ?G3 = "?G1\<lparr>node_registry := sample_parameters, node_snapshot := s, node_tasks := [T]\<rparr>"
  have f: "\<exists>as bs. make_frames 1 2 8 ?G3 = (True, ?G3\<lparr>node_warmup := as, node_timed := bs\<rparr>)"
    using make_atoms_enough [of 2 5 sample_runtime 41 "[]"]
    by (auto simp: make_frames_def new_node_def sample_graph_config_def default_config_def)
  then obtain as bs where f: "make_frames 1 2 8 ?G3 = (True, ?G3\<lparr>node_warmup := as, node_timed := bs\<rparr>)" by blast
  obtain D v' where d: "StaticData_init sample_task_api sample_memory (Some 0) (sample_loaded_manager r) (static_config sample_graph_config) (new_static_data 0) v
      = Some (True, D, v')" using sample_static by blast
  have cfg: "static_config (sample_graph_config\<lparr>cfg_graphThreads := 1\<rparr>) = static_config sample_graph_config" by (simp add: static_config_def)
  have "plan_frames (sample_graph_config\<lparr>cfg_graphThreads := 1\<rparr>) 1 = Some (1, 2)" "task_ids sample_node = [0]"
    by (simp_all add: plan_frames_exact sample_graph_config_def default_config_def task_ids_def)
  then have "\<exists>G M w. initializeOnNumaNode sample_task_api sample_memory (Some 0) (\<lambda>_. 3) 10 sample_node sample_empty_manager (1, {#}) = Some (True, G, M, w)"
    using sample_build [of "(1, {#})"] s l f d cfg by (simp add: initializeOnNumaNode_def numeral_eq_Suc new_node_def)
  moreover have "SIZE_MAX \<noteq> (0 :: size_t)" by (simp add: SIZE_MAX_def)
  ultimately show ?thesis using ids
    by (auto simp: initialize_prepare_def run_on_node_def new_node_def sample_graph_config_def default_config_def sample_runtime_def INT_MAX_def Let_def)
qed

theorem graph_is_set_up_witness:
  "\<exists>G M w. initialize_prepare sample_task_api sample_memory (Some 0) (\<lambda>_. 3) 10 (\<lambda>_. True) False False
      (new_node sample_graph_config 8 0) sample_empty_manager (1, {#}) = Some (True, False, G, M, w)
    \<and> map (\<lambda>x. unat (frameId (key (atom_metadata x)))) (node_warmup G @ node_timed G) = [40, 41, 42] \<and> in_sync G"
proof -
  obtain G M w where r: "initialize_prepare sample_task_api sample_memory (Some 0) (\<lambda>_. 3) 10 (\<lambda>_. True) False False
      (new_node sample_graph_config 8 0) sample_empty_manager (1, {#}) = Some (True, False, G, M, w)" using sample_setup by (elim exE)
  have "map (\<lambda>x. unat (frameId (key (atom_metadata x)))) (node_warmup G @ node_timed G) = [40..<43]" "in_sync G"
    using graph_is_set_up [OF r] unfolding Let_def by (simp_all add: sample_graph_config_def default_config_def)
  then show ?thesis using r by (intro exI [of _ G] exI [of _ M] exI [of _ w]) (simp add: upt_conv_Cons)
qed

definition sample_idle_graph :: Graph where
  "sample_idle_graph = (new_graph 1 (\<lambda>_. new_atom (makeFrameMetadata 0 sample_runtime) sample_runtime))\<lparr>initialized := True\<rparr>"

definition sample_sync_node :: "DummyTask \<Rightarrow> GraphNode" where
  "sample_sync_node T = sample_node\<lparr>node_registry := sample_parameters, node_tasks := [T],
     node_snapshot := \<lparr>snap_values = reg_values sample_parameters, snap_revision = 2\<rparr>\<rparr>"

theorem parameters_stay_in_sync_witness:
  "\<exists>T. task_state T = Loaded \<and> in_sync (sample_sync_node T) \<and> (\<exists>b S' G' w'. changeParameters sample_task_api True \<lparr>param_name = ''m'', param_blob = []\<rparr>
      sample_gpu_manager sample_idle_graph (sample_sync_node T) (1, {#}) = Some (b, S', G', w') \<and> (b \<longrightarrow> in_sync G'))"
proof -
  let ?s = "\<lparr>snap_values = reg_values sample_parameters, snap_revision = 2\<rparr>" and ?p = "\<lparr>param_name = ''m'', param_blob = []\<rparr> :: AlgoParams"
  obtain T N w where l: "task_load sample_task_api (Some 0) sample_parameters sample_demo_task sample_gpu_manager (1, {#}) = Some (True, T, N, w)"
    using sample_loads by blast
  then obtain as n where T: "applied ?s T" "T = sample_demo_task\<lparr>algorithms := as, appliedParameterRevision := n, task_state := Loaded\<rparr>"
    using task_load_applied [OF l] sample_parameters_sealed(1) by auto
  have sync: "in_sync (sample_sync_node T)"
    using T(1) sample_parameters_sealed by (simp add: in_sync_def has_parameters_def sample_sync_node_def new_node_def sample_graph_config_def)
  have heap: "\<forall>U\<in>set (node_tasks (sample_sync_node T)). task_heap sample_gpu_manager (task_resources U) \<noteq> None"
    using T(2) by (simp add: sample_sync_node_def sample_demo_task_eq new_task_def sample_gpu_manager_def)
  from parameters_stay_in_sync [OF sample_task_api_documented(3) sample_gpu_reached heap sync, of True ?p sample_idle_graph "(1, {#})"]
  have "\<exists>b S' G' w'. changeParameters sample_task_api True ?p sample_gpu_manager sample_idle_graph (sample_sync_node T) (1, {#}) = Some (b, S', G', w')
      \<and> (b \<longrightarrow> in_sync G')" by (elim exE conjE) (intro exI conjI, assumption, auto split: if_splits)
  then show ?thesis using T(2) sync by (intro exI [of _ T]) simp
qed

end
