(* ===== verification/Setup_Ownership.thy ===== *)
theory Setup_Ownership
  imports Setup_Samples
begin

text \<open>
  The tasks of a graph together: however far the loading of the tasks came, and whatever the state
  of their lifecycle, taking the graph down frees every slot of the registry and, unless a device could not be selected or a
  handle not be freed, every handle of every task.
\<close>

section \<open>What a call on one task leaves alone\<close>

definition slots_grow :: "nat \<Rightarrow> GpuContextManager \<Rightarrow> GpuContextManager \<Rightarrow> bool" where
  "slots_grow k N N' \<longleftrightarrow> (\<forall>a c'. context_heap N' a = Some c' \<longrightarrow>
     (\<exists>c. context_heap N a = Some c \<and> length (taskResources c') \<le> length (taskResources c) + k))"

definition only_task :: "nat \<Rightarrow> nat \<Rightarrow> GpuContextManager \<Rightarrow> GpuContextManager \<Rightarrow> bool" where
  "only_task k t N N' \<longleftrightarrow> (\<forall>u. u \<noteq> t \<longrightarrow> task_heap N' u = task_heap N u) \<and> slots_grow k N N'"

lemma only_task_refl: "only_task k t N N"
  by (auto simp: only_task_def slots_grow_def)

lemma slots_grow_trans:
  assumes "slots_grow k N1 N2" "slots_grow 0 N2 N3"
  shows "slots_grow k N1 N3"
  unfolding slots_grow_def
proof (intro allI impI)
  fix a c3 assume "context_heap N3 a = Some c3"
  then obtain c2 where c2: "context_heap N2 a = Some c2" "length (taskResources c3) \<le> length (taskResources c2)"
    using assms(2) unfolding slots_grow_def by fastforce
  then obtain c1 where "context_heap N1 a = Some c1" "length (taskResources c2) \<le> length (taskResources c1) + k"
    using assms(1) unfolding slots_grow_def by blast
  then show "\<exists>c. context_heap N1 a = Some c \<and> length (taskResources c3) \<le> length (taskResources c) + k" using c2(2) by auto
qed

lemma only_task_trans: "only_task k t N1 N2 \<Longrightarrow> only_task 0 t N2 N3 \<Longrightarrow> only_task k t N1 N3"
  unfolding only_task_def by (auto intro: slots_grow_trans)

lemma put_resources_only: "only_task 0 t N (put_resources t r N)"
  by (auto simp: only_task_def slots_grow_def put_resources_def)

lemma load_register_only:
  assumes "load_register getcpu t N = Some (b, N')"
  shows "only_task 1 t N N'"
  using assms by (auto simp: load_register_def registerTask_def register_locked_def only_task_def slots_grow_def Let_def
      split: Option.bind_splits if_splits option.splits prod.splits)

lemma unregisterTask_only:
  assumes "unregisterTask t N = Some (b, N')"
  shows "only_task 0 t N N'"
  using assms by (auto simp: unregisterTask_def only_task_def slots_grow_def Let_def split: option.splits if_splits)

lemma releaseResources_only:
  assumes "releaseResources api T N w = Some (b, T', N', w')"
  shows "only_task 0 (task_resources T) N N'"
proof -
  obtain r b' where "unregisterTask (task_resources T) (put_resources (task_resources T) r N) = Some (b', N')"
    using assms by (auto simp: releaseResources_def Let_def split: Option.bind_splits prod.splits)
  then show ?thesis using only_task_trans [OF put_resources_only unregisterTask_only] by blast
qed

lemma releaseResources_task: "releaseResources api T N w = Some (b, T', N', w') \<Longrightarrow> T' = T\<lparr>algorithms := []\<rparr>"
  by (auto simp: releaseResources_def Let_def split: Option.bind_splits prod.splits)

lemma load_failed_only:
  assumes "load_failed api T N w = Some (b, T', N', w')"
  shows "only_task 0 (task_resources T) N N' \<and> task_resources T' = task_resources T"
proof -
  obtain c where "releaseResources api (T\<lparr>task_state := Failed\<rparr>) N w = Some (c, T', N', w')"
    using assms by (auto simp: load_failed_def split: Option.bind_splits)
  from releaseResources_only [OF this] releaseResources_task [OF this] show ?thesis by simp
qed

lemma task_load_only:
  assumes "task_load api getcpu R T N w = Some (b, T', N', w')"
  shows "only_task 1 (task_resources T) N N' \<and> task_resources T' = task_resources T"
proof -
  let ?t = "task_resources T"
  show ?thesis
  proof (cases "task_state T \<noteq> Registered \<or> parameterRegistry T = nullptr \<or> snapshot R = None \<or> task_id T < 0 \<or> \<not> validRuntime (algoRuntime T)")
    case True
    then have "N' = N" "T' = T" using assms by (auto simp: task_load_def split: option.splits if_splits)
    then show ?thesis using only_task_refl by simp
  next
    case False
    then obtain p where p: "snapshot R = Some p" by auto
    obtain c N1 where 1: "load_register getcpu ?t N = Some (c, N1)" using assms False p by (auto simp: task_load_def split: Option.bind_splits if_splits)
    note run = assms [unfolded task_load_def p 1 option.case bind.bind_lunit prod.case] False p
    have "only_task 0 ?t N1 N' \<and> task_resources T' = ?t"
    proof (cases c)
      case c: False
      then have "load_failed api T N1 w = Some (b, T', N', w')" using run by auto
      then show ?thesis by (rule load_failed_only)
    next
      case True
      then obtain r cur w1 where r: "task_heap N1 ?t = Some r" "makeTaskCurrent api r N1 w = Some (cur, w1)"
        using run by (auto split: Option.bind_splits)
      show ?thesis
      proof (cases cur)
        case cur: False
        then have "load_failed api T N1 w1 = Some (b, T', N', w')" using run True r by auto
        then show ?thesis by (rule load_failed_only)
      next
        case cur: True
        obtain ok as r' w2 where l: "load_resources api (algoRuntime T) r w1 = (ok, as, r', w2)" by (metis prod_cases4)
        obtain ok2 T2 where a: "(if ok then applyParameters p (T\<lparr>algorithms := as\<rparr>) else (False, T\<lparr>algorithms := as\<rparr>)) = (ok2, T2)" by fastforce
        have T2: "task_resources T2 = ?t" using a applyParameters_same [of p "T\<lparr>algorithms := as\<rparr>" ok2 T2] by (auto split: if_splits)
        let ?N2 = "put_resources ?t r' N1"
        have "if ok2 then N' = ?N2 \<and> T' = T2\<lparr>task_state := Loaded\<rparr> else load_failed api T2 ?N2 w2 = Some (b, T', N', w')" using run True r cur l a by (auto split: if_splits)
        then have "only_task 0 ?t ?N2 N' \<and> task_resources T' = ?t" using load_failed_only [of api T2 ?N2 w2 b T' N' w'] T2 only_task_refl by (auto split: if_splits)
        then show ?thesis using only_task_trans [OF put_resources_only] by blast
      qed
    qed
    then show ?thesis using only_task_trans [OF load_register_only [OF 1]] by blast
  qed
qed

section \<open>The handles of a list of tasks\<close>

definition task_holds :: "GpuContextManager \<Rightarrow> DummyTask \<Rightarrow> handle multiset" where
  "task_holds N T = (case task_heap N (task_resources T) of None \<Rightarrow> {#} | Some r \<Rightarrow> algos_own (algorithms T) + resources_own r)"

definition tasks_hold :: "GpuContextManager \<Rightarrow> DummyTask list \<Rightarrow> handle multiset" where
  "tasks_hold N Ts = (\<Sum>T\<leftarrow>Ts. task_holds N T)"

text \<open>A task whose resources exist, and which holds nothing once it is unloaded.\<close>

definition task_sane :: "GpuContextManager \<Rightarrow> DummyTask \<Rightarrow> bool" where
  "task_sane N T \<longleftrightarrow> task_heap N (task_resources T) \<noteq> None \<and> (task_state T = Unloaded \<longrightarrow> task_empty T N)"

lemma tasks_hold_simps [simp]: "tasks_hold N [] = {#}" "tasks_hold N (T # Ts) = task_holds N T + tasks_hold N Ts"
  by (simp_all add: tasks_hold_def)

lemma empty_holds: "task_empty T N \<Longrightarrow> task_holds N T = {#} \<and> task_sane N T"
  by (auto simp: task_empty_def task_holds_def task_sane_def idle_resources_def)

lemma ready_holds: "task_ready T N hs \<Longrightarrow> task_holds N T = hs"
  by (auto simp: task_ready_def task_holds_def)

lemma others_same:
  assumes "only_task k (task_resources T) N N'" "task_resources T \<notin> task_resources ` set Ts"
  shows "tasks_hold N' Ts = tasks_hold N Ts" "U \<in> set Ts \<Longrightarrow> task_sane N' U = task_sane N U"
    "U \<in> set Ts \<Longrightarrow> task_empty U N' = task_empty U N" "U \<in> set Ts \<Longrightarrow> task_ready U N' hs = task_ready U N hs"
proof -
  have h: "task_heap N' (task_resources U) = task_heap N (task_resources U)" if "U \<in> set Ts" for U
  proof -
    have "task_resources U \<noteq> task_resources T" using assms(2) that by (metis imageI)
    then show ?thesis using assms(1) by (simp add: only_task_def)
  qed
  then have "map (task_holds N') Ts = map (task_holds N) Ts" by (auto simp: task_holds_def)
  then show "tasks_hold N' Ts = tasks_hold N Ts" by (simp only: tasks_hold_def)
  show e: "U \<in> set Ts \<Longrightarrow> task_empty U N' = task_empty U N" for U using h by (simp add: task_empty_def)
  show "U \<in> set Ts \<Longrightarrow> task_sane N' U = task_sane N U" using h e by (simp add: task_sane_def)
  show "U \<in> set Ts \<Longrightarrow> task_ready U N' hs = task_ready U N hs" using h by (simp add: task_ready_def)
qed

section \<open>Taking tasks down\<close>

lemma task_unload_holds:
  assumes M: "memory_api api alive faults" and ok: "manager_ok N" and s: "task_sane N T" and w: "owed alive faults f w (base + task_holds N T)"
  shows "\<exists>b T' N' w'. task_unload api T N w = Some (b, T', N', w') \<and> manager_ok N' \<and> task_sane N' T' \<and> owed alive faults f w' (base + task_holds N' T')
    \<and> task_resources T' = task_resources T \<and> only_task 0 (task_resources T) N N' \<and> (if task_state T = Started then T' = T else task_state T' = Unloaded)"
proof (cases "task_state T = Unloaded \<or> task_state T = Started")
  case True
  then show ?thesis using ok s w only_task_refl by (auto simp: task_unload_def)
next
  case False
  obtain r where r: "task_heap N (task_resources T) = Some r" using s by (auto simp: task_sane_def)
  have w': "owed alive faults f w (base + algos_own (algorithms T) + resources_own r)" using w r by (simp add: task_holds_def add_ac)
  from releaseResources_outcome [OF M ok r w'] obtain b N' v r' where 1: "releaseResources api T N w = Some (b, T\<lparr>algorithms := []\<rparr>, N', v)"
      "owed alive faults f v (base)" "manager_ok N'" "task_heap N' = (task_heap N)(task_resources T \<mapsto> r')" "ctx r' = nullptr" "idle_resources r'"
    by (elim exE conjE)
  let ?T = "T\<lparr>algorithms := [], parameterRegistry := nullptr, appliedParameterRevision := 0, task_state := Unloaded\<rparr>"
  have e: "task_empty ?T N'" using 1(4-6) by (simp add: task_empty_def)
  have "task_unload api T N w = Some (b, ?T, N', v)" using 1(1) False by (auto simp: task_unload_def)
  then show ?thesis using 1(2,3) releaseResources_only [OF 1(1)] empty_holds [OF e] False
    by (intro exI [of _ b] exI [of _ ?T] exI [of _ N'] exI [of _ v]) simp
qed

lemma destroy_task_holds:
  assumes M: "memory_api api alive faults" and ok: "manager_ok N" and s: "task_sane N T" and w: "owed alive faults f w (base + task_holds N T)"
  shows "\<exists>N' w'. destroy_task api T N w = Some (N', w') \<and> manager_ok N' \<and> owed alive faults f w' (base) \<and> task_heap N' (task_resources T) = None
    \<and> only_task 0 (task_resources T) N N'"
proof -
  let ?U = "if task_state T = Started then snd (task_stop T) else T"
  have U: "task_resources ?U = task_resources T" "task_state ?U \<noteq> Started" "task_sane N ?U" "task_holds N ?U = task_holds N T"
    using s by (auto simp: task_stop_def task_sane_def task_holds_def)
  have "owed alive faults f w (base + task_holds N ?U)" using w U(4) by simp
  from task_unload_holds [OF M ok U(3) this] U(2) obtain b T1 N1 v where 1: "task_unload api ?U N w = Some (b, T1, N1, v)" "manager_ok N1" "task_sane N1 T1"
      "owed alive faults f v (base + task_holds N1 T1)" "task_resources T1 = task_resources T" "only_task 0 (task_resources T) N N1" "task_state T1 = Unloaded"
    unfolding U(1) by (elim exE conjE) (simp only: if_False)
  have e: "task_empty T1 N1" using 1(3,7) by (simp add: task_sane_def)
  let ?N = "drop_resources (task_resources T) N1"
  have "manager_ok ?N"
    using task_change_ok [OF 1(2), of "task_resources T" None] e 1(5) by (auto simp: drop_resources_def task_empty_def registration_def)
  moreover have "only_task 0 (task_resources T) N1 ?N" by (auto simp: only_task_def slots_grow_def drop_resources_def)
  ultimately show ?thesis
    using 1 empty_holds [OF e] only_task_trans by (auto simp: destroy_task_def task_delete_def drop_resources_def)
qed

lemma unload_tasks_hold:
  assumes M: "memory_api api alive faults" and "manager_ok N" "\<forall>T\<in>set Ts. task_sane N T" "distinct (map task_resources Ts)" "owed alive faults f w (base + tasks_hold N Ts)"
  shows "\<exists>b Ts' N' w'. unload_tasks api Ts N w = Some (b, Ts', N', w') \<and> manager_ok N' \<and> (\<forall>T\<in>set Ts'. task_sane N' T)
    \<and> map task_resources Ts' = map task_resources Ts \<and> owed alive faults f w' (base + tasks_hold N' Ts') \<and> (\<forall>u. u \<notin> task_resources ` set Ts \<longrightarrow> task_heap N' u = task_heap N u)"
  using assms(2-)
proof (induction Ts arbitrary: N w base)
  case (Cons T Ts)
  have "owed alive faults f w ((base + tasks_hold N Ts) + task_holds N T)" using Cons.prems(4) by (simp add: add_ac)
  from task_unload_holds [OF M Cons.prems(1) _ this] Cons.prems(2)
  obtain b T' N1 w1 where 1: "task_unload api T N w = Some (b, T', N1, w1)" "manager_ok N1" "task_sane N1 T'" "owed alive faults f w1 (base + tasks_hold N Ts + task_holds N1 T')"
      "task_resources T' = task_resources T" "only_task 0 (task_resources T) N N1" by auto
  have fresh: "task_resources T \<notin> task_resources ` set Ts" using Cons.prems(3) by auto
  note O = others_same [OF 1(6) fresh]
  have w1: "owed alive faults f w1 ((base + task_holds N1 T') + tasks_hold N1 Ts)" using 1(4) O(1) by (simp add: add_ac)
  have sane: "\<forall>T\<in>set Ts. task_sane N1 T" using Cons.prems(2) O(2) by auto
  from Cons.IH [OF 1(2) sane _ w1] Cons.prems(3)
  obtain c Ts' N2 w2 where 2: "unload_tasks api Ts N1 w1 = Some (c, Ts', N2, w2)" "manager_ok N2" "\<forall>T\<in>set Ts'. task_sane N2 T"
      "map task_resources Ts' = map task_resources Ts" "owed alive faults f w2 (base + task_holds N1 T' + tasks_hold N2 Ts')"
      "\<forall>u. u \<notin> task_resources ` set Ts \<longrightarrow> task_heap N2 u = task_heap N1 u" by auto
  have same: "task_heap N2 (task_resources T') = task_heap N1 (task_resources T')" using 2(6) fresh 1(5) by simp
  then have T': "task_sane N2 T'" "task_holds N2 T' = task_holds N1 T'" using 1(3) by (auto simp: task_sane_def task_empty_def task_holds_def)
  have "unload_tasks api (T # Ts) N w = Some (b \<and> c, T' # Ts', N2, w2)" using 1(1) 2(1) by simp
  then show ?case using 1 2 T' by (intro exI [of _ "b \<and> c"] exI [of _ "T' # Ts'"] exI [of _ N2] exI [of _ w2]) (auto simp: add_ac only_task_def)
qed auto

lemma destroy_tasks_hold:
  assumes M: "memory_api api alive faults" and "manager_ok N" "\<forall>T\<in>set Ts. task_sane N T" "distinct (map task_resources Ts)" "owed alive faults f w (base + tasks_hold N Ts)"
  shows "\<exists>N' w'. destroy_tasks api Ts N w = Some (N', w') \<and> manager_ok N' \<and> owed alive faults f w' (base) \<and> (\<forall>T\<in>set Ts. task_heap N' (task_resources T) = None)
    \<and> (\<forall>u. u \<notin> task_resources ` set Ts \<longrightarrow> task_heap N' u = task_heap N u)"
  using assms(2-)
proof (induction Ts arbitrary: N w base)
  case (Cons T Ts)
  have "owed alive faults f w ((base + tasks_hold N Ts) + task_holds N T)" using Cons.prems(4) by (simp add: add_ac)
  from destroy_task_holds [OF M Cons.prems(1) _ this] Cons.prems(2)
  obtain N1 w1 where 1: "destroy_task api T N w = Some (N1, w1)" "manager_ok N1" "owed alive faults f w1 (base + tasks_hold N Ts)"
      "task_heap N1 (task_resources T) = None" "only_task 0 (task_resources T) N N1" by auto
  have fresh: "task_resources T \<notin> task_resources ` set Ts" using Cons.prems(3) by auto
  note O = others_same [OF 1(5) fresh]
  have sane: "\<forall>T\<in>set Ts. task_sane N1 T" using Cons.prems(2) O(2) by auto
  have "owed alive faults f w1 (base + tasks_hold N1 Ts)" using O(1) 1(3) by simp
  from Cons.IH [OF 1(2) sane _ this] Cons.prems(3) show ?case using 1 fresh by (auto simp: only_task_def)
qed auto

section \<open>Loading tasks\<close>

definition room_for :: "nat \<Rightarrow> GpuContextManager \<Rightarrow> bool" where
  "room_for k N \<longleftrightarrow> (\<forall>a c. context_heap N a = Some c \<longrightarrow> length (taskResources c) + k < 2 ^ 31)"

lemma room_for_less: "room_for (Suc k) N \<Longrightarrow> slots_grow 1 N N' \<Longrightarrow> room_for k N'"
  unfolding room_for_def slots_grow_def by fastforce

lemma room_not_crammed: "room_for (Suc k) N \<Longrightarrow> \<not> crammed N"
  unfolding room_for_def crammed_def by fastforce

lemma load_tasks_hold:
  assumes M: "memory_api api alive faults" and mem: "malloc_gives_memory api" and "manager_ok N" "\<forall>T\<in>set Ts. task_empty T N" "distinct (map task_resources Ts)"
    "room_for (length Ts) N" "owed alive faults f w base"
  shows "\<exists>b Ts' N' w'. load_tasks api getcpu R Ts N w = Some (b, Ts', N', w') \<and> manager_ok N' \<and> (\<forall>T\<in>set Ts'. task_sane N' T)
    \<and> map task_resources Ts' = map task_resources Ts \<and> owed alive faults f w' (base + tasks_hold N' Ts') \<and> (\<forall>u. u \<notin> task_resources ` set Ts \<longrightarrow> task_heap N' u = task_heap N u)
    \<and> (b \<longrightarrow> (\<forall>T\<in>set Ts'. task_state T = Loaded \<and> appliedParameterRevision T = revisionNumber R \<and> (\<exists>hs. task_ready T N' hs)))"
  using assms(3-)
proof (induction Ts arbitrary: N w base)
  case (Cons T Ts)
  have room: "\<not> crammed N" using Cons.prems(4) room_not_crammed by simp
  have e: "task_empty T N" using Cons.prems(2) by simp
  obtain b T1 N1 w1 where 1: "task_load api getcpu R T N w = Some (b, T1, N1, w1)" "manager_ok N1"
      "if b then task_state T1 = Loaded \<and> appliedParameterRevision T1 = revisionNumber R
           \<and> faults w1 = faults w \<and> (\<exists>hs. task_ready T1 N1 hs \<and> alive w1 = alive w + hs)
       else task_empty T1 N1 \<and> owed alive faults (faults w) w1 (alive w) \<and> (task_state T1 = Failed \<or> (T1, N1, w1) = (T, N, w))"
    using task_load_outcome [OF M mem Cons.prems(1) room e, of getcpu R w] by (elim exE conjE)
  have only: "only_task 1 (task_resources T) N N1" "task_resources T1 = task_resources T" using task_load_only [OF 1(1)] by auto
  have fresh: "task_resources T \<notin> task_resources ` set Ts" using Cons.prems(3) by auto
  note O = others_same [OF only(1) fresh]
  have empty: "\<forall>U\<in>set Ts. task_empty U N1" using Cons.prems(2) O(3) by simp
  show ?case
  proof (cases b)
    case False
    have "tasks_hold N1 Ts = {#}" using empty empty_holds by (induction Ts) auto
    moreover have "\<forall>U\<in>set (T1 # Ts). task_sane N1 U" "task_holds N1 T1 = {#}" using 1(3) False empty empty_holds by auto
    moreover have "load_tasks api getcpu R (T # Ts) N w = Some (False, T1 # Ts, N1, w1)" using 1(1) False by simp
    moreover have "owed alive faults f w1 base" using 1(3) False owed_trans [OF _ Cons.prems(5)] by simp
    ultimately show ?thesis
      using 1(2) only by (intro exI [of _ False] exI [of _ "T1 # Ts"] exI [of _ N1] exI [of _ w1]) (auto simp: only_task_def)
  next
    case True
    then obtain hs where T1: "task_state T1 = Loaded" "appliedParameterRevision T1 = revisionNumber R" "task_ready T1 N1 hs" "alive w1 = alive w + hs"
        "faults w1 = faults w" using 1(3) by auto
    have w1: "owed alive faults f w1 (base + hs)" by (rule owed_more [OF Cons.prems(5) T1(4,5)])
    have "room_for (length Ts) N1" using Cons.prems(4) only(1) room_for_less by (simp add: only_task_def)
    from Cons.IH [OF 1(2) empty _ this w1] Cons.prems(3)
    obtain c Ts' N2 w2 where 2: "load_tasks api getcpu R Ts N1 w1 = Some (c, Ts', N2, w2)" "manager_ok N2" "\<forall>T\<in>set Ts'. task_sane N2 T"
        "map task_resources Ts' = map task_resources Ts" "owed alive faults f w2 (base + hs + tasks_hold N2 Ts')"
        "\<forall>u. u \<notin> task_resources ` set Ts \<longrightarrow> task_heap N2 u = task_heap N1 u"
        "c \<longrightarrow> (\<forall>T\<in>set Ts'. task_state T = Loaded \<and> appliedParameterRevision T = revisionNumber R \<and> (\<exists>hs. task_ready T N2 hs))" by auto
    have same: "task_heap N2 (task_resources T1) = task_heap N1 (task_resources T1)" using 2(6) fresh only(2) by simp
    then have r: "task_ready T1 N2 hs" using T1(3) by (simp add: task_ready_def)
    then have "task_sane N2 T1" "task_holds N2 T1 = hs" using T1(1,5) ready_holds by (auto simp: task_sane_def task_ready_def)
    moreover have "load_tasks api getcpu R (T # Ts) N w = Some (c, T1 # Ts', N2, w2)" using 1(1) 2(1) True by simp
    ultimately show ?thesis
      using 2 T1 r only by (intro exI [of _ c] exI [of _ "T1 # Ts'"] exI [of _ N2] exI [of _ w2]) (auto simp: only_task_def add_ac)
  qed
qed (simp add: exI [of _ True])

section \<open>The lifecycle\<close>

text \<open>A task in another state of its lifecycle; no task gets unloaded by it.\<close>

definition restated :: "DummyTask \<Rightarrow> DummyTask \<Rightarrow> bool" where
  "restated T T' \<longleftrightarrow> (\<exists>st. T' = T\<lparr>task_state := st\<rparr> \<and> (st = Unloaded \<longrightarrow> task_state T = Unloaded))"

lemma restated_refl: "restated T T"
  unfolding restated_def by (intro exI [of _ "task_state T"]) simp

lemma restated_trans: "restated T U \<Longrightarrow> restated U V \<Longrightarrow> restated T V"
  unfolding restated_def by auto

lemma restated_list_trans: "list_all2 restated Ts Us \<Longrightarrow> list_all2 restated Us Vs \<Longrightarrow> list_all2 restated Ts Vs"
  by (erule list_all2_trans [rotated]) (blast intro: restated_trans)+

lemma restated_list_refl: "list_all2 restated Ts Ts"
  by (simp add: list_all2_conv_all_nth restated_refl)

lemma task_calls_restate: "restated T (snd (task_start T))" "restated T (snd (task_stop T))" "restated T (snd (stop_task T))"
  by (auto simp: task_start_def task_stop_def stop_task_def restated_def Let_def intro: exI [of _ "task_state T"])

lemma start_tasks_restate: "start_tasks acc Ts = (b, Ts') \<Longrightarrow> list_all2 restated (rev acc @ Ts) Ts'"
proof (induction Ts arbitrary: acc)
  case Nil
  then show ?case by (simp add: restated_list_refl)
next
  case (Cons T Ts)
  obtain c T1 where 1: "task_start T = (c, T1)" by fastforce
  have r: "restated T T1" using task_calls_restate(1) [of T] 1 by simp
  show ?case
  proof (cases c)
    case True
    have "list_all2 restated (rev acc @ T # Ts) (rev acc @ T1 # Ts)" using r by (intro list_all2_appendI) (auto simp: restated_list_refl)
    moreover have "list_all2 restated (rev acc @ T1 # Ts) Ts'" using Cons.IH [of "T1 # acc"] Cons.prems 1 True by simp
    ultimately show ?thesis by (rule restated_list_trans)
  next
    case False
    have "list_all2 restated acc (map (snd \<circ> task_stop) acc)" using task_calls_restate(2) by (simp add: list_all2_conv_all_nth)
    then show ?thesis using Cons.prems 1 False r by (auto simp: restated_list_refl intro!: list_all2_appendI)
  qed
qed

lemma stop_tasks_restate: "stop_tasks Ts = (b, Ts') \<Longrightarrow> list_all2 restated Ts Ts'"
proof (induction Ts arbitrary: b Ts')
  case (Cons T Ts)
  obtain c Us where 1: "stop_tasks Ts = (c, Us)" by fastforce
  then have "Ts' = snd (stop_task T) # Us" using Cons.prems by (auto split: prod.splits)
  then show ?case using Cons.IH [OF 1] task_calls_restate(3) by simp
qed simp

lemma start_loaded: "\<forall>T\<in>set Ts. task_state T = Loaded \<Longrightarrow> start_tasks acc Ts = (True, rev acc @ map (task_state_update (\<lambda>_. Started)) Ts)"
  by (induction Ts arbitrary: acc) (auto simp: task_start_def)

lemma stop_started: "stop_tasks (map (task_state_update (\<lambda>_. Started)) Ts) = (True, map (task_state_update (\<lambda>_. Stopped)) Ts)"
  by (induction Ts) (auto simp: stop_task_def task_stop_def)

text \<open>A start that fails leaves no task started.\<close>

lemma start_rollback:
  assumes "start_tasks acc Ts = (False, Ts')" "\<forall>T\<in>set acc. task_state T = Started" "\<forall>T\<in>set Ts. task_state T \<noteq> Started"
  shows "\<forall>T\<in>set Ts'. task_state T \<noteq> Started"
  using assms by (induction Ts arbitrary: acc) (auto simp: task_start_def task_stop_def split: if_splits)

lemma restated_task:
  assumes "restated T U"
  shows "task_holds N U = task_holds N T" "task_resources U = task_resources T" "task_sane N T \<Longrightarrow> task_sane N U"
proof -
  obtain st where U: "U = T\<lparr>task_state := st\<rparr>" "st = Unloaded \<longrightarrow> task_state T = Unloaded" using assms unfolding restated_def by blast
  show "task_holds N U = task_holds N T" "task_resources U = task_resources T" by (simp_all add: U(1) task_holds_def split: option.splits)
  show "task_sane N T \<Longrightarrow> task_sane N U" using U(2) by (simp add: U(1) task_sane_def task_empty_def)
qed

lemma restated_holds:
  assumes "list_all2 restated Ts Us"
  shows "tasks_hold N Us = tasks_hold N Ts" "map task_resources Us = map task_resources Ts"
    "\<forall>T\<in>set Ts. task_sane N T \<Longrightarrow> \<forall>T\<in>set Us. task_sane N T"
proof -
  show "tasks_hold N Us = tasks_hold N Ts" using assms by (induction rule: list_all2_induct) (simp_all add: restated_task(1))
  show "map task_resources Us = map task_resources Ts" using assms by (induction rule: list_all2_induct) (simp_all add: restated_task(2))
  show "\<forall>T\<in>set Ts. task_sane N T \<Longrightarrow> \<forall>T\<in>set Us. task_sane N T"
    using assms by (induction rule: list_all2_induct) (simp_all add: restated_task(3))
qed

section \<open>Nothing leaks\<close>

lemma take_down:
  assumes "memory_api api alive faults" "manager_ok N" "\<forall>T\<in>set Ts. task_sane N T" "distinct (map task_resources Ts)" "owed alive faults f w (base + tasks_hold N Ts)"
  shows "\<exists>ok Us N2 w2 N3 w3. unload_tasks api Ts N w = Some (ok, Us, N2, w2) \<and> destroy_tasks api Us N2 w2 = Some (N3, w3)
    \<and> owed alive faults f w3 base \<and> manager_ok N3 \<and> (\<forall>T\<in>set Ts. task_heap N3 (task_resources T) = None)"
proof -
  obtain ok Us N2 w2 where 1: "unload_tasks api Ts N w = Some (ok, Us, N2, w2)" "manager_ok N2" "\<forall>T\<in>set Us. task_sane N2 T"
      "map task_resources Us = map task_resources Ts" "owed alive faults f w2 (base + tasks_hold N2 Us)"
    using unload_tasks_hold [OF assms] by (elim exE conjE)
  have d: "distinct (map task_resources Us)" using assms(4) 1(4) by simp
  obtain N3 w3 where 2: "destroy_tasks api Us N2 w2 = Some (N3, w3)" "manager_ok N3" "owed alive faults f w3 base" "\<forall>T\<in>set Us. task_heap N3 (task_resources T) = None"
    using destroy_tasks_hold [OF assms(1) 1(2,3) d 1(5)] by (elim exE conjE)
  have "task_resources ` set Us = task_resources ` set Ts" using 1(4) by (metis list.set_map)
  then have "\<forall>T\<in>set Ts. task_heap N3 (task_resources T) = None" using 2(4) by (metis imageE imageI)
  then show ?thesis using 1(1) 2 by (intro exI conjI)
qed

text \<open>
  C30.  The tasks of a graph are loaded all together or not at all.  Loading them one after the other
  returns.  When it answers \<open>true\<close> each has all it needs and the current parameters, starting them answers \<open>true\<close>, and so does stopping them after that.
  However it ends, whichever task failed at whichever call, and whether the tasks were started or stopped meanwhile, unloading and
  destroying them leaves no slot of the registry, and the live handles of the runtime are those from before, unless on the way a device could not be
  selected or a handle could not be freed.
\<close>

theorem graph_tasks_leak_nothing:
  assumes "manager_starts api M0" "steps (manager_step api) M0 N" "memory_api api alive faults" "malloc_gives_memory api"
    and tasks: "\<forall>T\<in>set Ts. task_empty T N" "distinct (map task_resources Ts)" "room_for (length Ts) N"
  shows "\<exists>b Ts1 N1 w1. load_tasks api getcpu R Ts N w = Some (b, Ts1, N1, w1)
    \<and> (b \<longrightarrow> (\<forall>T\<in>set Ts1. task_state T = Loaded \<and> appliedParameterRevision T = revisionNumber R \<and> (\<exists>hs. task_ready T N1 hs))
         \<and> fst (start_tasks [] Ts1) \<and> fst (stop_tasks (snd (start_tasks [] Ts1))))
    \<and> (\<forall>Ts2\<in>{Ts1, snd (start_tasks [] Ts1), snd (stop_tasks (snd (start_tasks [] Ts1)))}. \<exists>ok Us N2 w2 N3 w3.
         unload_tasks api Ts2 N1 w1 = Some (ok, Us, N2, w2) \<and> destroy_tasks api Us N2 w2 = Some (N3, w3)
         \<and> (alive w3 = alive w \<or> faults w < faults w3) \<and> manager_ok N3 \<and> (\<forall>T\<in>set Ts. task_heap N3 (task_resources T) = None))"
proof -
  have ok: "manager_ok N" using mgr.reached_invar [OF assms(1,2)] by blast
  obtain b Ts1 N1 w1 where 1: "load_tasks api getcpu R Ts N w = Some (b, Ts1, N1, w1)" "manager_ok N1" "\<forall>T\<in>set Ts1. task_sane N1 T"
      "map task_resources Ts1 = map task_resources Ts" "owed alive faults (faults w) w1 (alive w + tasks_hold N1 Ts1)"
      "b \<longrightarrow> (\<forall>T\<in>set Ts1. task_state T = Loaded \<and> appliedParameterRevision T = revisionNumber R \<and> (\<exists>hs. task_ready T N1 hs))"
    using load_tasks_hold [OF assms(3,4) ok tasks owed_start, of getcpu R w] by (elim exE conjE)
  let ?S = "snd (start_tasks [] Ts1)"
  have S: "list_all2 restated Ts1 ?S" using start_tasks_restate [of "[]" Ts1] by (metis append_Nil prod.collapse rev.simps(1))
  then have P: "list_all2 restated Ts1 (snd (stop_tasks ?S))" using restated_list_trans stop_tasks_restate by (metis prod.collapse)
  have "\<exists>ok Us N2 w2 N3 w3. unload_tasks api Ts2 N1 w1 = Some (ok, Us, N2, w2) \<and> destroy_tasks api Us N2 w2 = Some (N3, w3)
      \<and> (alive w3 = alive w \<or> faults w < faults w3) \<and> manager_ok N3 \<and> (\<forall>T\<in>set Ts. task_heap N3 (task_resources T) = None)"
    if "list_all2 restated Ts1 Ts2" for Ts2
  proof -
    note H = restated_holds [OF that]
    have "distinct (map task_resources Ts2)" "owed alive faults (faults w) w1 (alive w + tasks_hold N1 Ts2)" using tasks(2) 1(4,5) H(1,2) by simp_all
    from take_down [OF assms(3) 1(2) H(3) [OF 1(3)] this] obtain ok Us N2 w2 N3 w3 where 3: "unload_tasks api Ts2 N1 w1 = Some (ok, Us, N2, w2)"
        "destroy_tasks api Us N2 w2 = Some (N3, w3)" "owed alive faults (faults w) w3 (alive w)" "manager_ok N3" "\<forall>T\<in>set Ts2. task_heap N3 (task_resources T) = None"
      by (elim exE conjE)
    have "\<forall>u\<in>set (map task_resources Ts). task_heap N3 u = None" using 3(5) H(2) 1(4) by (metis (no_types, lifting) imageE list.set_map)
    moreover have "alive w3 = alive w \<or> faults w < faults w3" using 3(3) by (auto simp: owed_def)
    ultimately show ?thesis using 3(1,2,4)
      by (intro exI [of _ ok] exI [of _ Us] exI [of _ N2] exI [of _ w2] exI [of _ N3] exI [of _ w3]) simp
  qed
  then have "\<forall>Ts2\<in>{Ts1, ?S, snd (stop_tasks ?S)}. \<exists>ok Us N2 w2 N3 w3.
      unload_tasks api Ts2 N1 w1 = Some (ok, Us, N2, w2) \<and> destroy_tasks api Us N2 w2 = Some (N3, w3)
      \<and> (alive w3 = alive w \<or> faults w < faults w3) \<and> manager_ok N3 \<and> (\<forall>T\<in>set Ts. task_heap N3 (task_resources T) = None)"
    using S P restated_list_refl by blast
  moreover have "b \<longrightarrow> fst (start_tasks [] Ts1) \<and> fst (stop_tasks ?S)" using 1(6) start_loaded [of Ts1 "[]"] stop_started [of Ts1] by simp
  ultimately show ?thesis using 1(1,6) by (intro exI [of _ b] exI [of _ Ts1] exI [of _ N1] exI [of _ w1] conjI) auto
qed

theorem graph_tasks_leak_nothing_witness:
  "\<exists>b T N1 w1 ok Us N2 w2 N3 w3. load_tasks sample_task_api (Some 0) sample_parameters [sample_demo_task] sample_gpu_manager (1, {#}) = Some (b, [T], N1, w1)
    \<and> unload_tasks sample_task_api [T] N1 w1 = Some (ok, Us, N2, w2) \<and> destroy_tasks sample_task_api Us N2 w2 = Some (N3, w3)
    \<and> b \<and> snd w1 \<noteq> {#} \<and> snd w3 = {#}"
proof -
  have room: "room_for (length [sample_demo_task]) sample_gpu_manager"
    by (auto simp: room_for_def sample_gpu_manager_def sample_context_def new_gpu_context_def split: if_splits)
  obtain T N w where l: "task_load sample_task_api (Some 0) sample_parameters sample_demo_task sample_gpu_manager (1, {#}) = Some (True, T, N, w)"
    using sample_loads by blast
  then have run: "load_tasks sample_task_api (Some 0) sample_parameters [sample_demo_task] sample_gpu_manager (1, {#}) = Some (True, [T], N, w)" by simp
  have ok: "manager_ok sample_gpu_manager" using mgr.reached_invar [OF sample_task_api_documented(3) sample_gpu_reached] by blast
  have some: "snd w \<noteq> {#}"
    using task_load_outcome [OF sample_task_api_documented(1,2) ok sample_gpu_room sample_demo_empty, of "Some 0" sample_parameters "(1, {#})"] l
    by (auto simp: task_ready_def loaded_def resources_own_def owning_def split: option.splits)
  from graph_tasks_leak_nothing [OF sample_task_api_documented(3) sample_gpu_reached sample_task_api_documented(1,2) _ _ room, of "Some 0" sample_parameters "(1, {#})"]
    sample_demo_empty run
  have "\<exists>ok Us N2 w2 N3 w3. unload_tasks sample_task_api [T] N w = Some (ok, Us, N2, w2)
      \<and> destroy_tasks sample_task_api Us N2 w2 = Some (N3, w3) \<and> snd w3 = {#}" by auto
  then show ?thesis using run some by blast
qed

end
