(* ===== verification/Result_Tasks.thy ===== *)
theory Result_Tasks
  imports Task_Ownership
begin

text \<open>
  The tasks of the result pipeline: \<open>demo/ResultPipeline/ResultTasks.h\<close> and \<open>.cpp\<close>, and the kernel of
  \<open>ResultKernel.cu\<close>.  A task has its \<open>TaskGpuResources\<close> in the store of the context manager, at an
  address.  As for \<open>DummyTask\<close>, \<open>execute\<close> is split at the call of \<open>getCacheData\<close>.  The time a frame
  was started is not modelled.
\<close>

unbundle bit_operations_syntax

section \<open>The kernel\<close>

definition transformResultKernel :: "u8 list \<Rightarrow> size_t \<Rightarrow> u32 \<Rightarrow> u32 \<Rightarrow> u32 \<Rightarrow> u8 list \<Rightarrow> u8 list option" where
  "transformResultKernel input n blockDim blockIdx threadIdx out =
     (let index = ucast blockIdx * ucast blockDim + ucast threadIdx :: size_t
      in if index \<ge> n then Some out
         else do {
           v \<leftarrow> load_byte input index;
           if unat index < length out then Some (out[unat index := v XOR 0x5a]) else None
         })"

text \<open>The grid of \<open>runResultKernel\<close>.\<close>

definition RESULT_BLOCK :: u32 where "RESULT_BLOCK = 256"

definition result_grid :: "size_t \<Rightarrow> u32" where
  "result_grid n = ucast ((n + 255) div 256)"

fun run_result_threads :: "(u32 \<Rightarrow> u32 \<Rightarrow> u8 list \<Rightarrow> u8 list option) \<Rightarrow> (u32 \<times> u32) list \<Rightarrow> u8 list \<Rightarrow> u8 list option" where
  "run_result_threads body [] out = Some out"
| "run_result_threads body ((b, t) # ts) out = do { out1 \<leftarrow> body b t out; run_result_threads body ts out1 }"

text \<open>
  The launch is a call of the runtime: grid, block, stream, input, output, number of bytes.
\<close>

record 'w result_api = "'w task_api" +
  launch_result :: "u32 \<Rightarrow> u32 \<Rightarrow> stream \<Rightarrow> ptr \<Rightarrow> ptr \<Rightarrow> size_t \<Rightarrow> 'w \<Rightarrow> 'w"

definition runResultKernel :: "('w, 'x) result_api_scheme \<Rightarrow> ptr \<Rightarrow> ptr \<Rightarrow> size_t \<Rightarrow> stream \<Rightarrow> 'w \<Rightarrow> bool \<times> 'w" where
  "runResultKernel api input output n s w =
     cudaGetLastError api (launch_result api (result_grid n) RESULT_BLOCK s input output n w)"

section \<open>Frames\<close>

record ResultAtom =
  res_metadata :: FrameMetadata
  res_frame :: "u8 list"
  res_result :: "u8 list"
  cpuStages :: size_t
  checksum :: u64
  res_ready :: bool

definition pattern :: "u64 \<Rightarrow> nat \<Rightarrow> u8" where
  "pattern i index = ucast ((i + of_nat index) AND 0xff)"

definition makeAtom :: "u64 \<Rightarrow> size_t \<Rightarrow> ResultAtom" where
  "makeAtom i n = \<lparr>res_metadata = \<lparr>key = default_key\<lparr>frameId := i\<rparr>, bytes = n, width = signed_take_bit 31 (uint n), height = 1, dtype = 1\<rparr>,
     res_frame = map (pattern i) [0..<unat n], res_result = replicate (unat n) 0, cpuStages = 0, checksum = 0, res_ready = False\<rparr>"

section \<open>Resources\<close>

text \<open>The stream and the buffers, up to the first call that fails.\<close>

definition allocate_result :: "('w, 'x) result_api_scheme \<Rightarrow> size_t \<Rightarrow> TaskGpuResources \<Rightarrow> 'w \<Rightarrow> bool \<times> TaskGpuResources \<times> 'w" where
  "allocate_result api n r0 w =
     (let r = r0\<lparr>res_inBytes := n, res_scratchBytes := n\<rparr>
      in case cudaStreamCreateWithFlags api w of
           (None, w1) \<Rightarrow> (False, r, w1)
         | (Some st, w1) \<Rightarrow> (let r1 = r\<lparr>res_stream := st\<rparr>
      in case cudaHostAlloc api n w1 of
           (None, w2) \<Rightarrow> (False, r1, w2)
         | (Some h, w2) \<Rightarrow> (let r2 = r1\<lparr>h_in := h\<rparr>
      in case cudaMalloc api n w2 of
           (None, w3) \<Rightarrow> (False, r2, w3)
         | (Some d, w3) \<Rightarrow> (let r3 = r2\<lparr>d_input := d\<rparr>
      in case cudaMalloc api n w3 of
           (None, w4) \<Rightarrow> (False, r3, w4)
         | (Some e, w4) \<Rightarrow> (True, r3\<lparr>d_scratch := e\<rparr>, w4)))))"

definition resources_load :: "('w, 'x) result_api_scheme \<Rightarrow> u32 option \<Rightarrow> size_t \<Rightarrow> nat \<Rightarrow> GpuContextManager \<Rightarrow> 'w
    \<Rightarrow> (bool \<times> GpuContextManager \<times> 'w) option" where
  "resources_load api getcpu n t M w = do {
     r \<leftarrow> task_heap M t;
     if ctx r \<noteq> nullptr \<or> n = 0 \<or> n > of_int INT_MAX then Some (False, M, w)
     else do {
       (registered, M1) \<leftarrow> load_register getcpu t M;
       if \<not> registered then Some (False, M1, w)
       else do {
         r1 \<leftarrow> task_heap M1 t;
         (current, w1) \<leftarrow> makeTaskCurrent api r1 M1 w;
         if \<not> current then Some (False, M1, w1)
         else let (ok, r2, w2) = allocate_result api n r1 w1 in Some (ok, put_resources t r2 M1, w2)
       }
     }
   }"

definition free_result_buffers :: "('w, 'x) result_api_scheme \<Rightarrow> TaskGpuResources \<Rightarrow> 'w \<Rightarrow> bool \<times> TaskGpuResources \<times> 'w" where
  "free_result_buffers api r w =
     (let (ok1, w1) = give_back (cudaStreamSynchronize api) (res_stream r) w;
          (ok2, w2) = give_back (cudaFree api) (d_scratch r) w1;
          (ok3, w3) = give_back (cudaFree api) (d_input r) w2;
          (ok4, w4) = give_back (cudaFreeHost api) (h_in r) w3;
          (ok5, w5) = give_back (cudaStreamDestroy api) (res_stream r) w4
      in (ok1 \<and> ok2 \<and> ok3 \<and> ok4 \<and> ok5, r\<lparr>d_scratch := nullptr, d_input := nullptr, h_in := nullptr, res_stream := nullptr\<rparr>, w5))"

definition resources_unload :: "('w, 'x) result_api_scheme \<Rightarrow> nat \<Rightarrow> GpuContextManager \<Rightarrow> 'w \<Rightarrow> (bool \<times> GpuContextManager \<times> 'w) option" where
  "resources_unload api t M w = do {
     r \<leftarrow> task_heap M t;
     if ctx r = nullptr then Some (True, M, w)
     else do {
       (current, w1) \<leftarrow> makeTaskCurrent api r M w;
       if \<not> current then Some (False, M, w1)
       else let (ok, r1, w2) = free_result_buffers api r w1
            in do { (unregistered, M1) \<leftarrow> unregisterTask t (put_resources t r1 M); Some (unregistered \<and> ok, M1, w2) }
     }
   }"

definition resources_request :: "TaskGpuResources \<Rightarrow> GpuCacheRequest" where
  "resources_request r = \<lparr>req_gpuId = res_gpuId r, req_stream = res_stream r, d_fallback = d_input r, fallbackBytes = res_inBytes r\<rparr>"

section \<open>The producer\<close>

definition TaskA_load where "TaskA_load = resources_load"
definition TaskA_unload where "TaskA_unload = resources_unload"

text \<open>The guard of \<open>TaskA::execute\<close> and the request; \<open>None\<close> when \<open>execute\<close> has returned \<open>false\<close>.\<close>

definition TaskA_begin :: "('w, 'x) result_api_scheme \<Rightarrow> ResultAtom \<Rightarrow> nat \<Rightarrow> GpuContextManager \<Rightarrow> 'w \<Rightarrow> (GpuCacheRequest option \<times> 'w) option" where
  "TaskA_begin api atom t M w = do {
     r \<leftarrow> task_heap M t;
     if res_ready atom \<or> length (res_frame atom) \<noteq> unat (res_inBytes r) \<or> length (res_result atom) \<noteq> unat (res_inBytes r)
        \<or> bytes (res_metadata atom) \<noteq> res_inBytes r then Some (None, w)
     else do { (current, w1) \<leftarrow> makeTaskCurrent api r M w; Some (if current then Some (resources_request r) else None, w1) }
   }"

text \<open>Upload, kernel, the copy to the lease and the copy to the host.\<close>

definition TaskA_submit :: "('w, 'x) result_api_scheme \<Rightarrow> TaskGpuResources \<Rightarrow> ResultAtom \<Rightarrow> GpuDataAccess \<Rightarrow> 'w \<Rightarrow> bool \<times> 'w" where
  "TaskA_submit api r atom a w =
     (case cudaMemcpyAsync api (d_input r, 0) (h_in r) (res_inBytes r) (res_stream r) (memcpy_to_host api (h_in r) (res_frame atom) w) of
        (False, w1) \<Rightarrow> (False, w1)
      | (True, w1) \<Rightarrow> (case runResultKernel api (d_input r) (d_scratch r) (res_inBytes r) (res_stream r) w1 of
        (False, w2) \<Rightarrow> (False, w2)
      | (True, w2) \<Rightarrow> (case cudaMemcpyAsync api (writableData a, 0) (d_scratch r) (res_inBytes r) (res_stream r) w2 of
        (False, w3) \<Rightarrow> (False, w3)
      | (True, w3) \<Rightarrow> cudaMemcpyAsync api (h_in r, 0) (d_scratch r) (res_inBytes r) (res_stream r) w3)))"

definition TaskA_access :: "('w, 'x) result_api_scheme \<Rightarrow> TaskGpuResources \<Rightarrow> ResultAtom \<Rightarrow> GpuDataAccess \<Rightarrow> GpuDataCache \<Rightarrow> 'w
    \<Rightarrow> (bool \<times> ResultAtom \<times> GpuDataAccess \<times> GpuDataCache \<times> 'w) option" where
  "TaskA_access api r atom a c w =
     (if owner a = None \<or> accessStatus a = CacheHit
      then do { (a', c', w') \<leftarrow> abortUnfinishedAccess api a c w; Some (False, atom, a', c', w') }
      else let (submitted, w1) = TaskA_submit api r atom a w
           in do {
                (finished, a', c', w2) \<leftarrow> freeCacheData api a submitted Keep c w1;
                if \<not> submitted \<or> \<not> finished then Some (False, atom, a', c', w2)
                else Some (True, atom\<lparr>res_result := memcpy_from_host api (h_in r) (res_inBytes r) w2, res_ready := True\<rparr>, a', c', w2)
              })"

section \<open>The CPU task\<close>

definition accumulate :: "u8 list \<Rightarrow> u64" where
  "accumulate xs = foldl (\<lambda>s b. s + ucast b) 0 xs"

definition DummyCPUTask_execute :: "ResultAtom \<Rightarrow> bool \<times> ResultAtom" where
  "DummyCPUTask_execute atom =
     (if \<not> res_ready atom \<or> res_result atom = [] then (False, atom)
      else (True, atom\<lparr>checksum := accumulate (res_result atom), cpuStages := cpuStages atom + 1\<rparr>))"

section \<open>The consumer\<close>

record TaskB =
  consumer_hits :: u64
  uploadedBytes :: u64

definition TaskB_load :: "('w, 'x) result_api_scheme \<Rightarrow> u32 option \<Rightarrow> size_t \<Rightarrow> nat \<Rightarrow> TaskB \<Rightarrow> GpuContextManager \<Rightarrow> 'w
    \<Rightarrow> (bool \<times> TaskB \<times> GpuContextManager \<times> 'w) option" where
  "TaskB_load api getcpu n t B M w = do {
     (ok, M1, w1) \<leftarrow> resources_load api getcpu n t M w;
     Some (ok, B\<lparr>consumer_hits := 0, uploadedBytes := 0\<rparr>, M1, w1)
   }"

definition TaskB_unload where "TaskB_unload = resources_unload"

definition TaskB_begin :: "('w, 'x) result_api_scheme \<Rightarrow> ResultAtom \<Rightarrow> size_t \<Rightarrow> nat \<Rightarrow> GpuContextManager \<Rightarrow> 'w
    \<Rightarrow> (GpuCacheRequest option \<times> 'w) option" where
  "TaskB_begin api atom requiredCpuStages t M w = do {
     r \<leftarrow> task_heap M t;
     if \<not> res_ready atom \<or> cpuStages atom \<noteq> requiredCpuStages \<or> length (res_frame atom) \<noteq> unat (res_inBytes r)
        \<or> length (res_result atom) \<noteq> unat (res_inBytes r) \<or> bytes (res_metadata atom) \<noteq> res_inBytes r then Some (None, w)
     else do { (current, w1) \<leftarrow> makeTaskCurrent api r M w; Some (if current then Some (resources_request r) else None, w1) }
   }"

text \<open>Refill the lease unless it is a hit; then copy the data through the scratch buffer to the host.\<close>

definition TaskB_refill :: "('w, 'x) result_api_scheme \<Rightarrow> TaskGpuResources \<Rightarrow> ResultAtom \<Rightarrow> GpuDataAccess \<Rightarrow> TaskB \<Rightarrow> 'w \<Rightarrow> bool \<times> TaskB \<times> 'w" where
  "TaskB_refill api r atom a B w =
     (if accessStatus a = CacheHit then (True, B\<lparr>consumer_hits := consumer_hits B + 1\<rparr>, w)
      else let (ok, w1) = cudaMemcpyAsync api (writableData a, 0) (h_in r) (res_inBytes r) (res_stream r) (memcpy_to_host api (h_in r) (res_result atom) w)
           in (ok, if ok then B\<lparr>uploadedBytes := uploadedBytes B + res_inBytes r\<rparr> else B, w1))"

definition TaskB_submit :: "('w, 'x) result_api_scheme \<Rightarrow> TaskGpuResources \<Rightarrow> ResultAtom \<Rightarrow> GpuDataAccess \<Rightarrow> TaskB \<Rightarrow> 'w \<Rightarrow> bool \<times> TaskB \<times> 'w" where
  "TaskB_submit api r atom a B w = (case TaskB_refill api r atom a B w of
        (False, B1, w1) \<Rightarrow> (False, B1, w1)
      | (True, B1, w1) \<Rightarrow> (case cudaMemcpyAsync api (d_scratch r, 0) (accessData a) (res_inBytes r) (res_stream r) w1 of
        (False, w2) \<Rightarrow> (False, B1, w2)
      | (True, w2) \<Rightarrow> (let (ok, w3) = cudaMemcpyAsync api (h_in r, 0) (d_scratch r) (res_inBytes r) (res_stream r) w2 in (ok, B1, w3))))"

text \<open>The loop that compares every byte with the frame.\<close>

definition result_expected :: "u8 list \<Rightarrow> u8 list \<Rightarrow> size_t \<Rightarrow> bool" where
  "result_expected out frame n \<longleftrightarrow> (\<forall>i<unat n. out ! i = (frame ! i) XOR 0x5a)"

definition TaskB_access :: "('w, 'x) result_api_scheme \<Rightarrow> TaskGpuResources \<Rightarrow> ResultAtom \<Rightarrow> size_t \<Rightarrow> CacheRetention \<Rightarrow> GpuDataAccess \<Rightarrow> TaskB
    \<Rightarrow> GpuDataCache \<Rightarrow> 'w \<Rightarrow> (bool \<times> TaskB \<times> GpuDataAccess \<times> GpuDataCache \<times> 'w) option" where
  "TaskB_access api r atom requiredCpuStages retention a B c w =
     (if owner a = None then Some (False, B, a, c, w)
      else let (submitted, B1, w1) = TaskB_submit api r atom a B w
           in do {
                (finished, a', c', w2) \<leftarrow> freeCacheData api a submitted retention c w1;
                let h_result = memcpy_from_host api (h_in r) (res_inBytes r) w2;
                Some (submitted \<and> finished \<and> h_result = take (unat (res_inBytes r)) (res_result atom)
                  \<and> result_expected h_result (res_frame atom) (res_inBytes r)
                  \<and> (requiredCpuStages = 0 \<or> checksum atom = accumulate (res_result atom)), B1, a', c', w2)
              })"

end
