(* ===== verification/Result_Execution.thy ===== *)
theory Result_Execution
  imports Result_Tasks Task_Samples Cache_Properties
begin

text \<open>
  The data of the result pipeline: the kernel transforms every byte, the producer leaves the transformed
  frame on the host and in its lease, and the consumer accepts what the producer made.
\<close>

unbundle bit_operations_syntax

section \<open>The kernel\<close>

definition transformed :: "u8 list \<Rightarrow> u8 list" where
  "transformed xs = map (\<lambda>b. b XOR 0x5a) xs"








section \<open>Memory\<close>

text \<open>
  Documented behaviour of a stream \<open>s\<close> and of a set \<open>B\<close> of buffers that only its commands touch.  A copy or a launch is only queued: it says what the
  buffers will hold once the stream has run everything queued so far, which is \<open>due\<close>, and says nothing of what they hold now, which is \<open>contents\<close> and
  what the host reads.  A synchronisation that succeeds makes the two agree.  \<open>drained\<close>: nothing is queued that touches \<open>B\<close>, so the host may write; \<open>own\<close>: only commands of \<open>s\<close> that
  touch \<open>B\<close> are queued.  Nothing is said about commands on another stream, and nothing about a call that fails.  A launch runs all threads of its grid in some order.
\<close>

definition stream_memory :: "('w, 'x) result_api_scheme \<Rightarrow> stream \<Rightarrow> ptr set \<Rightarrow> ('w \<Rightarrow> ptr \<Rightarrow> u8 list) \<Rightarrow> ('w \<Rightarrow> ptr \<Rightarrow> u8 list)
    \<Rightarrow> ('w \<Rightarrow> bool) \<Rightarrow> ('w \<Rightarrow> bool) \<Rightarrow> bool" where
  "stream_memory api s B contents due own drained \<longleftrightarrow>
     (\<forall>w. drained w \<longrightarrow> own w \<and> (\<forall>p\<in>B. due w p = contents w p))
     \<and> (\<forall>p\<in>B. \<forall>xs w. drained w \<longrightarrow> drained (memcpy_to_host api p xs w)
          \<and> (\<forall>x\<in>B. contents (memcpy_to_host api p xs w) x = (if x = p then xs @ drop (length xs) (contents w p) else contents w x)))
     \<and> (\<forall>p n w. memcpy_from_host api p n w = take (unat n) (contents w p))
     \<and> (\<forall>d\<in>B. \<forall>p\<in>B. \<forall>n w w'. own w \<longrightarrow> cudaMemcpyAsync api (d, 0) p n s w = (True, w')
          \<longrightarrow> own w' \<and> (\<forall>x\<in>B. due w' x = (if x = d then take (unat n) (due w p) @ drop (unat n) (due w d) else due w x)))
     \<and> (\<forall>p\<in>B. \<forall>q\<in>B. \<forall>g b n w. own w \<longrightarrow> p \<noteq> q \<longrightarrow> own (launch_result api g b s p q n w) \<and> (\<exists>ts. set ts = {(x, t). x < g \<and> t < b}
          \<and> (\<forall>out. run_result_threads (transformResultKernel (due w p) n b) ts (due w q) = Some out
               \<longrightarrow> (\<forall>x\<in>B. due (launch_result api g b s p q n w) x = (if x = q then out else due w x)))))
     \<and> (\<forall>w. own w \<longrightarrow> own (snd (cudaGetLastError api w)) \<and> (\<forall>x\<in>B. due (snd (cudaGetLastError api w)) x = due w x))
     \<and> (\<forall>w w'. own w \<longrightarrow> cudaStreamSynchronize api s w = (True, w') \<longrightarrow> drained w' \<and> (\<forall>x\<in>B. contents w' x = due w x))"

lemma stream_memoryD:
  assumes "stream_memory api s B contents due own drained"
  shows "drained w \<Longrightarrow> own w" "drained w \<Longrightarrow> p \<in> B \<Longrightarrow> due w p = contents w p"
    "p \<in> B \<Longrightarrow> drained w \<Longrightarrow> drained (memcpy_to_host api p xs w)"
    "p \<in> B \<Longrightarrow> drained w \<Longrightarrow> x \<in> B \<Longrightarrow> contents (memcpy_to_host api p xs w) x = (if x = p then xs @ drop (length xs) (contents w p) else contents w x)"
    "memcpy_from_host api p n w = take (unat n) (contents w p)"
    "d \<in> B \<Longrightarrow> p \<in> B \<Longrightarrow> own w \<Longrightarrow> cudaMemcpyAsync api (d, 0) p n s w = (True, w') \<Longrightarrow> own w'"
    "d \<in> B \<Longrightarrow> p \<in> B \<Longrightarrow> own w \<Longrightarrow> cudaMemcpyAsync api (d, 0) p n s w = (True, w') \<Longrightarrow> x \<in> B
      \<Longrightarrow> due w' x = (if x = d then take (unat n) (due w p) @ drop (unat n) (due w d) else due w x)"
    "own w \<Longrightarrow> cudaStreamSynchronize api s w = (True, w') \<Longrightarrow> x \<in> B \<Longrightarrow> contents w' x = due w x"
proof -
  note 1 = assms [unfolded stream_memory_def] and 2 = conjunct2 [OF 1] and 3 = conjunct2 [OF 2] and 4 = conjunct2 [OF 3] and 5 = conjunct2 [OF 4]
    and 7 = conjunct2 [OF conjunct2 [OF 5]]
  show "drained w \<Longrightarrow> own w" "drained w \<Longrightarrow> p \<in> B \<Longrightarrow> due w p = contents w p" using conjunct1 [OF 1] by simp_all
  show "p \<in> B \<Longrightarrow> drained w \<Longrightarrow> drained (memcpy_to_host api p xs w)"
    "p \<in> B \<Longrightarrow> drained w \<Longrightarrow> x \<in> B \<Longrightarrow> contents (memcpy_to_host api p xs w) x = (if x = p then xs @ drop (length xs) (contents w p) else contents w x)"
    using conjunct1 [OF 2] by simp_all
  show "memcpy_from_host api p n w = take (unat n) (contents w p)" using conjunct1 [OF 3] by simp
  show "d \<in> B \<Longrightarrow> p \<in> B \<Longrightarrow> own w \<Longrightarrow> cudaMemcpyAsync api (d, 0) p n s w = (True, w') \<Longrightarrow> own w'" using conjunct1 [OF 4] by blast
  show "d \<in> B \<Longrightarrow> p \<in> B \<Longrightarrow> own w \<Longrightarrow> cudaMemcpyAsync api (d, 0) p n s w = (True, w') \<Longrightarrow> x \<in> B
      \<Longrightarrow> due w' x = (if x = d then take (unat n) (due w p) @ drop (unat n) (due w d) else due w x)" using conjunct1 [OF 4] by blast
  show "own w \<Longrightarrow> cudaStreamSynchronize api s w = (True, w') \<Longrightarrow> x \<in> B \<Longrightarrow> contents w' x = due w x" using 7 by blast
qed


section \<open>Producer\<close>

text \<open>The buffers of a task and of its lease: of the size of a frame, and apart where it matters.\<close>

definition buffers_ok :: "(ptr \<Rightarrow> u8 list) \<Rightarrow> TaskGpuResources \<Rightarrow> GpuDataAccess \<Rightarrow> bool" where
  "buffers_ok mem r a \<longleftrightarrow> unat (res_inBytes r) < 2 ^ 31 \<and> distinct [h_in r, d_input r, d_scratch r] \<and> accessData a \<notin> {h_in r, d_scratch r}
     \<and> (\<forall>p\<in>{h_in r, d_input r, d_scratch r, accessData a}. length (mem p) = unat (res_inBytes r))"

lemma transformed_length [simp]: "length (transformed xs) = length xs"
  by (simp add: transformed_def)

definition frame_buffers :: "TaskGpuResources \<Rightarrow> GpuDataAccess \<Rightarrow> ptr set" where
  "frame_buffers r a = {h_in r, d_input r, d_scratch r, accessData a}"



section \<open>Consumer\<close>

lemma TaskB_submit_counts:
  assumes "TaskB_submit api r atom a B w = (True, B', w')"
  shows "B' = (if accessStatus a = CacheHit then B\<lparr>consumer_hits := consumer_hits B + 1\<rparr> else B\<lparr>uploadedBytes := uploadedBytes B + res_inBytes r\<rparr>)"
  using assms by (auto simp: TaskB_submit_def TaskB_refill_def Let_def split: prod.splits bool.splits if_splits)

lemma TaskB_submit_data:
  assumes M: "stream_memory api (res_stream r) (frame_buffers r a) contents due own drained" and w: "drained w" and b: "buffers_ok (contents w) r a"
    and res: "length (res_result atom) = unat (res_inBytes r)"
    and st: "accessStatus a \<noteq> Invalid" "accessStatus a = CacheHit \<Longrightarrow> contents w (accessData a) = res_result atom"
    and run: "TaskB_submit api r atom a B w = (True, B', w')"
  shows "own w'" "due w' (h_in r) = res_result atom"
proof -
  note D = stream_memoryD [OF M]
  let ?n = "res_inBytes r" and ?s = "res_stream r" and ?f = "res_result atom"
  have B: "h_in r \<noteq> d_scratch r" "accessData a \<noteq> h_in r" "accessData a \<noteq> d_scratch r" "length (contents w (h_in r)) = unat ?n"
    "length (contents w (d_scratch r)) = unat ?n" "length (contents w (accessData a)) = unat ?n" using b by (auto simp: buffers_ok_def)
  have I: "h_in r \<in> frame_buffers r a" "d_scratch r \<in> frame_buffers r a" "accessData a \<in> frame_buffers r a" by (simp_all add: frame_buffers_def)
  obtain w1 w2 where c: "TaskB_refill api r atom a B w = (True, B', w1)" "cudaMemcpyAsync api (d_scratch r, 0) (accessData a) ?n ?s w1 = (True, w2)"
      "cudaMemcpyAsync api (h_in r, 0) (d_scratch r) ?n ?s w2 = (True, w')"
    using run by (auto simp: TaskB_submit_def split: prod.splits bool.splits)
  have fill: "own w1 \<and> due w1 (accessData a) = ?f \<and> length (due w1 (h_in r)) = unat ?n \<and> length (due w1 (d_scratch r)) = unat ?n"
  proof (cases "accessStatus a = CacheHit")
    case True
    then have "w1 = w" using c(1) by (simp add: TaskB_refill_def)
    then show ?thesis using st(2) True B D(1) [OF w] D(2) [OF w I(1)] D(2) [OF w I(2)] D(2) [OF w I(3)] by simp
  next
    case False
    then have wr: "writableData a = accessData a" using st(1) by (cases "accessStatus a") (auto simp: writableData_def)
    let ?w0 = "memcpy_to_host api (h_in r) ?f w"
    have copy: "cudaMemcpyAsync api (accessData a, 0) (h_in r) ?n ?s ?w0 = (True, w1)" using c(1) False wr by (auto simp: TaskB_refill_def split: prod.splits)
    have q0: "drained ?w0" by (rule D(3) [OF I(1) w])
    have 0: "due ?w0 x = (if x = h_in r then ?f else contents w x)" if "x \<in> frame_buffers r a" for x
      using D(2) [OF q0 that] D(4) [OF I(1) w that] res B(4) by simp
    show ?thesis
      using D(6) [OF I(3,1) D(1) [OF q0] copy] D(7) [OF I(3,1) D(1) [OF q0] copy I(1)] D(7) [OF I(3,1) D(1) [OF q0] copy I(2)]
        D(7) [OF I(3,1) D(1) [OF q0] copy I(3)] 0 [OF I(1)] 0 [OF I(2)] 0 [OF I(3)] res B by simp
  qed
  then have o1: "own w1" by simp
  note o2 = D(6) [OF I(2,3) o1 c(2)]
  have 2: "due w2 (d_scratch r) = ?f" "length (due w2 (h_in r)) = unat ?n"
    using D(7) [OF I(2,3) o1 c(2) I(2)] D(7) [OF I(2,3) o1 c(2) I(1)] fill res B(1) by simp_all
  show "own w'" by (rule D(6) [OF I(1,2) o2 c(3)])
  show "due w' (h_in r) = ?f" using D(7) [OF I(1,2) o2 c(3) I(1)] 2 res by simp
qed

text \<open>What the stages of the CPU leave of a frame the producer made.\<close>

definition cpu_stages :: "nat \<Rightarrow> ResultAtom \<Rightarrow> ResultAtom" where
  "cpu_stages k atom = ((snd \<circ> DummyCPUTask_execute) ^^ k) atom"

lemma cpu_stages_keep:
  assumes "res_ready atom" "res_result atom \<noteq> []" "cpuStages atom = 0"
  shows "cpu_stages k atom = atom\<lparr>checksum := (if k = 0 then checksum atom else accumulate (res_result atom)), cpuStages := of_nat k\<rparr>
    \<and> fst (DummyCPUTask_execute (cpu_stages k atom))"
  using assms by (induction k) (auto simp: cpu_stages_def DummyCPUTask_execute_def)

text \<open>
  C37.  The consumer accepts what the producer made.  Take a frame whose result is the transformed frame and that went through any number of
  CPU stages, none of which fails.  The consumer's \<open>execute\<close> returns and ends its lease, and when everything is submitted and
  the stream synchronised it answers \<open>true\<close>: neither the comparison with the frame nor the checksum rejects a correct result, whether its lease is a hit on a buffer that
  holds the result or one it fills again from the host.  It counts the hit or the uploaded bytes.  As for the producer, what it compares is what its stream has left on the host
  once it was synchronised.
\<close>

theorem consumer_accepts_the_result:
  assumes "stream_memory api (res_stream r) (frame_buffers r a) contents due own drained" "drained w" "buffers_ok (contents w) r a"
    and atom: "length (res_frame atom0) = unat (res_inBytes r)" "res_inBytes r \<noteq> 0" "cpuStages atom0 = 0"
      "atom = cpu_stages k (atom0\<lparr>res_result := transformed (res_frame atom0), res_ready := True\<rparr>)"
    and hit: "accessStatus a = CacheHit \<longrightarrow> contents w (accessData a) = transformed (res_frame atom0)"
    and lease: "implements c A" "live c A a" "accessStream a \<noteq> nullptr" "accessStream a = res_stream r" "\<not> releasing c" and keep: "retention = Keep \<or> retention = Discard"
    and submit: "TaskB_submit api r atom a B w = (submitted, B', w1)" and sync: "cudaStreamSynchronize api (accessStream a) w1 = (synchronized, w2)"
  shows "\<exists>c'. TaskB_access api r atom (of_nat k) retention a B c w = Some (submitted \<and> synchronized, B', default_access, c', w2)
    \<and> implements c' (finish (accessStatus a) (entryIndex a) (submitted \<and> synchronized) (retention = Discard) A)
    \<and> (submitted \<longrightarrow> B' = (if accessStatus a = CacheHit then B\<lparr>consumer_hits := consumer_hits B + 1\<rparr> else B\<lparr>uploadedBytes := uploadedBytes B + res_inBytes r\<rparr>))"
proof -
  let ?t = "transformed (res_frame atom0)"
  have "unat (res_inBytes r) \<noteq> 0" using atom(2) by (simp add: unat_eq_0)
  then have "res_frame atom0 \<noteq> []" using atom(1) by auto
  then have A: "res_frame atom = res_frame atom0" "res_result atom = ?t" "k = 0 \<or> checksum atom = accumulate ?t" "length ?t = unat (res_inBytes r)"
    using cpu_stages_keep [of "atom0\<lparr>res_result := ?t, res_ready := True\<rparr>" k] atom by (auto simp: transformed_def)
  obtain c' where c': "freeCacheData api a submitted retention c w1 = Some (submitted \<and> synchronized, default_access, c', w2)"
      "implements c' (finish (accessStatus a) (entryIndex a) (submitted \<and> synchronized) (retention = Discard) A)"
    using freeCacheData_ends [OF lease(1-3,5) sync, of submitted retention] keep by auto
  have live: "owner a \<noteq> None" "accessStatus a \<noteq> Invalid" using lease(2) by (auto simp: live_def)
  have len: "length (res_result atom) = unat (res_inBytes r)" using A(2,4) by simp
  have data: "memcpy_from_host api (h_in r) (res_inBytes r) w2 = ?t" if "submitted" "synchronized"
  proof -
    have "own w1" "due w1 (h_in r) = ?t" using TaskB_submit_data [OF assms(1-3) len live(2), of B B' w1] hit submit that(1) A(2) by auto
    then have "contents w2 (h_in r) = ?t" using stream_memoryD(8) [OF assms(1), of w1 w2] sync that(2) lease(4) by (simp add: frame_buffers_def)
    then show ?thesis using stream_memoryD(5) [OF assms(1)] A(4) by simp
  qed
  have exp: "result_expected ?t (res_frame atom) (res_inBytes r)" using A(1) atom(1) by (simp add: result_expected_def transformed_def)
  have B': "submitted \<Longrightarrow> B' = (if accessStatus a = CacheHit then B\<lparr>consumer_hits := consumer_hits B + 1\<rparr> else B\<lparr>uploadedBytes := uploadedBytes B + res_inBytes r\<rparr>)"
    using TaskB_submit_counts [of api r atom a B w B' w1] submit by simp
  have "of_nat k = (0 :: size_t) \<or> checksum atom = accumulate (res_result atom)" using A(2,3) by auto
  then have "TaskB_access api r atom (of_nat k) retention a B c w = Some (submitted \<and> synchronized, B', default_access, c', w2)"
    using live submit c'(1) data exp A(2,4) by (cases submitted; cases synchronized) (auto simp: TaskB_access_def)
  then show ?thesis using c'(2) B' by blast
qed

section \<open>Samples\<close>

text \<open>
  A runtime whose state is the contents of all buffers and what they will hold when the stream has run everything: copies and launches are queued, and a
  synchronisation makes them visible.
\<close>

definition grid_list :: "u32 \<Rightarrow> u32 \<Rightarrow> (u32 \<times> u32) list" where
  "grid_list g b = List.product (map of_nat [0..<unat g]) (map of_nat [0..<unat b])"

type_synonym buffer_world = "(ptr \<Rightarrow> u8 list) \<times> (ptr \<Rightarrow> u8 list)"

definition buffer_api :: "buffer_world result_api" where
  "buffer_api = \<lparr>
     cudaGetDevice = \<lambda>w. (Some 0, w), cudaSetDevice = \<lambda>d w. (True, w), cudaMalloc = \<lambda>n w. (Some (Some 1), w),
     cudaFree = \<lambda>p w. (True, w), cudaStreamCreateWithFlags = \<lambda>w. (Some (Some 1), w),
     cudaStreamSynchronize = \<lambda>s (m, v). (True, (v, v)), cudaStreamDestroy = \<lambda>s w. (True, w), cudaMemsetAsync = \<lambda>p n s w. (True, w),
     cudaMemcpyAsync = \<lambda>d p n s (m, v). (True, (m, v(fst d := take (unat n) (v p) @ drop (unat n) (v (fst d))))), cudaMemGetInfo = \<lambda>w. (Some (0, 0), w),
     cuInit = \<lambda>w. (True, w), cudaGetDeviceCount = \<lambda>w. (Some 1, w), cudaDeviceGetPCIBusId = \<lambda>g w. (None, w),
     cuDeviceGet = \<lambda>g w. (Some g, w), cuDevicePrimaryCtxRetain = \<lambda>d w. (Some (Some 5), w), cuDevicePrimaryCtxRelease = \<lambda>d w. (True, w),
     cuCtxGetId = \<lambda>p w. (None, w), cudaGetDeviceProperties = \<lambda>g w. (True, w), has_ctx_id = False, read_file = \<lambda>f w. (None, w),
     new_context = \<lambda>h w. (None, w), cudaHostAlloc = \<lambda>n w. (Some (Some 1), w), cudaFreeHost = \<lambda>p w. (True, w),
     cudaGetLastError = \<lambda>w. (True, w), launch_kernel = \<lambda>kind g b s i out n stride w. w,
     memset_host = \<lambda>p n w. w, memcpy_to_host = \<lambda>p xs (m, v). (m(p := xs @ drop (length xs) (m p)), v(p := xs @ drop (length xs) (m p))),
     memcpy_from_host = \<lambda>p n (m, v). take (unat n) (m p),
     launch_result = \<lambda>g b s p q n (m, v). (case run_result_threads (transformResultKernel (v p) n b) (grid_list g b) (v q) of
        None \<Rightarrow> (m, v) | Some out \<Rightarrow> (m, v(q := out)))\<rparr>"

lemma set_grid_list: "set (grid_list g b) = {(x, t). x < g \<and> t < b}"
proof -
  have "(\<lambda>k. of_nat k :: u32) ` {..<unat m} = {x. x < m}" for m
  proof (intro equalityI subsetI)
    fix x assume "x \<in> (\<lambda>k. of_nat k :: u32) ` {..<unat m}"
    then obtain k where k: "x = of_nat k" "k < unat m" by auto
    have "unat m < 2 ^ 32" using unsigned_less [of m, where ?'a = nat] by simp
    then have "unat x = k" using k by (simp add: unat_of_nat)
    then show "x \<in> {x. x < m}" using k(2) by (simp add: word_less_nat_alt)
  next
    fix x assume "x \<in> {x. x < m}"
    then have "unat x < unat m" by (simp add: word_less_nat_alt)
    moreover have "x = of_nat (unat x)" by simp
    ultimately show "x \<in> (\<lambda>k. of_nat k :: u32) ` {..<unat m}" by blast
  qed
  then show ?thesis by (auto simp: grid_list_def atLeast0LessThan)
qed

lemma buffer_api_documented: "stream_memory buffer_api s B fst snd (\<lambda>_. True) (\<lambda>w. snd w = fst w)"
proof -
  have "\<exists>ts. set ts = {(x, t). x < g \<and> t < b} \<and> (\<forall>out. run_result_threads (transformResultKernel (snd w p) n b) ts (snd w q) = Some out
      \<longrightarrow> (\<forall>x\<in>B. snd (launch_result buffer_api g b s p q n w) x = (if x = q then out else snd w x)))" for g b s p q n w
    using set_grid_list by (intro exI [of _ "grid_list g b"]) (auto simp: buffer_api_def split: prod.splits)
  then show ?thesis unfolding stream_memory_def by (auto simp: buffer_api_def)
qed

definition apart_from :: "ptr \<Rightarrow> TaskGpuResources" where
  "apart_from d = (let k = (case d of None \<Rightarrow> 0 | Some a \<Rightarrow> a)
     in new_resources\<lparr>res_stream := req_stream sample_rq, h_in := Some (k + 1), d_input := Some (k + 2), d_scratch := Some (k + 3), res_inBytes := 4\<rparr>)"

abbreviation zeroed :: buffer_world where
  "zeroed \<equiv> (\<lambda>_. replicate 4 0, \<lambda>_. replicate 4 0)"

lemma sample_buffers: "buffers_ok (fst zeroed) (apart_from (accessData a)) a"
  by (auto simp: buffers_ok_def apart_from_def Let_def split: option.splits)

abbreviation sample_lease :: GpuDataAccess where
  "sample_lease \<equiv> lease (sample_cache FIFO) sample_rq sample_md 0 CacheFill"

lemma sample_lease_facts:
  "accessStream sample_lease \<noteq> nullptr" "accessStatus sample_lease = CacheFill" "entryIndex sample_lease = 0"
  "accessStream sample_lease = res_stream (apart_from d)" "\<exists>w'. TaskA_submit buffer_api r atom a w = (True, w')" "\<exists>B' w'. TaskB_submit buffer_api r atom a B w = (True, B', w')"
proof -
  show "accessStream sample_lease \<noteq> nullptr" "accessStatus sample_lease = CacheFill" "entryIndex sample_lease = 0"
    "accessStream sample_lease = res_stream (apart_from d)"
    by (simp_all add: lease_def sample_rq_def apart_from_def Let_def)
  have copy: "\<exists>v'. cudaMemcpyAsync buffer_api d p n s v = (True, v')" and last_error: "cudaGetLastError buffer_api v = (True, v)" for d p n s v
    by (simp_all add: buffer_api_def split: prod.splits)
  let ?n = "res_inBytes r" and ?s = "res_stream r"
  obtain w1 where 1: "cudaMemcpyAsync buffer_api (d_input r, 0) (h_in r) ?n ?s (memcpy_to_host buffer_api (h_in r) (res_frame atom) w) = (True, w1)"
    using copy by blast
  let ?w2 = "launch_result buffer_api (result_grid ?n) RESULT_BLOCK ?s (d_input r) (d_scratch r) ?n w1"
  obtain w3 where 3: "cudaMemcpyAsync buffer_api (writableData a, 0) (d_scratch r) ?n ?s ?w2 = (True, w3)" using copy by blast
  obtain w4 where 4: "cudaMemcpyAsync buffer_api (h_in r, 0) (d_scratch r) ?n ?s w3 = (True, w4)" using copy by blast
  show "\<exists>w'. TaskA_submit buffer_api r atom a w = (True, w')" by (simp add: TaskA_submit_def runResultKernel_def 1 last_error 3 4)
  show "\<exists>B' w'. TaskB_submit buffer_api r atom a B w = (True, B', w')"
    unfolding TaskB_submit_def TaskB_refill_def Let_def by (cases "accessStatus a = CacheHit") (simp_all add: buffer_api_def split: prod.splits)
qed


theorem consumer_accepts_the_result_witness:
  "\<exists>c c' w2 B. TaskB_access buffer_api (apart_from (accessData sample_lease))
      (cpu_stages 2 ((makeAtom 1 4)\<lparr>res_result := transformed (res_frame (makeAtom 1 4)), res_ready := True\<rparr>)) 2 Discard sample_lease
      \<lparr>consumer_hits = 0, uploadedBytes = 0\<rparr> c zeroed = Some (True, B, default_access, c', w2) \<and> uploadedBytes B = 4"
proof -
  let ?r = "apart_from (accessData sample_lease)" and ?B = "\<lparr>consumer_hits = 0, uploadedBytes = 0\<rparr> :: TaskB"
  let ?atom = "cpu_stages 2 ((makeAtom 1 4)\<lparr>res_result := transformed (res_frame (makeAtom 1 4)), res_ready := True\<rparr>)"
  obtain c where c: "implements c (take_cell 0 sample_md (empty_cache 2 True))" "\<not> releasing c" "live c (take_cell 0 sample_md (empty_cache 2 True)) sample_lease"
    using sample_live by blast
  obtain B1 w1 where s: "TaskB_submit buffer_api ?r ?atom sample_lease ?B zeroed = (True, B1, w1)" using sample_lease_facts(6) by blast
  have n: "length (res_frame (makeAtom 1 4)) = unat (res_inBytes ?r)" "res_inBytes ?r \<noteq> 0" "cpuStages (makeAtom 1 4) = 0"
    by (simp_all add: makeAtom_def apart_from_def Let_def)
  obtain w2 where sync: "cudaStreamSynchronize buffer_api (accessStream sample_lease) w1 = (True, w2)" by (cases w1) (simp add: buffer_api_def)
  have hit: "accessStatus sample_lease = CacheHit \<longrightarrow> fst zeroed (accessData sample_lease) = transformed (res_frame (makeAtom 1 4))"
    using sample_lease_facts(2) by simp
  from consumer_accepts_the_result [OF buffer_api_documented _ sample_buffers n refl hit c(1,3) sample_lease_facts(1,4) c(2) _ s sync, of Discard]
  obtain c' where "TaskB_access buffer_api ?r ?atom 2 Discard sample_lease ?B c zeroed = Some (True, B1, default_access, c', w2)"
      "B1 = ?B\<lparr>uploadedBytes := uploadedBytes ?B + res_inBytes ?r\<rparr>" unfolding sample_lease_facts(2) by auto
  then show ?thesis by (intro exI [of _ c] exI [of _ c'] exI [of _ w2] exI [of _ B1]) (simp add: apart_from_def Let_def)
qed

end
