(* ===== verification/Result_Ownership.thy ===== *)
theory Result_Ownership
  imports Result_Tasks Task_Samples
begin

text \<open>
  What the tasks of the result pipeline hold: \<open>load\<close> keeps what it got when it fails, and \<open>unload\<close> gives all
  of it back, unless it cannot select the device: then it returns before it has freed or unregistered anything.
\<close>

section \<open>Handles\<close>

lemma no_dangling_select:
  assumes ok: "manager_ok N" and t: "task_heap N t = Some r"
  shows "makeTaskCurrent api r N w = Some (if ctx r = nullptr then (False, w) else cudaSetDevice api (res_gpuId r) w)"
proof (cases "ctx r")
  case (Some a)
  then obtain c where c: "context_heap N a = Some c" "ctx_gpuId c = res_gpuId r" using manager_okD(4) [OF ok t] by auto
  moreover have "initialised N" using idle_manager(2) [OF ok] c(1) by fastforce
  moreover have "0 \<le> res_gpuId r" using contexts_okD(5) [OF manager_okD(1) [OF ok] c(1)] c(2) by simp
  ultimately show ?thesis using Some by (simp add: makeTaskCurrent_def)
qed (simp add: makeTaskCurrent_def)

lemma allocate_result_owns:
  assumes M: "memory_api api alive faults" and r: "resources_own r = {#}" and run: "allocate_result api n r w = (ok, r', w')"
  shows "alive w' = alive w + resources_own r'" "same_registration r r'" "faults w' = faults w"
proof -
  note D = memory_apiD [OF M]
  have null: "res_stream r = nullptr" "h_in r = nullptr" "d_input r = nullptr" "d_scratch r = nullptr" using r by (simp_all add: resources_own_empty)
  show "same_registration r r'"
    using run by (auto simp: allocate_result_def same_registration_def Let_def split: prod.splits option.splits)
  show "alive w' = alive w + resources_own r'" "faults w' = faults w"
    using run null by (auto simp: allocate_result_def resources_own_def Let_def split: prod.splits option.splits dest!: D(1-6))
qed

lemma free_result_buffers_owed:
  assumes M: "memory_api api alive faults" and w: "owed alive faults f w (base + resources_own r)"
  shows "\<exists>ok r' w'. free_result_buffers api r w = (ok, r', w') \<and> owed alive faults f w' base \<and> same_registration r r' \<and> resources_own r' = {#}"
proof -
  let ?s = "owning StreamHandle (res_stream r)" and ?h = "owning HostMemory (h_in r)" and ?d = "owning DeviceMemory (d_input r)"
  obtain ok w0 where 0: "give_back (cudaStreamSynchronize api) (res_stream r) w = (ok, w0)" by fastforce
  have "owed alive faults f w0 ((base + ?s + ?h + ?d) + owning DeviceMemory (d_scratch r))"
    using give_back_sync [OF M w 0] by (simp add: resources_own_def add_ac)
  from give_back_calls(1) [OF M this] obtain b1 w1 where 1: "give_back (cudaFree api) (d_scratch r) w0 = (b1, w1)" "owed alive faults f w1 (base + ?s + ?h + ?d)"
    by (elim exE conjE)
  from give_back_calls(1) [OF M 1(2)] obtain b2 w2 where 2: "give_back (cudaFree api) (d_input r) w1 = (b2, w2)" "owed alive faults f w2 (base + ?s + ?h)"
    by (elim exE conjE)
  from give_back_calls(2) [OF M 2(2)] obtain b3 w3 where 3: "give_back (cudaFreeHost api) (h_in r) w2 = (b3, w3)" "owed alive faults f w3 (base + ?s)"
    by (elim exE conjE)
  from give_back_calls(3) [OF M 3(2)] obtain b4 w4 where "give_back (cudaStreamDestroy api) (res_stream r) w3 = (b4, w4)" "owed alive faults f w4 base"
    by (elim exE conjE)
  then show ?thesis using 0 1(1) 2(1) 3(1) by (simp add: free_result_buffers_def same_registration_def resources_own_empty)
qed

text \<open>Loading, however it ends: the registry stays sound and the live handles grow by those of the task.\<close>

lemma resources_load_outcome:
  assumes M: "memory_api api alive faults" and ok: "manager_ok N" and room: "\<not> crammed N"
    and t: "task_heap N t = Some r" "ctx r = nullptr" "resources_own r = {#}"
  shows "\<exists>b N1 w1 r1. resources_load api getcpu n t N w = Some (b, N1, w1) \<and> manager_ok N1 \<and> task_heap N1 t = Some r1
    \<and> alive w1 = alive w + resources_own r1 \<and> (ctx r1 = nullptr \<longrightarrow> \<not> b \<and> resources_own r1 = {#}) \<and> faults w \<le> faults w1 \<and> (b \<longrightarrow> faults w1 = faults w)"
proof -
  obtain reg N1 where 1: "load_register getcpu t N = Some (reg, N1)" "manager_ok N1"
      "if reg then \<exists>a i g. task_heap N1 = (task_heap N)(t \<mapsto> r\<lparr>resourceId := i, res_gpuId := g, ctx := Some a\<rparr>) else N1 = N"
    using load_register_outcome [OF ok t(1,2) room, of getcpu] by (elim exE conjE)
  show ?thesis
  proof (cases "n = 0 \<or> n > of_int INT_MAX \<or> \<not> reg")
    case True
    then have "resources_load api getcpu n t N w = Some (False, N, w)" using t 1 by (auto simp: resources_load_def)
    then show ?thesis using t ok by (intro exI [of _ False] exI [of _ N] exI [of _ w] exI [of _ r]) simp
  next
    case False
    then obtain a i g where N1: "task_heap N1 = (task_heap N)(t \<mapsto> r\<lparr>resourceId := i, res_gpuId := g, ctx := Some a\<rparr>)" using 1(3) by auto
    let ?r = "r\<lparr>resourceId := i, res_gpuId := g, ctx := Some a\<rparr>"
    have t1: "task_heap N1 t = Some ?r" "resources_own ?r = {#}" using N1 t(3) by (simp_all add: resources_own_def)
    from makeTaskCurrent_outcome [OF M 1(2) t1(1), of w] obtain cur w1 where 2: "makeTaskCurrent api ?r N1 w = Some (cur, w1)" "alive w1 = alive w"
        "faults w \<le> faults w1" "cur \<longrightarrow> faults w1 = faults w" by (elim exE conjE)
    show ?thesis
    proof (cases cur)
      case cur: False
      have "resources_load api getcpu n t N w = Some (False, N1, w1)" using False t 1(1) t1(1) 2(1) cur by (simp add: resources_load_def)
      then show ?thesis using 1(2) t1 2(2,3) by (intro exI [of _ False] exI [of _ N1] exI [of _ w1] exI [of _ ?r]) simp
    next
      case cur: True
      obtain ok2 r2 w2 where 3: "allocate_result api n ?r w1 = (ok2, r2, w2)" by (metis prod_cases3)
      note A = allocate_result_owns [OF M t1(2) 3]
      let ?N = "put_resources t r2 N1"
      have l: "resources_load api getcpu n t N w = Some (ok2, ?N, w2)" using False t 1(1) t1(1) 2(1) cur 3 by (simp add: resources_load_def)
      have "registration (task_heap N1 t) = registration (Some r2)" using A(2) t1(1) by (simp add: registration_def same_registration_def)
      then have "manager_ok ?N" using task_change_ok [OF 1(2)] by (simp add: put_resources_def)
      moreover have "task_heap ?N t = Some r2" "ctx r2 \<noteq> nullptr" using A(2) by (simp_all add: put_resources_def same_registration_def)
      ultimately show ?thesis using l A(1,3) 2(2,4) cur by (intro exI [of _ ok2] exI [of _ ?N] exI [of _ w2] exI [of _ r2]) auto
    qed
  qed
qed

lemma resources_unload_outcome:
  assumes M: "memory_api api alive faults" and ok: "manager_ok N" and t: "task_heap N t = Some r" and w: "alive w = base + resources_own r"
    and none: "ctx r = nullptr \<longrightarrow> resources_own r = {#}"
  shows "\<exists>b N' w'. resources_unload api t N w = Some (b, N', w')
    \<and> (faults w < faults w' \<or> alive w' = base \<and> (\<exists>r'. task_heap N' t = Some r' \<and> ctx r' = nullptr \<and> resources_own r' = {#}))"
proof (cases "ctx r = nullptr")
  case True
  then have "resources_unload api t N w = Some (True, N, w)" using t by (simp add: resources_unload_def)
  then show ?thesis using True t w none by auto
next
  case ctx: False
  from makeTaskCurrent_outcome [OF M ok t, of w] obtain cur w1 where 1: "makeTaskCurrent api r N w = Some (cur, w1)" "alive w1 = alive w" "faults w \<le> faults w1"
      "cur \<longrightarrow> faults w1 = faults w" by (elim exE conjE)
  show ?thesis
  proof (cases cur)
    case False
    obtain a c where "ctx r = Some a" "context_heap N a = Some c" using ctx manager_okD(4) [OF ok t] by fastforce
    then have "cudaSetDevice api (res_gpuId r) w = (False, w1)"
      using 1(1) False no_dangling_select [OF ok t, of api w] ctx by simp
    then have "faults w < faults w1" using memory_apiD(11) [OF M] by fastforce
    moreover have "resources_unload api t N w = Some (False, N, w1)" using 1(1) ctx False t by (simp add: resources_unload_def)
    ultimately show ?thesis by blast
  next
    case True
    have "owed alive faults (faults w) w1 (base + resources_own r)" using 1(2,4) True w by (simp add: owed_def)
    from free_result_buffers_owed [OF M this] obtain f r1 w2 where 2: "free_result_buffers api r w1 = (f, r1, w2)" "owed alive faults (faults w) w2 base"
        "same_registration r r1" "resources_own r1 = {#}" by (elim exE conjE)
    let ?N = "put_resources t r1 N"
    have "registration (task_heap N t) = registration (Some r1)" using 2(3) t by (simp add: registration_def same_registration_def)
    then have okN: "manager_ok ?N" using task_change_ok [OF ok] by (simp add: put_resources_def)
    have t1: "task_heap ?N t = Some r1" by (simp add: put_resources_def)
    obtain N' r' where 3: "unregisterTask t ?N = Some (True, N')" "task_heap N' t = Some r'" "ctx r' = nullptr" "resources_own r' = {#}"
      using okN t1
    proof (cases rule: unregister_outcome)
      case free
      then show ?thesis using that [of ?N r1] t1 2(4) by simp
    next
      case (bound a c i)
      then show ?thesis using that [OF bound(5)] 2(4) by (simp add: resources_own_def)
    qed
    have "resources_unload api t N w = Some (f, N', w2)" using 1(1) True t ctx 2(1) 3(1) by (auto simp: resources_unload_def)
    moreover have "faults w < faults w2 \<or> alive w2 = base" using 2(2) by (auto simp: owed_def)
    ultimately show ?thesis using 3(2-4) by (intro exI [of _ f] exI [of _ N'] exI [of _ w2]) auto
  qed
qed

section \<open>Properties\<close>

text \<open>
  C38.  The resources of a result task are accounted for.  Loading returns, however it ends, and the live handles are then those from before and the
  handles the task holds.  Unloading after that returns, also when the load failed half-way; the live handles are those from before
  the load and the task holds nothing and is not registered, unless during the unload the device could not be selected or a handle could
  not be freed, which the account \<open>faults\<close> records.
\<close>

theorem result_resources_given_back:
  assumes "manager_starts api M0" "steps (manager_step api) M0 N" "\<not> crammed N" "memory_api api alive faults"
    and t: "task_heap N t = Some r" "ctx r = nullptr" "resources_own r = {#}"
  shows "\<exists>b N1 w1 r1 ok N2 w2. resources_load api getcpu n t N w = Some (b, N1, w1) \<and> task_heap N1 t = Some r1 \<and> alive w1 = alive w + resources_own r1
    \<and> resources_unload api t N1 w1 = Some (ok, N2, w2)
    \<and> (faults w1 < faults w2 \<or> alive w2 = alive w \<and> (\<exists>r2. task_heap N2 t = Some r2 \<and> ctx r2 = nullptr \<and> resources_own r2 = {#}))"
proof -
  have okN: "manager_ok N" using mgr.reached_invar [OF assms(1,2)] by blast
  obtain b N1 w1 r1 where 1: "resources_load api getcpu n t N w = Some (b, N1, w1)" "manager_ok N1" "task_heap N1 t = Some r1"
      "alive w1 = alive w + resources_own r1" "ctx r1 = nullptr \<longrightarrow> \<not> b \<and> resources_own r1 = {#}"
    using resources_load_outcome [OF assms(4) okN assms(3) t, of getcpu n w] by (elim exE conjE)
  from resources_unload_outcome [OF assms(4) 1(2,3,4)] 1(5) obtain ok N2 w2 where "resources_unload api t N1 w1 = Some (ok, N2, w2)"
      "faults w1 < faults w2 \<or> alive w2 = alive w \<and> (\<exists>r'. task_heap N2 t = Some r' \<and> ctx r' = nullptr \<and> resources_own r' = {#})" by blast
  then show ?thesis using 1(1,3,4)
    by (intro exI [of _ b] exI [of _ N1] exI [of _ w1] exI [of _ r1] exI [of _ ok] exI [of _ N2] exI [of _ w2]) simp
qed

text \<open>
  C39.  An unload that cannot select the device leaves the task registered.  Take a task that was loaded and registered in any
  reachable state of the context manager, and any later state of the runtime in which its device cannot be selected.  Then \<open>unload\<close> answers \<open>false\<close>
  and does nothing, and so does the second call, in the destructor; when the task is gone, the slot of the registry still has its address, none of its
  handles was freed, and the context manager refuses to shut down.
\<close>

theorem unload_can_leave_registration:
  assumes "manager_starts api M0" "steps (manager_step api) M0 N" "\<not> crammed N" "memory_api api alive faults"
    and t: "task_heap N t = Some r" "ctx r = nullptr" "resources_own r = {#}"
    and load: "resources_load api getcpu n t N w = Some (b, N1, w1)" "task_heap N1 t = Some r1" "ctx r1 \<noteq> nullptr"
    and lost: "cudaSetDevice api (res_gpuId r1) u = (False, u1)" "cudaSetDevice api (res_gpuId r1) u1 = (False, u2)"
  shows "resources_unload api t N1 u = Some (False, N1, u1) \<and> resources_unload api t N1 u1 = Some (False, N1, u2) \<and> alive u2 = alive u
    \<and> (\<exists>a i. ctx r1 = Some a \<and> in_slot N1 a i t) \<and> manager_shutdown api N1 v = Some (N1, v)"
proof -
  have okN: "manager_ok N" using mgr.reached_invar [OF assms(1,2)] by blast
  have ok: "manager_ok N1" using resources_load_outcome [OF assms(4) okN assms(3) t, of getcpu n w] load(1) by auto
  have cur: "makeTaskCurrent api r1 N1 x = Some (cudaSetDevice api (res_gpuId r1) x)" for x
    using no_dangling_select [OF ok load(2), of api x] load(3) by simp
  obtain a where a: "ctx r1 = Some a" using load(3) by auto
  then have "bound_to N1 a (nat (resourceId r1)) t" using manager_okD(4) [OF ok load(2)] load(2) by (auto simp: bound_to_def)
  then have slot: "in_slot N1 a (nat (resourceId r1)) t" using manager_okD(3) [OF ok] by simp
  have "manager_shutdown api N1 v = Some (N1, v)"
    using manager_shutdown_outcome [OF ok, of api v "\<lambda>_ _. 0" "\<lambda>_. 0"] load(2,3) by (auto split: if_splits)
  then show ?thesis
    using lost load(2,3) cur a slot memory_apiD(10) [OF assms(4) lost(1)] memory_apiD(10) [OF assms(4) lost(2)] by (auto simp: resources_unload_def)
qed

section \<open>Samples\<close>

definition sample_result_api :: "sample_world result_api" where
  "sample_result_api = task_api.extend sample_task_api (result_api.fields (\<lambda>g b s p q n w. w))"

lemma sample_result_init:
  "manager_init sample_result_api True (new_manager Map.empty) w = Some (True, sample_gpu_manager\<lparr>task_heap := Map.empty\<rparr>, w)"
proof -
  have "node_of_gpu sample_result_api True g w = (0, w)" for g w
    using sample_nodes sample_paths
    by (simp add: node_of_gpu_def probeNumaNodeOfGpu_def sample_result_api_def sample_task_api_def task_api.extend_def result_api.fields_def)
  then show ?thesis
    by (simp add: manager_init_def init_gpu_def retain_context_def new_manager_def new_gpu_context_def sample_result_api_def sample_task_api_def
        task_api.extend_def result_api.fields_def sample_gpu_manager_def sample_context_def)
qed

lemma sample_manager_reached:
  assumes "manager_init api True (new_manager Map.empty) w = Some (True, sample_gpu_manager\<lparr>task_heap := Map.empty\<rparr>, w')"
  shows "steps (manager_step api) (new_manager Map.empty) sample_gpu_manager"
proof -
  let ?M = "sample_gpu_manager\<lparr>task_heap := Map.empty\<rparr>"
  have "steps (manager_step api) (new_manager Map.empty) ?M" by (rule steps_one) (rule manager_step.init [OF assms])
  moreover have "manager_step api ?M (?M\<lparr>task_heap := (task_heap ?M)(3 \<mapsto> new_resources)\<rparr>)" by (rule manager_step.create) simp
  ultimately show ?thesis using steps.more by (fastforce simp: sample_gpu_manager_def)
qed

lemma sample_result_task:
  "task_heap sample_gpu_manager 3 = Some new_resources" "ctx new_resources = nullptr" "resources_own new_resources = {#}"
  by (simp_all add: sample_gpu_manager_def new_resources_def resources_own_def)

theorem result_resources_given_back_witness:
  "\<exists>b N1 w1 ok N2 w2. resources_load sample_result_api (Some 0) 4 3 sample_gpu_manager (1, {#}) = Some (b, N1, w1)
    \<and> resources_unload sample_result_api 3 N1 w1 = Some (ok, N2, w2) \<and> snd w2 = {#}"
proof -
  have d: "memory_api sample_result_api snd (\<lambda>_. 0)" "manager_starts sample_result_api (new_manager Map.empty)"
    by (auto simp: memory_api_def frees_def manager_starts_def new_is_fresh_def sample_result_api_def sample_task_api_def task_api.extend_def
        result_api.fields_def allocated_def split: if_splits)
  from result_resources_given_back [OF d(2) sample_manager_reached [OF sample_result_init] sample_gpu_room d(1) sample_result_task, of "Some 0" 4 "(1, {#})"]
  show ?thesis by auto
qed

text \<open>
  A runtime that loses its device: the device can be selected until the first handle is created.  Its state is the next address, the live
  handles and the failed selections.
\<close>

type_synonym losing_world = "nat \<times> handle multiset \<times> nat"

definition losing_api :: "losing_world result_api" where
  "losing_api = \<lparr>
     cudaGetDevice = \<lambda>w. (Some 0, w), cudaSetDevice = \<lambda>d (k, H, f). (k = 1, (k, H, if k = 1 then f else Suc f)),
     cudaMalloc = \<lambda>n (k, H, f). (Some (Some k), (k + 1, add_mset (DeviceMemory k) H, f)),
     cudaFree = \<lambda>p (k, H, f). (True, (k, H - owning DeviceMemory p, f)),
     cudaStreamCreateWithFlags = \<lambda>(k, H, f). (Some (Some k), (k + 1, add_mset (StreamHandle k) H, f)),
     cudaStreamSynchronize = \<lambda>s w. (True, w), cudaStreamDestroy = \<lambda>p (k, H, f). (True, (k, H - owning StreamHandle p, f)),
     cudaMemsetAsync = \<lambda>p n s w. (True, w), cudaMemcpyAsync = \<lambda>d p n s w. (True, w),
     cudaMemGetInfo = \<lambda>w. (Some (0, 0), w),
     cuInit = \<lambda>w. (True, w), cudaGetDeviceCount = \<lambda>w. (Some 1, w),
     cudaDeviceGetPCIBusId = \<lambda>g w. (Some ''0000:3B:00.0'', w),
     cuDeviceGet = \<lambda>g w. (Some g, w), cuDevicePrimaryCtxRetain = \<lambda>d w. (Some (Some 5), w),
     cuDevicePrimaryCtxRelease = \<lambda>d w. (True, w),
     cuCtxGetId = \<lambda>p w. (Some 9, w), cudaGetDeviceProperties = \<lambda>g w. (True, w), has_ctx_id = True,
     read_file = \<lambda>f w. (Some ''0'', w),
     new_context = \<lambda>h w. (if h 100 = None then Some 100 else None, w),
     cudaHostAlloc = \<lambda>n (k, H, f). (Some (Some k), (k + 1, add_mset (HostMemory k) H, f)),
     cudaFreeHost = \<lambda>p (k, H, f). (True, (k, H - owning HostMemory p, f)),
     cudaGetLastError = \<lambda>w. (True, w), launch_kernel = \<lambda>kind g b s i out n stride w. w,
     memset_host = \<lambda>p n w. w, memcpy_to_host = \<lambda>p xs w. w, memcpy_from_host = \<lambda>p n w. replicate (unat n) 0,
     launch_result = \<lambda>g b s p q n w. w\<rparr>"

lemma losing_api_documented:
  "memory_api losing_api (\<lambda>(k, H, f). H) (\<lambda>(k, H, f). f)" "manager_starts losing_api (new_manager Map.empty)"
  by (auto simp: memory_api_def frees_def manager_starts_def new_is_fresh_def losing_api_def allocated_def split: if_splits)

lemma losing_init:
  "manager_init losing_api True (new_manager Map.empty) (1, H, f) = Some (True, sample_gpu_manager\<lparr>task_heap := Map.empty\<rparr>, (1, H, f))"
proof -
  have "node_of_gpu losing_api True g w = (0, w)" for g w
    using sample_nodes sample_paths by (simp add: node_of_gpu_def probeNumaNodeOfGpu_def losing_api_def)
  then show ?thesis
    by (simp add: manager_init_def init_gpu_def retain_context_def new_manager_def new_gpu_context_def losing_api_def sample_gpu_manager_def sample_context_def)
qed

lemma losing_load:
  "\<exists>N1 r1 k H. resources_load losing_api (Some 0) 4 3 sample_gpu_manager (1, {#}, 0) = Some (True, N1, (k, H, 0)) \<and> task_heap N1 3 = Some r1
    \<and> ctx r1 \<noteq> nullptr \<and> k \<noteq> 1 \<and> H \<noteq> {#}"
  using sample_register
  by (simp add: resources_load_def makeTaskCurrent_def allocate_result_def put_resources_def sample_gpu_manager_def sample_context_def new_gpu_context_def
      losing_api_def new_resources_def INT_MAX_def Let_def)

theorem unload_can_leave_registration_witness:
  "\<exists>N1 k H. resources_load losing_api (Some 0) 4 3 sample_gpu_manager (1, {#}, 0) = Some (True, N1, (k, H, 0)) \<and> H \<noteq> {#}
    \<and> resources_unload losing_api 3 N1 (k, H, 0) = Some (False, N1, (k, H, 1)) \<and> resources_unload losing_api 3 N1 (k, H, 1) = Some (False, N1, (k, H, 2))
    \<and> (\<exists>a i. in_slot N1 a i 3) \<and> manager_shutdown losing_api N1 (k, H, 2) = Some (N1, (k, H, 2))"
proof -
  obtain N1 r1 k H where L: "resources_load losing_api (Some 0) 4 3 sample_gpu_manager (1, {#}, 0) = Some (True, N1, (k, H, 0))" "task_heap N1 3 = Some r1"
    "ctx r1 \<noteq> nullptr" "k \<noteq> 1" "H \<noteq> {#}" using losing_load by (elim exE conjE)
  have lost: "cudaSetDevice losing_api (res_gpuId r1) (k, H, 0) = (False, (k, H, 1))" "cudaSetDevice losing_api (res_gpuId r1) (k, H, 1) = (False, (k, H, 2))"
    using L(4) by (simp_all add: losing_api_def)
  from unload_can_leave_registration [OF losing_api_documented(2) sample_manager_reached [OF losing_init] sample_gpu_room losing_api_documented(1)
      sample_result_task L(1-3) lost, of "(k, H, 2)"]
  show ?thesis using L(1,5) by blast
qed

end
