(* ===== verification/Demo_Main.thy ===== *)
theory Demo_Main
  imports Setup_Properties
begin

text \<open>
  \<open>demo/main.cpp\<close>: the command line, one graph per NUMA node with its share of the frame ids, the
  order in which the graphs are initialised, started, run, stopped and shut down, and the verdict.
  The graphs work in threads of their own while \<open>main\<close> waits, so the calls of \<open>main\<close> on them and on
  the cancellation flag are made through a parameter: \<open>call e s\<close> is the answer of the call \<open>e\<close> in the
  state \<open>s\<close>, and the state after it.  A call that returns is all that \<open>main\<close> sees of the graphs; that a phase ends and that a shutdown
  returns are properties of \<open>Graph_Properties\<close>.  The measured times and the printed report are not modelled.
\<close>

section \<open>The command line\<close>

definition TASKS_PER_GPU :: size_t where "TASKS_PER_GPU = 4"
definition DEFAULT_TIMED_FRAMES_PER_GPU :: u64 where "DEFAULT_TIMED_FRAMES_PER_GPU = 200"
definition DEFAULT_WARMUP_FRAMES_PER_GPU :: u64 where "DEFAULT_WARMUP_FRAMES_PER_GPU = 20"

text \<open>
  \<open>std::stoull\<close>: white space, an optional sign and digits.  A number after a minus sign is negated in
  the unsigned type.  The answer is the number and how many characters were read; \<open>None\<close> when it throws:
  no digit, or a magnitude that does not fit.
\<close>

definition stoull :: "string \<Rightarrow> (u64 \<times> nat) option" where
  "stoull s =
     (let (neg, ds, rest) = split_decimal (dropWhile is_space s)
      in if ds = [] \<or> digits_value ds \<ge> 2 ^ 64 then None
         else Some (if neg then - of_nat (digits_value ds) else of_nat (digits_value ds), length s - length rest))"

definition parseFrameCount :: "string \<Rightarrow> bool \<Rightarrow> u64 option" where
  "parseFrameCount value allowZero = do {
     (parsed, consumed) \<leftarrow> stoull value;
     if consumed \<noteq> length value \<or> (\<not> allowZero \<and> parsed = 0) then None else Some parsed
   }"

definition parseExecutionModel :: "string \<Rightarrow> ExecutionModel option" where
  "parseExecutionModel value =
     (if value = ''batched'' then Some Batched else if value = ''interleaved'' then Some Interleaved else None)"

definition parseSizeFactor :: "string \<Rightarrow> int option" where
  "parseSizeFactor value = do {
     (parsed, consumed) \<leftarrow> stoull value;
     if consumed \<noteq> length value \<or> parsed > of_int MAX_FACTOR then None
     else let factor = signed_take_bit 31 (uint parsed) in if isValidFactor factor then Some factor else None
   }"

definition executionModelName :: "ExecutionModel \<Rightarrow> string" where
  "executionModelName model = (if model = Batched then ''batched'' else ''interleaved'')"

record MainOptions =
  opt_timed :: u64
  opt_warmup :: u64
  opt_model :: ExecutionModel
  opt_factor :: int

text \<open>The arguments after the name of the program; \<open>None\<close> when \<open>main\<close> returns 2.\<close>

definition main_options :: "string list \<Rightarrow> MainOptions option" where
  "main_options args =
     (if length args > 4 then None
      else do {
        timed \<leftarrow> (if length args \<ge> 1 then parseFrameCount (args ! 0) False else Some DEFAULT_TIMED_FRAMES_PER_GPU);
        warmup \<leftarrow> (if length args \<ge> 2 then parseFrameCount (args ! 1) True else Some DEFAULT_WARMUP_FRAMES_PER_GPU);
        model \<leftarrow> (if length args \<ge> 3 then parseExecutionModel (args ! 2) else Some Batched);
        factor \<leftarrow> (if length args = 4 then parseSizeFactor (args ! 3) else Some DEFAULT_FACTOR);
        if warmup > SIZE_MAX - timed then None
        else Some \<lparr>opt_timed = timed, opt_warmup = warmup, opt_model = model, opt_factor = factor\<rparr>
      })"

definition totalFramesPerGpu :: "MainOptions \<Rightarrow> u64" where
  "totalFramesPerGpu opt = opt_warmup opt + opt_timed opt"

definition main_runtime :: "MainOptions \<Rightarrow> AlgoRuntimeInfo" where
  "main_runtime opt =
     (let frameWidth = scaledDimension (opt_factor opt) INPUT_MULTIPLIER
      in \<lparr>inBytes = squareBytes frameWidth 1, sizeFactor = opt_factor opt, frameW = frameWidth, frameH = frameWidth, frameDtype = 1\<rparr>)"

section \<open>The graphs\<close>

text \<open>\<open>gpusByNumaNode[node].push_back(gpu)\<close> on a \<open>std::map\<close>, an association list in ascending order.\<close>

fun push_gpu :: "int \<Rightarrow> int \<Rightarrow> (int \<times> int list) list \<Rightarrow> (int \<times> int list) list" where
  "push_gpu node g [] = [(node, [g])]"
| "push_gpu node g ((n, gs) # es) =
     (if node = n then (n, gs @ [g]) # es else if node < n then (node, [g]) # (n, gs) # es else (n, gs) # push_gpu node g es)"

definition gpusByNumaNode :: "GpuLocation list \<Rightarrow> (int \<times> int list) list" where
  "gpusByNumaNode locations = fold (\<lambda>l. push_gpu (loc_numaNode l) (loc_gpuId l)) locations []"

definition graph_config :: "MainOptions \<Rightarrow> size_t \<Rightarrow> u64 \<Rightarrow> GraphConfig" where
  "graph_config opt gpus firstId = default_config\<lparr>taskInstancesPerGpu := TASKS_PER_GPU, cfg_graphThreads := TASKS_PER_GPU * gpus,
     warmupFramesPerGpu := opt_warmup opt, timedFramesPerGpu := opt_timed opt, firstFrameId := firstId,
     cfg_executionModel := opt_model opt, graph_runtime := main_runtime opt,
     graph_parameters := default_params\<lparr>param_name := ''demo''\<rparr>\<rparr>"

text \<open>The loop over the nodes: whether it came to its end, and the graphs built so far with their nodes.\<close>

fun make_graphs :: "MainOptions \<Rightarrow> (int \<times> int list) list \<Rightarrow> u64 \<Rightarrow> bool \<times> (int \<times> GraphConfig) list" where
  "make_graphs opt [] firstId = (True, [])"
| "make_graphs opt ((node, ids) # es) firstId =
     (let n = of_nat (length ids) :: u64;
          total = totalFramesPerGpu opt;
          graphFrameCount = total * n
      in if total > SIZE_MAX div n then (False, [])
         else if firstId > SIZE_MAX - graphFrameCount then (False, [])
         else let (ok, gs) = make_graphs opt es (firstId + graphFrameCount) in (ok, (node, graph_config opt n firstId) # gs))"

section \<open>The run\<close>

datatype main_call = InitializeGraph nat | StartGraph nat | StartPhaseOf FramePhase nat | ReleaseGate | WaitForPhaseOf nat
  | StopGraph nat | ShutdownGraph nat | ShutdownManager | StoreCancellation | LoadCancellation

type_synonym 's caller = "main_call \<Rightarrow> 's \<Rightarrow> bool \<times> 's"

fun initialize_graphs :: "'s caller \<Rightarrow> nat list \<Rightarrow> 's \<Rightarrow> bool \<times> 's" where
  "initialize_graphs call [] s = (True, s)"
| "initialize_graphs call (i # is) s = (case call (InitializeGraph i) s of
      (True, s1) \<Rightarrow> initialize_graphs call is s1
    | (False, s1) \<Rightarrow> (False, snd (call StoreCancellation s1)))"

text \<open>Which graphs were started, too; the loop ends with the first that was not.\<close>

fun start_graphs :: "'s caller \<Rightarrow> nat list \<Rightarrow> 's \<Rightarrow> bool \<times> bool list \<times> 's" where
  "start_graphs call [] s = (True, [], s)"
| "start_graphs call (i # is) s = (case call (StartGraph i) s of
      (True, s1) \<Rightarrow> (let (ok, started, s2) = start_graphs call is s1 in (ok, True # started, s2))
    | (False, s1) \<Rightarrow> (False, False # replicate (length is) False, snd (call StoreCancellation s1)))"

fun main_startPhase :: "'s caller \<Rightarrow> FramePhase \<Rightarrow> nat list \<Rightarrow> 's \<Rightarrow> bool \<times> bool list \<times> 's" where
  "main_startPhase call phase [] s = (True, [], s)"
| "main_startPhase call phase (i # is) s =
     (let (b, s1) = call (StartPhaseOf phase i) s;
          s2 = (if b then s1 else snd (call StoreCancellation s1));
          (ok, started, s3) = main_startPhase call phase is s2
      in (b \<and> ok, b # started, s3))"

fun main_waitForPhase :: "'s caller \<Rightarrow> (nat \<times> bool) list \<Rightarrow> 's \<Rightarrow> bool \<times> 's" where
  "main_waitForPhase call [] s = (True, s)"
| "main_waitForPhase call ((i, started) # is) s =
     (if started then let (b, s1) = call (WaitForPhaseOf i) s; (ok, s2) = main_waitForPhase call is s1 in (b \<and> ok, s2)
      else main_waitForPhase call is s)"

definition runPhase :: "'s caller \<Rightarrow> FramePhase \<Rightarrow> nat \<Rightarrow> 's \<Rightarrow> bool \<times> 's" where
  "runPhase call phase n s =
     (let (ok1, started, s1) = main_startPhase call phase [0..<n] s;
          s2 = snd (call ReleaseGate s1);
          (ok2, s3) = main_waitForPhase call (zip [0..<n] started) s2
      in if ok1 \<and> ok2 then let (cancelled, s4) = call LoadCancellation s3 in (\<not> cancelled, s4) else (False, s3))"

definition timed_phase :: "'s caller \<Rightarrow> nat \<Rightarrow> 's \<Rightarrow> bool \<times> 's" where
  "timed_phase call n s =
     (let (ok1, started, s1) = main_startPhase call Timed [0..<n] s;
          s2 = snd (call ReleaseGate s1);
          (ok2, s3) = main_waitForPhase call (zip [0..<n] started) s2;
          (cancelled, s4) = call LoadCancellation s3
      in (ok1 \<and> ok2 \<and> \<not> cancelled, s4))"

fun stop_graphs :: "'s caller \<Rightarrow> (nat \<times> bool) list \<Rightarrow> 's \<Rightarrow> bool \<times> 's" where
  "stop_graphs call [] s = (True, s)"
| "stop_graphs call ((i, started) # is) s =
     (if started then let (b, s1) = call (StopGraph i) s; (ok, s2) = stop_graphs call is s1 in (b \<and> ok, s2)
      else stop_graphs call is s)"

fun shutdown_graphs :: "'s caller \<Rightarrow> nat list \<Rightarrow> 's \<Rightarrow> bool \<times> 's" where
  "shutdown_graphs call [] s = (True, s)"
| "shutdown_graphs call (i # is) s = (let (b, s1) = call (ShutdownGraph i) s; (ok, s2) = shutdown_graphs call is s1 in (b \<and> ok, s2))"

text \<open>The first part of the run, whether everything succeeded and which graphs are started; then the way down.\<close>

definition bring_up :: "'s caller \<Rightarrow> bool \<Rightarrow> nat \<Rightarrow> 's \<Rightarrow> bool \<times> bool list \<times> 's" where
  "bring_up call configured n s =
     (let (ok1, s1) = (if configured then initialize_graphs call [0..<n] s else (False, s))
      in if ok1 then start_graphs call [0..<n] s1 else (False, replicate n False, s1))"

definition run_graphs :: "'s caller \<Rightarrow> bool \<Rightarrow> nat \<Rightarrow> 's \<Rightarrow> bool \<times> 's" where
  "run_graphs call configured n s =
     (let (ok2, started, s2) = bring_up call configured n s;
          (ok3, s3) = (if ok2 then runPhase call Warmup n s2 else (False, s2));
          (ok4, s4) = (if ok3 then timed_phase call n s3 else (False, s3));
          (stopSucceeded, s5) = stop_graphs call (zip [0..<n] started) s4;
          (shutdownSucceeded, s6) = shutdown_graphs call [0..<n] s5;
          s7 = snd (call ShutdownManager s6)
      in (ok4 \<and> stopSucceeded \<and> shutdownSucceeded, s7))"

text \<open>The verdict; \<open>None\<close> is a division by zero.\<close>

definition main_verdict :: "u64 \<Rightarrow> size_t \<Rightarrow> bool \<Rightarrow> size_t \<times> size_t \<Rightarrow> bool option" where
  "main_verdict perGpu gpuTotal run_ok sunk =
     (if gpuTotal = 0 then None
      else let expectedFits = (perGpu \<le> SIZE_MAX div gpuTotal);
               expected = (if expectedFits then gpuTotal * perGpu else 0)
           in Some (run_ok \<and> expectedFits \<and> fst sunk = expected \<and> snd sunk = 0))"

text \<open>
  The whole of \<open>main\<close>: the exit code, and the state of the graphs.  \<open>call gs\<close> are the calls on the graphs
  \<open>gs\<close>, \<open>sunk\<close> the two numbers of the sink.
\<close>

definition demo_main :: "('w, 'x) driver_api_scheme \<Rightarrow> ((int \<times> GraphConfig) list \<Rightarrow> 's caller) \<Rightarrow> ('s \<Rightarrow> size_t \<times> size_t) \<Rightarrow> string list
    \<Rightarrow> GpuContextManager \<Rightarrow> 'w \<Rightarrow> 's \<Rightarrow> (int \<times> 's) option" where
  "demo_main api call sunk args M w s = (case main_options args of
      None \<Rightarrow> Some (2, s)
    | Some opt \<Rightarrow> do {
        (up, M1, w1) \<leftarrow> manager_init api True M w;
        if \<not> up then Some (1, s)
        else do {
          locations \<leftarrow> gpuLocations M1;
          let ns = gpusByNumaNode locations;
          let (configured, gs) = make_graphs opt ns 0;
          let (run_ok, s1) = run_graphs (call gs) (configured \<and> gs \<noteq> [] \<and> length gs = length ns) (length gs) s;
          succeeded \<leftarrow> main_verdict (totalFramesPerGpu opt) (of_nat (length locations)) run_ok (sunk s1);
          Some (if succeeded then 0 else 1, s1)
        }
      })"

end
