(* ===== verification/Main_Properties.thy ===== *)
theory Main_Properties
  imports Demo_Main
begin

text \<open>
  What \<open>main\<close> achieves: the graphs share out the frame ids without gap or overlap, whatever the
  calls answer everything that was started is taken down, and the exit code 0 means that every frame was delivered.
\<close>

section \<open>One graph per node\<close>

definition gpus_on :: "GpuLocation list \<Rightarrow> int \<Rightarrow> nat" where
  "gpus_on locs node = length (filter (\<lambda>l. loc_numaNode l = node) locs)"

lemma push_gpu_keys: "fst ` set (push_gpu node g es) = insert node (fst ` set es)"
  by (induction node g es rule: push_gpu.induct) auto

lemma push_gpu_sorted: "sorted_wrt (<) (map fst es) \<Longrightarrow> sorted_wrt (<) (map fst (push_gpu node g es))"
proof (induction node g es rule: push_gpu.induct)
  case (2 node g n gs es)
  then show ?case using push_gpu_keys [of node g es] by auto
qed simp

text \<open>The map after \<open>operator[]\<close> and \<open>push_back\<close>.\<close>

lemma push_gpu_map:
  "sorted_wrt (<) (map fst es) \<Longrightarrow> map_of (push_gpu node g es) = (map_of es)(node \<mapsto> (case map_of es node of None \<Rightarrow> [g] | Some gs \<Rightarrow> gs @ [g]))"
proof (induction node g es rule: push_gpu.induct)
  case (2 node g n gs es)
  have "map_of es node = None" if "node < n" using 2(2) that by (auto simp: map_of_eq_None_iff)
  then show ?case using 2 by (auto simp: fun_eq_iff)
qed simp

lemma gpusByNumaNode_map:
  "sorted_wrt (<) (map fst (gpusByNumaNode locs)) \<and> fst ` set (gpusByNumaNode locs) = loc_numaNode ` set locs
   \<and> map_of (gpusByNumaNode locs) = (\<lambda>n. let ls = filter (\<lambda>l. loc_numaNode l = n) locs in if ls = [] then None else Some (map loc_gpuId ls))"
proof (induction locs rule: rev_induct)
  case (snoc l ls)
  have "gpusByNumaNode (ls @ [l]) = push_gpu (loc_numaNode l) (loc_gpuId l) (gpusByNumaNode ls)" by (simp add: gpusByNumaNode_def)
  then show ?case using snoc push_gpu_sorted push_gpu_keys [of "loc_numaNode l" "loc_gpuId l"] push_gpu_map
    by (auto simp: fun_eq_iff Let_def)
qed (simp add: gpusByNumaNode_def fun_eq_iff)

lemma gpusByNumaNode_spec:
  "sorted_wrt (<) (map fst (gpusByNumaNode locs))" "fst ` set (gpusByNumaNode locs) = loc_numaNode ` set locs"
  "(node, ids) \<in> set (gpusByNumaNode locs) \<Longrightarrow> length ids = gpus_on locs node \<and> ids \<noteq> []"
proof -
  note M = gpusByNumaNode_map [of locs]
  show "sorted_wrt (<) (map fst (gpusByNumaNode locs))" "fst ` set (gpusByNumaNode locs) = loc_numaNode ` set locs" using M by blast+
  assume "(node, ids) \<in> set (gpusByNumaNode locs)"
  then have "map_of (gpusByNumaNode locs) node = Some ids" using M by (blast intro: map_of_is_SomeI dest: strict_sorted_iff [THEN iffD1])
  then show "length ids = gpus_on locs node \<and> ids \<noteq> []" using M by (auto simp: gpus_on_def Let_def split: if_splits)
qed

lemma gpus_on_sum: "sum_list (map (gpus_on locs \<circ> fst) (gpusByNumaNode locs)) = length locs"
proof -
  note S = gpusByNumaNode_spec(1,2) [of locs]
  have "sum_list (map (gpus_on locs) (map fst (gpusByNumaNode locs))) = (\<Sum>n\<in>loc_numaNode ` set locs. gpus_on locs n)"
    using S by (subst sum_list_distinct_conv_sum_set) (auto simp: strict_sorted_iff)
  also have "\<dots> = length locs"
  proof -
    have "(\<Sum>n\<in>N. gpus_on ls n) = length ls" if "finite N" "loc_numaNode ` set ls \<subseteq> N" for N ls
      using that(2)
    proof (induction ls)
      case (Cons l ls)
      have "(\<Sum>n\<in>N. gpus_on (l # ls) n) = (\<Sum>n\<in>N. (if n = loc_numaNode l then 1 else 0) + gpus_on ls n)"
        by (rule sum.cong) (auto simp: gpus_on_def)
      also have "\<dots> = 1 + (\<Sum>n\<in>N. gpus_on ls n)" using Cons.prems that(1) by (simp add: sum.distrib)
      finally show ?case using Cons by simp
    qed (simp add: gpus_on_def)
    then show ?thesis by simp
  qed
  finally show ?thesis by simp
qed

lemma nodes_in_order: "map fst (gpusByNumaNode locs) = sorted_list_of_set (loc_numaNode ` set locs)"
  using gpusByNumaNode_spec(1,2) [of locs] by (metis list.set_map sorted_list_of_set.idem_if_sorted_distinct strict_sorted_iff)

section \<open>The frame ids\<close>

text \<open>The ids of the frames of a graph on a node with \<open>n\<close> GPUs.\<close>

definition frame_ids :: "GraphConfig \<Rightarrow> nat \<Rightarrow> nat list" where
  "frame_ids cfg n = [unat (firstFrameId cfg)..<unat (firstFrameId cfg) + (unat (warmupFramesPerGpu cfg) + unat (timedFramesPerGpu cfg)) * n]"

lemma make_graphs_outcome:
  assumes "\<forall>(node, ids)\<in>set es. length ids = cnt node \<and> ids \<noteq> []"
    and "sum_list (map (cnt \<circ> fst) es) < 2 ^ 64" "unat (totalFramesPerGpu opt) = F" "F = unat (opt_warmup opt) + unat (opt_timed opt)"
  shows "\<exists>ok gs. make_graphs opt es f = (ok, gs) \<and> (ok \<longleftrightarrow> unat f + F * sum_list (map (cnt \<circ> fst) es) < 2 ^ 64)
    \<and> (ok \<longrightarrow> map fst gs = map fst es
        \<and> concat (map (\<lambda>(node, cfg). frame_ids cfg (cnt node)) gs) = [unat f..<unat f + F * sum_list (map (cnt \<circ> fst) es)]
        \<and> (\<forall>(node, cfg)\<in>set gs. \<exists>g. cfg = graph_config opt (of_nat (cnt node)) g \<and> unat g + F * cnt node < 2 ^ 64))"
  using assms
proof (induction es arbitrary: f)
  case Nil
  then show ?case using unat_size_t_less [of f] by (intro exI [of _ True]) simp
next
  case (Cons e es)
  obtain node ids where e: "e = (node, ids)" by (cases e)
  let ?n = "of_nat (length ids) :: u64" and ?S = "sum_list (map (cnt \<circ> fst) es)"
  have ids: "length ids = cnt node" "ids \<noteq> []" using Cons.prems(1) e by auto
  have n: "unat ?n = cnt node" using Cons.prems(2) e ids(1) by (intro trans [OF unat_of_nat_small]) auto
  then have n0: "?n \<noteq> 0" using ids by (metis length_0_conv unat_0)
  have fits: "SIZE_MAX div ?n < totalFramesPerGpu opt \<longleftrightarrow> 2 ^ 64 \<le> F * cnt node"
    using size_t_mult_fits [of ?n "totalFramesPerGpu opt"] n n0 Cons.prems(3) by (simp add: mult.commute)
  show ?case
  proof (cases "2 ^ 64 \<le> F * cnt node \<or> 2 ^ 64 \<le> unat f + F * cnt node")
    case True
    have "make_graphs opt (e # es) f = (False, [])"
    proof (cases "2 ^ 64 \<le> F * cnt node")
      case False
      then have "unat (totalFramesPerGpu opt * ?n) = F * cnt node" using n Cons.prems(3) by (simp add: unat_word_ariths)
      then show ?thesis using size_t_room(2) [of "totalFramesPerGpu opt * ?n" f] fits e True False by (simp add: add.commute Let_def)
    qed (use fits e in \<open>simp add: Let_def\<close>)
    then show ?thesis using True e by (auto simp: add_mult_distrib2)
  next
    case False
    then have m: "unat (totalFramesPerGpu opt * ?n) = F * cnt node" using n Cons.prems(3) by (simp add: unat_word_ariths)
    let ?f = "f + totalFramesPerGpu opt * ?n"
    have f': "unat ?f = unat f + F * cnt node" using m False by (simp add: unat_add_no_wrap)
    have rest: "\<forall>(node, ids)\<in>set es. length ids = cnt node \<and> ids \<noteq> []" "?S < 2 ^ 64" using Cons.prems(1,2) by (auto simp: comp_def)
    obtain ok gs where IH: "make_graphs opt es ?f = (ok, gs)" "ok \<longleftrightarrow> unat ?f + F * ?S < 2 ^ 64"
      "ok \<longrightarrow> map fst gs = map fst es \<and> concat (map (\<lambda>(node, cfg). frame_ids cfg (cnt node)) gs) = [unat ?f..<unat ?f + F * ?S]
        \<and> (\<forall>(node, cfg)\<in>set gs. \<exists>g. cfg = graph_config opt (of_nat (cnt node)) g \<and> unat g + F * cnt node < 2 ^ 64)"
      using Cons.IH [OF rest Cons.prems(3,4), of ?f] by (elim exE conjE)
    have "make_graphs opt (e # es) f = (ok, (node, graph_config opt ?n f) # gs)"
      using size_t_room(2) [of "totalFramesPerGpu opt * ?n" f] m False fits IH(1) e by (simp add: add.commute Let_def)
    moreover have "frame_ids (graph_config opt ?n f) (cnt node) = [unat f..<unat f + F * cnt node]"
      by (simp add: frame_ids_def graph_config_def default_config_def Cons.prems(4))
    moreover have "[unat f..<unat f + F * cnt node] @ [unat ?f..<unat ?f + F * ?S] = [unat f..<unat f + F * (cnt node + ?S)]"
      using upt_add_eq_append [of "unat f" "unat f + F * cnt node" "F * ?S"] unfolding f' by (simp add: add_mult_distrib2 add.assoc)
    moreover have all: "sum_list (map (cnt \<circ> fst) (e # es)) = cnt node + ?S" "unat ?f + F * ?S = unat f + F * (cnt node + ?S)"
      using e f' by (simp_all add: add_mult_distrib2)
    moreover have "\<exists>g. graph_config opt ?n f = graph_config opt (of_nat (cnt node)) g \<and> unat g + F * cnt node < 2 ^ 64" using ids(1) False by auto
    ultimately show ?thesis using IH(2,3) unfolding all
      by (intro exI [of _ ok] exI [of _ "(node, graph_config opt ?n f) # gs"] conjI) (simp_all add: e)
  qed
qed

section \<open>Numbers on the command line\<close>

definition signed_number :: "bool \<Rightarrow> nat \<Rightarrow> string" where
  "signed_number neg n = (if neg then CHR ''-'' # show_nat n else show_nat n)"

lemma split_show_nat: "split_decimal (signed_number neg n) = (neg, show_nat n, [])" "dropWhile is_space (signed_number neg n) = signed_number neg n"
proof -
  obtain c cs where s: "show_nat n = c # cs" using show_nat_chars(2) [of n] by (cases "show_nat n") auto
  have d: "is_digit c" using show_nat_chars(1) [of c n] s by simp
  have "takeWhile is_digit (show_nat n) = show_nat n" "dropWhile is_digit (show_nat n) = []"
    using show_nat_chars(1) [of _ n] by (auto simp: takeWhile_eq_all_conv dropWhile_eq_Nil_conv)
  then show "split_decimal (signed_number neg n) = (neg, show_nat n, [])" "dropWhile is_space (signed_number neg n) = signed_number neg n"
    using digit_no_space [OF d] d s by (auto simp: signed_number_def split_decimal_def Let_def)
qed

text \<open>
  C35.  A frame count is read back from its decimal digits.  The number must fit in 64 bits, and be positive where
  zero is not allowed.  A minus sign is not refused: a negative count is read as a
  count near the largest there is.
\<close>

theorem frame_count_is_read:
  "parseFrameCount (signed_number neg n) allowZero =
     (if n < 2 ^ 64 \<and> (allowZero \<or> 0 < n) then Some (of_nat (if neg \<and> n \<noteq> 0 then 2 ^ 64 - n else n)) else None)"
proof (cases "n < 2 ^ 64")
  case True
  have z: "(of_nat n = (0 :: u64)) \<longleftrightarrow> n = 0" using unat_eq_0 [of "of_nat n :: u64"] unat_of_nat_small [OF True] by simp
  have "of_nat (2 ^ 64 - n) = (- of_nat n :: u64)" using True by (simp add: of_nat_diff)
  then show ?thesis using True z split_show_nat [of neg n] show_nat_chars(2,3) [of n] by (auto simp: parseFrameCount_def stoull_def)
next
  case False
  then show ?thesis using split_show_nat [of neg n] show_nat_chars(3) [of n] by (simp add: parseFrameCount_def stoull_def)
qed

lemma options_total:
  assumes "main_options args = Some opt"
  shows "unat (totalFramesPerGpu opt) = unat (opt_warmup opt) + unat (opt_timed opt)" "opt_timed opt \<noteq> 0" "validRuntime (main_runtime opt)"
proof -
  obtain timed warmup model factor where o: "opt = \<lparr>opt_timed = timed, opt_warmup = warmup, opt_model = model, opt_factor = factor\<rparr>"
      "\<not> warmup > SIZE_MAX - timed"
      "(if length args \<ge> 1 then parseFrameCount (args ! 0) False else Some DEFAULT_TIMED_FRAMES_PER_GPU) = Some timed"
      "(if length args = 4 then parseSizeFactor (args ! 3) else Some DEFAULT_FACTOR) = Some factor"
    using assms by (auto simp: main_options_def split: if_splits Option.bind_splits)
  then have "unat timed + unat warmup < 2 ^ 64" using size_t_room(2) [of timed warmup] by simp
  then show "unat (totalFramesPerGpu opt) = unat (opt_warmup opt) + unat (opt_timed opt)"
    using o(1) by (simp add: totalFramesPerGpu_def unat_add_no_wrap)
  show "opt_timed opt \<noteq> 0"
    using o(1,3) by (auto simp: parseFrameCount_def DEFAULT_TIMED_FRAMES_PER_GPU_def split: if_splits Option.bind_splits)
  have f: "isValidFactor factor"
    using o(4) by (auto simp: parseSizeFactor_def isValidFactor_def sizing_defs Let_def split: if_splits Option.bind_splits)
  then show "validRuntime (main_runtime opt)"
    using o(1) by (auto simp: validRuntime_def main_runtime_def scaledDimension_def squareBytes_def Let_def)
qed

text \<open>
  C32.  The graphs share out the frame ids.  For arguments that \<open>main\<close> accepts and the GPUs it found, it builds
  its graphs exactly when all ids fit in 64 bits.  Then there is one graph for each NUMA node, in ascending
  order; the ids of the graphs, one after the other, are \<open>0, 1, 2, ...\<close> up to the number of all frames, without
  a gap and without an id in two graphs; and no graph refuses its counts as too large.
\<close>

theorem graphs_share_the_frame_ids:
  assumes "main_options args = Some opt" "length locs < 2 ^ 64"
  shows "\<exists>ok gs F. make_graphs opt (gpusByNumaNode locs) 0 = (ok, gs) \<and> F = unat (opt_warmup opt) + unat (opt_timed opt)
    \<and> (ok \<longleftrightarrow> F * length locs < 2 ^ 64)
    \<and> (ok \<longrightarrow> map fst gs = sorted_list_of_set (loc_numaNode ` set locs)
        \<and> concat (map (\<lambda>(node, cfg). frame_ids cfg (gpus_on locs node)) gs) = [0..<F * length locs]
        \<and> (\<forall>(node, cfg)\<in>set gs. plan_frames cfg (of_nat (gpus_on locs node)) \<noteq> None \<and> validRuntime (graph_runtime cfg)))"
proof -
  note O = options_total [OF assms(1)]
  let ?F = "unat (opt_warmup opt) + unat (opt_timed opt)"
  have sum: "sum_list (map (gpus_on locs \<circ> fst) (gpusByNumaNode locs)) < 2 ^ 64" using gpus_on_sum assms(2) by simp
  have sizes: "\<forall>(node, ids)\<in>set (gpusByNumaNode locs). length ids = gpus_on locs node \<and> ids \<noteq> []" using gpusByNumaNode_spec(3) by fast
  obtain ok gs where g: "make_graphs opt (gpusByNumaNode locs) 0 = (ok, gs)" "ok \<longleftrightarrow> ?F * length locs < 2 ^ 64"
    "ok \<longrightarrow> map fst gs = map fst (gpusByNumaNode locs)
        \<and> concat (map (\<lambda>(node, cfg). frame_ids cfg (gpus_on locs node)) gs) = [0..<?F * length locs]
        \<and> (\<forall>(node, cfg)\<in>set gs. \<exists>g. cfg = graph_config opt (of_nat (gpus_on locs node)) g \<and> unat g + ?F * gpus_on locs node < 2 ^ 64)"
    using make_graphs_outcome [OF sizes sum O(1) refl, of 0] unfolding gpus_on_sum unsigned_0 add_0 by (elim exE conjE)
  have "plan_frames cfg (of_nat (gpus_on locs node)) \<noteq> None \<and> validRuntime (graph_runtime cfg)" if ok and m: "(node, cfg) \<in> set gs" for node cfg
  proof -
    from that g(3) obtain a where a: "cfg = graph_config opt (of_nat (gpus_on locs node)) a" "unat a + ?F * gpus_on locs node < 2 ^ 64" by blast
    have "node \<in> set (map fst gs)" using m by force
    then have "node \<in> loc_numaNode ` set locs" using that(1) g(3) gpusByNumaNode_spec(2) [of locs] by simp
    then have "0 < gpus_on locs node" by (auto simp: gpus_on_def filter_empty_conv)
    moreover have "gpus_on locs node < 2 ^ 64" using assms(2) by (auto simp: gpus_on_def intro: le_less_trans [OF length_filter_le])
    ultimately have "unat (of_nat (gpus_on locs node) :: size_t) = gpus_on locs node" "of_nat (gpus_on locs node) \<noteq> (0 :: size_t)"
      using unat_of_nat_small by (metis less_irrefl unat_0)+
    then show ?thesis using a O(3) by (simp add: plan_frames_exact graph_config_def default_config_def Let_def add_mult_distrib add.assoc)
  qed
  then show ?thesis using g nodes_in_order by (intro exI [of _ ok] exI [of _ gs] exI [of _ ?F]) auto
qed

theorem graphs_share_the_frame_ids_witness:
  "\<exists>opt gs. main_options [''10'', ''2''] = Some opt
    \<and> make_graphs opt (gpusByNumaNode [\<lparr>loc_gpuId = 0, loc_numaNode = 1\<rparr>, \<lparr>loc_gpuId = 1, loc_numaNode = 0\<rparr>]) 0 = (True, gs)
    \<and> map fst gs = [0, 1] \<and> map (firstFrameId \<circ> snd) gs = [0, 12]"
proof -
  define opt where "opt = \<lparr>opt_timed = 10, opt_warmup = 2, opt_model = Batched, opt_factor = 128\<rparr>"
  have o: "main_options [''10'', ''2''] = Some opt" 
  proof -
    have "''10'' = show_nat 10" "''2'' = show_nat 2" by code_simp+
    then have "parseFrameCount ''10'' False = Some 10" "parseFrameCount ''2'' True = Some 2"
      using split_show_nat [of False 10] split_show_nat [of False 2] show_nat_chars(2,3) [of 10] show_nat_chars(2,3) [of 2]
      by (simp_all add: parseFrameCount_def stoull_def signed_number_def)
    then show ?thesis using size_t_room(2) [of 10 2] by (simp add: main_options_def opt_def sizing_defs)
  qed
  let ?locs = "[\<lparr>loc_gpuId = 0, loc_numaNode = 1\<rparr>, \<lparr>loc_gpuId = 1, loc_numaNode = 0\<rparr>]"
  from graphs_share_the_frame_ids [OF o, of ?locs]
  have "\<exists>gs. make_graphs opt (gpusByNumaNode ?locs) 0 = (True, gs) \<and> map fst gs = [0, 1]" by (auto simp: opt_def)
  then show ?thesis using o
    by (auto simp: gpusByNumaNode_def Let_def opt_def totalFramesPerGpu_def graph_config_def split: if_splits)
qed

end
