(* ===== verification/Main_Run.thy ===== *)
theory Main_Run
  imports Main_Properties Task_Samples
begin

text \<open>
  The order of the calls \<open>main\<close> makes.  The calls are recorded in a log, and the answer to a call
  is any function of the call and of the log before it.
\<close>

definition logged :: "(main_call list \<Rightarrow> main_call \<Rightarrow> bool) \<Rightarrow> main_call list caller" where
  "logged ans e log = (ans log e, log @ [e])"

lemma logged_calls [simp]:
  "snd (logged ans e log) = log @ [e]" "(case logged ans e log of (b, s) \<Rightarrow> f b s) = f (ans log e) (log @ [e])"
  by (simp_all add: logged_def)

text \<open>The call was made and the answer was \<open>true\<close>.\<close>

definition answered :: "(main_call list \<Rightarrow> main_call \<Rightarrow> bool) \<Rightarrow> main_call list \<Rightarrow> main_call \<Rightarrow> bool" where
  "answered ans log e \<longleftrightarrow> (\<exists>p q. log = p @ e # q \<and> ans p e)"

text \<open>No call failed and nothing was cancelled.\<close>

fun good_answer :: "main_call \<Rightarrow> bool \<Rightarrow> bool" where
  "good_answer StoreCancellation b \<longleftrightarrow> False"
| "good_answer LoadCancellation b \<longleftrightarrow> \<not> b"
| "good_answer ReleaseGate b \<longleftrightarrow> True"
| "good_answer ShutdownManager b \<longleftrightarrow> True"
| "good_answer e b \<longleftrightarrow> b"

fun approved :: "(main_call list \<Rightarrow> main_call \<Rightarrow> bool) \<Rightarrow> main_call list \<Rightarrow> main_call list \<Rightarrow> bool" where
  "approved ans log [] \<longleftrightarrow> True"
| "approved ans log (e # es) \<longleftrightarrow> good_answer e (ans log e) \<and> approved ans (log @ [e]) es"

lemma approved_append [simp]: "approved ans log (xs @ ys) \<longleftrightarrow> approved ans log xs \<and> approved ans (log @ xs) ys"
  by (induction xs arbitrary: log) auto

lemma answered_append: "e \<notin> set q \<Longrightarrow> answered ans (p @ q) e \<longleftrightarrow> answered ans p e"
proof (induction q rule: rev_induct)
  case (snoc x q)
  have "answered ans (r @ [x]) e \<longleftrightarrow> answered ans r e" for r
    using snoc.prems by (auto simp: answered_def append_eq_append_conv2 Cons_eq_append_conv append_eq_Cons_conv)
  then show ?case using snoc by (simp flip: append_assoc)
qed simp

lemma answered_head: "e \<notin> set p \<Longrightarrow> e \<notin> set q \<Longrightarrow> answered ans (p @ e # q) e \<longleftrightarrow> ans p e"
  by (auto simp: answered_def) (metis append_Cons_eq_iff)

section \<open>The loops\<close>

text \<open>One round of each loop on the log.\<close>

lemma loops_on_log [simp]:
  "initialize_graphs (logged ans) (i # is) log = (if ans log (InitializeGraph i) then initialize_graphs (logged ans) is (log @ [InitializeGraph i])
     else (False, log @ [InitializeGraph i, StoreCancellation]))"
  "start_graphs (logged ans) (i # is) log = (if ans log (StartGraph i)
     then let (ok, started, log1) = start_graphs (logged ans) is (log @ [StartGraph i]) in (ok, True # started, log1)
     else (False, False # replicate (length is) False, log @ [StartGraph i, StoreCancellation]))"
  "main_startPhase (logged ans) ph (i # is) log = (let (ok, started, log1) = main_startPhase (logged ans) ph is
     (log @ (if ans log (StartPhaseOf ph i) then [StartPhaseOf ph i] else [StartPhaseOf ph i, StoreCancellation]))
     in (ans log (StartPhaseOf ph i) \<and> ok, ans log (StartPhaseOf ph i) # started, log1))"
  "main_waitForPhase (logged ans) ((i, b) # js) log = (if b
     then let (ok, log1) = main_waitForPhase (logged ans) js (log @ [WaitForPhaseOf i]) in (ans log (WaitForPhaseOf i) \<and> ok, log1)
     else main_waitForPhase (logged ans) js log)"
  "stop_graphs (logged ans) ((i, b) # js) log = (if b
     then let (ok, log1) = stop_graphs (logged ans) js (log @ [StopGraph i]) in (ans log (StopGraph i) \<and> ok, log1)
     else stop_graphs (logged ans) js log)"
  "shutdown_graphs (logged ans) (i # is) log =
     (let (ok, log1) = shutdown_graphs (logged ans) is (log @ [ShutdownGraph i]) in (ans log (ShutdownGraph i) \<and> ok, log1))"
  by (simp_all add: logged_def Let_def split: prod.splits)

declare initialize_graphs.simps(2) [simp del] start_graphs.simps(2) [simp del] main_startPhase.simps(2) [simp del]
  main_waitForPhase.simps(2) [simp del] stop_graphs.simps(2) [simp del] shutdown_graphs.simps(2) [simp del]

lemma initialize_graphs_log:
  "\<exists>t. initialize_graphs (logged ans) is log = (approved ans log t, log @ t) \<and> set t \<subseteq> InitializeGraph ` set is \<union> {StoreCancellation}
    \<and> (approved ans log t \<longrightarrow> t = map InitializeGraph is)"
proof (induction "is" arbitrary: log)
  case (Cons i "is")
  show ?case
  proof (cases "ans log (InitializeGraph i)")
    case True
    from Cons.IH [of "log @ [InitializeGraph i]"] obtain t where
      "initialize_graphs (logged ans) is (log @ [InitializeGraph i]) = (approved ans (log @ [InitializeGraph i]) t, log @ InitializeGraph i # t)"
      "set t \<subseteq> InitializeGraph ` set is \<union> {StoreCancellation}" "approved ans (log @ [InitializeGraph i]) t \<longrightarrow> t = map InitializeGraph is" by auto
    then show ?thesis using True by (intro exI [of _ "InitializeGraph i # t"]) auto
  next
    case False
    then show ?thesis by (intro exI [of _ "[InitializeGraph i, StoreCancellation]"]) simp
  qed
qed simp

lemma start_graphs_log:
  assumes "distinct is" "StartGraph ` set is \<inter> set log = {}"
  shows "\<exists>t. start_graphs (logged ans) is log = (approved ans log t, map (\<lambda>i. answered ans (log @ t) (StartGraph i)) is, log @ t)
    \<and> set t \<subseteq> StartGraph ` set is \<union> {StoreCancellation} \<and> (approved ans log t \<longrightarrow> t = map StartGraph is)"
  using assms
proof (induction "is" arbitrary: log)
  case (Cons i "is")
  let ?e = "StartGraph i"
  show ?case
  proof (cases "ans log ?e")
    case True
    obtain t where t: "start_graphs (logged ans) is (log @ [?e])
        = (approved ans (log @ [?e]) t, map (\<lambda>i. answered ans (log @ ?e # t) (StartGraph i)) is, log @ ?e # t)"
      "set t \<subseteq> StartGraph ` set is \<union> {StoreCancellation}" "approved ans (log @ [?e]) t \<longrightarrow> t = map StartGraph is"
      using Cons.IH [of "log @ [?e]"] Cons.prems by auto
    have "answered ans (log @ ?e # t) ?e" using True by (auto simp: answered_def)
    then show ?thesis using True t by (intro exI [of _ "?e # t"]) auto
  next
    case False
    have "\<not> answered ans (log @ [?e, StoreCancellation]) ?e" using answered_head [of ?e log "[StoreCancellation]" ans] False Cons.prems by auto
    moreover have "\<not> answered ans (log @ [?e, StoreCancellation]) (StartGraph j)" if "j \<in> set is" for j
    proof -
      have "StartGraph j \<notin> set (log @ [?e, StoreCancellation])" using Cons.prems that by auto
      then show ?thesis unfolding answered_def by (metis in_set_conv_decomp)
    qed
    then have "map (\<lambda>i. answered ans (log @ [?e, StoreCancellation]) (StartGraph i)) is = replicate (length is) False"
      by (simp add: map_replicate_const [symmetric] cong: map_cong)
    ultimately show ?thesis using False by (intro exI [of _ "[?e, StoreCancellation]"]) simp
  qed
qed simp

lemma startPhase_log:
  assumes "distinct is" "StartPhaseOf ph ` set is \<inter> set log = {}"
  shows "\<exists>t. main_startPhase (logged ans) ph is log = (approved ans log t, map (\<lambda>i. answered ans (log @ t) (StartPhaseOf ph i)) is, log @ t)
    \<and> set t \<subseteq> StartPhaseOf ph ` set is \<union> {StoreCancellation} \<and> (approved ans log t \<longrightarrow> t = map (StartPhaseOf ph) is)"
  using assms
proof (induction "is" arbitrary: log)
  case (Cons i "is")
  let ?e = "StartPhaseOf ph i"
  define u where "u = (if ans log ?e then [?e] else [?e, StoreCancellation])"
  have u: "distinct is" "StartPhaseOf ph ` set is \<inter> set (log @ u) = {}" using Cons.prems by (auto simp: u_def)
  obtain t where t: "main_startPhase (logged ans) ph is (log @ u)
        = (approved ans (log @ u) t, map (\<lambda>i. answered ans (log @ u @ t) (StartPhaseOf ph i)) is, log @ u @ t)"
      "set t \<subseteq> StartPhaseOf ph ` set is \<union> {StoreCancellation}" "approved ans (log @ u) t \<longrightarrow> t = map (StartPhaseOf ph) is"
    using Cons.IH [OF u] by auto
  have fresh: "?e \<notin> set t" using t(2) Cons.prems by auto
  have "answered ans (log @ u @ t) ?e \<longleftrightarrow> ans log ?e"
    using answered_head [of ?e log "tl u @ t" ans] fresh Cons.prems by (auto simp: u_def)
  moreover have "approved ans log u \<longleftrightarrow> ans log ?e" "set u \<subseteq> {?e, StoreCancellation}" "ans log ?e \<longrightarrow> u = [?e]" by (auto simp: u_def)
  moreover have "main_startPhase (logged ans) ph (i # is) log
      = (ans log ?e \<and> approved ans (log @ u) t, ans log ?e # map (\<lambda>i. answered ans (log @ u @ t) (StartPhaseOf ph i)) is, log @ u @ t)"
    using t(1) by (simp flip: u_def)
  ultimately show ?case using t(2,3) by (intro exI [of _ "u @ t"]) auto
qed simp

lemma waitForPhase_log:
  "main_waitForPhase (logged ans) (zip is (map P is)) log = (approved ans log (map WaitForPhaseOf (filter P is)), log @ map WaitForPhaseOf (filter P is))"
  by (induction "is" arbitrary: log) (auto simp: Let_def)

lemma stop_graphs_log:
  "stop_graphs (logged ans) (zip is (map P is)) log = (approved ans log (map StopGraph (filter P is)), log @ map StopGraph (filter P is))"
  by (induction "is" arbitrary: log) (auto simp: Let_def)

lemma shutdown_graphs_log:
  "shutdown_graphs (logged ans) is log = (approved ans log (map ShutdownGraph is), log @ map ShutdownGraph is)"
  by (induction "is" arbitrary: log) (auto simp: Let_def)

section \<open>The phases\<close>

text \<open>
  The calls of a phase: all graphs are asked to start it, the gate is released, and \<open>main\<close> waits for
  exactly the graphs that started; \<open>last\<close> are the calls after that.
\<close>

definition phase_calls :: "(main_call list \<Rightarrow> main_call \<Rightarrow> bool) \<Rightarrow> FramePhase \<Rightarrow> nat \<Rightarrow> main_call list \<Rightarrow> main_call list \<Rightarrow> bool" where
  "phase_calls ans ph n log t \<longleftrightarrow> (\<exists>u v. t = u @ ReleaseGate # map WaitForPhaseOf (filter (\<lambda>i. answered ans (log @ u) (StartPhaseOf ph i)) [0..<n]) @ v
     \<and> set u \<subseteq> StartPhaseOf ph ` {..<n} \<union> {StoreCancellation} \<and> set v \<subseteq> {LoadCancellation})"

lemma phase_calls_set: "phase_calls ans ph n log t \<Longrightarrow> set t \<subseteq> range (StartPhaseOf ph) \<union> range WaitForPhaseOf \<union> {ReleaseGate, StoreCancellation, LoadCancellation}"
  by (fastforce simp: phase_calls_def)

text \<open>A phase in which every call succeeded.\<close>

definition phase_success :: "FramePhase \<Rightarrow> nat \<Rightarrow> main_call list" where
  "phase_success ph n = map (StartPhaseOf ph) [0..<n] @ ReleaseGate # map WaitForPhaseOf [0..<n] @ [LoadCancellation]"

lemma all_answered:
  assumes "approved ans log (map f [0..<n])" "\<And>i b. good_answer (f i) b = b" "i < n"
  shows "answered ans (log @ map f [0..<n]) (f i)"
proof -
  have "[0..<n] = [0..<i] @ i # [Suc i..<n]" using assms(3) by (metis upt_conv_Cons upt_add_eq_append le_add_diff_inverse less_imp_le zero_le)
  then have e: "map f [0..<n] = map f [0..<i] @ f i # map f [Suc i..<n]" by simp
  then have "ans (log @ map f [0..<i]) (f i)" using assms(1,2) by simp
  then show ?thesis unfolding answered_def e by (metis append_assoc)
qed

lemma phase_log:
  assumes "StartPhaseOf ph ` {..<n} \<inter> set log = {}"
  shows "\<exists>t. runPhase (logged ans) ph n log = (approved ans log t, log @ t) \<and> phase_calls ans ph n log t \<and> (approved ans log t \<longrightarrow> t = phase_success ph n)"
    and "ph = Timed \<Longrightarrow>
      \<exists>t. timed_phase (logged ans) n log = (approved ans log t, log @ t) \<and> phase_calls ans Timed n log t \<and> (approved ans log t \<longrightarrow> t = phase_success Timed n)"
proof -
  obtain u where u: "main_startPhase (logged ans) ph [0..<n] log = (approved ans log u, map (\<lambda>i. answered ans (log @ u) (StartPhaseOf ph i)) [0..<n], log @ u)"
    "set u \<subseteq> StartPhaseOf ph ` {..<n} \<union> {StoreCancellation}" "approved ans log u \<longrightarrow> u = map (StartPhaseOf ph) [0..<n]"
    using startPhase_log [of "[0..<n]" ph log ans] assms by (auto simp: atLeast0LessThan)
  let ?P = "\<lambda>i. answered ans (log @ u) (StartPhaseOf ph i)"
  let ?w = "map WaitForPhaseOf (filter ?P [0..<n])" and ?l = "log @ u @ [ReleaseGate]"
  have w: "main_waitForPhase (logged ans) (zip [0..<n] (map ?P [0..<n])) ?l = (approved ans ?l ?w, ?l @ ?w)" by (rule waitForPhase_log)
  have full: "u @ ReleaseGate # ?w @ [LoadCancellation] = phase_success ph n" if "approved ans log u"
  proof -
    have "u = map (StartPhaseOf ph) [0..<n]" using u(3) that by simp
    moreover from this have "filter ?P [0..<n] = [0..<n]" using all_answered [of ans log "StartPhaseOf ph" n] that by (auto intro: filter_True)
    ultimately show ?thesis by (simp add: phase_success_def)
  qed
  have calls: "phase_calls ans ph n log (u @ ReleaseGate # ?w @ v)" if "set v \<subseteq> {LoadCancellation}" for v
    using u(2) that by (auto simp: phase_calls_def)
  let ?t = "u @ ReleaseGate # ?w @ [LoadCancellation]"
  let ?b = "approved ans log u \<and> approved ans ?l ?w"
  have app: "approved ans log ?t \<longleftrightarrow> ?b \<and> \<not> ans (?l @ ?w) LoadCancellation" by auto
  have long: "phase_calls ans ph n log ?t \<and> (approved ans log ?t \<longrightarrow> ?t = phase_success ph n)" using calls full by auto
  show "\<exists>t. runPhase (logged ans) ph n log = (approved ans log t, log @ t) \<and> phase_calls ans ph n log t \<and> (approved ans log t \<longrightarrow> t = phase_success ph n)"
  proof (cases ?b)
    case True
    then have "runPhase (logged ans) ph n log = (approved ans log ?t, log @ ?t)" using u(1) w app by (simp add: runPhase_def Let_def)
    then show ?thesis using long by blast
  next
    case False
    then have "runPhase (logged ans) ph n log = (False, log @ u @ ReleaseGate # ?w)" "\<not> approved ans log (u @ ReleaseGate # ?w)"
      using u(1) w by (auto simp: runPhase_def Let_def)
    then show ?thesis using calls [of "[]"] by (intro exI [of _ "u @ ReleaseGate # ?w"]) auto
  qed
  have "timed_phase (logged ans) n log = (approved ans log ?t, log @ ?t)" if "ph = Timed"
    using u(1) w app that by (auto simp: timed_phase_def Let_def)
  then show "\<exists>t. timed_phase (logged ans) n log = (approved ans log t, log @ t) \<and> phase_calls ans Timed n log t \<and> (approved ans log t \<longrightarrow> t = phase_success Timed n)"
    if "ph = Timed"
    using long that by (intro exI [of _ ?t]) simp
qed

section \<open>The run\<close>

text \<open>The calls of a run in which everything succeeded.\<close>

definition full_run :: "nat \<Rightarrow> main_call list" where
  "full_run n = map InitializeGraph [0..<n] @ map StartGraph [0..<n] @ phase_success Warmup n @ phase_success Timed n
     @ map StopGraph [0..<n] @ map ShutdownGraph [0..<n] @ [ShutdownManager]"

lemma bring_up_log:
  "\<exists>t. bring_up (logged ans) configured n [] = (configured \<and> approved ans [] t, map (\<lambda>i. answered ans t (StartGraph i)) [0..<n], t)
    \<and> set t \<subseteq> range InitializeGraph \<union> range StartGraph \<union> {StoreCancellation}
    \<and> (configured \<and> approved ans [] t \<longrightarrow> t = map InitializeGraph [0..<n] @ map StartGraph [0..<n])"
proof -
  obtain u where u: "initialize_graphs (logged ans) [0..<n] [] = (approved ans [] u, u)" "set u \<subseteq> range InitializeGraph \<union> {StoreCancellation}"
      "approved ans [] u \<longrightarrow> u = map InitializeGraph [0..<n]" using initialize_graphs_log [of ans "[0..<n]" "[]"] by fastforce
  have none: "map (\<lambda>i. answered ans v (StartGraph i)) [0..<n] = replicate n False" if "set v \<subseteq> range InitializeGraph \<union> {StoreCancellation}" for v
  proof -
    have "\<not> answered ans v (StartGraph i)" for i using that by (fastforce simp: answered_def)
    then show ?thesis by (simp add: map_replicate_const)
  qed
  show ?thesis
  proof (cases "configured \<and> approved ans [] u")
    case True
    have "StartGraph ` set [0..<n] \<inter> set u = {}" using u(2) by auto
    from start_graphs_log [OF _ this, of ans] obtain t where
      "start_graphs (logged ans) [0..<n] u = (approved ans u t, map (\<lambda>i. answered ans (u @ t) (StartGraph i)) [0..<n], u @ t)"
      "set t \<subseteq> range StartGraph \<union> {StoreCancellation}" "approved ans u t \<longrightarrow> t = map StartGraph [0..<n]" by fastforce
    then show ?thesis using True u by (intro exI [of _ "u @ t"]) (auto simp: bring_up_def)
  next
    case False
    then show ?thesis using u none [OF u(2)] none [of "[]"]
      by (cases configured) (auto simp: bring_up_def intro: exI [of _ u] exI [of _ "[]"])
  qed
qed

text \<open>The phases a run gets to: none, the warm-up, or both.\<close>

definition phases_run :: "(main_call list \<Rightarrow> main_call \<Rightarrow> bool) \<Rightarrow> nat \<Rightarrow> main_call list \<Rightarrow> main_call list \<Rightarrow> bool" where
  "phases_run ans n log t \<longleftrightarrow> t = [] \<or> phase_calls ans Warmup n log t
     \<or> (\<exists>u v. t = u @ v \<and> phase_calls ans Warmup n log u \<and> phase_calls ans Timed n (log @ u) v)"

lemma phases_log:
  assumes "range (StartPhaseOf Warmup) \<inter> set log = {}" "range (StartPhaseOf Timed) \<inter> set log = {}"
  shows "\<exists>t. (let (ok3, s3) = runPhase (logged ans) Warmup n log in if ok3 then timed_phase (logged ans) n s3 else (False, s3)) = (approved ans log t, log @ t)
    \<and> phases_run ans n log t \<and> (approved ans log t \<longrightarrow> t = phase_success Warmup n @ phase_success Timed n)"
proof -
  have "StartPhaseOf Warmup ` {..<n} \<inter> set log = {}" using assms(1) by auto
  from phase_log(1) [OF this, of ans] obtain u where u: "runPhase (logged ans) Warmup n log = (approved ans log u, log @ u)"
    "phase_calls ans Warmup n log u" "approved ans log u \<longrightarrow> u = phase_success Warmup n" by (elim exE conjE)
  show ?thesis
  proof (cases "approved ans log u")
    case True
    have "StartPhaseOf Timed ` {..<n} \<inter> set (log @ u) = {}" using assms(2) phase_calls_set [OF u(2)] by fastforce
    from phase_log(2) [OF this refl, of ans] obtain v where "timed_phase (logged ans) n (log @ u) = (approved ans (log @ u) v, (log @ u) @ v)"
      "phase_calls ans Timed n (log @ u) v" "approved ans (log @ u) v \<longrightarrow> v = phase_success Timed n" by (elim exE conjE)
    then show ?thesis using True u
      by (intro exI [of _ "u @ v"]) (auto simp: phases_run_def)
  next
    case False
    then show ?thesis using u by (intro exI [of _ u]) (simp add: phases_run_def)
  qed
qed

lemma phases_run_set: "phases_run ans n log t \<Longrightarrow> set t \<subseteq> range (StartPhaseOf Warmup) \<union> range (StartPhaseOf Timed) \<union> range WaitForPhaseOf
    \<union> {ReleaseGate, StoreCancellation, LoadCancellation}"
  by (auto simp: phases_run_def dest!: phase_calls_set)

lemma run_graphs_log:
  "\<exists>ok up t log. run_graphs (logged ans) configured n [] = (ok, log)
    \<and> log = up @ t @ map StopGraph (filter (\<lambda>i. answered ans up (StartGraph i)) [0..<n]) @ map ShutdownGraph [0..<n] @ [ShutdownManager]
    \<and> set up \<subseteq> range InitializeGraph \<union> range StartGraph \<union> {StoreCancellation} \<and> phases_run ans n up t
    \<and> (ok \<longleftrightarrow> configured \<and> approved ans [] log) \<and> (ok \<longrightarrow> log = full_run n)"
proof -
  obtain up where up: "bring_up (logged ans) configured n [] = (configured \<and> approved ans [] up, map (\<lambda>i. answered ans up (StartGraph i)) [0..<n], up)"
    "set up \<subseteq> range InitializeGraph \<union> range StartGraph \<union> {StoreCancellation}"
    "configured \<and> approved ans [] up \<longrightarrow> up = map InitializeGraph [0..<n] @ map StartGraph [0..<n]"
    using bring_up_log [of ans configured n] by (elim exE conjE)
  let ?P = "\<lambda>i. answered ans up (StartGraph i)"
  have "range (StartPhaseOf Warmup) \<inter> set up = {}" "range (StartPhaseOf Timed) \<inter> set up = {}" using up(2) by auto
  from phases_log [OF this, of ans n] obtain t3 where t3:
    "(let (ok3, s3) = runPhase (logged ans) Warmup n up in if ok3 then timed_phase (logged ans) n s3 else (False, s3)) = (approved ans up t3, up @ t3)"
    "phases_run ans n up t3" "approved ans up t3 \<longrightarrow> t3 = phase_success Warmup n @ phase_success Timed n" by (elim exE conjE)
  define t where "t = (if configured \<and> approved ans [] up then t3 else [])"
  let ?stops = "map StopGraph (filter ?P [0..<n])"
  let ?log = "up @ t @ ?stops @ map ShutdownGraph [0..<n] @ [ShutdownManager]"
  let ?ok = "configured \<and> approved ans [] ?log"
  have run: "run_graphs (logged ans) configured n [] = (?ok, ?log)"
    using up(1) t3(1) stop_graphs_log [of ans "[0..<n]" ?P "up @ t"] shutdown_graphs_log [of ans "[0..<n]" "up @ t @ ?stops"]
    by (auto simp: run_graphs_def t_def Let_def split: prod.splits if_splits)
  have phases: "phases_run ans n up t" using t3(2) by (simp add: t_def phases_run_def)
  have "?log = full_run n" if ?ok
  proof -
    have e: "up = map InitializeGraph [0..<n] @ map StartGraph [0..<n]" using up(3) that by simp
    then have "?P i" if "i < n" for i
      using all_answered [of ans "map InitializeGraph [0..<n]" StartGraph n i] \<open>?ok\<close> that by simp
    then have "filter ?P [0..<n] = [0..<n]" by (auto intro: filter_True)
    moreover have "t = t3" using that by (simp add: t_def)
    ultimately show ?thesis using that t3(3) e by (simp add: full_run_def)
  qed
  then show ?thesis using run phases up(2) by (intro exI [of _ ?ok] exI [of _ up] exI [of _ t] exI [of _ ?log]) blast
qed

text \<open>
  C33.  Whatever the calls on the graphs answer, the run ends in order.  After the graphs were brought up and
  the phases it got to, \<open>main\<close> stops exactly the graphs whose \<open>start\<close> answered \<open>true\<close>, shuts down
  every graph once, and the context manager last.  In each phase it releases the gate, on which the workers
  wait, and waits for exactly the graphs that entered the phase.  It counts the run as a success exactly when
  no call failed and nothing was cancelled, and then both phases were run on all graphs.
\<close>

theorem main_takes_everything_down:
  "\<exists>ok up t log. run_graphs (logged ans) configured n [] = (ok, log)
    \<and> log = up @ t @ map StopGraph (filter (\<lambda>i. answered ans up (StartGraph i)) [0..<n]) @ map ShutdownGraph [0..<n] @ [ShutdownManager]
    \<and> set up \<subseteq> range InitializeGraph \<union> range StartGraph \<union> {StoreCancellation} \<and> phases_run ans n up t
    \<and> (ok \<longleftrightarrow> configured \<and> approved ans [] log) \<and> (ok \<longrightarrow> log = full_run n)"
  by (rule run_graphs_log)

theorem main_takes_everything_down_witness:
  "\<exists>log. run_graphs (logged (\<lambda>log e. e \<noteq> LoadCancellation)) True 2 [] = (True, log) \<and> log = full_run 2"
proof -
  have "fst (run_graphs (logged (\<lambda>log e. e \<noteq> LoadCancellation)) True 2 [])" by code_simp
  with main_takes_everything_down [of "\<lambda>log e. e \<noteq> LoadCancellation" True 2] show ?thesis by (elim exE conjE) simp
qed

section \<open>The exit code\<close>

text \<open>\<open>cudaGetDeviceCount\<close> gives an \<open>int\<close>.\<close>

definition device_count_is_int :: "('w, 'x) driver_api_scheme \<Rightarrow> bool" where
  "device_count_is_int api \<longleftrightarrow> (\<forall>w k w'. cudaGetDeviceCount api w = (Some k, w') \<longrightarrow> k \<le> INT_MAX)"

lemma gpu_locations_length:
  "None \<notin> set ps \<Longrightarrow> gpu_locations h ps = Some locs \<Longrightarrow> length locs = length ps"
  by (induction h ps arbitrary: locs rule: gpu_locations.induct) (auto split: option.splits)

lemma init_locations:
  assumes "manager_starts api M" "device_count_is_int api"
  shows "\<exists>b N w'. manager_init api True M w = Some (b, N, w') \<and> (b \<longrightarrow> (\<exists>locs. gpuLocations N = Some locs \<and> locs \<noteq> [] \<and> length locs < 2 ^ 64))"
proof -
  have ok: "manager_ok M" using mgr.reached_invar [OF assms(1) steps.none] by blast
  obtain b N w' where i: "manager_init api True M w = Some (b, N, w')"
      "if b then \<not> initialised M \<and> initialised N \<and> contexts N \<noteq> [] \<and> building N \<and> manager_ok N else N = M"
    using manager_init_outcome [OF ok, of api True w] assms(1) unfolding manager_starts_def by blast
  show ?thesis
  proof (cases b)
    case True
    then have B: "building N" "manager_ok N" "contexts N \<noteq> []" "\<not> initialised M" using i(2) by simp_all
    obtain locs where l: "gpuLocations N = Some locs"
      using gpu_locations_defined [of "contexts N" "context_heap N"] listed_context [OF manager_okD(1) [OF B(2)]] by (auto simp: gpuLocations_def)
    then have len: "length locs = length (contexts N)" using gpu_locations_length B(1) by (auto simp: gpuLocations_def building_def)
    have "length (contexts N) < 2 ^ 64"
    proof -
      note idle = idle_manager [OF ok B(4)]
      have M: "M\<lparr>contexts := []\<rparr> = M" "building M" using idle(1,2) by (simp_all add: building_def)
      obtain k w1 w2 N1 w3 where k: "cudaGetDeviceCount api w1 = (Some k, w2)" "init_gpus api True (map int [0..<nat k]) M w2 = Some (True, N1, w3)"
          "N = N1\<lparr>initialised := True\<rparr>"
        using i(1) True B(4) M(1) by (auto simp: manager_init_def split: prod.splits bool.splits option.splits if_splits)
      have "length (contexts N1) = max (nat k) (length (contexts M))"
        using init_gpus_outcome [OF M(2), of api "map int [0..<nat k]" "nat k" True w2 "\<lambda>_ _. 0" "\<lambda>_. 0"] assms(1) k(2) idle(1) unfolding manager_starts_def
        by (auto split: if_splits)
      moreover have "k \<le> INT_MAX" using assms(2) k(1) unfolding device_count_is_int_def by blast
      ultimately show ?thesis using k(3) idle(1) by (simp add: INT_MAX_def)
    qed
    then show ?thesis using i(1) l len B(3) by auto
  qed (use i(1) in auto)
qed

text \<open>
  C34.  What the exit code means.  Take a machine whose runtime behaves as documented, and calls on the graphs that return, as the parameter \<open>ans\<close> has it; whether they do
  is a matter of the graphs and not of \<open>main\<close>.  Then \<open>main\<close> returns, without
  a division by zero: 2 exactly when it refused its arguments, and 0 exactly when the context manager found GPUs, the frame ids fit in 64
  bits, every call that initialises, starts, runs, stops or shuts down a graph answered \<open>true\<close>, nothing was cancelled, and the sink got as many results as there are
  frames for all GPUs, none of them a failure.
\<close>

theorem exit_code_meaning:
  assumes "manager_starts api M" "device_count_is_int api"
  shows "\<exists>code log. demo_main api (\<lambda>gs. logged (ans gs)) sunk args M w [] = Some (code, log) \<and> code \<in> {0, 1, 2} \<and> (code = 2 \<longleftrightarrow> main_options args = None)
    \<and> (code = 0 \<longleftrightarrow> (\<exists>opt N w' locs gs F. main_options args = Some opt \<and> manager_init api True M w = Some (True, N, w') \<and> gpuLocations N = Some locs
        \<and> F = (unat (opt_warmup opt) + unat (opt_timed opt)) * length locs \<and> F < 2 ^ 64 \<and> make_graphs opt (gpusByNumaNode locs) 0 = (True, gs)
        \<and> length gs = card (loc_numaNode ` set locs) \<and> approved (ans gs) [] log \<and> log = full_run (length gs) \<and> sunk log = (of_nat F, 0)))"
proof (cases "main_options args")
  case None
  then show ?thesis by (simp add: demo_main_def)
next
  case (Some opt)
  note O = options_total [OF Some]
  obtain b N w' where i: "manager_init api True M w = Some (b, N, w')"
    "b \<longrightarrow> (\<exists>locs. gpuLocations N = Some locs \<and> locs \<noteq> [] \<and> length locs < 2 ^ 64)" using init_locations [OF assms, of w] by (elim exE conjE)
  show ?thesis
  proof (cases b)
    case False
    then show ?thesis using Some i(1) by (simp add: demo_main_def)
  next
    case True
    then obtain locs where l: "gpuLocations N = Some locs" "locs \<noteq> []" "length locs < 2 ^ 64" using i(2) by blast
    let ?T = "unat (opt_warmup opt) + unat (opt_timed opt)" and ?es = "gpusByNumaNode locs"
    have sizes: "\<forall>(node, ids)\<in>set ?es. length ids = gpus_on locs node \<and> ids \<noteq> []" using gpusByNumaNode_spec(3) by fast
    have sum: "sum_list (map (gpus_on locs \<circ> fst) ?es) < 2 ^ 64" using gpus_on_sum l(3) by simp
    obtain c gs where g: "make_graphs opt ?es 0 = (c, gs)" "c \<longleftrightarrow> ?T * length locs < 2 ^ 64" "c \<longrightarrow> map fst gs = map fst ?es"
      using make_graphs_outcome [OF sizes sum O(1) refl, of 0] unfolding gpus_on_sum unsigned_0 add_0 by (elim exE conjE) blast
    have ne: "?es \<noteq> []" using gpusByNumaNode_spec(2) [of locs] l(2) by auto
    have len: "length gs = length ?es" "gs \<noteq> []" if c using g(3) that ne by (metis length_map, metis length_map list.size(3) length_0_conv)
    let ?conf = "c \<and> gs \<noteq> [] \<and> length gs = length ?es"
    have conf: "?conf \<longleftrightarrow> c" using len by blast
    have nodes: "length gs = card (loc_numaNode ` set locs)" if c
      using len(1) [OF that] nodes_in_order [of locs] by (metis length_map length_sorted_list_of_set)
    obtain ok log where r: "run_graphs (logged (ans gs)) ?conf (length gs) [] = (ok, log)" "ok \<longleftrightarrow> ?conf \<and> approved (ans gs) [] log"
        "ok \<longrightarrow> log = full_run (length gs)"
      using run_graphs_log [of "ans gs" ?conf "length gs"] by (elim exE conjE)
    have n: "unat (of_nat (length locs) :: size_t) = length locs" using unat_of_nat_small [OF l(3)] .
    then have n0: "of_nat (length locs) \<noteq> (0 :: size_t)" using l(2) unat_eq_0 [of "of_nat (length locs) :: size_t"] by simp
    have fits: "totalFramesPerGpu opt \<le> SIZE_MAX div of_nat (length locs) \<longleftrightarrow> ?T * length locs < 2 ^ 64"
      using size_t_mult_fits [of "of_nat (length locs)" "totalFramesPerGpu opt"] n n0 O(1) by (auto simp: mult.commute not_less [symmetric])
    have prod: "of_nat (length locs) * totalFramesPerGpu opt = of_nat (?T * length locs)"
      by (simp add: mult.commute flip: O(1))
    let ?fin = "ok \<and> ?T * length locs < 2 ^ 64 \<and> sunk log = (of_nat (?T * length locs), 0)"
    have v: "main_verdict (totalFramesPerGpu opt) (of_nat (length locs)) ok (sunk log) = Some ?fin"
      using n0 fits prod by (cases "sunk log") (auto simp: main_verdict_def Let_def)
    have "demo_main api (\<lambda>gs. logged (ans gs)) sunk args M w [] = Some (if ?fin then 0 else 1, log)"
      using Some i(1) True l(1) g(1) r(1) v by (simp add: demo_main_def Let_def)
    moreover have "?fin \<longleftrightarrow> ?T * length locs < 2 ^ 64 \<and> c \<and> length gs = card (loc_numaNode ` set locs) \<and> approved (ans gs) [] log
        \<and> log = full_run (length gs) \<and> sunk log = (of_nat (?T * length locs), 0)"
      using r(2,3) conf nodes by blast
    ultimately show ?thesis using Some i(1) True l(1) g(1) by auto
  qed
qed

theorem exit_code_meaning_witness:
  "\<exists>code log. demo_main sample_task_api (\<lambda>gs. logged (\<lambda>log e. e \<noteq> LoadCancellation)) (\<lambda>log. (220, 0)) [] (new_manager Map.empty) (1, {#}) [] = Some (code, log)
    \<and> (code = 0 \<or> code = 1)"
proof -
  have d: "device_count_is_int sample_task_api" by (simp add: device_count_is_int_def sample_task_api_def INT_MAX_def)
  have "main_options [] \<noteq> None"
    using size_t_room(2) [of DEFAULT_TIMED_FRAMES_PER_GPU DEFAULT_WARMUP_FRAMES_PER_GPU]
    by (simp add: main_options_def DEFAULT_TIMED_FRAMES_PER_GPU_def DEFAULT_WARMUP_FRAMES_PER_GPU_def)
  with exit_code_meaning [OF sample_task_api_documented(3) d, of "\<lambda>gs log e. e \<noteq> LoadCancellation" "\<lambda>log. (220, 0)" "[]" "(1, {#})"]
  show ?thesis by (elim exE conjE) auto
qed

end
