(* ===== verification/Spec2Isabelle.thy ===== *)
theory Spec2Isabelle
  imports Cache_Liveness Diagnostics Caller_Device Graph_Samples Parameter_Registry Result_Properties Task_Execution Matrix_Kernel
    Setup_Ownership Result_Execution Result_Ownership Main_Run
begin

text \<open>
  \<^bold>\<open>GPUInfra\<close>: a verification of the GPU infrastructure library under \<open>src/src\<close> and of the
  demonstration program under \<open>src/demo\<close> that drives it.

  \<^bold>\<open>The program.\<close>  The library gives the copies of a processing graph, one per NUMA node, the GPU
  they run on and the device memory they share.  \<open>GpuContextManager\<close> discovers the GPUs once per
  process, retains their primary contexts and keeps a registry of task resources; \<open>GpuTopology\<close>
  decides which GPU belongs to which NUMA node.  Each graph copy owns a \<open>StaticData\<close>: the layout of
  the frames it accepts, the buffers that are filled once (\<open>StaticGpuData\<close>), and a \<open>GpuDataCache\<close>
  of fixed capacity for frame payloads.  A task asks the cache for a payload and gets a
  \<open>GpuDataAccess\<close>, a lease: a hit on a payload that is resident, a reservation of an entry it has to
  fill, or the right to use its own fallback buffer.  The cache finds payloads through the open
  addressing hash table \<open>GpuResidencyTable\<close>, keeps its entries on two intrusive lists (the evictable
  entries and, for the FIFO policy, all filled ones), and lets requests wait, up to a deadline, for
  a payload that is being filled or for an entry to become free.

  The demonstration program runs frames through it.  \<open>main\<close> builds one \<open>DummyGraph\<close> per NUMA node, gives
  each its share of the frame ids, and drives them through a warm-up and a timed phase.  A graph
  sets itself up in a thread pinned to its node (\<open>NumaExecutor\<close>): it creates its tasks, seals the task parameters in
  a \<open>ParameterRegistry\<close>, loads the tasks and prepares the frames.  It owns a number of worker threads; a caller submits
  the frames of a phase, the workers check out a frame and a task each, run them and deliver the result to a sink shared by all
  graphs.  A task (\<open>DummyTask\<close>) has a stream, buffers and three algorithms (\<open>Cel\<close>, \<open>Sdd\<close>, \<open>Mi\<close>), each with a
  matrix kernel; it asks the cache for the frame, uploads it on a miss, runs the algorithms and finishes the lease.  A second,
  independent scheduler, \<open>runPipeline\<close>, passes results through a producer (\<open>TaskA\<close>), a chain of CPU
  tasks and a consumer (\<open>TaskB\<close>), with a bounded number of slots.

  \<^bold>\<open>The model.\<close>  Every class is a record of its fields, every enumeration a datatype, every operation
  a function of the state it reads and returns; the names are those of the code.  Arithmetic on
  \<open>std::size_t\<close> and \<open>std::uint64_t\<close> is arithmetic on 64 bit words, so that every wrap-around is the
  machine's; vector positions are natural numbers with the code's sentinel \<open>NO_ENTRY\<close>; a C++
  \<open>int\<close> is an integer, with the conversions that can change its value written out; a pointer is an
  option.  An operation that follows a pointer or an index, or loops without an obvious end, has an
  option result in which \<open>None\<close> stands for a bad access or for not returning; the theorems conclude
  \<open>Some\<close>.  The loops that could run for ever are partial functions in the option monad
  (\<open>growSlots\<close>, \<open>eraseLoop\<close>, \<open>fifoScan\<close>); no fuel is used anywhere.  The CUDA runtime and driver, the
  file system, \<open>getcpu\<close>, the clock and the success of memory allocation are arguments; what a
  theorem needs of them is a named predicate that states documented behaviour
  (\<open>malloc_gives_memory\<close>, \<open>create_gives_stream\<close>, \<open>tracks_device\<close>, \<open>device_api\<close>, \<open>new_is_fresh\<close>,
  \<open>counts_references\<close>, \<open>memory_api\<close> for the handles that live, \<open>stream_memory\<close> for the contents of
  buffers, \<open>device_count_is_int\<close>), and the witnesses instantiate them by \<open>sample_api\<close>, \<open>sample_driver\<close>,
  \<open>sample_task_api\<close>, \<open>losing_api\<close> and \<open>buffer_api\<close>.  Any call may fail at any time: \<open>memory_api\<close> and \<open>device_api\<close> only count the selections of a
  device and the releases that fail, and a theorem about handles or about the current device says what holds when there was none.  Copies and launches are asynchronous:
  \<open>stream_memory\<close> says nothing of what the host reads before the stream that they were put on is synchronised.
  Concurrency is interleaving: the mutex of a component makes each critical section one step, and
  the invariants are proved for every order of the steps of any number of threads.

  \<^bold>\<open>The theories.\<close>
  \<^item> \<open>GPUInfra_Prelude\<close>, \<open>Gpu_Types\<close>: machine types, word and list facts, cyclic distance; keys with
    their hash, metadata, requests, policies, statistics (\<open>GpuDataKey.h\<close>, \<open>Types/\<close>,
    \<open>CacheStatistics.h\<close>, \<open>CachePolicy.h\<close>).
  \<^item> \<open>State_Machine\<close>: the interface of a component with serialised operations and an invariant, a
    locale interpreted by the context manager and by the static buffers.
  \<^item> \<open>Residency_Index\<close>, \<open>Residency_Table\<close>: the interface the cache needs of its index, a locale, and
    the hash table that provides it (\<open>GpuResidencyTable\<close>): probing, insertion, deletion by backward
    shift.  The table refines a bounded association list.
  \<^item> \<open>Intrusive_List\<close>, \<open>Cache_Links\<close>: doubly linked lists threaded through array entries, and the two
    lists of the cache as instances.
  \<^item> \<open>Cuda_Runtime\<close>, \<open>Cache_Entry\<close>: the runtime parameter, \<open>CudaDeviceGuard\<close>, and the allocation and
    release of a cache entry (\<open>GpuDataCacheEntry\<close>).
  \<^item> \<open>Data_Cache\<close>, \<open>Cache_Lifecycle\<close>, \<open>Data_Access\<close>: every operation of \<open>GpuDataCache\<close> and of the lease
    \<open>GpuDataAccess\<close>.  A call of \<open>getCacheData\<close> is \<open>getCacheData_begin\<close> and one \<open>attempt\<close> for each
    pass of its loop; \<open>wait_enter\<close> and \<open>wait_leave\<close> are the two halves of \<open>waitForCacheChange\<close>.
  \<^item> \<open>Cache_Spec\<close>, \<open>Cache_Refinement\<close>: the abstract cache, cells that are free, being filled, or ready
    with a number of readers, and the proof that each operation implements its abstract counterpart.
  \<^item> \<open>Cache_System\<close>, \<open>Cache_Properties\<close>, \<open>Cache_Liveness\<close>: the cache with all its leases and sleeping
    requests as a transition system; the counters are the numbers of leases, leased entries stay, no
    operation gets stuck, no wakeup is lost, failure is final.
  \<^item> \<open>Topology\<close>, \<open>Context_Manager\<close>, \<open>Context_Registry\<close>, \<open>Context_Properties\<close>: NUMA resolution with the
    parser of the list of online nodes; the manager with its contexts and the task resources in
    stores, its invariant, and the account of primary context references.
  \<^item> \<open>Static_Gpu_Data\<close>, \<open>Static_Data\<close>: the static buffers as a state machine, and the composition of
    buffers, cache and context manager.
  \<^item> \<open>Diagnostics\<close>: the thread-local description, its scopes, and the line logged for a failed call
    (\<open>CudaCheck.h\<close>, \<open>GpuDiagnostics.cpp\<close>).
  \<^item> \<open>Frame_Atom\<close>, \<open>Parameter_Registry\<close>: sizes and frame objects of the demo (\<open>ImageSizing.h\<close>,
    \<open>FrameCpuAtom\<close>, \<open>validRuntime\<close>), and the typed parameters (\<open>ParameterRegistry\<close>).
  \<^item> \<open>Graph_Scheduler\<close>, \<open>Graph_Invariant\<close>, \<open>Graph_Properties\<close>, \<open>Graph_Samples\<close>: \<open>DummyGraph\<close> as a
    transition system of its workers and callers, its invariant, what follows from it, and runs of
    concrete graphs.  A step is one section under \<open>schedulerLock\<close> or one access to the shared
    cancellation flag; \<open>worker\<close> is the program counter of a worker thread.
  \<^item> \<open>Result_Pipeline\<close>, \<open>Result_Flow\<close>, \<open>Result_Properties\<close>: \<open>runPipeline\<close> in the same way.
  \<^item> \<open>Matrix_Kernel\<close>, \<open>Demo_Algo\<close>: the kernel of the three algorithms at its machine widths, run by
    the threads of its launch in any order, and the algorithm classes.
  \<^item> \<open>Demo_Task\<close>, \<open>Task_Ownership\<close>, \<open>Task_Execution\<close>, \<open>Task_Samples\<close>: the lifecycle of \<open>DummyTask\<close> and its
    \<open>execute\<close>, split at the call of \<open>getCacheData\<close>; an account of every handle a task owns; what \<open>execute\<close>
    submits and how it ends its lease; a concrete runtime and a task loaded on it.
  \<^item> \<open>Numa_Executor\<close>: the parser of CPU lists and the pinned thread (\<open>NumaExecutor\<close>).
  \<^item> \<open>Graph_Setup\<close>, \<open>Setup_Properties\<close>, \<open>Setup_Ownership\<close>, \<open>Setup_Samples\<close>: what \<open>DummyGraph\<close> runs on its
    node, that is setup, start, stop and unload of all tasks, and \<open>changeParameters\<close>.
  \<^item> \<open>Result_Tasks\<close>, \<open>Result_Execution\<close>, \<open>Result_Ownership\<close>: the tasks of the pipeline with their kernel
    (\<open>ResultTasks.cpp\<close>, \<open>ResultKernel.cu\<close>).
  \<^item> \<open>Demo_Main\<close>, \<open>Main_Properties\<close>, \<open>Main_Run\<close>: \<open>main.cpp\<close>, from the arguments to the exit code.  The answers of the calls
    on the graphs are open there: the theorems hold for every function of the calls made so far.
  \<^item> \<open>Caller_Device\<close> and this theory: the current device of the caller, through all components.

  \<^bold>\<open>What is shown.\<close>  The hash table answers like a map.  Entries, cache, contexts and static data are
  initialised and released all or nothing, or keep what the runtime would not free.  The cache decides
  as its specification and keeps its promises under concurrency: counters are exact, leased entries
  stay, no call gets stuck, no wakeup is lost.  Topology and registry are exact and never leave a
  dangling context.  Sizes and offsets are checked without overflow.  Diagnostics do not mix
  identities, and what works under a device guard leaves the caller its device, unless the runtime refuses to select it.  The graph delivers every frame
  exactly once, never shares a task, reports success only without a failed frame, and its phases and
  its shutdown end; the pipeline keeps its frames in order within its slots, always ends and answers
  honestly; a parameter snapshot is complete, typed and identified by its revision.  The kernels compute
  the square of a region of the frame without leaving their buffers; a task is loaded all or nothing, ends its lease on every path and submits its work in
  the order of its execution model.  A graph that was set up has valid frames with consecutive ids and tasks with
  its parameters, which stay in step with every change, and its tasks leak no slot of the registry, and no handle unless a device could not be selected or
  a handle not freed.  Callbacks run on the CPUs of their node.  The result of the
  producer is the one the consumer accepts.  \<open>main\<close> shares out the frame ids without overlap, takes down what it started whatever fails,
  and its exit code 0 means that every call succeeded, nothing was cancelled and every frame was delivered.  Three theorems show flaws: \<open>shutdown_can_lose_a_waiter\<close>, a run in
  which a thread in \<open>waitForPhase\<close> is never notified; \<open>unload_can_leave_registration\<close>, by which a task whose device
  was lost stays in the registry with its handles; \<open>frame_count_is_read\<close>, by which a negative frame count is accepted.

  \<^bold>\<open>Bounds.\<close>  Lease and waiter counters are \<open>size_t\<close>; the transition system admits new ones only while
  there are fewer than \<open>2 ^ 64 - 2\<close>, which memory guarantees.  Resource ids are \<open>int\<close>; registration
  steps require fewer than \<open>2 ^ 31\<close> slots per context.  A graph has fewer than \<open>2 ^ 64\<close> frames per phase.

  \<^bold>\<open>Not modelled.\<close>  Profiling ranges (\<open>Nvtx.h\<close>) and messages on standard error have no effect on
  the state.  Of the demonstration program, the printed statistics and reports, the measured times and latencies, and the delay of
  the CPU task are left out: nothing reads them back.  The scheduler, the pipeline and \<open>main\<close> leave the outcomes of the tasks and graphs they call
  open, and the models of those show what they can be.  The benchmarks under \<open>src/tools\<close>, which measure and print, and the tests
  are not modelled.
\<close>

section \<open>The device of the caller\<close>

text \<open>
  C40.  The operations that work under a device guard leave the caller its device.  These are the initialisation and the release of a graph copy's data,
  of its cache and of a cache entry, and the upload and the finalisation of static buffers.  Whatever they return, whatever the runtime answers, and however many guards are
  nested in their rollbacks, the calling thread's current device is the one they found, unless meanwhile the runtime refused to select this very device, which is all a
  guard can do about it.  The initialisation of the context manager has no guard and is not among them: it leaves the last GPU it found current.
\<close>

theorem caller_keeps_its_device:
  assumes "device_api api dev refused"
  shows "(\<forall>b S' w'. StaticData_init api mem getcpu M cfg S w = Some (b, S', w') \<longrightarrow> keeps dev refused w w')
    \<and> (\<forall>b c w'. cache_initialize api mem gpuIds n numEntries timeout policy s w = Some (b, c, w') \<longrightarrow> keeps dev refused w w')
    \<and> keeps dev refused w (snd (snd (StaticData_release api S w)))
    \<and> keeps dev refused w (snd (snd (uploadStaticData api type source cnt offset S w)))
    \<and> keeps dev refused w (snd (snd (finalizeStaticData api S w)))
    \<and> keeps dev refused w (snd (snd (cache_release api s w)))
    \<and> keeps dev refused w (snd (snd (entry_initialize api hostAlloc gpuIds n e w)))
    \<and> keeps dev refused w (snd (snd (entry_release api e w)))"
proof -
  have u: "keeps dev refused w (snd (snd (uploadStaticData api type source cnt offset S w)))"
    using static_upload_device [OF assms] by (auto simp: uploadStaticData_def split: prod.splits)
  have f: "keeps dev refused w (snd (snd (finalizeStaticData api S w)))"
    using static_finalize_device [OF assms] by (auto simp: finalizeStaticData_def split: prod.splits)
  show ?thesis
    using u f StaticData_init_device [OF assms] cache_initialize_device [OF assms] StaticData_release_device [OF assms]
      cache_release_device [OF assms] entry_initialize_device [OF assms] entry_release_device [OF assms]
    by (metis prod.collapse)
qed

theorem caller_keeps_its_device_witness:
  "\<exists>e w'. entry_initialize sample_api True [0] 64 new_entry (3, 64) = (True, e, w') \<and> map d_data (replicas e) = [Some 64] \<and> fst w' = 3"
proof -
  have d: "device_api sample_api fst (\<lambda>_ _. 0)"
    using sample_api_documented(3) by (auto simp: device_api_def same_selection_def sample_api_def)
  obtain b e w' where i: "entry_initialize sample_api True [0] 64 new_entry (3, 64) = (b, e, w')" by (metis prod_cases3)
  then have "b \<and> map d_data (replicas e) = [Some 64]"
    by (auto simp: entry_initialize_def new_entry_def guard_new_def guard_ok_def guard_delete_def sample_api_def)
  moreover have "fst w' = 3"
    using caller_keeps_its_device [OF d, where hostAlloc = True and gpuIds = "[0]" and n = 64 and e = new_entry and w = "(3, 64)"] i
    by (simp add: keeps_def)
  ultimately show ?thesis using i by (intro exI [of _ e] exI [of _ w']) simp
qed

end
